(* ===== verification/Prelude.thy ===== *)
theory Prelude
  imports Main "HOL-Library.Word" "HOL-Library.List_Lexorder" "HOL-Library.Char_ord"
begin

text \<open>
  What the components share: the result type of fallible Go code, the ordered key-value
  list that stands for a store or for a Go map that is iterated in sorted order, Go's
  \<open>sort.Search\<close>, truncated division, and the type synonyms of the model.
\<close>

named_theorems res_simps \<open>elimination of the result type\<close>
named_theorems kv_simps \<open>read-after-write laws of the ordered key-value list\<close>

section \<open>Types\<close>

type_synonym u8 = "8 word"
type_synonym u32 = "32 word"
type_synonym u64 = "64 word"
type_synonym u256 = "256 word"
type_synonym address = "160 word"
type_synonym hash = "256 word"
type_synonym bytes = "8 word list"
type_synonym event = string

section \<open>Results\<close>

text \<open>
  A Go function that can fail returns an error or panics. Both are values of \<open>fault\<close>,
  told apart by the constructor; a failing operation has no resulting state, since the
  SDK drops the branched store of a message that fails. \<open>ErrInsufficientFunds\<close> is the SDK's
  error of that name, the one error that callers match on; it carries the spendable and
  the requested amount where the code puts them into the message.
\<close>

datatype fault = Err string | Panic string | ErrInsufficientFunds "(int \<times> int) option"

type_synonym 'a res = "fault + 'a"

definition rbind :: "'a res \<Rightarrow> ('a \<Rightarrow> 'b res) \<Rightarrow> 'b res" where
  "rbind r f = (case r of Inl e \<Rightarrow> Inl e | Inr x \<Rightarrow> f x)"

definition guard :: "bool \<Rightarrow> fault \<Rightarrow> unit res" where
  "guard b e = (if b then Inr () else Inl e)"

lemma rbind_Inl [simp]: "rbind (Inl e) f = Inl e"
  by (simp add: rbind_def)

lemma rbind_Inr [simp]: "rbind (Inr x) f = f x"
  by (simp add: rbind_def)

lemma rbind_eq_Inr [res_simps]: "rbind r f = Inr y \<longleftrightarrow> (\<exists>x. r = Inr x \<and> f x = Inr y)"
  by (cases r) auto

lemma rbind_eq_Inl [res_simps]:
  "rbind r f = Inl e \<longleftrightarrow> r = Inl e \<or> (\<exists>x. r = Inr x \<and> f x = Inl e)"
  by (cases r) auto

lemma rbind_cong [fundef_cong]:
  "r = r' \<Longrightarrow> (\<And>x. r' = Inr x \<Longrightarrow> f x = f' x) \<Longrightarrow> rbind r f = rbind r' f'"
  by (cases r') auto

lemma guard_eq_Inr [res_simps]: "guard b e = Inr u \<longleftrightarrow> b"
  by (simp add: guard_def)

lemma guard_simps [simp]: "guard True e = Inr ()" "guard False e = Inl e"
  by (simp_all add: guard_def)

section \<open>Ordered key-value lists\<close>

text \<open>
  An association list with strictly increasing keys: a key-value store as an iterator
  sees it, or a Go map whose keys the code sorts before it walks them.
\<close>

type_synonym ('k, 'v) kv = "('k \<times> 'v) list"

definition kv_get :: "('k, 'v) kv \<Rightarrow> 'k \<Rightarrow> 'v option" where
  "kv_get s k = map_of s k"

fun kv_set :: "'k::linorder \<Rightarrow> 'v \<Rightarrow> ('k, 'v) kv \<Rightarrow> ('k, 'v) kv" where
  "kv_set k v [] = [(k, v)]"
| "kv_set k v ((k', v') # s) =
     (if k = k' then (k, v) # s
      else if k < k' then (k, v) # (k', v') # s
      else (k', v') # kv_set k v s)"

fun kv_delete :: "'k::linorder \<Rightarrow> ('k, 'v) kv \<Rightarrow> ('k, 'v) kv" where
  "kv_delete k [] = []"
| "kv_delete k ((k', v') # s) = (if k = k' then kv_delete k s else (k', v') # kv_delete k s)"

definition kv_ok :: "('k::linorder, 'v) kv \<Rightarrow> bool" where
  "kv_ok s \<longleftrightarrow> sorted_wrt (<) (map fst s)"

definition kv_keys :: "('k, 'v) kv \<Rightarrow> 'k list" where
  "kv_keys s = map fst s"

definition kv_sum :: "('k, int) kv \<Rightarrow> int" where
  "kv_sum s = sum_list (map snd s)"

lemma kv_get_Nil [simp]: "kv_get [] k = None"
  by (simp add: kv_get_def)

lemma kv_get_Cons [simp]: "kv_get ((k', v) # s) k = (if k = k' then Some v else kv_get s k)"
  by (simp add: kv_get_def)

lemma kv_get_set [kv_simps]: "kv_get (kv_set k v s) = (kv_get s)(k \<mapsto> v)"
  by (induction k v s rule: kv_set.induct) (auto simp: fun_eq_iff)

lemma kv_get_delete [kv_simps]: "kv_get (kv_delete k s) = (kv_get s)(k := None)"
  by (induction k s rule: kv_delete.induct) (auto simp: fun_eq_iff)

lemma kv_ok_Nil [simp]: "kv_ok []"
  by (simp add: kv_ok_def)

lemma kv_ok_Cons: "kv_ok ((k, v) # s) \<longleftrightarrow> (\<forall>k' \<in> fst ` set s. k < k') \<and> kv_ok s"
  by (auto simp: kv_ok_def)

lemma keys_kv_set: "fst ` set (kv_set k v s) = insert k (fst ` set s)"
  by (induction k v s rule: kv_set.induct) auto

lemma keys_kv_delete: "fst ` set (kv_delete k s) = fst ` set s - {k}"
  by (induction k s rule: kv_delete.induct) auto

lemma kv_ok_set [intro, simp]: "kv_ok s \<Longrightarrow> kv_ok (kv_set k v s)"
  by (induction k v s rule: kv_set.induct) (auto simp: kv_ok_Cons keys_kv_set)

lemma kv_ok_delete [intro, simp]: "kv_ok s \<Longrightarrow> kv_ok (kv_delete k s)"
  by (induction k s rule: kv_delete.induct) (auto simp: kv_ok_Cons keys_kv_delete)

lemma kv_get_None: "kv_get s k = None \<longleftrightarrow> k \<notin> fst ` set s"
  by (simp add: kv_get_def map_of_eq_None_iff)

lemma kv_get_in: "kv_ok s \<Longrightarrow> kv_get s k = Some v \<longleftrightarrow> (k, v) \<in> set s"
  by (induction s) (force simp: kv_ok_Cons split: if_splits)+

lemma dom_kv_get: "dom (kv_get s) = fst ` set s"
  by (auto simp: kv_get_def [abs_def] dom_map_of_conv_image_fst)

lemma set_kv_keys: "set (kv_keys s) = dom (kv_get s)"
  by (simp add: kv_keys_def dom_kv_get)

lemma sorted_kv_keys: "kv_ok s \<Longrightarrow> sorted_wrt (<) (kv_keys s)"
  by (simp add: kv_ok_def kv_keys_def)

lemma distinct_kv_keys: "kv_ok s \<Longrightarrow> distinct (kv_keys s)"
  using sorted_kv_keys strict_sorted_iff by blast

text \<open>The representation is canonical: equal contents are equal lists.\<close>

lemma kv_eqI: "kv_ok s \<Longrightarrow> kv_ok t \<Longrightarrow> kv_get s = kv_get t \<Longrightarrow> s = t"
proof (induction s arbitrary: t)
  case Nil
  have "fst ` set t = {}"
    using Nil.prems(3) by (metis kv_get_None kv_get_Nil equals0I)
  then show ?case by simp
next
  case (Cons x s)
  obtain k v where x: "x = (k, v)" by (cases x)
  have ks: "\<forall>k' \<in> fst ` set s. k < k'" "kv_ok s"
    using Cons.prems(1) by (simp_all add: x kv_ok_Cons)
  show ?case
  proof (cases t)
    case Nil
    with Cons.prems(3) show ?thesis by (metis kv_get_Nil kv_get_Cons x option.distinct(1))
  next
    case (Cons y t')
    obtain k2 v2 where y: "y = (k2, v2)" by (cases y)
    have kt: "\<forall>k' \<in> fst ` set t'. k2 < k'" "kv_ok t'"
      using Cons.prems(2) by (simp_all add: Cons y kv_ok_Cons)
    have dom_eq: "insert k (fst ` set s) = insert k2 (fst ` set t')"
      using arg_cong [OF Cons.prems(3), of dom] unfolding dom_kv_get by (simp add: Cons x y)
    have "k = k2"
      using dom_eq ks(1) kt(1) by (metis insert_iff less_asym)
    moreover from this have "v = v2"
      using fun_cong [OF Cons.prems(3), of k] by (simp add: Cons x y)
    moreover have "kv_get s = kv_get t'"
    proof
      fix k'
      show "kv_get s k' = kv_get t' k'"
      proof (cases "k' = k")
        case True
        then have "k' \<notin> fst ` set s" "k' \<notin> fst ` set t'"
          using ks(1) kt(1) \<open>k = k2\<close> by blast+
        then show ?thesis by (metis kv_get_None)
      next
        case False
        then show ?thesis
          using fun_cong [OF Cons.prems(3), of k'] \<open>k = k2\<close> by (simp add: Cons x y)
      qed
    qed
    ultimately show ?thesis
      using Cons.IH [OF ks(2) kt(2)] by (simp add: Cons x y)
  qed
qed

lemma kv_delete_absent: "kv_get s k = None \<Longrightarrow> kv_delete k s = s"
  by (induction k s rule: kv_delete.induct) (auto split: if_splits)

lemma kv_delete_set: "kv_ok s \<Longrightarrow> kv_get s k = None \<Longrightarrow> kv_delete k (kv_set k v s) = s"
  by (rule kv_eqI) (auto simp: kv_simps fun_eq_iff)

lemma kv_set_set: "kv_ok s \<Longrightarrow> kv_set k v (kv_set k w s) = kv_set k v s"
  by (rule kv_eqI) (auto simp: kv_simps)

lemma kv_set_same: "kv_ok s \<Longrightarrow> kv_get s k = Some v \<Longrightarrow> kv_set k v s = s"
  by (rule kv_eqI) (auto simp: kv_simps fun_eq_iff)

lemma kv_set_delete: "kv_ok s \<Longrightarrow> kv_get s k = Some v \<Longrightarrow> kv_set k v (kv_delete k s) = s"
  by (rule kv_eqI) (auto simp: kv_simps fun_eq_iff)

subsection \<open>The sum of the values\<close>

definition kv_int :: "('k, int) kv \<Rightarrow> 'k \<Rightarrow> int" where
  "kv_int s k = (case kv_get s k of None \<Rightarrow> 0 | Some v \<Rightarrow> v)"

lemma kv_int_set [kv_simps]: "kv_int (kv_set k v s) = (kv_int s)(k := v)"
  by (auto simp: kv_int_def kv_simps fun_eq_iff)

lemma kv_int_delete [kv_simps]: "kv_int (kv_delete k s) = (kv_int s)(k := 0)"
  by (auto simp: kv_int_def kv_simps fun_eq_iff)

lemma kv_sum_set: "kv_ok s \<Longrightarrow> kv_sum (kv_set k v s) = kv_sum s - kv_int s k + v"
proof (induction k v s rule: kv_set.induct)
  case (2 k v k' v' s)
  have "k < k' \<Longrightarrow> kv_get s k = None"
    using "2.prems" by (force simp: kv_ok_Cons kv_get_None)
  with 2 show ?case
    by (auto simp: kv_sum_def kv_int_def kv_ok_Cons)
qed (simp add: kv_sum_def kv_int_def)

lemma kv_sum_delete: "kv_ok s \<Longrightarrow> kv_sum (kv_delete k s) = kv_sum s - kv_int s k"
proof (induction k s rule: kv_delete.induct)
  case (2 k k' v' s)
  have "k = k' \<Longrightarrow> kv_get s k = None"
    using "2.prems" by (force simp: kv_ok_Cons kv_get_None)
  with 2 show ?case
    by (auto simp: kv_sum_def kv_int_def kv_ok_Cons)
qed (simp add: kv_sum_def kv_int_def)

subsection \<open>The store interface\<close>

text \<open>
  What the keepers rely on: a read sees the last write at its key and nothing else, and
  the writes keep the order.
\<close>

locale ordered_store =
  fixes get :: "'s \<Rightarrow> 'k \<Rightarrow> 'v option"
    and set_at :: "'k \<Rightarrow> 'v \<Rightarrow> 's \<Rightarrow> 's"
    and delete_at :: "'k \<Rightarrow> 's \<Rightarrow> 's"
    and ok :: "'s \<Rightarrow> bool"
  assumes get_set: "get (set_at k v s) = (get s)(k \<mapsto> v)"
    and get_delete: "get (delete_at k s) = (get s)(k := None)"
    and ok_set: "ok s \<Longrightarrow> ok (set_at k v s)"
    and ok_delete: "ok s \<Longrightarrow> ok (delete_at k s)"
    and canonical: "ok s \<Longrightarrow> ok t \<Longrightarrow> get s = get t \<Longrightarrow> s = t"
begin

lemma undo_insert: "ok s \<Longrightarrow> get s k = None \<Longrightarrow> delete_at k (set_at k v s) = s"
  by (rule canonical) (auto simp: get_set get_delete ok_set ok_delete fun_eq_iff)

lemma undo_overwrite: "ok s \<Longrightarrow> get s k = Some v \<Longrightarrow> set_at k v (set_at k w s) = s"
  by (rule canonical) (auto simp: get_set ok_set fun_eq_iff)

lemma undo_delete: "ok s \<Longrightarrow> get s k = Some v \<Longrightarrow> set_at k v (delete_at k s) = s"
  by (rule canonical) (auto simp: get_set get_delete ok_set ok_delete fun_eq_iff)

end

interpretation kvs: ordered_store kv_get kv_set kv_delete kv_ok
  by unfold_locales (auto simp: kv_simps intro: kv_eqI)

section \<open>Division as Go's big integers do it\<close>

text \<open>\<open>big.Int.Quo\<close> truncates towards zero; \<open>big.Int.Mod\<close> is Euclidean (never negative).\<close>

definition quo :: "int \<Rightarrow> int \<Rightarrow> int" where
  "quo a b = sgn a * sgn b * (\<bar>a\<bar> div \<bar>b\<bar>)"

definition emod :: "int \<Rightarrow> int \<Rightarrow> int" where
  "emod a b = a mod \<bar>b\<bar>"

lemma quo_nonneg_eq: "0 \<le> a \<Longrightarrow> 0 < b \<Longrightarrow> quo a b = a div b"
  by (simp add: quo_def sgn_if)

lemma emod_pos_eq: "0 < b \<Longrightarrow> emod a b = a mod b"
  by (simp add: emod_def)

lemma quo_emod: "0 \<le> a \<Longrightarrow> 0 < b \<Longrightarrow> quo a b * b + emod a b = a"
  by (simp add: quo_nonneg_eq emod_pos_eq)

lemma emod_bounds: "0 < b \<Longrightarrow> 0 \<le> emod a b \<and> emod a b < b"
  by (simp add: emod_pos_eq)

lemma quo_nonneg: "0 \<le> a \<Longrightarrow> 0 < b \<Longrightarrow> 0 \<le> quo a b"
  by (simp add: quo_nonneg_eq pos_imp_zdiv_nonneg_iff)

section \<open>Binary search\<close>

text \<open>
  Go's \<open>sort.Search n p\<close>: the least \<open>i\<close> in \<open>[0, n)\<close> with \<open>p i\<close>, else \<open>n\<close>,
  for a predicate that stays true once it is true.
\<close>

function search_loop :: "(nat \<Rightarrow> bool) \<Rightarrow> nat \<Rightarrow> nat \<Rightarrow> nat" where
  "search_loop p i j =
     (if i < j then
        let h = (i + j) div 2 in
        if \<not> p h then search_loop p (h + 1) j else search_loop p i h
      else i)"
  by pat_completeness auto
termination
  by (relation "measure (\<lambda>(p, i, j). j - i)") auto

declare search_loop.simps [simp del]

definition sort_search :: "nat \<Rightarrow> (nat \<Rightarrow> bool) \<Rightarrow> nat" where
  "sort_search n p = search_loop p 0 n"

lemma search_loop_least:
  assumes "\<And>a b. a \<le> b \<Longrightarrow> b < n \<Longrightarrow> p a \<Longrightarrow> p b"
    and "i \<le> j" "j \<le> n" "\<forall>a < i. \<not> p a" "j < n \<longrightarrow> p j"
  shows "search_loop p i j \<le> n \<and> (\<forall>a < search_loop p i j. \<not> p a) \<and>
    (search_loop p i j < n \<longrightarrow> p (search_loop p i j))"
  using assms
proof (induction p i j rule: search_loop.induct)
  case (1 p i j)
  let ?h = "(i + j) div 2"
  show ?case
  proof (cases "i < j")
    case False
    then have "search_loop p i j = i" by (simp add: search_loop.simps [of p i j])
    moreover have "i = j" using False "1.prems"(2) by simp
    ultimately show ?thesis using "1.prems"(3-5) by simp
  next
    case True
    then have h: "i \<le> ?h" "?h < j" by auto
    show ?thesis
    proof (cases "p ?h")
      case True
      have eq: "search_loop p i j = search_loop p i ?h"
        using \<open>i < j\<close> True by (simp add: search_loop.simps [of p i j] Let_def)
      have "\<not> \<not> p ?h" "?h \<le> n" "?h < n \<longrightarrow> p ?h" using True h(2) "1.prems"(3) by simp_all
      from "1.IH"(2) [OF \<open>i < j\<close> refl this(1) "1.prems"(1) h(1) this(2) "1.prems"(4) this(3)]
      show ?thesis unfolding eq .
    next
      case False
      have eq: "search_loop p i j = search_loop p (?h + 1) j"
        using \<open>i < j\<close> False by (simp add: search_loop.simps [of p i j] Let_def)
      have below: "\<forall>a < ?h + 1. \<not> p a"
      proof (intro allI impI notI)
        fix a
        assume "a < ?h + 1" "p a"
        then have "a \<le> ?h" "?h < n" using h(2) "1.prems"(3) by linarith+
        then show False using "1.prems"(1) \<open>p a\<close> False by blast
      qed
      have "?h + 1 \<le> j" using h(2) by simp
      from "1.IH"(1) [OF \<open>i < j\<close> refl False "1.prems"(1) this "1.prems"(3) below "1.prems"(5)]
      show ?thesis unfolding eq .
    qed
  qed
qed

lemma sort_search_least:
  assumes "\<And>a b. a \<le> b \<Longrightarrow> b < n \<Longrightarrow> p a \<Longrightarrow> p b"
  shows "sort_search n p \<le> n" "\<forall>a < sort_search n p. \<not> p a"
    "sort_search n p < n \<Longrightarrow> p (sort_search n p)"
  using search_loop_least [where p = p and n = n and i = 0 and j = n, OF assms]
  by (simp_all add: sort_search_def)

lemma sort_search_eqI:
  assumes mono: "\<And>a b. a \<le> b \<Longrightarrow> b < n \<Longrightarrow> p a \<Longrightarrow> p b"
    and "i \<le> n" "\<forall>a < i. \<not> p a" "i < n \<Longrightarrow> p i"
  shows "sort_search n p = i"
proof (rule linorder_cases [of "sort_search n p" i])
  assume lt: "sort_search n p < i"
  with assms(2) have "sort_search n p < n" by simp
  with mono have "p (sort_search n p)" by (rule sort_search_least(3))
  with lt assms(3) show ?thesis by simp
next
  assume lt: "i < sort_search n p"
  have "sort_search n p \<le> n" using mono by (rule sort_search_least(1))
  with lt have "p i" by (intro assms(4)) simp
  moreover have "\<forall>a < sort_search n p. \<not> p a" using mono by (rule sort_search_least(2))
  ultimately show ?thesis using lt by simp
qed

end
