(* ===== verification/SnapshotStore.thy ===== *)
theory SnapshotStore
  imports Prelude
begin

text \<open>
  The snapshot stores of \<open>x/vm/store\<close>: \<open>snapshotkv.Store\<close>, a stack of nested cache
  stores, and \<open>snapshotmulti.Store\<close>, one such stack per store key, kept at the same
  height. They give \<open>StateDB\<close> the rollback of stateful precompile calls. The contract
  of \<open>types.Snapshotter\<close> is the locale \<open>snapshotter\<close>; both stores are interpretations.
\<close>

section \<open>The cache layer\<close>

text \<open>
  \<open>storetypes.CacheWrap\<close> is code of the SDK, so it is a parameter: \<open>cw_CacheWrap s\<close> is
  a new layer branched from \<open>s\<close> and \<open>cw_Write c p\<close> the store \<open>p\<close> after its layer \<open>c\<close>
  has been written into it.
\<close>

record 's cachewrap =
  cw_CacheWrap :: "'s \<Rightarrow> 's"
  cw_Write :: "'s \<Rightarrow> 's \<Rightarrow> 's"

section \<open>snapshotkv.Store\<close>

text \<open>\<open>parentStore\<close> is the store that \<open>initialStore\<close> was itself branched from.\<close>

record 's kvStore =
  parentStore :: 's
  initialStore :: 's
  cacheStores :: "'s list"

definition kv_NewStore :: "'s \<Rightarrow> 's \<Rightarrow> 's kvStore" where
  "kv_NewStore parent store =
     \<lparr>parentStore = parent, initialStore = store, cacheStores = []\<rparr>"

definition kv_CurrentStore :: "'s kvStore \<Rightarrow> 's" where
  "kv_CurrentStore cs =
     (if cacheStores cs = [] then initialStore cs else last (cacheStores cs))"

text \<open>The loop of \<open>Commit\<close>, on the layers from top to bottom.\<close>

fun kv_commitLoop :: "'s cachewrap \<Rightarrow> 's list \<Rightarrow> 's \<Rightarrow> 's" where
  "kv_commitLoop C [] initial = initial"
| "kv_commitLoop C [bottom] initial = cw_Write C bottom initial"
| "kv_commitLoop C (upper # lower # rest) initial =
     kv_commitLoop C (cw_Write C upper lower # rest) initial"

definition kv_Commit :: "'s cachewrap \<Rightarrow> 's kvStore \<Rightarrow> 's kvStore" where
  "kv_Commit C cs =
     (let initial = kv_commitLoop C (rev (cacheStores cs)) (initialStore cs)
      in cs\<lparr>parentStore := cw_Write C initial (parentStore cs),
            initialStore := initial, cacheStores := []\<rparr>)"

definition kv_Snapshot :: "'s cachewrap \<Rightarrow> 's kvStore \<Rightarrow> int \<times> 's kvStore" where
  "kv_Snapshot C cs =
     (let cs' = cs\<lparr>cacheStores := cacheStores cs @ [cw_CacheWrap C (kv_CurrentStore cs)]\<rparr>
      in (int (length (cacheStores cs')) - 1, cs'))"

definition kv_RevertToSnapshot :: "'s kvStore \<Rightarrow> int \<Rightarrow> 's kvStore res" where
  "kv_RevertToSnapshot cs target =
     (if target < 0 \<or> int (length (cacheStores cs)) \<le> target
      then Inl (Panic ''snapshot index out of bound'')
      else Inr (cs\<lparr>cacheStores := take (nat target) (cacheStores cs)\<rparr>))"

text \<open>A client writes through the store that \<open>CurrentStore\<close> returns.\<close>

definition kv_update :: "('s \<Rightarrow> 's) \<Rightarrow> 's kvStore \<Rightarrow> 's kvStore" where
  "kv_update f cs =
     (if cacheStores cs = [] then cs\<lparr>initialStore := f (initialStore cs)\<rparr>
      else cs\<lparr>cacheStores := butlast (cacheStores cs) @ [f (last (cacheStores cs))]\<rparr>)"

section \<open>snapshotmulti.Store\<close>

text \<open>A store key is named by its string, and the keys are walked in the order of the names.\<close>

record 's multiStore =
  stores :: "string \<Rightarrow> 's kvStore option"
  storeKeys :: "string list"
  head :: int

definition InitialHead :: int where
  "InitialHead = 0"

definition SortedKVStoreKeys :: "(string, 'k) kv \<Rightarrow> string list" where
  "SortedKVStoreKeys keys = kv_keys keys"

fun ms_addStores :: "(string \<Rightarrow> 's \<times> 's) \<Rightarrow> string list \<Rightarrow> (string \<Rightarrow> 's kvStore option)
    \<Rightarrow> (string \<Rightarrow> 's kvStore option)" where
  "ms_addStores cms [] m = m"
| "ms_addStores cms (k # ks) m =
     ms_addStores cms ks (m(k \<mapsto> kv_NewStore (fst (cms k)) (snd (cms k))))"

definition ms_NewStore :: "(string \<Rightarrow> 's \<times> 's) \<Rightarrow> (string, 'k) kv \<Rightarrow> 's multiStore" where
  "ms_NewStore cms keys =
     \<lparr>stores = ms_addStores cms (SortedKVStoreKeys keys) Map.empty,
      storeKeys = SortedKVStoreKeys keys, head = InitialHead\<rparr>"

text \<open>A loop over the keys; a key with no store is a nil pointer dereference.\<close>

fun ms_foreach :: "('s kvStore \<Rightarrow> 's kvStore res) \<Rightarrow> string list
    \<Rightarrow> (string \<Rightarrow> 's kvStore option) \<Rightarrow> (string \<Rightarrow> 's kvStore option) res" where
  "ms_foreach f [] m = Inr m"
| "ms_foreach f (k # ks) m =
     (case m k of
        None \<Rightarrow> Inl (Panic ''nil pointer dereference'')
      | Some st \<Rightarrow> rbind (f st) (\<lambda>st'. ms_foreach f ks (m(k \<mapsto> st'))))"

definition ms_Snapshot :: "'s cachewrap \<Rightarrow> 's multiStore \<Rightarrow> (int \<times> 's multiStore) res" where
  "ms_Snapshot C s =
     rbind (ms_foreach (\<lambda>st. Inr (snd (kv_Snapshot C st))) (storeKeys s) (stores s)) (\<lambda>m.
     let s' = s\<lparr>stores := m, head := head s + 1\<rparr> in Inr (head s' - 1, s'))"

definition ms_RevertToSnapshot :: "'s multiStore \<Rightarrow> int \<Rightarrow> 's multiStore res" where
  "ms_RevertToSnapshot s target =
     rbind (ms_foreach (\<lambda>st. kv_RevertToSnapshot st target) (storeKeys s) (stores s)) (\<lambda>m.
     Inr (s\<lparr>stores := m, head := target\<rparr>))"

definition ms_CacheMultiStore :: "'s cachewrap \<Rightarrow> 's multiStore \<Rightarrow> 's multiStore res" where
  "ms_CacheMultiStore C s = rbind (ms_Snapshot C s) (\<lambda>(_, s'). Inr s')"

definition ms_CacheWrap :: "'s cachewrap \<Rightarrow> 's multiStore \<Rightarrow> 's multiStore res" where
  "ms_CacheWrap C s = ms_CacheMultiStore C s"

definition ms_GetKVStore :: "'s multiStore \<Rightarrow> string \<Rightarrow> 's res" where
  "ms_GetKVStore s key =
     (case stores s key of
        None \<Rightarrow> Inl (Panic ''kv store has not been registered in stores'')
      | Some st \<Rightarrow> Inr (kv_CurrentStore st))"

definition ms_LatestVersion :: "'s multiStore \<Rightarrow> int" where
  "ms_LatestVersion s = head s"

definition ms_Write :: "'s cachewrap \<Rightarrow> 's multiStore \<Rightarrow> 's multiStore res" where
  "ms_Write C s =
     rbind (ms_foreach (\<lambda>st. Inr (kv_Commit C st)) (storeKeys s) (stores s)) (\<lambda>m.
     Inr (s\<lparr>stores := m, head := InitialHead\<rparr>))"

text \<open>A write through \<open>GetKVStore key\<close>.\<close>

definition ms_update :: "string \<times> ('s \<Rightarrow> 's) \<Rightarrow> 's multiStore \<Rightarrow> 's multiStore" where
  "ms_update kf s =
     (case stores s (fst kf) of
        None \<Rightarrow> s
      | Some st \<Rightarrow> s\<lparr>stores := (stores s)(fst kf \<mapsto> kv_update (snd kf) st)\<rparr>)"

section \<open>The abstract stack of versions\<close>

text \<open>
  What a snapshotter promises, with nothing of its layers: a non-empty list of contents,
  the live one last. \<open>StateDB\<close> uses its multi store only through this interface.
\<close>

type_synonym 'c versions = "'c list"

definition vs_Snapshot :: "'c versions \<Rightarrow> int \<times> 'c versions" where
  "vs_Snapshot vs = (int (length vs) - 1, vs @ [last vs])"

definition vs_RevertToSnapshot :: "'c versions \<Rightarrow> int \<Rightarrow> 'c versions res" where
  "vs_RevertToSnapshot vs target =
     (if target < 0 \<or> int (length vs) - 1 \<le> target
      then Inl (Panic ''snapshot index out of bound'')
      else Inr (take (nat target + 1) vs))"

definition vs_update :: "('c \<Rightarrow> 'c) \<Rightarrow> 'c versions \<Rightarrow> 'c versions" where
  "vs_update f vs = butlast vs @ [f (last vs)]"

definition versions_of :: "int \<Rightarrow> (int \<Rightarrow> 'v) \<Rightarrow> 'v versions" where
  "versions_of h lev = map (\<lambda>j. lev (int j)) [0..<Suc (nat h)]"

lemma length_versions_of [simp]: "length (versions_of h lev) = Suc (nat h)"
  by (simp add: versions_of_def)

lemma last_versions_of [simp]: "0 \<le> h \<Longrightarrow> last (versions_of h lev) = lev h"
  by (simp add: versions_of_def)

lemma versions_of_cong:
  assumes "\<And>j. 0 \<le> j \<Longrightarrow> j \<le> h \<Longrightarrow> lev j = lev' j" "0 \<le> h"
  shows "versions_of h lev = versions_of h lev'"
proof -
  have "int j \<le> h" if "j < Suc (nat h)" for j using that assms(2) by simp
  with assms(1) show ?thesis unfolding versions_of_def by (intro map_cong) auto
qed

lemma versions_of_Suc:
  "0 \<le> h \<Longrightarrow> versions_of (h + 1) lev = versions_of h lev @ [lev (h + 1)]"
proof -
  assume h: "0 \<le> h"
  then have "nat (h + 1) = Suc (nat h)" by simp
  with h show ?thesis unfolding versions_of_def by (simp add: add.commute)
qed

lemma take_versions_of:
  "0 \<le> i \<Longrightarrow> i \<le> h \<Longrightarrow> take (Suc (nat i)) (versions_of h lev) = versions_of i lev"
  unfolding versions_of_def by (simp add: take_map take_upt del: upt_Suc)

section \<open>The contract of a snapshotter\<close>

text \<open>
  \<open>types.Snapshotter\<close>: a stack of versions of a content. Level \<open>i\<close> is what snapshot \<open>i\<close>
  captured, the level at the current height is the live content, and only the live content
  can be written.
\<close>

locale snapshotter =
  fixes snapshot :: "'m \<Rightarrow> (int \<times> 'm) res"
    and revert :: "'m \<Rightarrow> int \<Rightarrow> 'm res"
    and modify :: "'f \<Rightarrow> 'm \<Rightarrow> 'm"
    and height :: "'m \<Rightarrow> int"
    and level :: "'m \<Rightarrow> int \<Rightarrow> 'v"
    and inv :: "'m \<Rightarrow> bool"
    and legal :: "'f \<Rightarrow> bool"
  assumes height_nonneg: "inv m \<Longrightarrow> 0 \<le> height m"
    and snapshot_total: "inv m \<Longrightarrow> \<exists>m'. snapshot m = Inr (height m, m')"
    and snapshot_height: "inv m \<Longrightarrow> snapshot m = Inr (i, m') \<Longrightarrow> height m' = height m + 1"
    and snapshot_level: "inv m \<Longrightarrow> snapshot m = Inr (i, m') \<Longrightarrow> 0 \<le> j \<Longrightarrow> j \<le> height m \<Longrightarrow>
      level m' j = level m j"
    and snapshot_top: "inv m \<Longrightarrow> snapshot m = Inr (i, m') \<Longrightarrow>
      level m' (height m') = level m (height m)"
    and snapshot_inv: "inv m \<Longrightarrow> snapshot m = Inr (i, m') \<Longrightarrow> inv m'"
    and revert_iff: "inv m \<Longrightarrow> (\<exists>m'. revert m i = Inr m') \<longleftrightarrow> 0 \<le> i \<and> i < height m"
    and revert_height: "inv m \<Longrightarrow> revert m i = Inr m' \<Longrightarrow> height m' = i"
    and revert_level: "inv m \<Longrightarrow> revert m i = Inr m' \<Longrightarrow> 0 \<le> j \<Longrightarrow> j \<le> i \<Longrightarrow>
      level m' j = level m j"
    and revert_inv: "inv m \<Longrightarrow> revert m i = Inr m' \<Longrightarrow> inv m'"
    and modify_height: "inv m \<Longrightarrow> height (modify f m) = height m"
    and modify_level: "inv m \<Longrightarrow> 0 \<le> j \<Longrightarrow> j < height m \<Longrightarrow> level (modify f m) j = level m j"
    and modify_inv: "inv m \<Longrightarrow> legal f \<Longrightarrow> inv (modify f m)"
begin

text \<open>
  What a client does between taking a snapshot and reverting to it: writes, further
  snapshots, and reverts to snapshots taken later than the first.
\<close>

inductive above :: "int \<Rightarrow> 'm \<Rightarrow> 'm \<Rightarrow> bool" for i where
  above_refl: "above i m m"
| above_modify: "above i m n \<Longrightarrow> legal f \<Longrightarrow> above i m (modify f n)"
| above_snapshot: "above i m n \<Longrightarrow> snapshot n = Inr (j, n') \<Longrightarrow> above i m n'"
| above_revert: "above i m n \<Longrightarrow> i < j \<Longrightarrow> revert n j = Inr n' \<Longrightarrow> above i m n'"

lemma above_keeps_level:
  assumes "above i m n" "inv m" "0 \<le> j" "j \<le> i" "i < height m"
  shows "inv n \<and> i < height n \<and> level n j = level m j"
  using assms
proof (induction rule: above.induct)
  case (above_refl m)
  then show ?case by simp
next
  case (above_modify m n f)
  then show ?case by (simp add: modify_inv modify_height modify_level)
next
  case (above_snapshot m n k n')
  then have "inv n" "i < height n" "level n j = level m j" by simp_all
  with above_snapshot.hyps(2) above_snapshot.prems(2,3) show ?case
    using snapshot_inv snapshot_height snapshot_level by force
next
  case (above_revert m n k n')
  then have "inv n" "level n j = level m j" by simp_all
  with above_revert.hyps(2,3) above_revert.prems(2,3) show ?case
    using revert_inv revert_height revert_level by force
qed

lemma revert_restores:
  assumes "inv m" "snapshot m = Inr (i, m1)" "above i m1 m2"
  shows "\<exists>m3. revert m2 i = Inr m3 \<and> inv m3 \<and> height m3 = height m \<and>
    (\<forall>j. 0 \<le> j \<and> j \<le> height m \<longrightarrow> level m3 j = level m j)"
proof -
  have i: "i = height m" using snapshot_total [OF assms(1)] assms(2) by auto
  have i0: "0 \<le> i" using height_nonneg [OF assms(1)] i by simp
  have m1: "inv m1" "i < height m1"
    using snapshot_inv [OF assms(1,2)] snapshot_height [OF assms(1,2)] i by simp_all
  have m2: "inv m2 \<and> i < height m2 \<and> level m2 j = level m j" if "0 \<le> j" "j \<le> i" for j
    using above_keeps_level [OF assms(3) m1(1) that m1(2)]
      snapshot_level [OF assms(1,2) that(1)] that(2) i by simp
  then obtain m3 where m3: "revert m2 i = Inr m3"
    using revert_iff [of m2 i] i0 by blast
  have "inv m2" using m2 [of i] i0 by simp
  with m3 have "inv m3" "height m3 = i" "0 \<le> j \<Longrightarrow> j \<le> i \<Longrightarrow> level m3 j = level m2 j" for j
    using revert_inv revert_height revert_level by auto
  with m2 m3 i show ?thesis by auto
qed

text \<open>Every snapshotter refines the abstract stack of versions.\<close>

lemma snapshot_refines:
  assumes "inv m" "snapshot m = Inr (i, m')"
  shows "vs_Snapshot (versions_of (height m) (level m)) = (i, versions_of (height m') (level m'))"
proof -
  have h: "0 \<le> height m" and i: "i = height m"
    using height_nonneg [OF assms(1)] snapshot_total [OF assms(1)] assms(2) by auto
  have "versions_of (height m) (level m') = versions_of (height m) (level m)"
    using snapshot_level [OF assms] h by (intro versions_of_cong)
  then show ?thesis
    using h i snapshot_top [OF assms]
    by (simp add: vs_Snapshot_def snapshot_height [OF assms] versions_of_Suc)
qed

lemma revert_refines:
  assumes "inv m"
  shows "(case revert m i of Inl _ \<Rightarrow> Inl (Panic ''snapshot index out of bound'')
      | Inr m' \<Rightarrow> Inr (versions_of (height m') (level m')))
    = vs_RevertToSnapshot (versions_of (height m) (level m)) i"
proof (cases "0 \<le> i \<and> i < height m")
  case True
  then obtain m' where m': "revert m i = Inr m'" using revert_iff [OF assms, of i] by blast
  have "versions_of i (level m') = versions_of i (level m)"
    using revert_level [OF assms m'] True by (intro versions_of_cong) auto
  with True m' show ?thesis
    by (simp add: vs_RevertToSnapshot_def revert_height [OF assms m'] take_versions_of)
next
  case False
  then have "\<nexists>m'. revert m i = Inr m'" using revert_iff [OF assms, of i] by blast
  then obtain e where "revert m i = Inl e" by (cases "revert m i") auto
  with False height_nonneg [OF assms] show ?thesis by (auto simp: vs_RevertToSnapshot_def)
qed

end

section \<open>The contract of the cache layer\<close>

text \<open>
  What the stores rely on of the SDK's \<open>CacheWrap\<close>. \<open>layer c p\<close> says that \<open>c\<close> was branched
  from \<open>p\<close> and that \<open>p\<close> has not changed since other than through \<open>c\<close>.
\<close>

fun layered :: "('s \<Rightarrow> 's \<Rightarrow> bool) \<Rightarrow> 's \<Rightarrow> 's list \<Rightarrow> bool" where
  "layered layer p [] = True"
| "layered layer p (c # cs) = (layer c p \<and> layered layer c cs)"

definition st_layered :: "('s \<Rightarrow> 's \<Rightarrow> bool) \<Rightarrow> 's kvStore \<Rightarrow> bool" where
  "st_layered layer cs = layered layer (parentStore cs) (initialStore cs # cacheStores cs)"

definition st_height :: "'s kvStore \<Rightarrow> int" where
  "st_height cs = int (length (cacheStores cs))"

definition st_level :: "('s \<Rightarrow> 'v) \<Rightarrow> 's kvStore \<Rightarrow> int \<Rightarrow> 'v" where
  "st_level contents cs j = contents ((initialStore cs # cacheStores cs) ! nat j)"

definition keeps_layer :: "('s \<Rightarrow> 's \<Rightarrow> bool) \<Rightarrow> ('s \<Rightarrow> 's) \<Rightarrow> bool" where
  "keeps_layer layer f = (\<forall>c p. layer c p \<longrightarrow> layer (f c) p)"

lemma layered_snoc:
  "layered layer p (cs @ [c]) \<longleftrightarrow> layered layer p cs \<and> layer c (last (p # cs))"
  by (induction cs arbitrary: p) auto

lemma layered_take: "layered layer p cs \<Longrightarrow> layered layer p (take n cs)"
  by (induction layer p cs arbitrary: n rule: layered.induct) (auto simp: take_Cons split: nat.splits)

lemma st_current_level:
  "contents (kv_CurrentStore cs) = st_level contents cs (st_height cs)"
  by (auto simp: kv_CurrentStore_def st_level_def st_height_def last_conv_nth nth_Cons')

lemma st_layered_update:
  assumes "keeps_layer layer f" "st_layered layer cs"
  shows "st_layered layer (kv_update f cs)"
proof (cases "cacheStores cs" rule: rev_cases)
  case Nil
  with assms show ?thesis by (simp add: kv_update_def st_layered_def keeps_layer_def)
next
  case (snoc cs' c)
  with assms show ?thesis by (simp add: kv_update_def st_layered_def keeps_layer_def layered_snoc)
qed

lemma st_level_update:
  "0 \<le> j \<Longrightarrow> j < st_height cs \<Longrightarrow> st_level contents (kv_update f cs) j = st_level contents cs j"
  by (cases "cacheStores cs" rule: rev_cases)
    (auto simp: kv_update_def st_level_def st_height_def nth_Cons' nth_append)

lemma st_height_update [simp]: "st_height (kv_update f cs) = st_height cs"
  by (cases "cacheStores cs" rule: rev_cases) (auto simp: kv_update_def st_height_def)

lemma st_level_update_top:
  "st_level contents (kv_update f cs) (st_height cs) = contents (f (kv_CurrentStore cs))"
  by (cases "cacheStores cs" rule: rev_cases)
    (auto simp: kv_update_def st_level_def st_height_def kv_CurrentStore_def nth_append)

lemma kv_Revert_cases:
  "kv_RevertToSnapshot cs i = Inr cs' \<longleftrightarrow>
     0 \<le> i \<and> i < st_height cs \<and> cs' = cs\<lparr>cacheStores := take (nat i) (cacheStores cs)\<rparr>"
  by (auto simp: kv_RevertToSnapshot_def st_height_def)

lemma st_height_revert: "kv_RevertToSnapshot cs i = Inr cs' \<Longrightarrow> st_height cs' = i"
  by (auto simp: kv_Revert_cases) (simp add: st_height_def)

lemma st_level_revert:
  "kv_RevertToSnapshot cs i = Inr cs' \<Longrightarrow> 0 \<le> j \<Longrightarrow> j \<le> i \<Longrightarrow>
    st_level contents cs' j = st_level contents cs j"
  by (auto simp: kv_Revert_cases st_level_def nth_Cons')

lemma st_layered_revert:
  "kv_RevertToSnapshot cs i = Inr cs' \<Longrightarrow> st_layered layer cs \<Longrightarrow> st_layered layer cs'"
  by (auto simp: kv_Revert_cases st_layered_def layered_take)

lemma st_height_snapshot: "st_height (snd (kv_Snapshot C cs)) = st_height cs + 1"
  by (simp add: kv_Snapshot_def st_height_def Let_def)

lemma st_level_snapshot:
  "0 \<le> j \<Longrightarrow> j \<le> st_height cs \<Longrightarrow>
    st_level contents (snd (kv_Snapshot C cs)) j = st_level contents cs j"
  by (auto simp: kv_Snapshot_def st_height_def st_level_def nth_Cons' nth_append Let_def)

locale cache_layer =
  fixes C :: "'s cachewrap" and contents :: "'s \<Rightarrow> 'v" and layer :: "'s \<Rightarrow> 's \<Rightarrow> bool"
  assumes contents_wrap: "contents (cw_CacheWrap C s) = contents s"
    and layer_wrap: "layer (cw_CacheWrap C s) s"
    and contents_write: "layer c p \<Longrightarrow> contents (cw_Write C c p) = contents c"
    and layer_write: "layer c p \<Longrightarrow> layer p q \<Longrightarrow> layer (cw_Write C c p) q"
    and layer_written: "layer c p \<Longrightarrow> layer c (cw_Write C c p)"
begin

lemma snapshot_current:
  "st_level contents (snd (kv_Snapshot C cs)) (st_height cs + 1) = st_level contents cs (st_height cs)"
  by (simp add: st_current_level [symmetric] contents_wrap)
    (simp add: kv_Snapshot_def st_height_def st_level_def nth_Cons' nth_append Let_def
      nat_add_distrib contents_wrap)

lemma snapshot_layered:
  "st_layered layer cs \<Longrightarrow> st_layered layer (snd (kv_Snapshot C cs))"
  by (simp add: kv_Snapshot_def st_layered_def layered_snoc layer_wrap kv_CurrentStore_def Let_def)

text \<open>The layers are written from the top down, so the base ends up with the live content.\<close>

lemma commitLoop_Cons:
  assumes "layered layer p (i # rev cs @ [c])"
  shows "contents (kv_commitLoop C (c # cs) i) = contents c \<and> layer (kv_commitLoop C (c # cs) i) p"
  using assms
proof (induction cs arbitrary: c)
  case Nil
  then show ?case by (auto simp: contents_write intro: layer_write)
next
  case (Cons b cs)
  then have cb: "layer c b" and below: "layered layer p (i # rev cs @ [b])"
    using layered_snoc [of layer p "i # rev cs @ [b]" c] by simp_all
  then have "layered layer p (i # rev cs @ [cw_Write C c b])"
    using layered_snoc [of layer p "i # rev cs"] layer_write [OF cb] by simp
  from Cons.IH [OF this] contents_write [OF cb] show ?case by simp
qed

lemma commitLoop_contents:
  assumes "layered layer p (i # cs)"
  shows "contents (kv_commitLoop C (rev cs) i) = contents (last (i # cs))
    \<and> layer (kv_commitLoop C (rev cs) i) p"
  using assms commitLoop_Cons [of p i "rev (butlast cs)" "last cs"]
  by (cases cs rule: rev_cases) auto

lemma commit_contents:
  assumes "st_layered layer cs"
  shows "contents (parentStore (kv_Commit C cs)) = contents (kv_CurrentStore cs)"
    and "contents (kv_CurrentStore (kv_Commit C cs)) = contents (kv_CurrentStore cs)"
    and "cacheStores (kv_Commit C cs) = []" and "st_layered layer (kv_Commit C cs)"
proof -
  note loop = commitLoop_contents [OF assms [unfolded st_layered_def]]
  then show "contents (parentStore (kv_Commit C cs)) = contents (kv_CurrentStore cs)"
    by (auto simp: kv_Commit_def Let_def contents_write kv_CurrentStore_def)
  show "contents (kv_CurrentStore (kv_Commit C cs)) = contents (kv_CurrentStore cs)"
    using loop by (auto simp: kv_Commit_def Let_def kv_CurrentStore_def)
  show "cacheStores (kv_Commit C cs) = []" by (simp add: kv_Commit_def Let_def)
  show "st_layered layer (kv_Commit C cs)"
    using loop layer_written by (simp add: kv_Commit_def Let_def st_layered_def)
qed

end

sublocale cache_layer \<subseteq> kvsnap: snapshotter "\<lambda>cs. Inr (kv_Snapshot C cs)" kv_RevertToSnapshot
  kv_update st_height "st_level contents" "st_layered layer" "keeps_layer layer"
proof unfold_locales
  fix m :: "'s kvStore"
  show "0 \<le> st_height m" by (simp add: st_height_def)
  show "\<exists>m'. (Inr (kv_Snapshot C m) :: (int \<times> 's kvStore) res) = Inr (st_height m, m')"
    by (simp add: kv_Snapshot_def st_height_def Let_def)
next
  fix m m' :: "'s kvStore" and i
  assume "Inr (kv_Snapshot C m) = Inr (i, m')"
  then have m': "m' = snd (kv_Snapshot C m)" by (simp add: prod_eq_iff)
  show "st_height m' = st_height m + 1" by (simp add: m' st_height_snapshot)
  show "st_level contents m' (st_height m') = st_level contents m (st_height m)"
    by (simp add: m' st_height_snapshot snapshot_current)
  show "st_level contents m' j = st_level contents m j" if "0 \<le> j" "j \<le> st_height m" for j
    by (simp add: m' st_level_snapshot that)
  show "st_layered layer m'" if "st_layered layer m"
    by (simp add: m' snapshot_layered that)
next
  fix m :: "'s kvStore" and i
  show "(\<exists>m'. kv_RevertToSnapshot m i = Inr m') \<longleftrightarrow> 0 \<le> i \<and> i < st_height m"
    by (simp add: kv_Revert_cases)
qed (auto simp: st_height_revert st_level_revert st_layered_revert st_level_update st_layered_update)

section \<open>The stores of a multi store move in lockstep\<close>

lemma ms_foreach_Inr:
  assumes "distinct ks"
  shows "ms_foreach f ks m = Inr m' \<longleftrightarrow>
    (\<forall>k\<in>set ks. \<exists>st st'. m k = Some st \<and> f st = Inr st' \<and> m' k = Some st') \<and>
    (\<forall>k. k \<notin> set ks \<longrightarrow> m' k = m k)"
  using assms
proof (induction ks arbitrary: m)
  case Nil
  then show ?case by (auto simp: fun_eq_iff)
next
  case (Cons k ks)
  show ?case
  proof (cases "\<exists>st st'. m k = Some st \<and> f st = Inr st'")
    case True
    then obtain st st' where m: "m k = Some st" "f st = Inr st'" by blast
    have upd: "(m(k \<mapsto> st')) x = m x" if "x \<in> set ks" for x
      using that Cons.prems by auto
    have "ms_foreach f (k # ks) m = Inr m' \<longleftrightarrow> ms_foreach f ks (m(k \<mapsto> st')) = Inr m'"
      by (simp add: m)
    also have "\<dots> \<longleftrightarrow> (\<forall>x\<in>set ks. \<exists>st st'. m x = Some st \<and> f st = Inr st' \<and> m' x = Some st') \<and>
      (\<forall>x. x \<notin> set ks \<longrightarrow> m' x = (m(k \<mapsto> st')) x)"
      using Cons.IH [of "m(k \<mapsto> st')"] Cons.prems upd by (simp del: fun_upd_apply)
    finally show ?thesis using Cons.prems m by auto
  next
    case False
    then have "ms_foreach f (k # ks) m \<noteq> Inr m'"
      by (cases "m k") (auto simp: rbind_eq_Inr)
    with False show ?thesis by auto
  qed
qed

definition ms_lockstep :: "('s \<Rightarrow> 's \<Rightarrow> bool) \<Rightarrow> 's multiStore \<Rightarrow> bool" where
  "ms_lockstep layer s \<longleftrightarrow>
     storeKeys s \<noteq> [] \<and> distinct (storeKeys s) \<and> dom (stores s) = set (storeKeys s) \<and>
     0 \<le> head s \<and>
     (\<forall>k st. stores s k = Some st \<longrightarrow> st_layered layer st \<and> st_height st = head s)"

definition ms_level :: "('s \<Rightarrow> 'v) \<Rightarrow> 's multiStore \<Rightarrow> int \<Rightarrow> (string \<Rightarrow> 'v option)" where
  "ms_level contents s j = (\<lambda>k. map_option (\<lambda>st. st_level contents st j) (stores s k))"

lemma dom_map_option_const: "dom (\<lambda>k. map_option f (m k)) = dom m"
  by (auto simp: dom_def)

lemma ms_level_map:
  assumes "\<And>k st. m k = Some st \<Longrightarrow> f (g st) = h st"
  shows "(\<lambda>k. map_option f (map_option g (m k))) = (\<lambda>k. map_option h (m k))"
proof
  fix k
  show "map_option f (map_option g (m k)) = map_option h (m k)"
    using assms by (cases "m k") simp_all
qed

definition ms_versions :: "('s \<Rightarrow> 'v) \<Rightarrow> 's multiStore \<Rightarrow> (string \<Rightarrow> 'v option) versions" where
  "ms_versions contents s = versions_of (head s) (ms_level contents s)"

definition ms_parent :: "('s \<Rightarrow> 'v) \<Rightarrow> 's multiStore \<Rightarrow> (string \<Rightarrow> 'v option)" where
  "ms_parent contents s = (\<lambda>k. map_option (\<lambda>st. contents (parentStore st)) (stores s k))"

definition ms_legal :: "('s \<Rightarrow> 's \<Rightarrow> bool) \<Rightarrow> string \<times> ('s \<Rightarrow> 's) \<Rightarrow> bool" where
  "ms_legal layer kf = keeps_layer layer (snd kf)"

lemma ms_foreach_total:
  assumes "distinct (storeKeys s)" "dom (stores s) = set (storeKeys s)"
  shows "ms_foreach (\<lambda>st. Inr (g st)) (storeKeys s) (stores s) = Inr (\<lambda>k. map_option g (stores s k))"
proof -
  have "\<exists>st. stores s k = Some st" if "k \<in> set (storeKeys s)" for k
    using that assms(2) by blast
  moreover have "stores s k = None" if "k \<notin> set (storeKeys s)" for k
    using that assms(2) by blast
  ultimately show ?thesis using assms(1) by (fastforce simp: ms_foreach_Inr)
qed

lemma ms_Snapshot_eq:
  assumes "ms_lockstep layer s"
  shows "ms_Snapshot C s = Inr (head s,
    s\<lparr>stores := \<lambda>k. map_option (\<lambda>st. snd (kv_Snapshot C st)) (stores s k), head := head s + 1\<rparr>)"
  using assms by (simp add: ms_Snapshot_def ms_lockstep_def ms_foreach_total)

lemma ms_Write_eq:
  assumes "ms_lockstep layer s"
  shows "ms_Write C s =
    Inr (s\<lparr>stores := \<lambda>k. map_option (kv_Commit C) (stores s k), head := InitialHead\<rparr>)"
  using assms by (simp add: ms_Write_def ms_lockstep_def ms_foreach_total)

lemma ms_Revert_eq:
  assumes "ms_lockstep layer s"
  shows "ms_RevertToSnapshot s i = Inr s' \<longleftrightarrow> 0 \<le> i \<and> i < head s \<and>
    s' = s\<lparr>stores := \<lambda>k. map_option (\<lambda>st. st\<lparr>cacheStores := take (nat i) (cacheStores st)\<rparr>) (stores s k),
           head := i\<rparr>"
proof (cases "0 \<le> i \<and> i < head s")
  case True
  let ?g = "\<lambda>st. st\<lparr>cacheStores := take (nat i) (cacheStores st)\<rparr>"
  have ex: "\<exists>st. stores s k = Some st \<and> kv_RevertToSnapshot st i = Inr (?g st)"
    if "k \<in> set (storeKeys s)" for k
    using that assms True unfolding ms_lockstep_def by (fastforce simp: kv_Revert_cases)
  moreover have "stores s k = None" if "k \<notin> set (storeKeys s)" for k
    using that assms unfolding ms_lockstep_def by blast
  ultimately have "ms_foreach (\<lambda>st. kv_RevertToSnapshot st i) (storeKeys s) (stores s)
      = Inr (\<lambda>k. map_option ?g (stores s k))"
    using assms by (fastforce simp: ms_foreach_Inr ms_lockstep_def)
  with True show ?thesis by (auto simp: ms_RevertToSnapshot_def)
next
  case False
  have "ms_foreach (\<lambda>st. kv_RevertToSnapshot st i) (storeKeys s) (stores s) \<noteq> Inr m" for m
  proof
    assume "ms_foreach (\<lambda>st. kv_RevertToSnapshot st i) (storeKeys s) (stores s) = Inr m"
    moreover obtain k where "k \<in> set (storeKeys s)"
      using assms unfolding ms_lockstep_def by (cases "storeKeys s") auto
    ultimately show False
      using assms False by (fastforce simp: ms_foreach_Inr ms_lockstep_def kv_Revert_cases)
  qed
  with False show ?thesis by (auto simp: ms_RevertToSnapshot_def rbind_eq_Inr)
qed

lemma ms_lockstep_height:
  "ms_lockstep layer s \<Longrightarrow> stores s k = Some st \<Longrightarrow> st_height st = head s \<and> st_layered layer st"
  by (auto simp: ms_lockstep_def)

lemma ms_lockstep_update:
  assumes "ms_lockstep layer s" "ms_legal layer kf"
  shows "ms_lockstep layer (ms_update kf s)"
  using assms
  by (auto simp: ms_update_def ms_lockstep_def ms_legal_def st_layered_update split: option.splits)

lemma ms_head_update [simp]: "head (ms_update kf s) = head s"
  by (simp add: ms_update_def split: option.splits)

lemma ms_level_update:
  assumes "ms_lockstep layer s" "0 \<le> j" "j < head s"
  shows "ms_level contents (ms_update kf s) j = ms_level contents s j"
  using assms
  by (auto simp: ms_update_def ms_level_def st_level_update ms_lockstep_height fun_eq_iff
      split: option.splits)

context cache_layer
begin

lemma ms_snapshot_lockstep:
  assumes "ms_lockstep layer s" "ms_Snapshot C s = Inr (i, s')"
  shows "ms_lockstep layer s'"
  using assms(2) assms(1) unfolding ms_Snapshot_eq [OF assms(1)] ms_lockstep_def
  by (clarsimp simp: st_height_snapshot snapshot_layered dom_map_option_const)

lemma ms_revert_lockstep:
  assumes "ms_lockstep layer s" "ms_RevertToSnapshot s i = Inr s'"
  shows "ms_lockstep layer s'"
proof -
  have st: "st_layered layer st' \<and> st_height st' = i"
    if "stores s k = Some st" "st' = st\<lparr>cacheStores := take (nat i) (cacheStores st)\<rparr>" for k st st'
  proof -
    have "kv_RevertToSnapshot st i = Inr st'"
      using that assms ms_lockstep_height [OF assms(1) that(1)] by (simp add: ms_Revert_eq kv_Revert_cases)
    then show ?thesis
      using st_height_revert st_layered_revert ms_lockstep_height [OF assms(1) that(1)] by blast
  qed
  with assms show ?thesis
    unfolding ms_Revert_eq [OF assms(1)] ms_lockstep_def by (clarsimp simp: dom_map_option_const)
qed

lemma ms_write_lockstep:
  assumes "ms_lockstep layer s" "ms_Write C s = Inr s'"
  shows "ms_lockstep layer s'"
  using assms(2) assms(1) unfolding ms_Write_eq [OF assms(1)] ms_lockstep_def
  by (clarsimp simp: dom_map_option_const commit_contents InitialHead_def st_height_def)

lemma ms_write_contents:
  assumes "ms_lockstep layer s" "ms_Write C s = Inr s'"
  shows "ms_parent contents s' = ms_level contents s (head s)"
    and "ms_level contents s' (head s') = ms_level contents s (head s)" and "head s' = 0"
proof -
  have st: "contents (parentStore (kv_Commit C st)) = st_level contents st (head s) \<and>
      st_level contents (kv_Commit C st) 0 = st_level contents st (head s)"
    if "stores s k = Some st" for k st
  proof -
    have *: "st_layered layer st" "st_height st = head s"
      using ms_lockstep_height [OF assms(1) that] by simp_all
    have "st_height (kv_Commit C st) = 0" by (simp add: st_height_def commit_contents [OF *(1)])
    with commit_contents [OF *(1)] *(2) show ?thesis by (simp add: st_current_level)
  qed
  have s': "s' = s\<lparr>stores := \<lambda>k. map_option (kv_Commit C) (stores s k), head := InitialHead\<rparr>"
    using assms(2) unfolding ms_Write_eq [OF assms(1)] by simp
  then show "head s' = 0" by (simp add: InitialHead_def)
  show "ms_parent contents s' = ms_level contents s (head s)"
    unfolding s' ms_parent_def ms_level_def by (simp add: ms_level_map st)
  show "ms_level contents s' (head s') = ms_level contents s (head s)"
    unfolding s' InitialHead_def ms_level_def by (simp add: ms_level_map st)
qed

end

sublocale cache_layer \<subseteq> mssnap: snapshotter "ms_Snapshot C" ms_RevertToSnapshot
  ms_update head "ms_level contents" "ms_lockstep layer" "ms_legal layer"
proof unfold_locales
  fix m :: "'s multiStore"
  assume m: "ms_lockstep layer m"
  show "0 \<le> head m" using m by (simp add: ms_lockstep_def)
  show "\<exists>m'. ms_Snapshot C m = Inr (head m, m')" using m by (simp add: ms_Snapshot_eq)
  show "(\<exists>m'. ms_RevertToSnapshot m i = Inr m') \<longleftrightarrow> 0 \<le> i \<and> i < head m" for i
    using m by (simp add: ms_Revert_eq)
  show "head (ms_update f m) = head m" for f :: "string \<times> ('s \<Rightarrow> 's)" by simp
  show "ms_level contents (ms_update f m) j = ms_level contents m j" if "0 \<le> j" "j < head m" for j f
    using ms_level_update [OF m that] .
  show "ms_lockstep layer (ms_update f m)" if "ms_legal layer f" for f
    using ms_lockstep_update [OF m that] .
next
  fix m m' :: "'s multiStore" and i
  assume m: "ms_lockstep layer m" and s: "ms_Snapshot C m = Inr (i, m')"
  show "ms_lockstep layer m'" using ms_snapshot_lockstep [OF m s] .
  note m' = s [unfolded ms_Snapshot_eq [OF m]]
  show "head m' = head m + 1" using m' by auto
  have "st_level contents (snd (kv_Snapshot C st)) j = st_level contents st j"
    if "stores m k = Some st" "0 \<le> j" "j \<le> head m" for k st j
    using that ms_lockstep_height [OF m that(1)] by (simp add: st_level_snapshot)
  then show "ms_level contents m' j = ms_level contents m j" if "0 \<le> j" "j \<le> head m" for j
    using m' that by (auto simp: ms_level_def intro!: ms_level_map)
  have "st_level contents (snd (kv_Snapshot C st)) (head m + 1) = st_level contents st (head m)"
    if "stores m k = Some st" for k st
    using snapshot_current [of st] ms_lockstep_height [OF m that] by simp
  then show "ms_level contents m' (head m') = ms_level contents m (head m)"
    using m' by (auto simp: ms_level_def intro!: ms_level_map)
next
  fix m m' :: "'s multiStore" and i
  assume m: "ms_lockstep layer m" and r: "ms_RevertToSnapshot m i = Inr m'"
  show "ms_lockstep layer m'" using ms_revert_lockstep [OF m r] .
  note m' = r [unfolded ms_Revert_eq [OF m]]
  show "head m' = i" using m' by auto
  have "st_level contents (st\<lparr>cacheStores := take (nat i) (cacheStores st)\<rparr>) j = st_level contents st j"
    if "0 \<le> j" "j \<le> i" for st :: "'s kvStore" and j
    using that by (auto simp: st_level_def nth_Cons')
  then show "ms_level contents m' j = ms_level contents m j" if "0 \<le> j" "j \<le> i" for j
    using m' that by (auto simp: ms_level_def intro!: ms_level_map)
qed

section \<open>A concrete cache layer\<close>

text \<open>
  The behaviour the SDK documents for its cache stores, as a function: a layer reads
  through to its base and keeps its own writes (\<open>Some None\<close> a deletion) until they are
  written to the parent. It shows that the contract can be met and runs the witnesses.
\<close>

type_synonym ('k, 'v) overlay = "('k \<Rightarrow> 'v option) \<times> ('k \<Rightarrow> 'v option option)"

definition ov_contents :: "('k, 'v) overlay \<Rightarrow> 'k \<Rightarrow> 'v option" where
  "ov_contents c = (\<lambda>k. case snd c k of None \<Rightarrow> fst c k | Some v \<Rightarrow> v)"

definition ov_layer :: "('k, 'v) overlay \<Rightarrow> ('k, 'v) overlay \<Rightarrow> bool" where
  "ov_layer c p \<longleftrightarrow> (\<forall>k. snd c k = None \<longrightarrow> fst c k = ov_contents p k)"

definition ov_cachewrap :: "('k, 'v) overlay cachewrap" where
  "ov_cachewrap =
     \<lparr>cw_CacheWrap = (\<lambda>s. (ov_contents s, Map.empty)),
      cw_Write = (\<lambda>c p. (fst p, snd p ++ snd c))\<rparr>"

definition ov_set :: "'k \<Rightarrow> 'v option \<Rightarrow> ('k, 'v) overlay \<Rightarrow> ('k, 'v) overlay" where
  "ov_set k v c = (fst c, (snd c)(k \<mapsto> v))"

interpretation ov: cache_layer ov_cachewrap ov_contents ov_layer
  by unfold_locales
    (auto simp: ov_cachewrap_def ov_contents_def ov_layer_def map_add_def fun_eq_iff split: option.splits)

lemma ov_set_keeps_layer: "keeps_layer ov_layer (ov_set k v)"
  by (simp add: keeps_layer_def ov_layer_def ov_set_def)

section \<open>Runs of a multi store\<close>

datatype 's ms_op = MsUpdate string "'s \<Rightarrow> 's" | MsSnapshot | MsRevert int

fun ms_run :: "'s cachewrap \<Rightarrow> 's ms_op list \<Rightarrow> 's multiStore \<Rightarrow> 's multiStore res" where
  "ms_run C [] m = Inr m"
| "ms_run C (MsUpdate k f # ops) m = ms_run C ops (ms_update (k, f) m)"
| "ms_run C (MsSnapshot # ops) m = rbind (ms_Snapshot C m) (\<lambda>(_, m'). ms_run C ops m')"
| "ms_run C (MsRevert j # ops) m = rbind (ms_RevertToSnapshot m j) (ms_run C ops)"

text \<open>The writes of a run keep the layers, and its reverts are to snapshots above \<open>i\<close>.\<close>

fun ms_op_above :: "('s \<Rightarrow> 's \<Rightarrow> bool) \<Rightarrow> int \<Rightarrow> 's ms_op \<Rightarrow> bool" where
  "ms_op_above layer i (MsUpdate k f) = keeps_layer layer f"
| "ms_op_above layer i MsSnapshot = True"
| "ms_op_above layer i (MsRevert j) = (i < j)"

context cache_layer
begin

lemma ms_run_above:
  assumes "ms_run C ops n = Inr n'" "list_all (ms_op_above layer i) ops" "mssnap.above i m n"
  shows "mssnap.above i m n'"
  using assms
proof (induction ops arbitrary: n)
  case Nil
  then show ?case by simp
next
  case (Cons op ops)
  show ?case
  proof (cases op)
    case (MsUpdate k f)
    with Cons.prems have "ms_legal layer (k, f)" by (simp add: ms_legal_def)
    with Cons MsUpdate show ?thesis using mssnap.above_modify [of i m n "(k, f)"] by simp
  next
    case MsSnapshot
    with Cons show ?thesis by (auto simp: rbind_eq_Inr dest: mssnap.above_snapshot)
  next
    case (MsRevert j)
    with Cons show ?thesis by (auto simp: rbind_eq_Inr dest: mssnap.above_revert)
  qed
qed

lemma ms_run_restores:
  assumes "ms_lockstep layer m" "ms_Snapshot C m = Inr (i, m1)" "ms_run C ops m1 = Inr m2"
    and "list_all (ms_op_above layer i) ops"
  shows "\<exists>m3. ms_RevertToSnapshot m2 i = Inr m3 \<and> ms_lockstep layer m3 \<and> head m3 = head m \<and>
    (\<forall>j. 0 \<le> j \<and> j \<le> head m \<longrightarrow> ms_level contents m3 j = ms_level contents m j)"
  using mssnap.revert_restores [OF assms(1,2) ms_run_above [OF assms(3,4) mssnap.above_refl]] .

lemma ms_simulates:
  assumes "ms_lockstep layer m"
  shows "(case ms_Snapshot C m of Inl _ \<Rightarrow> False
      | Inr (i, m') \<Rightarrow> vs_Snapshot (ms_versions contents m) = (i, ms_versions contents m'))
    \<and> (case ms_RevertToSnapshot m t of Inl _ \<Rightarrow> Inl (Panic ''snapshot index out of bound'')
       | Inr m' \<Rightarrow> Inr (ms_versions contents m')) = vs_RevertToSnapshot (ms_versions contents m) t"
  unfolding ms_versions_def
  using mssnap.snapshot_refines [OF assms] mssnap.snapshot_total [OF assms]
    mssnap.revert_refines [OF assms, of t] by auto

lemma ms_flush:
  assumes "ms_lockstep layer m"
  shows "\<exists>m'. ms_Write C m = Inr m' \<and> ms_parent contents m' = ms_level contents m (head m) \<and>
    ms_level contents m' (head m') = ms_level contents m (head m) \<and>
    ms_LatestVersion m' = InitialHead \<and> (\<forall>t. \<exists>e. ms_RevertToSnapshot m' t = Inl e)"
proof -
  obtain m' where m': "ms_Write C m = Inr m'" using ms_Write_eq [OF assms, of C] by blast
  have "\<exists>e. ms_RevertToSnapshot m' t = Inl e" for t
    using mssnap.revert_iff [OF ms_write_lockstep [OF assms m'], of t]
      ms_write_contents(3) [OF assms m'] by (cases "ms_RevertToSnapshot m' t") auto
  with m' ms_write_contents [OF assms m'] show ?thesis
    by (simp add: ms_LatestVersion_def InitialHead_def)
qed

lemma ms_nested_flush:
  assumes "ms_lockstep layer m" "ms_Snapshot C m = Inr (i, m1)"
    and "ms_CacheMultiStore C m1 = Inr m2" "ms_Write C m2 = Inr m3"
  shows "ms_parent contents m3 = ms_level contents m (head m) \<and> (\<exists>e. ms_RevertToSnapshot m3 i = Inl e)"
proof -
  note m1 = ms_snapshot_lockstep [OF assms(1,2)]
  obtain j where j: "ms_Snapshot C m1 = Inr (j, m2)"
    using assms(3) by (auto simp: ms_CacheMultiStore_def rbind_eq_Inr)
  note m2 = ms_snapshot_lockstep [OF m1 j]
  have "ms_level contents m2 (head m2) = ms_level contents m (head m)"
    using mssnap.snapshot_top [OF m1 j] mssnap.snapshot_top [OF assms(1,2)] by simp
  with ms_flush [OF m2] assms(4) show ?thesis by auto
qed

end

section \<open>Properties\<close>

lemma ms_addStores_apply:
  "ms_addStores cms ks m k =
     (if k \<in> set ks then Some (kv_NewStore (fst (cms k)) (snd (cms k))) else m k)"
  by (induction ks arbitrary: m) auto

lemma st_layered_NewStore: "st_layered layer (kv_NewStore p c) \<longleftrightarrow> layer c p"
  by (simp add: st_layered_def kv_NewStore_def)

lemma st_height_NewStore [simp]: "st_height (kv_NewStore p c) = 0"
  by (simp add: st_height_def kv_NewStore_def)

lemma ms_NewStore_lockstep:
  assumes "kv_ok keys" "keys \<noteq> []" "\<And>k. k \<in> set (kv_keys keys) \<Longrightarrow> layer (snd (cms k)) (fst (cms k))"
  shows "ms_lockstep layer (ms_NewStore cms keys)"
  using assms distinct_kv_keys [OF assms(1)]
  by (auto simp: ms_lockstep_def ms_NewStore_def SortedKVStoreKeys_def ms_addStores_apply
      st_layered_NewStore InitialHead_def kv_keys_def dom_def split: if_splits)

text \<open>
  A concrete multi store with two keys, used by the witnesses: the parent of each store
  holds one entry and the store is a layer over it.
\<close>

definition ex_parent :: "string \<Rightarrow> (nat, nat) overlay" where
  "ex_parent k = (if k = ''bank'' then [1 \<mapsto> 10] else [2 \<mapsto> 20], Map.empty)"

definition ex_multi :: "(nat, nat) overlay multiStore" where
  "ex_multi = ms_NewStore (\<lambda>k. (ex_parent k, cw_CacheWrap ov_cachewrap (ex_parent k)))
     [(''bank'', ()), (''evm'', ())]"

lemma ex_multi_lockstep: "ms_lockstep ov_layer ex_multi"
  unfolding ex_multi_def by (rule ms_NewStore_lockstep) (simp_all add: ov.layer_wrap kv_ok_def)

text \<open>
  Reverting a multi store to a snapshot restores it. Take a snapshot, then run any
  sequence of writes, further snapshots and reverts to later snapshots: the revert does
  not panic, the stores are in lockstep at the height before the snapshot, and the live
  content of every store, like that of every earlier level, is what it was.
\<close>

theorem ms_revert_restores:
  assumes "cache_layer C contents layer" "ms_lockstep layer m"
    and "ms_Snapshot C m = Inr (i, m1)" "ms_run C ops m1 = Inr m2"
    and "list_all (ms_op_above layer i) ops"
  shows "\<exists>m3. ms_RevertToSnapshot m2 i = Inr m3 \<and> ms_lockstep layer m3 \<and>
    ms_LatestVersion m3 = ms_LatestVersion m \<and>
    (\<forall>j. 0 \<le> j \<and> j \<le> head m \<longrightarrow> ms_level contents m3 j = ms_level contents m j)"
  unfolding ms_LatestVersion_def
  using cache_layer.ms_run_restores [OF assms] .

definition ex_ops :: "(nat, nat) overlay ms_op list" where
  "ex_ops = [MsUpdate ''bank'' (ov_set 1 None), MsSnapshot, MsUpdate ''evm'' (ov_set 7 (Some 70)),
     MsSnapshot, MsRevert 1]"

lemma ex_run:
  "rbind (ms_Snapshot ov_cachewrap ex_multi) (\<lambda>(i, m1). rbind (ms_run ov_cachewrap ex_ops m1)
     (\<lambda>m2. Inr (i, map_option (\<lambda>c. c 1) (ms_level ov_contents m2 (head m2) ''bank'')))) =
   Inr (0, Some None)"
  by code_simp

theorem ms_revert_restores_witness:
  "\<exists>m1 m2 m3. ms_Snapshot ov_cachewrap ex_multi = Inr (0, m1) \<and> ms_run ov_cachewrap ex_ops m1 = Inr m2
     \<and> map_option (\<lambda>c. c 1) (ms_level ov_contents m2 (head m2) ''bank'') = Some None
     \<and> ms_RevertToSnapshot m2 0 = Inr m3
     \<and> map_option (\<lambda>c. c 1) (ms_level ov_contents m3 0 ''bank'') = Some (Some 10)"
proof -
  obtain m1 m2 where m1: "ms_Snapshot ov_cachewrap ex_multi = Inr (0, m1)"
    and m2: "ms_run ov_cachewrap ex_ops m1 = Inr m2"
      "map_option (\<lambda>c. c 1) (ms_level ov_contents m2 (head m2) ''bank'') = Some None"
    using ex_run by (auto simp: rbind_eq_Inr split: prod.splits)
  have ops: "list_all (ms_op_above ov_layer 0) ex_ops"
    by (simp add: ex_ops_def ov_set_keeps_layer)
  have "head ex_multi = 0" "map_option (\<lambda>c. c 1) (ms_level ov_contents ex_multi 0 ''bank'') = Some (Some 10)"
    by code_simp+
  with ms_revert_restores [OF ov.cache_layer_axioms ex_multi_lockstep m1 m2(1) ops] m1 m2
  show ?thesis by auto
qed



text \<open>
  \<open>Write\<close> of the multi store flushes what its client sees: on stores in lockstep it does
  not panic, afterwards every parent store holds the live content the store had, the live
  content is unchanged, and no snapshot is left.
\<close>

theorem ms_Write_flushes:
  assumes "cache_layer C contents layer" "ms_lockstep layer m"
  shows "\<exists>m'. ms_Write C m = Inr m' \<and> ms_parent contents m' = ms_level contents m (head m) \<and>
    ms_level contents m' (head m') = ms_level contents m (head m) \<and>
    ms_LatestVersion m' = InitialHead \<and> (\<forall>t. \<exists>e. ms_RevertToSnapshot m' t = Inl e)"
  using cache_layer.ms_flush [OF assms] .

theorem ms_Write_flushes_witness:
  "\<exists>m'. ms_Write ov_cachewrap ex_multi = Inr m' \<and>
     ms_parent ov_contents m' = ms_level ov_contents ex_multi (head ex_multi)"
  using ms_Write_flushes [OF ov.cache_layer_axioms ex_multi_lockstep] by blast

text \<open>
  C10. The store that \<open>CacheMultiStore\<close> (and so a nested \<open>CacheContext\<close>) returns is the
  receiver itself: writing it back flushes every layer down to the base and forgets every
  snapshot, so a snapshot taken before the nested branch can no longer be reverted to.
\<close>

theorem ms_nested_write_forgets:
  assumes "cache_layer C contents layer" "ms_lockstep layer m"
    and "ms_Snapshot C m = Inr (i, m1)" "ms_CacheMultiStore C m1 = Inr m2" "ms_Write C m2 = Inr m3"
  shows "ms_parent contents m3 = ms_level contents m (head m) \<and> (\<exists>e. ms_RevertToSnapshot m3 i = Inl e)"
  using cache_layer.ms_nested_flush [OF assms] .

lemma ex_nested_run:
  "case rbind (ms_Snapshot ov_cachewrap ex_multi) (\<lambda>(i, m1). rbind (ms_CacheMultiStore ov_cachewrap m1)
     (\<lambda>m2. rbind (ms_Write ov_cachewrap m2) (\<lambda>m3. Inr i))) of Inl _ \<Rightarrow> False | Inr i \<Rightarrow> i = 0"
  by code_simp

theorem ms_nested_write_forgets_witness:
  "\<exists>m1 m2 m3 e. ms_Snapshot ov_cachewrap ex_multi = Inr (0, m1) \<and> ms_CacheMultiStore ov_cachewrap m1 = Inr m2
     \<and> ms_Write ov_cachewrap m2 = Inr m3 \<and> ms_RevertToSnapshot m3 0 = Inl e"
proof -
  obtain m1 m2 m3 where "ms_Snapshot ov_cachewrap ex_multi = Inr (0, m1)"
    "ms_CacheMultiStore ov_cachewrap m1 = Inr m2" "ms_Write ov_cachewrap m2 = Inr m3"
    using ex_nested_run by (auto simp: rbind_def split: sum.splits prod.splits)
  with ms_nested_write_forgets [OF ov.cache_layer_axioms ex_multi_lockstep this] show ?thesis by blast
qed

end
