(* ===== verification/AccessList.thy ===== *)
theory AccessList
  imports Prelude
begin

text \<open>
  The EIP-2929 access list (\<open>x/vm/statedb/access_list.go\<close>) and the EIP-1153 transient
  storage (\<open>x/vm/statedb/transient_storage.go\<close>). Each refines a plain set or function, and
  the operations the journal uses to undo an addition restore the list exactly.
\<close>

section \<open>The access list\<close>

record accessList =
  addresses :: "address \<Rightarrow> int option"
  slots :: "hash set list"

definition al_ContainsAddress :: "accessList \<Rightarrow> address \<Rightarrow> bool" where
  "al_ContainsAddress al a = (addresses al a \<noteq> None)"

text \<open>Indexing a slice out of its range panics.\<close>

definition slot_at :: "hash set list \<Rightarrow> int \<Rightarrow> hash set res" where
  "slot_at xs i =
     (if 0 \<le> i \<and> i < int (length xs) then Inr (xs ! nat i) else Inl (Panic ''index out of range''))"

definition al_Contains :: "accessList \<Rightarrow> address \<Rightarrow> hash \<Rightarrow> (bool \<times> bool) res" where
  "al_Contains al a slot =
     (case addresses al a of
        None \<Rightarrow> Inr (False, False)
      | Some idx \<Rightarrow>
          if idx = -1 then Inr (True, False)
          else rbind (slot_at (slots al) idx) (\<lambda>slotmap. Inr (True, slot \<in> slotmap)))"

definition newAccessList :: accessList where
  "newAccessList = \<lparr>addresses = Map.empty, slots = []\<rparr>"

definition al_AddAddress :: "accessList \<Rightarrow> address \<Rightarrow> bool \<times> accessList" where
  "al_AddAddress al a =
     (if addresses al a \<noteq> None then (False, al)
      else (True, al\<lparr>addresses := (addresses al)(a \<mapsto> -1)\<rparr>))"

definition al_AddSlot :: "accessList \<Rightarrow> address \<Rightarrow> hash \<Rightarrow> ((bool \<times> bool) \<times> accessList) res" where
  "al_AddSlot al a slot =
     (let addrPresent = addresses al a \<noteq> None;
          idx = (case addresses al a of None \<Rightarrow> 0 | Some i \<Rightarrow> i)
      in if \<not> addrPresent \<or> idx = -1
         then Inr ((\<not> addrPresent, True),
                   al\<lparr>addresses := (addresses al)(a \<mapsto> int (length (slots al))),
                      slots := slots al @ [{slot}]\<rparr>)
         else rbind (slot_at (slots al) idx) (\<lambda>slotmap.
              if slot \<notin> slotmap
              then Inr ((False, True), al\<lparr>slots := (slots al)[nat idx := insert slot slotmap]\<rparr>)
              else Inr ((False, False), al)))"

definition al_DeleteSlot :: "accessList \<Rightarrow> address \<Rightarrow> hash \<Rightarrow> accessList res" where
  "al_DeleteSlot al a slot =
     (case addresses al a of
        None \<Rightarrow> Inl (Panic ''reverting slot change, address not present in list'')
      | Some idx \<Rightarrow> rbind (slot_at (slots al) idx) (\<lambda>slotmap.
          let slotmap' = slotmap - {slot}
          in if slotmap' = {}
             then Inr (al\<lparr>slots := take (nat idx) (slots al),
                          addresses := (addresses al)(a \<mapsto> -1)\<rparr>)
             else Inr (al\<lparr>slots := (slots al)[nat idx := slotmap']\<rparr>)))"

definition al_DeleteAddress :: "accessList \<Rightarrow> address \<Rightarrow> accessList" where
  "al_DeleteAddress al a = al\<lparr>addresses := (addresses al)(a := None)\<rparr>"

section \<open>Well-formed lists and their meaning\<close>

text \<open>
  An address has no slots (\<open>-1\<close>) or an index of its own into the slots, whose sets are
  not empty.
\<close>

definition al_wf :: "accessList \<Rightarrow> bool" where
  "al_wf al \<longleftrightarrow>
     (\<forall>a i. addresses al a = Some i \<longrightarrow> i = -1 \<or> (0 \<le> i \<and> i < int (length (slots al)))) \<and>
     (\<forall>a b i. addresses al a = Some i \<longrightarrow> addresses al b = Some i \<longrightarrow> 0 \<le> i \<longrightarrow> a = b) \<and>
     {} \<notin> set (slots al)"

text \<open>The meaning of a list: the warm addresses and the warm (address, slot) pairs.\<close>

definition al_warm :: "accessList \<Rightarrow> address set" where
  "al_warm al = {a. addresses al a \<noteq> None}"

definition al_warm_slots :: "accessList \<Rightarrow> (address \<times> hash) set" where
  "al_warm_slots al =
     {(a, h). \<exists>i. addresses al a = Some i \<and> 0 \<le> i \<and> i < int (length (slots al)) \<and> h \<in> slots al ! nat i}"

lemma al_warm_slots_iff:
  "(a, h) \<in> al_warm_slots al \<longleftrightarrow>
     (\<exists>i. addresses al a = Some (int i) \<and> i < length (slots al) \<and> h \<in> slots al ! i)"
proof
  assume "(a, h) \<in> al_warm_slots al"
  then obtain j where j: "addresses al a = Some j" "0 \<le> j" "j < int (length (slots al))"
    "h \<in> slots al ! nat j" unfolding al_warm_slots_def by blast
  then show "\<exists>i. addresses al a = Some (int i) \<and> i < length (slots al) \<and> h \<in> slots al ! i"
    by (intro exI [of _ "nat j"]) auto
qed (auto simp: al_warm_slots_def)

lemma al_wf_index:
  "al_wf al \<Longrightarrow> addresses al a = Some (int i) \<Longrightarrow> i < length (slots al)"
  unfolding al_wf_def by fastforce

lemma al_wf_new [simp]: "al_wf newAccessList"
  by (simp add: al_wf_def newAccessList_def)

lemma al_warm_new [simp]: "al_warm newAccessList = {}" "al_warm_slots newAccessList = {}"
  by (simp_all add: al_warm_def al_warm_slots_def newAccessList_def)

lemma al_wf_AddAddress: "al_wf al \<Longrightarrow> al_wf (snd (al_AddAddress al a))"
  by (fastforce simp: al_wf_def al_AddAddress_def)

lemma al_warm_AddAddress:
  "al_warm (snd (al_AddAddress al a)) = insert a (al_warm al)"
  "al_warm_slots (snd (al_AddAddress al a)) = al_warm_slots al"
  by (auto simp: al_warm_def al_warm_slots_def al_AddAddress_def split: if_splits)

lemma fst_al_AddAddress: "fst (al_AddAddress al a) \<longleftrightarrow> a \<notin> al_warm al"
  by (auto simp: al_AddAddress_def al_warm_def)

lemma al_DeleteAddress_Add:
  "fst (al_AddAddress al a) \<Longrightarrow> al_DeleteAddress (snd (al_AddAddress al a)) a = al"
  by (auto simp: al_AddAddress_def al_DeleteAddress_def fun_upd_idem split: if_splits)

text \<open>The three ways to add a slot.\<close>

lemma al_AddSlot_cases:
  assumes "al_wf al"
  obtains
    (fresh) "addresses al a = None \<or> addresses al a = Some (-1)"
      "al_AddSlot al a h = Inr ((addresses al a = None, True),
         al\<lparr>addresses := (addresses al)(a \<mapsto> int (length (slots al))), slots := slots al @ [{h}]\<rparr>)"
  | (more) i where "addresses al a = Some (int i)" "i < length (slots al)" "h \<notin> slots al ! i"
      "al_AddSlot al a h = Inr ((False, True), al\<lparr>slots := (slots al)[i := insert h (slots al ! i)]\<rparr>)"
  | (present) i where "addresses al a = Some (int i)" "i < length (slots al)" "h \<in> slots al ! i"
      "al_AddSlot al a h = Inr ((False, False), al)"
proof (cases "addresses al a = None \<or> addresses al a = Some (-1)")
  case True
  then show ?thesis by (intro fresh) (auto simp: al_AddSlot_def Let_def)
next
  case False
  then obtain j where j: "addresses al a = Some j" "0 \<le> j" "j < int (length (slots al))" "j \<noteq> -1"
    using assms unfolding al_wf_def by (metis not_None_eq)
  then obtain i where i: "j = int i" using zero_le_imp_eq_int by blast
  show ?thesis
  proof (cases "h \<in> slots al ! i")
    case True
    with j i show ?thesis by (intro present [of i]) (auto simp: al_AddSlot_def slot_at_def Let_def)
  next
    case False
    with j i show ?thesis by (intro more [of i]) (auto simp: al_AddSlot_def slot_at_def Let_def)
  qed
qed

lemma al_wf_AddSlot:
  assumes "al_wf al" "al_AddSlot al a h = Inr (c, al')"
  shows "al_wf al'"
proof (cases rule: al_AddSlot_cases [OF assms(1), of a h])
  case 1
  then have al': "al' = al\<lparr>addresses := (addresses al)(a \<mapsto> int (length (slots al))), slots := slots al @ [{h}]\<rparr>"
    using assms(2) by simp
  have old: "i = -1 \<or> (0 \<le> i \<and> i < int (length (slots al)))" if "addresses al b = Some i" for b i
    using that assms(1) unfolding al_wf_def by blast
  have inj: "b = c" if "addresses al b = Some i" "addresses al c = Some i" "0 \<le> i" for b c i
    using that assms(1) unfolding al_wf_def by blast
  show ?thesis
    unfolding al_wf_def al'
    using assms(1) old inj by (fastforce simp: al_wf_def split: if_splits)
next
  case (2 i)
  then show ?thesis
    using assms by (auto simp: al_wf_def dest: set_update_subset_insert [THEN subsetD])
next
  case (3 i)
  then show ?thesis using assms by simp
qed

lemma al_warm_AddSlot:
  assumes "al_wf al" "al_AddSlot al a h = Inr (c, al')"
  shows "al_warm al' = insert a (al_warm al) \<and>
    al_warm_slots al' = insert (a, h) (al_warm_slots al) \<and>
    c = (a \<notin> al_warm al, (a, h) \<notin> al_warm_slots al)"
proof (cases rule: al_AddSlot_cases [OF assms(1), of a h])
  case 1
  then have al': "al' = al\<lparr>addresses := (addresses al)(a \<mapsto> int (length (slots al))), slots := slots al @ [{h}]\<rparr>"
    and c: "c = (addresses al a = None, True)"
    using assms(2) by simp_all
  have "al_warm al' = insert a (al_warm al)" by (auto simp: al' al_warm_def)
  moreover have "al_warm_slots al' = insert (a, h) (al_warm_slots al)"
    using 1(1) al_wf_index [OF assms(1)]
    by (auto simp: al_warm_slots_iff al' nth_append split: if_splits)
  moreover have "c = (a \<notin> al_warm al, (a, h) \<notin> al_warm_slots al)"
    using 1(1) by (auto simp: c al_warm_def al_warm_slots_def)
  ultimately show ?thesis by blast
next
  case (2 i)
  then have al': "al' = al\<lparr>slots := (slots al)[i := insert h (slots al ! i)]\<rparr>" and c: "c = (False, True)"
    using assms(2) by simp_all
  have inj: "b = a" if "addresses al b = Some (int i)" for b
    using that 2(1) assms(1) unfolding al_wf_def by fastforce
  have "al_warm al' = insert a (al_warm al)" using 2(1) by (auto simp: al' al_warm_def)
  moreover have "al_warm_slots al' = insert (a, h) (al_warm_slots al)"
    using 2(1,2) by (auto simp: al_warm_slots_iff al' nth_list_update split: if_splits dest: inj)
  moreover have "c = (a \<notin> al_warm al, (a, h) \<notin> al_warm_slots al)"
    using 2 by (auto simp: c al_warm_def al_warm_slots_def)
  ultimately show ?thesis by blast
next
  case (3 i)
  then have [simp]: "al' = al" "c = (False, False)" using assms(2) by simp_all
  have "a \<in> al_warm al" "(a, h) \<in> al_warm_slots al"
    using 3 by (auto simp: al_warm_def al_warm_slots_def)
  then show ?thesis by auto
qed

lemma al_AddSlot_total: "al_wf al \<Longrightarrow> \<exists>c al'. al_AddSlot al a h = Inr (c, al')"
  by (cases rule: al_AddSlot_cases [of al a h]) auto

text \<open>
  Undoing an added slot, and then the address if the addition recorded it too, gives
  back the list as it was: the same indices, the same slices.
\<close>

lemma al_DeleteSlot_Add:
  assumes "al_wf al" "al_AddSlot al a h = Inr ((addrMod, True), al')"
  shows "al_DeleteSlot al' a h =
    Inr (if addrMod then snd (al_AddAddress al a) else al)"
proof (cases rule: al_AddSlot_cases [OF assms(1), of a h])
  case 1
  then show ?thesis
    using assms(2)
    by (auto simp: al_DeleteSlot_def slot_at_def al_AddAddress_def Let_def fun_upd_idem)
next
  case (2 i)
  have "slots al ! i \<noteq> {}" using assms(1) 2(2) unfolding al_wf_def by (metis nth_mem)
  then have ne: "insert h (slots al ! i) - {h} = slots al ! i" "\<not> slots al ! i \<subseteq> {h}"
    using 2(3) by blast+
  have "addrMod = False" "al' = al\<lparr>slots := (slots al)[i := insert h (slots al ! i)]\<rparr>"
    using assms(2) 2(4) by simp_all
  with ne show ?thesis using 2 by (simp add: al_DeleteSlot_def slot_at_def Let_def)
next
  case (3 i)
  then show ?thesis using assms(2) by simp
qed

lemma al_Contains_eq:
  assumes "al_wf al"
  shows "al_Contains al a h = Inr (a \<in> al_warm al, (a, h) \<in> al_warm_slots al)"
  using assms unfolding al_wf_def
  by (force simp: al_Contains_def slot_at_def al_warm_def al_warm_slots_def split: option.splits)

section \<open>Transient storage\<close>

text \<open>A Go map of Go maps; the inner map of an address is never empty.\<close>

type_synonym transientStorage = "(address, (hash, hash) kv) kv"

definition newTransientStorage :: transientStorage where
  "newTransientStorage = []"

definition ts_Set :: "transientStorage \<Rightarrow> address \<Rightarrow> hash \<Rightarrow> hash \<Rightarrow> transientStorage" where
  "ts_Set t addr key v =
     (if v = 0 then
        (case kv_get t addr of
           None \<Rightarrow> t
         | Some storage \<Rightarrow>
             let storage' = kv_delete key storage
             in if storage' = [] then kv_delete addr t else kv_set addr storage' t)
      else
        (let storage = (case kv_get t addr of None \<Rightarrow> [] | Some storage \<Rightarrow> storage)
         in kv_set addr (kv_set key v storage) t))"

definition ts_Get :: "transientStorage \<Rightarrow> address \<Rightarrow> hash \<Rightarrow> hash" where
  "ts_Get t addr key =
     (case kv_get t addr of
        None \<Rightarrow> 0
      | Some storage \<Rightarrow> (case kv_get storage key of None \<Rightarrow> 0 | Some v \<Rightarrow> v))"

definition storage_Copy :: "(hash, hash) kv \<Rightarrow> (hash, hash) kv" where
  "storage_Copy s = fold (\<lambda>(k, v) cpy. kv_set k v cpy) s []"

definition ts_Copy :: "transientStorage \<Rightarrow> transientStorage" where
  "ts_Copy t = fold (\<lambda>(k, v) storage. kv_set k (storage_Copy v) storage) t []"

definition ts_wf :: "transientStorage \<Rightarrow> bool" where
  "ts_wf t \<longleftrightarrow> kv_ok t \<and>
     (\<forall>a st. kv_get t a = Some st \<longrightarrow> kv_ok st \<and> st \<noteq> [] \<and> (\<forall>k. kv_get st k \<noteq> Some 0))"

lemma ts_wf_new [simp]: "ts_wf newTransientStorage"
  by (simp add: ts_wf_def newTransientStorage_def)

lemma ts_wf_ok:
  "ts_wf t \<Longrightarrow> kv_ok t" "ts_wf t \<Longrightarrow> kv_get t a = Some st \<Longrightarrow> kv_ok st"
  by (auto simp: ts_wf_def)

lemma ts_wf_value:
  assumes "ts_wf t" "kv_get t a = Some st" "kv_get st k = Some v"
  shows "v \<noteq> 0"
  using assms unfolding ts_wf_def by blast

lemma ts_wf_nonempty:
  assumes "ts_wf t" "kv_get t a = Some st"
  obtains k where "ts_Get t a k \<noteq> 0"
proof -
  obtain k v where "(k, v) \<in> set st" using assms unfolding ts_wf_def by (cases st) force+
  then have "kv_get st k = Some v" using kv_get_in [OF ts_wf_ok(2) [OF assms]] by blast
  with assms ts_wf_value [OF assms this] that [of k] show thesis by (simp add: ts_Get_def)
qed

lemma ts_Get_absent:
  assumes "kv_get x a = None" "ts_wf y" "ts_Get x = ts_Get y"
  shows "kv_get y a = None"
proof (rule ccontr)
  assume "kv_get y a \<noteq> None"
  then obtain st where "kv_get y a = Some st" by blast
  then obtain k where "ts_Get y a k \<noteq> 0" using ts_wf_nonempty assms(2) by blast
  moreover have "ts_Get x a k = 0" using assms(1) by (simp add: ts_Get_def)
  ultimately show False using assms(3) by simp
qed

text \<open>The representation is canonical, so equal readings are equal storages.\<close>

lemma ts_eqI:
  assumes t: "ts_wf t" and u: "ts_wf u" and eq: "ts_Get t = ts_Get u"
  shows "t = u"
proof (rule kv_eqI [OF ts_wf_ok(1) [OF t] ts_wf_ok(1) [OF u]], rule ext)
  fix a
  show "kv_get t a = kv_get u a"
  proof (cases "kv_get t a = None \<or> kv_get u a = None")
    case True
    then show ?thesis using ts_Get_absent [of t a u] ts_Get_absent [of u a t] t u eq by auto
  next
    case False
    then obtain st su where st: "kv_get t a = Some st" "kv_get u a = Some su" by auto
    have "kv_get st k = kv_get su k" for k
      using fun_cong [OF fun_cong [OF eq, of a], of k] st
        ts_wf_value [OF t st(1), of k] ts_wf_value [OF u st(2), of k]
      by (cases "kv_get st k"; cases "kv_get su k") (simp_all add: ts_Get_def)
    then have "st = su" using kv_eqI [OF ts_wf_ok(2) [OF t st(1)] ts_wf_ok(2) [OF u st(2)]] by blast
    with st show ?thesis by simp
  qed
qed

lemma kv_delete_empty:
  assumes "kv_delete k st = []" "x \<noteq> k"
  shows "kv_get st x = None"
proof -
  have "kv_get (kv_delete k st) x = None" by (simp add: assms(1))
  with assms(2) show ?thesis by (simp add: kv_get_delete)
qed

lemma kv_set_nonempty [simp]: "kv_set k v st \<noteq> []"
  using keys_kv_set [of k v st] by auto

lemma ts_Get_Set: "ts_Get (ts_Set t a k v) b x = (if b = a \<and> x = k then v else ts_Get t b x)"
proof (cases "b = a")
  case False
  then have "kv_get (ts_Set t a k v) b = kv_get t b"
    by (simp add: ts_Set_def kv_simps Let_def split: option.split)
  with False show ?thesis by (simp add: ts_Get_def)
next
  case True
  show ?thesis
  proof (cases "kv_get t a")
    case None
    with True show ?thesis by (simp add: ts_Set_def ts_Get_def kv_get_set)
  next
    case (Some st)
    have "v = 0 \<Longrightarrow> kv_delete k st = [] \<Longrightarrow> x \<noteq> k \<Longrightarrow> kv_get st x = None"
      by (rule kv_delete_empty)
    with True Some show ?thesis
      by (simp add: ts_Set_def ts_Get_def kv_get_set kv_get_delete Let_def)
  qed
qed

lemma ts_wf_Set:
  assumes "ts_wf t"
  shows "ts_wf (ts_Set t a k v)"
proof -
  define st where "st = (case kv_get t a of None \<Rightarrow> [] | Some st \<Rightarrow> st)"
  have st: "kv_ok st" "\<And>x. kv_get st x \<noteq> Some 0"
    using assms by (auto simp: st_def ts_wf_def split: option.split)
  have upd: "ts_wf (kv_set a st' t)" if "kv_ok st'" "st' \<noteq> []" "\<And>x. kv_get st' x \<noteq> Some 0" for st'
    using assms that by (simp add: ts_wf_def kv_get_set)
  have del: "ts_wf (kv_delete a t)" using assms by (simp add: ts_wf_def kv_get_delete)
  show ?thesis
  proof (cases "v = 0")
    case True
    have "ts_wf (kv_set a (kv_delete k st) t)" if "kv_delete k st \<noteq> []"
      using st that by (intro upd) (simp_all add: kv_get_delete)
    with True del assms show ?thesis
      by (auto simp: ts_Set_def Let_def st_def split: option.splits)
  next
    case False
    have "ts_wf (kv_set a (kv_set k v st) t)"
      using st False by (intro upd) (simp_all add: kv_get_set)
    with False show ?thesis by (simp add: ts_Set_def Let_def st_def)
  qed
qed

lemma ts_Set_undo:
  assumes "ts_wf t"
  shows "ts_Set (ts_Set t a k v) a k (ts_Get t a k) = t"
  using assms by (intro ts_eqI) (auto simp: ts_wf_Set ts_Get_Set fun_eq_iff)

end
