(* ===== verification/StateDB.thy ===== *)
theory StateDB
  imports SnapshotStore AccessList
begin

text \<open>
  The model of \<open>x/vm/statedb\<close>: the state objects (\<open>state_object.go\<close>), the journal
  (\<open>journal.go\<close>) and the \<open>StateDB\<close> itself (\<open>statedb.go\<close>), one definition per method. A method
  that reads through to the keeper fills a cache, so getters return the new state too.
  Objects are held by value: no pointer to an object outlives its place in
  \<open>stateObjects\<close>, apart from the one a \<open>resetObjectChange\<close> keeps until it is put back, and
  balances are never changed in place.
\<close>

unbundle bit_operations_syntax

section \<open>Accounts and the keeper interface\<close>

record Account =
  acc_Nonce :: u64
  acc_Balance :: u256
  acc_CodeHash :: hash

text \<open>The same struct as it is passed around, where the pointers may be nil.\<close>

record AccountIn =
  in_Nonce :: u64
  in_Balance :: "u256 option"
  in_CodeHash :: "hash option"

text \<open>
  \<open>statedb.Keeper\<close> is an interface, a parameter of the model; \<open>'c\<close> is the store of a
  context. \<open>k_MultiStoreNil\<close>, \<open>k_CacheContext\<close> and \<open>k_CacheEvents\<close> stand for the methods of
  \<open>sdk.Context\<close>: the last two give the store and the initial events of the branched context. \<open>nil\<close> and empty
  byte slices differ, so \<open>k_GetCode\<close> gives an option.
\<close>

record 'c keeper =
  k_GetAccount :: "'c \<Rightarrow> address \<Rightarrow> AccountIn option"
  k_GetState :: "'c \<Rightarrow> address \<Rightarrow> hash \<Rightarrow> hash"
  k_GetCode :: "'c \<Rightarrow> hash \<Rightarrow> bytes option"
  k_ForEachStorage :: "'c \<Rightarrow> address \<Rightarrow> (hash \<times> hash) list"
  k_SetAccount :: "'c \<Rightarrow> address \<Rightarrow> Account \<Rightarrow> 'c res"
  k_DeleteState :: "'c \<Rightarrow> address \<Rightarrow> hash \<Rightarrow> 'c"
  k_SetState :: "'c \<Rightarrow> address \<Rightarrow> hash \<Rightarrow> bytes \<Rightarrow> 'c"
  k_DeleteCode :: "'c \<Rightarrow> hash \<Rightarrow> 'c"
  k_SetCode :: "'c \<Rightarrow> hash \<Rightarrow> bytes \<Rightarrow> 'c"
  k_DeleteAccount :: "'c \<Rightarrow> address \<Rightarrow> 'c res"
  k_Keccak256 :: "bytes \<Rightarrow> hash"
  k_MultiStoreNil :: "'c \<Rightarrow> bool"
  k_CacheContext :: "'c \<Rightarrow> 'c"
  k_CacheEvents :: "event list \<Rightarrow> event list"

definition EmptyCodeHash :: "'c keeper \<Rightarrow> hash" where
  "EmptyCodeHash K = k_Keccak256 K []"

definition IsEmptyCodeHash :: "'c keeper \<Rightarrow> hash \<Rightarrow> bool" where
  "IsEmptyCodeHash K h = (h = EmptyCodeHash K)"

definition NewEmptyAccount :: "'c keeper \<Rightarrow> Account" where
  "NewEmptyAccount K = \<lparr>acc_Nonce = 0, acc_Balance = 0, acc_CodeHash = EmptyCodeHash K\<rparr>"

definition HasCodeHash :: "'c keeper \<Rightarrow> Account \<Rightarrow> bool" where
  "HasCodeHash K acct = (\<not> IsEmptyCodeHash K (acc_CodeHash acct))"

text \<open>\<open>common.Hash.Bytes\<close> and \<open>common.BytesToHash\<close>, big endian.\<close>

definition hash_Bytes :: "hash \<Rightarrow> bytes" where
  "hash_Bytes h = map (\<lambda>i. ucast (drop_bit (8 * (31 - i)) h)) [0..<32]"

definition BytesToHash :: "bytes \<Rightarrow> hash" where
  "BytesToHash bs = fold (\<lambda>b h. push_bit 8 h OR ucast b) bs 0"

section \<open>State objects\<close>

type_synonym Storage = "(hash, hash) kv"

definition SortedKeys :: "Storage \<Rightarrow> hash list" where
  "SortedKeys s = kv_keys s"

record stateObject =
  so_account :: Account
  so_code :: "bytes option"
  originStorage :: Storage
  dirtyStorage :: Storage
  overrideStorage :: "Storage option"
  so_address :: address
  dirtyCode :: bool
  selfDestructed :: bool
  newContract :: bool

definition newObject :: "'c keeper \<Rightarrow> address \<Rightarrow> AccountIn \<Rightarrow> stateObject" where
  "newObject K addr acct =
     \<lparr>so_account = \<lparr>acc_Nonce = in_Nonce acct,
        acc_Balance = (case in_Balance acct of None \<Rightarrow> 0 | Some b \<Rightarrow> b),
        acc_CodeHash = (case in_CodeHash acct of None \<Rightarrow> EmptyCodeHash K | Some h \<Rightarrow> h)\<rparr>,
      so_code = None, originStorage = [], dirtyStorage = [], overrideStorage = None,
      so_address = addr, dirtyCode = False, selfDestructed = False, newContract = False\<rparr>"

definition so_empty :: "'c keeper \<Rightarrow> stateObject \<Rightarrow> bool" where
  "so_empty K obj =
     (acc_Nonce (so_account obj) = 0 \<and> acc_Balance (so_account obj) = 0 \<and>
      IsEmptyCodeHash K (acc_CodeHash (so_account obj)))"

definition so_markSelfDestructed :: "stateObject \<Rightarrow> stateObject" where
  "so_markSelfDestructed obj = obj\<lparr>selfDestructed := True\<rparr>"

definition so_setBalance :: "u256 \<Rightarrow> stateObject \<Rightarrow> stateObject" where
  "so_setBalance amount obj = obj\<lparr>so_account := (so_account obj)\<lparr>acc_Balance := amount\<rparr>\<rparr>"

definition so_setNonce :: "u64 \<Rightarrow> stateObject \<Rightarrow> stateObject" where
  "so_setNonce nonce obj = obj\<lparr>so_account := (so_account obj)\<lparr>acc_Nonce := nonce\<rparr>\<rparr>"

definition so_setCode :: "hash \<Rightarrow> bytes option \<Rightarrow> stateObject \<Rightarrow> stateObject" where
  "so_setCode codeHash code obj =
     obj\<lparr>so_code := code, so_account := (so_account obj)\<lparr>acc_CodeHash := codeHash\<rparr>, dirtyCode := True\<rparr>"

definition so_Code :: "'c keeper \<Rightarrow> 'c \<Rightarrow> stateObject \<Rightarrow> bytes option \<times> stateObject" where
  "so_Code K c obj =
     (case so_code obj of
        Some code \<Rightarrow> (Some code, obj)
      | None \<Rightarrow>
          if IsEmptyCodeHash K (acc_CodeHash (so_account obj)) then (None, obj)
          else let code = k_GetCode K c (acc_CodeHash (so_account obj)) in (code, obj\<lparr>so_code := code\<rparr>))"

definition so_CodeSize :: "'c keeper \<Rightarrow> 'c \<Rightarrow> stateObject \<Rightarrow> int \<times> stateObject" where
  "so_CodeSize K c obj =
     (case so_Code K c obj of (code, obj') \<Rightarrow>
        (case code of None \<Rightarrow> 0 | Some bs \<Rightarrow> int (length bs), obj'))"

definition so_GetCommittedState :: "'c keeper \<Rightarrow> 'c \<Rightarrow> hash \<Rightarrow> stateObject \<Rightarrow> hash \<times> stateObject" where
  "so_GetCommittedState K c key obj =
     (case overrideStorage obj of
        Some ov \<Rightarrow> (case kv_get ov key of Some v \<Rightarrow> (v, obj) | None \<Rightarrow> (0, obj))
      | None \<Rightarrow>
          (case kv_get (originStorage obj) key of
             Some v \<Rightarrow> (v, obj)
           | None \<Rightarrow>
               let v = k_GetState K c (so_address obj) key
               in (v, obj\<lparr>originStorage := kv_set key v (originStorage obj)\<rparr>)))"

definition so_GetState :: "'c keeper \<Rightarrow> 'c \<Rightarrow> hash \<Rightarrow> stateObject \<Rightarrow> hash \<times> stateObject" where
  "so_GetState K c key obj =
     (case kv_get (dirtyStorage obj) key of
        Some v \<Rightarrow> (v, obj)
      | None \<Rightarrow> so_GetCommittedState K c key obj)"

definition so_setState :: "hash \<Rightarrow> hash \<Rightarrow> hash \<Rightarrow> stateObject \<Rightarrow> stateObject" where
  "so_setState key v origin obj =
     (if v = origin then obj\<lparr>dirtyStorage := kv_delete key (dirtyStorage obj)\<rparr>
      else obj\<lparr>dirtyStorage := kv_set key v (dirtyStorage obj)\<rparr>)"

definition so_SetStorage :: "Storage \<Rightarrow> stateObject \<Rightarrow> stateObject" where
  "so_SetStorage storage obj =
     obj\<lparr>overrideStorage := Some storage, originStorage := [], dirtyStorage := []\<rparr>"

definition so_SetStateOverride :: "hash \<Rightarrow> hash \<Rightarrow> stateObject \<Rightarrow> stateObject" where
  "so_SetStateOverride key v obj =
     obj\<lparr>originStorage := kv_set key v (originStorage obj),
        dirtyStorage := kv_delete key (dirtyStorage obj),
        overrideStorage := map_option (kv_set key v) (overrideStorage obj)\<rparr>"

section \<open>The journal and the StateDB\<close>

datatype JournalEntry =
    createObjectChange address
  | resetObjectChange stateObject
  | selfDestructChange address bool u256
  | balanceChange address u256
  | nonceChange address u64
  | storageChange address hash hash hash
  | transientStorageChange address hash hash
  | codeChange address "bytes option" hash
  | refundChange u64
  | addLogChange
  | accessListAddAccountChange address
  | accessListAddSlotChange address hash
  | precompileCallChange int "event list"
  | createContractChange address

fun Dirtied :: "JournalEntry \<Rightarrow> address option" where
  "Dirtied (createObjectChange a) = Some a"
| "Dirtied (resetObjectChange prev) = None"
| "Dirtied (selfDestructChange a p b) = Some a"
| "Dirtied (balanceChange a p) = Some a"
| "Dirtied (nonceChange a p) = Some a"
| "Dirtied (storageChange a k p q) = Some a"
| "Dirtied (transientStorageChange a k p) = None"
| "Dirtied (codeChange a c h) = Some a"
| "Dirtied (refundChange p) = None"
| "Dirtied addLogChange = None"
| "Dirtied (accessListAddAccountChange a) = None"
| "Dirtied (accessListAddSlotChange a h) = None"
| "Dirtied (precompileCallChange i evs) = None"
| "Dirtied (createContractChange a) = None"

record revision =
  rev_id :: int
  rev_journalIndex :: nat
  rev_events :: "event list"

record TxConfig =
  TxHash :: hash
  TxIndex :: nat

record EthLog =
  log_payload :: bytes
  log_TxIndex :: nat
  log_Index :: nat

text \<open>
  The two closures \<open>writeCache\<close> can be: the one \<open>cache\<close> installs emits the events of the
  cache context at the time it runs, the one \<open>RevertMultiStore\<close> installs emits the events it
  captured.
\<close>

datatype writeCacheFn = EmitCacheEvents | EmitEvents "event list"

record 'c StateDB =
  sdb_ctx :: 'c
  sdb_ctxEvents :: "event list"
  cacheStore :: "'c versions option"
  cacheEvents :: "event list"
  writeCache :: "writeCacheFn option"
  transient :: transientStorage
  entries :: "JournalEntry list"
  dirties :: "(address, int) kv"
  validRevisions :: "revision list"
  nextRevisionID :: int
  stateObjects :: "address \<Rightarrow> stateObject option"
  txConfig :: TxConfig
  refund :: u64
  logs :: "EthLog list"
  sdb_accessList :: accessList
  precompileCallsCounter :: u8

definition sdb_New :: "'c \<Rightarrow> event list \<Rightarrow> TxConfig \<Rightarrow> 'c StateDB" where
  "sdb_New c evs cfg =
     \<lparr>sdb_ctx = c, sdb_ctxEvents = evs, cacheStore = None, cacheEvents = [], writeCache = None,
      transient = newTransientStorage, entries = [], dirties = [], validRevisions = [],
      nextRevisionID = 0, stateObjects = Map.empty, txConfig = cfg, refund = 0, logs = [],
      sdb_accessList = newAccessList, precompileCallsCounter = 0\<rparr>"

subsection \<open>journal.go\<close>

definition count_of :: "(address, int) kv \<Rightarrow> address \<Rightarrow> int" where
  "count_of d a = (case kv_get d a of None \<Rightarrow> 0 | Some n \<Rightarrow> n)"

definition mark_dirty :: "JournalEntry \<Rightarrow> (address, int) kv \<Rightarrow> (address, int) kv" where
  "mark_dirty e d =
     (case Dirtied e of None \<Rightarrow> d | Some a \<Rightarrow> kv_set a (count_of d a + 1) d)"

definition unmark_dirty :: "JournalEntry \<Rightarrow> (address, int) kv \<Rightarrow> (address, int) kv" where
  "unmark_dirty e d =
     (case Dirtied e of
        None \<Rightarrow> d
      | Some a \<Rightarrow>
          let n = count_of d a - 1 in if n = 0 then kv_delete a d else kv_set a n d)"

definition sortedDirties :: "'c StateDB \<Rightarrow> address list" where
  "sortedDirties s = kv_keys (dirties s)"

definition journal_append :: "JournalEntry \<Rightarrow> 'c StateDB \<Rightarrow> 'c StateDB" where
  "journal_append e s = s\<lparr>entries := entries s @ [e], dirties := mark_dirty e (dirties s)\<rparr>"

definition journal_reset :: "'c StateDB \<Rightarrow> 'c StateDB" where
  "journal_reset s = s\<lparr>entries := [], dirties := fold kv_delete (sortedDirties s) (dirties s)\<rparr>"

definition journal_length :: "'c StateDB \<Rightarrow> nat" where
  "journal_length s = length (entries s)"

subsection \<open>Objects of a StateDB\<close>

definition setStateObject :: "stateObject \<Rightarrow> 'c StateDB \<Rightarrow> 'c StateDB" where
  "setStateObject obj s = s\<lparr>stateObjects := (stateObjects s)(so_address obj \<mapsto> obj)\<rparr>"

definition getStateObject :: "'c keeper \<Rightarrow> address \<Rightarrow> 'c StateDB \<Rightarrow> stateObject option \<times> 'c StateDB" where
  "getStateObject K addr s =
     (case stateObjects s addr of
        Some obj \<Rightarrow> (Some obj, s)
      | None \<Rightarrow>
          (case k_GetAccount K (sdb_ctx s) addr of
             None \<Rightarrow> (None, s)
           | Some acct \<Rightarrow> let obj = newObject K addr acct in (Some obj, setStateObject obj s)))"

text \<open>\<open>Account{}\<close>, whose pointers are nil.\<close>

definition zeroAccount :: AccountIn where
  "zeroAccount = \<lparr>in_Nonce = 0, in_Balance = None, in_CodeHash = None\<rparr>"

definition createObject :: "'c keeper \<Rightarrow> address \<Rightarrow> 'c StateDB \<Rightarrow> (stateObject \<times> stateObject option) \<times> 'c StateDB" where
  "createObject K addr s =
     (case getStateObject K addr s of (prev, s1) \<Rightarrow>
        let newobj = newObject K addr zeroAccount;
            s2 = journal_append (case prev of None \<Rightarrow> createObjectChange addr
                                            | Some p \<Rightarrow> resetObjectChange p) s1
        in ((newobj, prev), setStateObject newobj s2))"

definition getOrNewStateObject :: "'c keeper \<Rightarrow> address \<Rightarrow> 'c StateDB \<Rightarrow> stateObject \<times> 'c StateDB" where
  "getOrNewStateObject K addr s =
     (case getStateObject K addr s of
        (Some obj, s1) \<Rightarrow> (obj, s1)
      | (None, s1) \<Rightarrow> (case createObject K addr s1 of ((newobj, _), s2) \<Rightarrow> (newobj, s2)))"

subsection \<open>The methods of a state object that write to the journal\<close>

definition so_SetBalance :: "u256 \<Rightarrow> stateObject \<Rightarrow> 'c StateDB \<Rightarrow> u256 \<times> 'c StateDB" where
  "so_SetBalance amount obj s =
     (let prev = acc_Balance (so_account obj)
      in (prev, setStateObject (so_setBalance amount obj)
                  (journal_append (balanceChange (so_address obj) prev) s)))"

definition so_AddBalance :: "u256 \<Rightarrow> stateObject \<Rightarrow> 'c StateDB \<Rightarrow> u256 \<times> 'c StateDB" where
  "so_AddBalance amount obj s =
     (if amount = 0 then (acc_Balance (so_account obj), s)
      else so_SetBalance (acc_Balance (so_account obj) + amount) obj s)"

definition so_SubBalance :: "u256 \<Rightarrow> stateObject \<Rightarrow> 'c StateDB \<Rightarrow> u256 \<times> 'c StateDB" where
  "so_SubBalance amount obj s =
     (if amount = 0 then (acc_Balance (so_account obj), s)
      else so_SetBalance (acc_Balance (so_account obj) - amount) obj s)"

definition so_SetNonce :: "u64 \<Rightarrow> stateObject \<Rightarrow> 'c StateDB \<Rightarrow> 'c StateDB" where
  "so_SetNonce nonce obj s =
     setStateObject (so_setNonce nonce obj)
       (journal_append (nonceChange (so_address obj) (acc_Nonce (so_account obj))) s)"

definition so_SetCode :: "'c keeper \<Rightarrow> hash \<Rightarrow> bytes option \<Rightarrow> stateObject \<Rightarrow> 'c StateDB \<Rightarrow> 'c StateDB" where
  "so_SetCode K codeHash code obj s =
     (case so_Code K (sdb_ctx s) obj of (prevcode, obj1) \<Rightarrow>
        setStateObject (so_setCode codeHash code obj1)
          (journal_append (codeChange (so_address obj) prevcode (acc_CodeHash (so_account obj))) s))"

definition so_SetState :: "'c keeper \<Rightarrow> hash \<Rightarrow> hash \<Rightarrow> stateObject \<Rightarrow> 'c StateDB \<Rightarrow> hash \<times> 'c StateDB" where
  "so_SetState K key v obj s =
     (case so_GetState K (sdb_ctx s) key obj of (prev, obj1) \<Rightarrow>
        if prev = v then (prev, setStateObject obj1 s)
        else (case so_GetCommittedState K (sdb_ctx s) key obj1 of (origin, obj2) \<Rightarrow>
                (prev, setStateObject (so_setState key v origin obj2)
                   (journal_append (storageChange (so_address obj) key prev origin) s))))"

subsection \<open>Reading a StateDB\<close>

definition sdb_Exist :: "'c keeper \<Rightarrow> address \<Rightarrow> 'c StateDB \<Rightarrow> bool \<times> 'c StateDB" where
  "sdb_Exist K addr s = (case getStateObject K addr s of (o1, s1) \<Rightarrow> (o1 \<noteq> None, s1))"

definition sdb_Empty :: "'c keeper \<Rightarrow> address \<Rightarrow> 'c StateDB \<Rightarrow> bool \<times> 'c StateDB" where
  "sdb_Empty K addr s =
     (case getStateObject K addr s of
        (None, s1) \<Rightarrow> (True, s1)
      | (Some so, s1) \<Rightarrow> (so_empty K so, s1))"

definition sdb_GetBalance :: "'c keeper \<Rightarrow> address \<Rightarrow> 'c StateDB \<Rightarrow> u256 \<times> 'c StateDB" where
  "sdb_GetBalance K addr s =
     (case getStateObject K addr s of
        (None, s1) \<Rightarrow> (0, s1)
      | (Some so, s1) \<Rightarrow> (acc_Balance (so_account so), s1))"

definition sdb_GetNonce :: "'c keeper \<Rightarrow> address \<Rightarrow> 'c StateDB \<Rightarrow> u64 \<times> 'c StateDB" where
  "sdb_GetNonce K addr s =
     (case getStateObject K addr s of
        (None, s1) \<Rightarrow> (0, s1)
      | (Some so, s1) \<Rightarrow> (acc_Nonce (so_account so), s1))"

definition sdb_GetCode :: "'c keeper \<Rightarrow> address \<Rightarrow> 'c StateDB \<Rightarrow> bytes option \<times> 'c StateDB" where
  "sdb_GetCode K addr s =
     (case getStateObject K addr s of
        (None, s1) \<Rightarrow> (None, s1)
      | (Some so, s1) \<Rightarrow>
          (case so_Code K (sdb_ctx s1) so of (code, so') \<Rightarrow> (code, setStateObject so' s1)))"

definition sdb_GetCodeSize :: "'c keeper \<Rightarrow> address \<Rightarrow> 'c StateDB \<Rightarrow> int \<times> 'c StateDB" where
  "sdb_GetCodeSize K addr s =
     (case getStateObject K addr s of
        (None, s1) \<Rightarrow> (0, s1)
      | (Some so, s1) \<Rightarrow>
          (case so_CodeSize K (sdb_ctx s1) so of (n, so') \<Rightarrow> (n, setStateObject so' s1)))"

definition sdb_GetCodeHash :: "'c keeper \<Rightarrow> address \<Rightarrow> 'c StateDB \<Rightarrow> hash \<times> 'c StateDB" where
  "sdb_GetCodeHash K addr s =
     (case getStateObject K addr s of
        (None, s1) \<Rightarrow> (0, s1)
      | (Some so, s1) \<Rightarrow> (acc_CodeHash (so_account so), s1))"

definition sdb_GetState :: "'c keeper \<Rightarrow> address \<Rightarrow> hash \<Rightarrow> 'c StateDB \<Rightarrow> hash \<times> 'c StateDB" where
  "sdb_GetState K addr key s =
     (case getStateObject K addr s of
        (None, s1) \<Rightarrow> (0, s1)
      | (Some so, s1) \<Rightarrow>
          (case so_GetState K (sdb_ctx s1) key so of (v, so') \<Rightarrow> (v, setStateObject so' s1)))"

definition sdb_GetCommittedState :: "'c keeper \<Rightarrow> address \<Rightarrow> hash \<Rightarrow> 'c StateDB \<Rightarrow> hash \<times> 'c StateDB" where
  "sdb_GetCommittedState K addr key s =
     (case getStateObject K addr s of
        (None, s1) \<Rightarrow> (0, s1)
      | (Some so, s1) \<Rightarrow>
          (case so_GetCommittedState K (sdb_ctx s1) key so of (v, so') \<Rightarrow> (v, setStateObject so' s1)))"

definition sdb_GetStateAndCommittedState ::
  "'c keeper \<Rightarrow> address \<Rightarrow> hash \<Rightarrow> 'c StateDB \<Rightarrow> (hash \<times> hash) \<times> 'c StateDB" where
  "sdb_GetStateAndCommittedState K addr key s =
     (case getStateObject K addr s of
        (None, s1) \<Rightarrow> ((0, 0), s1)
      | (Some so, s1) \<Rightarrow>
          (case so_GetState K (sdb_ctx s1) key so of (v, so1) \<Rightarrow>
             (case so_GetCommittedState K (sdb_ctx s1) key so1 of (w, so2) \<Rightarrow>
                ((v, w), setStateObject so2 s1))))"

definition sdb_HasSelfDestructed :: "'c keeper \<Rightarrow> address \<Rightarrow> 'c StateDB \<Rightarrow> bool \<times> 'c StateDB" where
  "sdb_HasSelfDestructed K addr s =
     (case getStateObject K addr s of
        (None, s1) \<Rightarrow> (False, s1)
      | (Some so, s1) \<Rightarrow> (selfDestructed so, s1))"

definition sdb_GetRefund :: "'c StateDB \<Rightarrow> u64" where
  "sdb_GetRefund s = refund s"

definition sdb_Logs :: "'c StateDB \<Rightarrow> EthLog list" where
  "sdb_Logs s = logs s"

definition sdb_GetTransientState :: "address \<Rightarrow> hash \<Rightarrow> 'c StateDB \<Rightarrow> hash" where
  "sdb_GetTransientState addr key s = ts_Get (transient s) addr key"

definition sdb_AddressInAccessList :: "address \<Rightarrow> 'c StateDB \<Rightarrow> bool" where
  "sdb_AddressInAccessList addr s = al_ContainsAddress (sdb_accessList s) addr"

definition sdb_SlotInAccessList :: "address \<Rightarrow> hash \<Rightarrow> 'c StateDB \<Rightarrow> (bool \<times> bool) res" where
  "sdb_SlotInAccessList addr slot s = al_Contains (sdb_accessList s) addr slot"

definition sdb_IsStorageEmpty :: "'c keeper \<Rightarrow> address \<Rightarrow> 'c StateDB \<Rightarrow> bool" where
  "sdb_IsStorageEmpty K addr s = (k_ForEachStorage K (sdb_ctx s) addr = [])"

text \<open>
  The callback is a step of an accumulator, false to stop. A \<open>common.Hash\<close> has 32 bytes, so
  the test \<open>len(value) > 0\<close> always holds.
\<close>

fun each_storage :: "Storage \<Rightarrow> ('x \<Rightarrow> hash \<Rightarrow> hash \<Rightarrow> 'x \<times> bool) \<Rightarrow> 'x \<Rightarrow> (hash \<times> hash) list \<Rightarrow> 'x" where
  "each_storage dirty cb x [] = x"
| "each_storage dirty cb x ((key, v) # rest) =
     (let (x', go) = (case kv_get dirty key of
          Some w \<Rightarrow> cb x key w
        | None \<Rightarrow> if 0 < length (hash_Bytes v) then cb x key v else (x, True))
      in if go then each_storage dirty cb x' rest else x')"

definition sdb_ForEachStorage ::
  "'c keeper \<Rightarrow> address \<Rightarrow> ('x \<Rightarrow> hash \<Rightarrow> hash \<Rightarrow> 'x \<times> bool) \<Rightarrow> 'x \<Rightarrow> 'c StateDB \<Rightarrow> 'x \<times> 'c StateDB" where
  "sdb_ForEachStorage K addr cb x s =
     (case getStateObject K addr s of
        (None, s1) \<Rightarrow> (x, s1)
      | (Some so, s1) \<Rightarrow>
          (each_storage (dirtyStorage so) cb x (k_ForEachStorage K (sdb_ctx s1) addr), s1))"

subsection \<open>Writing a StateDB\<close>

definition sdb_CreateContract :: "'c keeper \<Rightarrow> address \<Rightarrow> 'c StateDB \<Rightarrow> 'c StateDB res" where
  "sdb_CreateContract K addr s =
     (case getStateObject K addr s of
        (None, s1) \<Rightarrow> Inl (Panic ''nil pointer dereference'')
      | (Some obj, s1) \<Rightarrow>
          Inr (if newContract obj then s1
               else journal_append (createContractChange addr)
                      (setStateObject (obj\<lparr>newContract := True\<rparr>) s1)))"

definition sdb_CreateAccount :: "'c keeper \<Rightarrow> address \<Rightarrow> 'c StateDB \<Rightarrow> 'c StateDB" where
  "sdb_CreateAccount K addr s =
     (case createObject K addr s of
        ((newObj, None), s1) \<Rightarrow> s1
      | ((newObj, Some prev), s1) \<Rightarrow>
          setStateObject (so_setBalance (acc_Balance (so_account prev)) newObj) s1)"

definition sdb_AddBalance :: "'c keeper \<Rightarrow> address \<Rightarrow> u256 \<Rightarrow> 'c StateDB \<Rightarrow> u256 \<times> 'c StateDB" where
  "sdb_AddBalance K addr amount s =
     (case getOrNewStateObject K addr s of (obj, s1) \<Rightarrow> so_AddBalance amount obj s1)"

definition sdb_SubBalance :: "'c keeper \<Rightarrow> address \<Rightarrow> u256 \<Rightarrow> 'c StateDB \<Rightarrow> u256 \<times> 'c StateDB" where
  "sdb_SubBalance K addr amount s =
     (case getOrNewStateObject K addr s of (obj, s1) \<Rightarrow>
        if amount = 0 then (acc_Balance (so_account obj), s1) else so_SubBalance amount obj s1)"

definition sdb_SetBalance :: "'c keeper \<Rightarrow> address \<Rightarrow> u256 \<Rightarrow> 'c StateDB \<Rightarrow> 'c StateDB" where
  "sdb_SetBalance K addr amount s =
     (case getOrNewStateObject K addr s of (obj, s1) \<Rightarrow> snd (so_SetBalance amount obj s1))"

definition sdb_SetNonce :: "'c keeper \<Rightarrow> address \<Rightarrow> u64 \<Rightarrow> 'c StateDB \<Rightarrow> 'c StateDB" where
  "sdb_SetNonce K addr nonce s =
     (case getOrNewStateObject K addr s of (obj, s1) \<Rightarrow> so_SetNonce nonce obj s1)"

definition sdb_SetCode :: "'c keeper \<Rightarrow> address \<Rightarrow> bytes option \<Rightarrow> 'c StateDB \<Rightarrow> bytes option \<times> 'c StateDB" where
  "sdb_SetCode K addr code s =
     (case getOrNewStateObject K addr s of (obj, s1) \<Rightarrow>
        (so_code obj,
         so_SetCode K (k_Keccak256 K (case code of None \<Rightarrow> [] | Some bs \<Rightarrow> bs)) code obj s1))"

definition sdb_SetState :: "'c keeper \<Rightarrow> address \<Rightarrow> hash \<Rightarrow> hash \<Rightarrow> 'c StateDB \<Rightarrow> hash \<times> 'c StateDB" where
  "sdb_SetState K addr key v s =
     (case getOrNewStateObject K addr s of (obj, s1) \<Rightarrow> so_SetState K key v obj s1)"

definition sdb_SetStorage :: "'c keeper \<Rightarrow> address \<Rightarrow> Storage \<Rightarrow> 'c StateDB \<Rightarrow> 'c StateDB" where
  "sdb_SetStorage K addr storage s =
     (case getOrNewStateObject K addr s of (obj, s1) \<Rightarrow> setStateObject (so_SetStorage storage obj) s1)"

definition sdb_SetStateOverride :: "'c keeper \<Rightarrow> address \<Rightarrow> hash \<Rightarrow> hash \<Rightarrow> 'c StateDB \<Rightarrow> 'c StateDB" where
  "sdb_SetStateOverride K addr key v s =
     (case getOrNewStateObject K addr s of (obj, s1) \<Rightarrow> setStateObject (so_SetStateOverride key v obj) s1)"

definition sdb_SelfDestruct :: "'c keeper \<Rightarrow> address \<Rightarrow> 'c StateDB \<Rightarrow> u256 \<times> 'c StateDB" where
  "sdb_SelfDestruct K addr s =
     (case getStateObject K addr s of
        (None, s1) \<Rightarrow> (0, s1)
      | (Some obj, s1) \<Rightarrow>
          let prev = acc_Balance (so_account obj)
          in (prev, setStateObject (so_setBalance 0 (so_markSelfDestructed obj))
                      (journal_append (selfDestructChange addr (selfDestructed obj) prev) s1)))"

definition sdb_SelfDestruct6780 :: "'c keeper \<Rightarrow> address \<Rightarrow> 'c StateDB \<Rightarrow> (u256 \<times> bool) \<times> 'c StateDB" where
  "sdb_SelfDestruct6780 K addr s =
     (case getStateObject K addr s of
        (None, s1) \<Rightarrow> ((0, False), s1)
      | (Some obj, s1) \<Rightarrow>
          if newContract obj
          then (case sdb_SelfDestruct K addr s1 of (b, s2) \<Rightarrow> ((b, True), s2))
          else ((acc_Balance (so_account obj), False), s1))"

definition sdb_AddLog :: "bytes \<Rightarrow> 'c StateDB \<Rightarrow> 'c StateDB" where
  "sdb_AddLog payload s =
     (let s1 = journal_append addLogChange s
      in s1\<lparr>logs := logs s1 @ [\<lparr>log_payload = payload, log_TxIndex = TxIndex (txConfig s1),
                                log_Index = length (logs s1)\<rparr>]\<rparr>)"

definition sdb_AddRefund :: "u64 \<Rightarrow> 'c StateDB \<Rightarrow> 'c StateDB" where
  "sdb_AddRefund gas s =
     (let s1 = journal_append (refundChange (refund s)) s in s1\<lparr>refund := refund s1 + gas\<rparr>)"

definition sdb_SubRefund :: "u64 \<Rightarrow> 'c StateDB \<Rightarrow> 'c StateDB res" where
  "sdb_SubRefund gas s =
     (let s1 = journal_append (refundChange (refund s)) s
      in if refund s1 < gas then Inl (Panic ''Refund counter below zero'')
         else Inr (s1\<lparr>refund := refund s1 - gas\<rparr>))"

definition setTransientState :: "address \<Rightarrow> hash \<Rightarrow> hash \<Rightarrow> 'c StateDB \<Rightarrow> 'c StateDB" where
  "setTransientState addr key v s = s\<lparr>transient := ts_Set (transient s) addr key v\<rparr>"

definition sdb_SetTransientState :: "address \<Rightarrow> hash \<Rightarrow> hash \<Rightarrow> 'c StateDB \<Rightarrow> 'c StateDB" where
  "sdb_SetTransientState addr key v s =
     (let prev = sdb_GetTransientState addr key s
      in if prev = v then s
         else setTransientState addr key v (journal_append (transientStorageChange addr key prev) s))"

definition sdb_AddAddressToAccessList :: "address \<Rightarrow> 'c StateDB \<Rightarrow> 'c StateDB" where
  "sdb_AddAddressToAccessList addr s =
     (case al_AddAddress (sdb_accessList s) addr of (added, al) \<Rightarrow>
        let s1 = s\<lparr>sdb_accessList := al\<rparr>
        in if added then journal_append (accessListAddAccountChange addr) s1 else s1)"

definition sdb_AddSlotToAccessList :: "address \<Rightarrow> hash \<Rightarrow> 'c StateDB \<Rightarrow> 'c StateDB res" where
  "sdb_AddSlotToAccessList addr slot s =
     rbind (al_AddSlot (sdb_accessList s) addr slot) (\<lambda>((addrMod, slotMod), al).
       let s1 = s\<lparr>sdb_accessList := al\<rparr>;
           s2 = (if addrMod then journal_append (accessListAddAccountChange addr) s1 else s1);
           s3 = (if slotMod then journal_append (accessListAddSlotChange addr slot) s2 else s2)
       in Inr s3)"

record Rules =
  IsEIP2929 :: bool
  IsEIP4762 :: bool
  IsShanghai :: bool

definition add_addresses :: "address list \<Rightarrow> accessList \<Rightarrow> accessList" where
  "add_addresses as al = fold (\<lambda>a al. snd (al_AddAddress al a)) as al"

fun add_slots :: "address \<Rightarrow> hash list \<Rightarrow> accessList \<Rightarrow> accessList res" where
  "add_slots a [] al = Inr al"
| "add_slots a (k # ks) al = rbind (al_AddSlot al a k) (\<lambda>(_, al'). add_slots a ks al')"

fun add_tuples :: "(address \<times> hash list) list \<Rightarrow> accessList \<Rightarrow> accessList res" where
  "add_tuples [] al = Inr al"
| "add_tuples ((a, ks) # els) al =
     rbind (add_slots a ks (snd (al_AddAddress al a))) (\<lambda>al'. add_tuples els al')"

definition sdb_Prepare :: "Rules \<Rightarrow> address \<Rightarrow> address \<Rightarrow> address option \<Rightarrow> address list
    \<Rightarrow> (address \<times> hash list) list \<Rightarrow> 'c StateDB \<Rightarrow> 'c StateDB res" where
  "sdb_Prepare rules sender coinbase dst precompiles lst s =
     (if IsEIP2929 rules \<and> IsEIP4762 rules then Inl (Panic ''eip2929 and eip4762 are both activated'')
      else rbind
        (if IsEIP2929 rules
         then let al1 = snd (al_AddAddress newAccessList sender);
                  al2 = (case dst of None \<Rightarrow> al1 | Some d \<Rightarrow> snd (al_AddAddress al1 d));
                  al3 = add_addresses precompiles al2
              in rbind (add_tuples lst al3) (\<lambda>al4.
                 Inr (s\<lparr>sdb_accessList :=
                   if IsShanghai rules then snd (al_AddAddress al4 coinbase) else al4\<rparr>))
         else Inr s)
        (\<lambda>s1. Inr (s1\<lparr>transient := newTransientStorage\<rparr>)))"

subsection \<open>The cache context of precompile calls\<close>

definition sdb_cache :: "'c keeper \<Rightarrow> 'c StateDB \<Rightarrow> 'c StateDB res" where
  "sdb_cache K s =
     (if k_MultiStoreNil K (sdb_ctx s) then Inl (Err ''ctx has no multi store'')
      else Inr (s\<lparr>cacheStore := Some [k_CacheContext K (sdb_ctx s)],
                  cacheEvents := k_CacheEvents K (sdb_ctxEvents s),
                  writeCache := Some EmitCacheEvents\<rparr>))"

definition sdb_GetCacheContext :: "'c keeper \<Rightarrow> 'c StateDB \<Rightarrow> 'c StateDB res" where
  "sdb_GetCacheContext K s =
     (if writeCache s = None then sdb_cache K s else Inr s)"

definition sdb_MultiStoreSnapshot :: "'c StateDB \<Rightarrow> (int \<times> 'c StateDB) res" where
  "sdb_MultiStoreSnapshot s =
     (case cacheStore s of
        None \<Rightarrow> Inl (Panic ''nil pointer dereference'')
      | Some vs \<Rightarrow> (case vs_Snapshot vs of (i, vs') \<Rightarrow> Inr (i, s\<lparr>cacheStore := Some vs'\<rparr>)))"

definition sdb_RevertMultiStore :: "int \<Rightarrow> event list \<Rightarrow> 'c StateDB \<Rightarrow> 'c StateDB res" where
  "sdb_RevertMultiStore snapshot evs s =
     (case cacheStore s of
        None \<Rightarrow> Inl (Panic ''nil pointer dereference'')
      | Some vs \<Rightarrow> rbind (vs_RevertToSnapshot vs snapshot) (\<lambda>vs'.
          Inr (s\<lparr>cacheStore := Some vs', writeCache := Some (EmitEvents evs)\<rparr>)))"

text \<open>
  \<open>Write\<close> of the multi store makes its live content that of the parent context (the theorem
  \<open>ms_Write_flushes\<close> of the snapshot store) and drops the snapshots.
\<close>

definition sdb_writeCache :: "'c StateDB \<Rightarrow> 'c StateDB" where
  "sdb_writeCache s =
     (case writeCache s of
        None \<Rightarrow> s
      | Some w \<Rightarrow>
          let s1 = s\<lparr>sdb_ctxEvents := sdb_ctxEvents s @
                      (case w of EmitCacheEvents \<Rightarrow> cacheEvents s | EmitEvents evs \<Rightarrow> evs)\<rparr>
          in (case cacheStore s1 of
                None \<Rightarrow> s1
              | Some vs \<Rightarrow> s1\<lparr>sdb_ctx := last vs, cacheStore := Some [last vs]\<rparr>))"

definition MaxPrecompileCalls :: u8 where
  "MaxPrecompileCalls = 20"

text \<open>An error leaves the entry and the counter behind, so the state is returned either way.\<close>

definition sdb_AddPrecompileFn :: "int \<Rightarrow> event list \<Rightarrow> 'c StateDB \<Rightarrow> fault option \<times> 'c StateDB" where
  "sdb_AddPrecompileFn snapshot evs s =
     (let s1 = journal_append (precompileCallChange snapshot evs) s;
          s2 = s1\<lparr>precompileCallsCounter := precompileCallsCounter s1 + 1\<rparr>
      in if MaxPrecompileCalls < precompileCallsCounter s2
         then (Some (Err ''max calls to precompiles reached''), s2) else (None, s2))"

subsection \<open>Snapshots and reverts\<close>

text \<open>An update of the object of an address; a missing object is a nil pointer dereference.\<close>

definition with_object :: "'c keeper \<Rightarrow> address \<Rightarrow> (stateObject \<Rightarrow> stateObject) \<Rightarrow> 'c StateDB \<Rightarrow> 'c StateDB res" where
  "with_object K a f s =
     (case getStateObject K a s of
        (None, s1) \<Rightarrow> Inl (Panic ''nil pointer dereference'')
      | (Some obj, s1) \<Rightarrow> Inr (setStateObject (f obj) s1))"

fun entry_Revert :: "'c keeper \<Rightarrow> JournalEntry \<Rightarrow> 'c StateDB \<Rightarrow> 'c StateDB res" where
  "entry_Revert K (createContractChange a) s = with_object K a (\<lambda>obj. obj\<lparr>newContract := False\<rparr>) s"
| "entry_Revert K (precompileCallChange i evs) s = sdb_RevertMultiStore i evs s"
| "entry_Revert K (createObjectChange a) s = Inr (s\<lparr>stateObjects := (stateObjects s)(a := None)\<rparr>)"
| "entry_Revert K (resetObjectChange prev) s = Inr (setStateObject prev s)"
| "entry_Revert K (selfDestructChange a prev prevbalance) s =
     (case getStateObject K a s of
        (None, s1) \<Rightarrow> Inr s1
      | (Some obj, s1) \<Rightarrow> Inr (setStateObject (so_setBalance prevbalance (obj\<lparr>selfDestructed := prev\<rparr>)) s1))"
| "entry_Revert K (balanceChange a prev) s = with_object K a (so_setBalance prev) s"
| "entry_Revert K (nonceChange a prev) s = with_object K a (so_setNonce prev) s"
| "entry_Revert K (codeChange a prevcode prevhash) s = with_object K a (so_setCode prevhash prevcode) s"
| "entry_Revert K (storageChange a key preValue origValue) s =
     with_object K a (so_setState key preValue origValue) s"
| "entry_Revert K (transientStorageChange a key prevalue) s = Inr (setTransientState a key prevalue s)"
| "entry_Revert K (refundChange prev) s = Inr (s\<lparr>refund := prev\<rparr>)"
| "entry_Revert K addLogChange s =
     (if logs s = [] then Inl (Panic ''slice bounds out of range'')
      else Inr (s\<lparr>logs := butlast (logs s)\<rparr>))"
| "entry_Revert K (accessListAddAccountChange a) s =
     Inr (s\<lparr>sdb_accessList := al_DeleteAddress (sdb_accessList s) a\<rparr>)"
| "entry_Revert K (accessListAddSlotChange a slot) s =
     rbind (al_DeleteSlot (sdb_accessList s) a slot) (\<lambda>al. Inr (s\<lparr>sdb_accessList := al\<rparr>))"

text \<open>The loop of \<open>journal.Revert\<close>, on the entries to undo, the latest first.\<close>

fun revert_entries :: "'c keeper \<Rightarrow> JournalEntry list \<Rightarrow> 'c StateDB \<Rightarrow> 'c StateDB res" where
  "revert_entries K [] s = Inr s"
| "revert_entries K (e # es) s =
     rbind (entry_Revert K e s) (\<lambda>s1.
     revert_entries K es (s1\<lparr>dirties := unmark_dirty e (dirties s1)\<rparr>))"

definition journal_Revert :: "'c keeper \<Rightarrow> nat \<Rightarrow> 'c StateDB \<Rightarrow> 'c StateDB res" where
  "journal_Revert K snapshot s =
     rbind (revert_entries K (rev (drop snapshot (entries s))) s) (\<lambda>s1.
     if length (entries s1) < snapshot then Inl (Panic ''slice bounds out of range'')
     else Inr (s1\<lparr>entries := take snapshot (entries s1)\<rparr>))"

definition sdb_Snapshot :: "'c StateDB \<Rightarrow> int \<times> 'c StateDB" where
  "sdb_Snapshot s =
     (let id = nextRevisionID s
      in (id, s\<lparr>nextRevisionID := id + 1,
               validRevisions := validRevisions s @
                 [\<lparr>rev_id = id, rev_journalIndex = journal_length s, rev_events = sdb_ctxEvents s\<rparr>]\<rparr>))"

definition sdb_RevertToSnapshot :: "'c keeper \<Rightarrow> int \<Rightarrow> 'c StateDB \<Rightarrow> 'c StateDB res" where
  "sdb_RevertToSnapshot K revid s =
     (let idx = sort_search (length (validRevisions s)) (\<lambda>i. revid \<le> rev_id (validRevisions s ! i))
      in if idx = length (validRevisions s) \<or> rev_id (validRevisions s ! idx) \<noteq> revid
         then Inl (Panic ''revision id cannot be reverted'')
         else let r = validRevisions s ! idx;
                  s1 = s\<lparr>sdb_ctxEvents := rev_events r\<rparr>
              in rbind (journal_Revert K (rev_journalIndex r) s1) (\<lambda>s2.
                 Inr (s2\<lparr>validRevisions := take idx (validRevisions s2)\<rparr>)))"

subsection \<open>Finalise and Commit\<close>

definition clearJournalAndRefund :: "'c StateDB \<Rightarrow> 'c StateDB" where
  "clearJournalAndRefund s =
     (journal_reset s)\<lparr>validRevisions := [], nextRevisionID := 0, refund := 0\<rparr>"

fun finalise_loop :: "'c keeper \<Rightarrow> bool \<Rightarrow> address list \<Rightarrow> 'c StateDB \<Rightarrow> 'c StateDB" where
  "finalise_loop K del [] s = s"
| "finalise_loop K del (addr # as) s =
     (case stateObjects s addr of
        None \<Rightarrow> finalise_loop K del as s
      | Some obj \<Rightarrow>
          if selfDestructed obj \<or> (del \<and> so_empty K obj)
          then finalise_loop K del as (s\<lparr>stateObjects := (stateObjects s)(so_address obj := None)\<rparr>)
          else finalise_loop K del as s)"

definition sdb_Finalise :: "'c keeper \<Rightarrow> bool \<Rightarrow> 'c StateDB \<Rightarrow> 'c StateDB" where
  "sdb_Finalise K del s = clearJournalAndRefund (finalise_loop K del (sortedDirties s) s)"

text \<open>The inner loop of \<open>commitWithCtx\<close>: the dirty slots of one object, in key order.\<close>

fun commit_slots :: "'c keeper \<Rightarrow> bool \<Rightarrow> hash list \<Rightarrow> stateObject \<Rightarrow> 'c \<Rightarrow> stateObject \<times> 'c" where
  "commit_slots K keepDirty [] obj c = (obj, c)"
| "commit_slots K keepDirty (key # keys) obj c =
     (let v = (case kv_get (dirtyStorage obj) key of None \<Rightarrow> 0 | Some v \<Rightarrow> v);
          valueBytes = hash_Bytes v;
          c1 = (if length valueBytes = 0 then k_DeleteState K c (so_address obj) key
                else k_SetState K c (so_address obj) key valueBytes);
          obj1 = (if length valueBytes = 0
                  then obj\<lparr>originStorage := kv_delete key (originStorage obj)\<rparr>
                  else obj\<lparr>originStorage := kv_set key v (originStorage obj)\<rparr>);
          obj2 = (if keepDirty then obj1
                  else obj1\<lparr>dirtyStorage := kv_delete key (dirtyStorage obj1)\<rparr>)
      in commit_slots K keepDirty keys obj2 c1)"

definition commit_code :: "'c keeper \<Rightarrow> stateObject \<Rightarrow> 'c \<Rightarrow> 'c" where
  "commit_code K obj c =
     (case so_code obj of
        None \<Rightarrow> c
      | Some code \<Rightarrow>
          if dirtyCode obj then
            if length code = 0 then k_DeleteCode K c (acc_CodeHash (so_account obj))
            else k_SetCode K c (acc_CodeHash (so_account obj)) code
          else c)"

definition commit_object :: "'c keeper \<Rightarrow> bool \<Rightarrow> stateObject \<Rightarrow> 'c \<Rightarrow> (stateObject \<times> 'c) res" where
  "commit_object K keepDirty obj c =
     (if selfDestructed obj
      then rbind (k_DeleteAccount K c (so_address obj)) (\<lambda>c1. Inr (obj, c1))
      else rbind (k_SetAccount K (commit_code K obj c) (so_address obj) (so_account obj)) (\<lambda>c1.
           Inr (commit_slots K keepDirty (SortedKeys (dirtyStorage obj)) obj c1)))"

fun commit_loop :: "'c keeper \<Rightarrow> bool \<Rightarrow> address list \<Rightarrow> 'c StateDB \<Rightarrow> 'c \<Rightarrow> ('c StateDB \<times> 'c) res" where
  "commit_loop K keepDirty [] s c = Inr (s, c)"
| "commit_loop K keepDirty (addr # as) s c =
     (case stateObjects s addr of
        None \<Rightarrow> Inl (Panic ''nil pointer dereference'')
      | Some obj \<Rightarrow>
          rbind (commit_object K keepDirty obj c) (\<lambda>(obj', c').
          commit_loop K keepDirty as (setStateObject obj' s) c'))"

definition commitWithCtx :: "'c keeper \<Rightarrow> 'c \<Rightarrow> bool \<Rightarrow> 'c StateDB \<Rightarrow> ('c StateDB \<times> 'c) res" where
  "commitWithCtx K c keepDirty s = commit_loop K keepDirty (sortedDirties s) s c"

definition sdb_Commit :: "'c keeper \<Rightarrow> 'c StateDB \<Rightarrow> 'c StateDB res" where
  "sdb_Commit K s =
     (let s1 = (if writeCache s \<noteq> None then sdb_writeCache s else s)
      in rbind (commitWithCtx K (sdb_ctx s1) False s1) (\<lambda>(s2, c). Inr (s2\<lparr>sdb_ctx := c\<rparr>)))"

text \<open>Before \<open>cache\<close> has run, \<open>cacheCtx\<close> is the zero context and any keeper call on it panics.\<close>

definition sdb_CommitWithCacheCtx :: "'c keeper \<Rightarrow> 'c StateDB \<Rightarrow> 'c StateDB res" where
  "sdb_CommitWithCacheCtx K s =
     (case cacheStore s of
        None \<Rightarrow> if sortedDirties s = [] then Inr s else Inl (Panic ''nil pointer dereference'')
      | Some vs \<Rightarrow> rbind (commitWithCtx K (last vs) True s) (\<lambda>(s1, c).
          Inr (s1\<lparr>cacheStore := Some (vs_update (\<lambda>_. c) vs)\<rparr>)))"

section \<open>A precompile call\<close>

text \<open>
  \<open>runNativeAction\<close> of \<open>precompiles/common/precompile.go\<close> up to the call of the action: branch
  the cache context, snapshot it, record the call, flush the journal into the cache
  context. An error of \<open>AddPrecompileFn\<close> is returned with the state it leaves.
\<close>

definition precompile_setup :: "'c keeper \<Rightarrow> 'c StateDB \<Rightarrow> (fault option \<times> 'c StateDB) res" where
  "precompile_setup K s =
     rbind (sdb_GetCacheContext K s) (\<lambda>s1.
     rbind (sdb_MultiStoreSnapshot s1) (\<lambda>(snapshot, s2).
     case sdb_AddPrecompileFn snapshot (cacheEvents s2) s2 of
       (Some e, s3) \<Rightarrow> Inr (Some e, s3)
     | (None, s3) \<Rightarrow> rbind (sdb_CommitWithCacheCtx K s3) (\<lambda>s4. Inr (None, s4))))"

text \<open>
  The action is the code of a precompile: it changes the store of the cache context and
  emits events there. Changes it mirrors into the \<open>StateDB\<close> are further operations.
\<close>

definition precompile_call :: "'c keeper \<Rightarrow> ('c \<Rightarrow> 'c) \<Rightarrow> event list \<Rightarrow> 'c StateDB \<Rightarrow> 'c StateDB res" where
  "precompile_call K action evs s =
     rbind (precompile_setup K s) (\<lambda>(err, s1).
     case err of
       Some _ \<Rightarrow> Inr s1
     | None \<Rightarrow> Inr (s1\<lparr>cacheStore := map_option (vs_update action) (cacheStore s1),
                      cacheEvents := cacheEvents s1 @ evs\<rparr>))"

end
