(* ===== verification/StateDBRevert.thy ===== *)
theory StateDBRevert
  imports StateDB
begin

text \<open>
  Reverting a \<open>StateDB\<close>: two states are equivalent when the EVM cannot tell them apart, each
  operation appends journal entries whose undoing leads back to an equivalent state, and
  \<open>RevertToSnapshot\<close> therefore restores the state of the snapshot.
\<close>

section \<open>What the EVM sees\<close>

abbreviation obj_at :: "'c keeper \<Rightarrow> 'c StateDB \<Rightarrow> address \<Rightarrow> stateObject option" where
  "obj_at K s a \<equiv> fst (getStateObject K a s)"

abbreviation committed :: "'c keeper \<Rightarrow> 'c \<Rightarrow> stateObject \<Rightarrow> hash \<Rightarrow> hash" where
  "committed K c obj key \<equiv> fst (so_GetCommittedState K c key obj)"

abbreviation code_of :: "'c keeper \<Rightarrow> 'c \<Rightarrow> stateObject \<Rightarrow> bytes option" where
  "code_of K c obj \<equiv> fst (so_Code K c obj)"

text \<open>Two objects differ at most in what they have cached and in \<open>dirtyCode\<close>.\<close>

definition obj_eq :: "'c keeper \<Rightarrow> 'c \<Rightarrow> stateObject \<Rightarrow> stateObject \<Rightarrow> bool" where
  "obj_eq K c x y \<longleftrightarrow>
     so_account x = so_account y \<and> dirtyStorage x = dirtyStorage y \<and> so_address x = so_address y \<and>
     selfDestructed x = selfDestructed y \<and> newContract x = newContract y \<and>
     (\<forall>key. committed K c x key = committed K c y key) \<and> code_of K c x = code_of K c y"

text \<open>The versions of the cache context; before it exists, the branch that it would be.\<close>

definition cache_of :: "'c keeper \<Rightarrow> 'c StateDB \<Rightarrow> 'c versions" where
  "cache_of K s = (case cacheStore s of None \<Rightarrow> [k_CacheContext K (sdb_ctx s)] | Some vs \<Rightarrow> vs)"

definition sdb_eq :: "'c keeper \<Rightarrow> 'c StateDB \<Rightarrow> 'c StateDB \<Rightarrow> bool" where
  "sdb_eq K s t \<longleftrightarrow>
     sdb_ctx s = sdb_ctx t \<and> transient s = transient t \<and> dirties s = dirties t \<and>
     refund s = refund t \<and> logs s = logs t \<and> sdb_accessList s = sdb_accessList t \<and>
     cache_of K s = cache_of K t \<and>
     (\<forall>a. rel_option (obj_eq K (sdb_ctx t)) (obj_at K s a) (obj_at K t a))"

lemma obj_eq_refl [simp]: "obj_eq K c x x"
  by (simp add: obj_eq_def)

lemma obj_eq_trans: "obj_eq K c x y \<Longrightarrow> obj_eq K c y z \<Longrightarrow> obj_eq K c x z"
  by (simp add: obj_eq_def)

lemma obj_eq_sym: "obj_eq K c x y \<Longrightarrow> obj_eq K c y x"
  by (simp add: obj_eq_def)

lemma sdb_eq_refl [simp]: "sdb_eq K s s"
  by (simp add: sdb_eq_def option.rel_refl)

lemma sdb_eq_trans: "sdb_eq K s t \<Longrightarrow> sdb_eq K t u \<Longrightarrow> sdb_eq K s u"
proof -
  assume st: "sdb_eq K s t" and tu: "sdb_eq K t u"
  have "rel_option (obj_eq K (sdb_ctx u)) (obj_at K s a) (obj_at K u a)" for a
  proof -
    have 1: "rel_option (obj_eq K (sdb_ctx u)) (obj_at K s a) (obj_at K t a)"
      and 2: "rel_option (obj_eq K (sdb_ctx u)) (obj_at K t a) (obj_at K u a)"
      using st tu unfolding sdb_eq_def by (metis (no_types))+
    show ?thesis
      using 1 2 by (cases "obj_at K s a"; cases "obj_at K t a"; cases "obj_at K u a")
        (auto intro: obj_eq_trans)
  qed
  with st tu show ?thesis unfolding sdb_eq_def by (metis (no_types))
qed

section \<open>Reading and writing objects\<close>

lemma so_address_newObject [simp]: "so_address (newObject K a x) = a"
  by (simp add: newObject_def)

lemma obj_at_alt:
  "obj_at K s a = (case stateObjects s a of
     Some obj \<Rightarrow> Some obj | None \<Rightarrow> map_option (newObject K a) (k_GetAccount K (sdb_ctx s) a))"
  by (simp add: getStateObject_def Let_def split: option.split)

lemma obj_at_cong:
  "stateObjects s = stateObjects t \<Longrightarrow> sdb_ctx s = sdb_ctx t \<Longrightarrow> obj_at K s a = obj_at K t a"
  by (simp add: obj_at_alt split: option.split)

lemma obj_at_set [simp]:
  "obj_at K (setStateObject obj s) a = (if a = so_address obj then Some obj else obj_at K s a)"
  by (simp add: obj_at_alt setStateObject_def split: option.split)

lemma snd_getStateObject:
  "snd (getStateObject K a s) = (case stateObjects s a of
     Some _ \<Rightarrow> s
   | None \<Rightarrow> (case k_GetAccount K (sdb_ctx s) a of
        None \<Rightarrow> s | Some acct \<Rightarrow> setStateObject (newObject K a acct) s))"
  by (simp add: getStateObject_def Let_def split: option.split)

lemma obj_at_get [simp]: "obj_at K (snd (getStateObject K b s)) a = obj_at K s a"
  by (auto simp: snd_getStateObject obj_at_alt setStateObject_def split: option.splits)

lemma setStateObject_fields [simp]:
  "sdb_ctx (setStateObject obj s) = sdb_ctx s" "sdb_ctxEvents (setStateObject obj s) = sdb_ctxEvents s"
  "cacheStore (setStateObject obj s) = cacheStore s" "cacheEvents (setStateObject obj s) = cacheEvents s"
  "writeCache (setStateObject obj s) = writeCache s"
  "transient (setStateObject obj s) = transient s" "entries (setStateObject obj s) = entries s"
  "dirties (setStateObject obj s) = dirties s" "validRevisions (setStateObject obj s) = validRevisions s"
  "nextRevisionID (setStateObject obj s) = nextRevisionID s"
  "txConfig (setStateObject obj s) = txConfig s"
  "refund (setStateObject obj s) = refund s" "logs (setStateObject obj s) = logs s"
  "sdb_accessList (setStateObject obj s) = sdb_accessList s"
  "precompileCallsCounter (setStateObject obj s) = precompileCallsCounter s"
  by (simp_all add: setStateObject_def)

lemma getStateObject_fields [simp]:
  "sdb_ctx (snd (getStateObject K a s)) = sdb_ctx s"
  "sdb_ctxEvents (snd (getStateObject K a s)) = sdb_ctxEvents s"
  "cacheStore (snd (getStateObject K a s)) = cacheStore s"
  "cacheEvents (snd (getStateObject K a s)) = cacheEvents s"
  "writeCache (snd (getStateObject K a s)) = writeCache s"
  "transient (snd (getStateObject K a s)) = transient s"
  "entries (snd (getStateObject K a s)) = entries s"
  "dirties (snd (getStateObject K a s)) = dirties s"
  "validRevisions (snd (getStateObject K a s)) = validRevisions s"
  "nextRevisionID (snd (getStateObject K a s)) = nextRevisionID s"
  "txConfig (snd (getStateObject K a s)) = txConfig s"
  "refund (snd (getStateObject K a s)) = refund s" "logs (snd (getStateObject K a s)) = logs s"
  "sdb_accessList (snd (getStateObject K a s)) = sdb_accessList s"
  "precompileCallsCounter (snd (getStateObject K a s)) = precompileCallsCounter s"
  by (simp_all add: snd_getStateObject split: option.split)

lemma journal_append_fields [simp]:
  "sdb_ctx (journal_append e s) = sdb_ctx s" "sdb_ctxEvents (journal_append e s) = sdb_ctxEvents s"
  "cacheStore (journal_append e s) = cacheStore s" "cacheEvents (journal_append e s) = cacheEvents s"
  "writeCache (journal_append e s) = writeCache s"
  "transient (journal_append e s) = transient s" "entries (journal_append e s) = entries s @ [e]"
  "dirties (journal_append e s) = mark_dirty e (dirties s)"
  "validRevisions (journal_append e s) = validRevisions s"
  "nextRevisionID (journal_append e s) = nextRevisionID s"
  "stateObjects (journal_append e s) = stateObjects s" "txConfig (journal_append e s) = txConfig s"
  "refund (journal_append e s) = refund s" "logs (journal_append e s) = logs s"
  "sdb_accessList (journal_append e s) = sdb_accessList s"
  "precompileCallsCounter (journal_append e s) = precompileCallsCounter s"
  by (simp_all add: journal_append_def)

lemma obj_at_append [simp]: "obj_at K (journal_append e s) a = obj_at K s a"
  by (rule obj_at_cong) simp_all

lemma obj_at_upd [simp]:
  "obj_at K (s\<lparr>cacheStore := b1\<rparr>) a = obj_at K s a"
  "obj_at K (s\<lparr>writeCache := c1\<rparr>) a = obj_at K s a"
  "obj_at K (s\<lparr>cacheEvents := d1\<rparr>) a = obj_at K s a"
  "obj_at K (s\<lparr>sdb_ctxEvents := e1\<rparr>) a = obj_at K s a"
  "obj_at K (s\<lparr>transient := f1\<rparr>) a = obj_at K s a"
  "obj_at K (s\<lparr>entries := g1\<rparr>) a = obj_at K s a"
  "obj_at K (s\<lparr>dirties := h1\<rparr>) a = obj_at K s a"
  "obj_at K (s\<lparr>validRevisions := i1\<rparr>) a = obj_at K s a"
  "obj_at K (s\<lparr>nextRevisionID := j1\<rparr>) a = obj_at K s a"
  "obj_at K (s\<lparr>refund := k1\<rparr>) a = obj_at K s a"
  "obj_at K (s\<lparr>logs := l1\<rparr>) a = obj_at K s a"
  "obj_at K (s\<lparr>sdb_accessList := m1\<rparr>) a = obj_at K s a"
  "obj_at K (s\<lparr>precompileCallsCounter := n1\<rparr>) a = obj_at K s a"
  by (simp_all add: obj_at_alt split: option.split)

lemma cache_of_upd [simp]:
  "cache_of K (s\<lparr>writeCache := b1\<rparr>) = cache_of K s"
  "cache_of K (s\<lparr>cacheEvents := c1\<rparr>) = cache_of K s"
  "cache_of K (s\<lparr>sdb_ctxEvents := d1\<rparr>) = cache_of K s"
  "cache_of K (s\<lparr>transient := e1\<rparr>) = cache_of K s"
  "cache_of K (s\<lparr>entries := f1\<rparr>) = cache_of K s"
  "cache_of K (s\<lparr>dirties := g1\<rparr>) = cache_of K s"
  "cache_of K (s\<lparr>validRevisions := h1\<rparr>) = cache_of K s"
  "cache_of K (s\<lparr>nextRevisionID := i1\<rparr>) = cache_of K s"
  "cache_of K (s\<lparr>refund := j1\<rparr>) = cache_of K s"
  "cache_of K (s\<lparr>logs := k1\<rparr>) = cache_of K s"
  "cache_of K (s\<lparr>sdb_accessList := l1\<rparr>) = cache_of K s"
  "cache_of K (s\<lparr>precompileCallsCounter := m1\<rparr>) = cache_of K s"
  "cache_of K (s\<lparr>cacheStore := Some vs\<rparr>) = vs"
  "cache_of K (s\<lparr>stateObjects := m\<rparr>) = cache_of K s"
  by (simp_all add: cache_of_def split: option.split)

lemma cache_of_simps [simp]:
  "cache_of K (setStateObject obj s) = cache_of K s"
  "cache_of K (snd (getStateObject K a s)) = cache_of K s"
  "cache_of K (journal_append e s) = cache_of K s"
  by (simp_all add: cache_of_def split: option.split)

section \<open>The invariant\<close>

text \<open>
  The committed value of a slot is the one of the keeper, and a slot is dirty only while its
  value differs from it.
\<close>

definition obj_ok :: "'c keeper \<Rightarrow> 'c \<Rightarrow> address \<Rightarrow> stateObject \<Rightarrow> bool" where
  "obj_ok K c a obj \<longleftrightarrow>
     so_address obj = a \<and> kv_ok (dirtyStorage obj) \<and>
     (\<forall>key. committed K c obj key = k_GetState K c a key) \<and>
     (\<forall>key v. kv_get (dirtyStorage obj) key = Some v \<longrightarrow> v \<noteq> k_GetState K c a key)"

definition dirties_ok :: "(address, int) kv \<Rightarrow> bool" where
  "dirties_ok d \<longleftrightarrow> kv_ok d \<and> (\<forall>a n. kv_get d a = Some n \<longrightarrow> 0 < n)"

definition sdb_inv :: "'c keeper \<Rightarrow> 'c StateDB \<Rightarrow> bool" where
  "sdb_inv K s \<longleftrightarrow>
     al_wf (sdb_accessList s) \<and> ts_wf (transient s) \<and> dirties_ok (dirties s) \<and> cache_of K s \<noteq> [] \<and>
     (\<forall>a obj. obj_at K s a = Some obj \<longrightarrow> obj_ok K (sdb_ctx s) a obj)"

lemma obj_ok_eq: "obj_eq K c x y \<Longrightarrow> obj_ok K c a x \<longleftrightarrow> obj_ok K c a y"
  by (auto simp: obj_eq_def obj_ok_def)

lemma sdb_inv_eq:
  assumes "sdb_eq K s t" "sdb_inv K t"
  shows "sdb_inv K s"
proof -
  have "obj_ok K (sdb_ctx s) a obj" if "obj_at K s a = Some obj" for a obj
  proof -
    have "rel_option (obj_eq K (sdb_ctx t)) (obj_at K s a) (obj_at K t a)" "sdb_ctx s = sdb_ctx t"
      using assms(1) unfolding sdb_eq_def by blast+
    with that obtain y where "obj_at K t a = Some y" "obj_eq K (sdb_ctx t) obj y"
      by (auto simp: rel_option_iff split: option.splits)
    with assms(2) obj_ok_eq \<open>sdb_ctx s = sdb_ctx t\<close> show ?thesis unfolding sdb_inv_def by metis
  qed
  with assms show ?thesis unfolding sdb_eq_def sdb_inv_def by auto
qed

lemma mark_dirty_ok: "dirties_ok d \<Longrightarrow> dirties_ok (mark_dirty e d)"
  by (fastforce simp: dirties_ok_def mark_dirty_def count_of_def kv_get_set split: option.splits)

lemma unmark_mark: "dirties_ok d \<Longrightarrow> unmark_dirty e (mark_dirty e d) = d"
  by (auto simp: dirties_ok_def unmark_dirty_def mark_dirty_def count_of_def kv_get_set Let_def
      kv_set_set kv_set_same kv_delete_set split: option.splits)

section \<open>Undoing entries\<close>

text \<open>The cache context is branched lazily and stays: an undone state may have one more.\<close>

definition sdb_sim :: "'c keeper \<Rightarrow> 'c StateDB \<Rightarrow> 'c StateDB \<Rightarrow> bool" where
  "sdb_sim K s t \<longleftrightarrow> sdb_eq K s t \<and> (cacheStore s = None \<longrightarrow> cacheStore t = None)"

lemma sdb_sim_refl [simp]: "sdb_sim K s s"
  by (simp add: sdb_sim_def)

lemma sdb_sim_trans: "sdb_sim K s t \<Longrightarrow> sdb_sim K t u \<Longrightarrow> sdb_sim K s u"
  unfolding sdb_sim_def by (blast intro: sdb_eq_trans)

lemma sdb_sim_objects:
  assumes "sdb_sim K s t" "obj_at K t a = Some y"
  obtains x where "obj_at K s a = Some x" "obj_eq K (sdb_ctx t) x y"
proof -
  have "rel_option (obj_eq K (sdb_ctx t)) (obj_at K s a) (obj_at K t a)"
    using assms(1) unfolding sdb_sim_def sdb_eq_def by blast
  with assms(2) that show thesis by (auto simp: rel_option_iff split: option.splits)
qed

lemma sdb_sim_none: "sdb_sim K s t \<Longrightarrow> obj_at K t a = None \<Longrightarrow> obj_at K s a = None"
  unfolding sdb_sim_def sdb_eq_def by (metis rel_option_None2)

text \<open>Putting equivalent objects, or touching nothing else, keeps states equivalent.\<close>

lemma sdb_sim_set:
  assumes "sdb_sim K s t" "obj_eq K (sdb_ctx t) x y"
  shows "sdb_sim K (setStateObject x s) (setStateObject y t)"
  using assms unfolding sdb_sim_def sdb_eq_def by (auto simp: obj_eq_def)

lemma sdb_sim_get:
  assumes "sdb_sim K s t"
  shows "sdb_sim K (snd (getStateObject K a s)) (snd (getStateObject K a t))"
  using assms unfolding sdb_sim_def sdb_eq_def by simp

lemma sdb_sim_fields:
  assumes "sdb_sim K s t"
  shows "transient s = transient t" "logs s = logs t" "sdb_accessList s = sdb_accessList t"
    "dirties s = dirties t" "sdb_ctx s = sdb_ctx t" "refund s = refund t"
  using assms by (simp_all add: sdb_sim_def sdb_eq_def)

lemma sdb_sim_upd:
  assumes "sdb_sim K s t"
  shows "sdb_sim K (s\<lparr>transient := x\<rparr>) (t\<lparr>transient := x\<rparr>)"
    "sdb_sim K (s\<lparr>refund := r\<rparr>) (t\<lparr>refund := r\<rparr>)" "sdb_sim K (s\<lparr>logs := l\<rparr>) (t\<lparr>logs := l\<rparr>)"
    "sdb_sim K (s\<lparr>sdb_accessList := al\<rparr>) (t\<lparr>sdb_accessList := al\<rparr>)"
    "sdb_sim K (s\<lparr>dirties := d\<rparr>) (t\<lparr>dirties := d\<rparr>)"
  using assms by (simp_all add: sdb_sim_def sdb_eq_def)

lemma committed_simps [simp]:
  "committed K c (x\<lparr>newContract := b\<rparr>) key = committed K c x key"
  "committed K c (x\<lparr>selfDestructed := b\<rparr>) key = committed K c x key"
  "committed K c (x\<lparr>dirtyStorage := d\<rparr>) key = committed K c x key"
  "committed K c (so_setBalance n x) key = committed K c x key"
  "committed K c (so_setNonce m x) key = committed K c x key"
  "committed K c (so_setCode h code x) key = committed K c x key"
  "committed K c (so_setState k v w x) key = committed K c x key"
  by (simp_all add: so_GetCommittedState_def so_setBalance_def so_setNonce_def so_setCode_def
      so_setState_def Let_def split: option.split)

lemma code_of_simps [simp]:
  "code_of K c (x\<lparr>newContract := b\<rparr>) = code_of K c x"
  "code_of K c (x\<lparr>selfDestructed := b\<rparr>) = code_of K c x"
  "code_of K c (x\<lparr>dirtyStorage := d\<rparr>) = code_of K c x"
  "code_of K c (so_setBalance n x) = code_of K c x"
  "code_of K c (so_setNonce m x) = code_of K c x"
  "code_of K c (so_setState k v w x) = code_of K c x"
  by (simp_all add: so_Code_def so_setBalance_def so_setNonce_def so_setState_def Let_def
      split: option.split)

lemma code_of_setCode [simp]:
  "code_of K c (so_setCode h code x) =
     (case code of Some bs \<Rightarrow> Some bs
      | None \<Rightarrow> if IsEmptyCodeHash K h then None else k_GetCode K c h)"
  by (simp add: so_Code_def so_setCode_def Let_def split: option.split)

lemma obj_eq_cong:
  assumes "obj_eq K c x y"
  shows "obj_eq K c (x\<lparr>newContract := b\<rparr>) (y\<lparr>newContract := b\<rparr>)"
    and "obj_eq K c (so_setBalance n x) (so_setBalance n y)"
    and "obj_eq K c (so_setNonce m x) (so_setNonce m y)"
    and "obj_eq K c (x\<lparr>selfDestructed := b\<rparr>) (y\<lparr>selfDestructed := b\<rparr>)"
    and "obj_eq K c (so_setState k v w x) (so_setState k v w y)"
    and "obj_eq K c (so_setCode h code x) (so_setCode h code y)"
  using assms
  by (simp_all add: obj_eq_def) (simp_all add: so_setBalance_def so_setNonce_def so_setCode_def so_setState_def)

lemma with_object_eq:
  "with_object K a f s = (case obj_at K s a of
     None \<Rightarrow> Inl (Panic ''nil pointer dereference'')
   | Some obj \<Rightarrow> Inr (setStateObject (f obj) (snd (getStateObject K a s))))"
  by (simp add: with_object_def split: prod.split option.split)

lemma with_object_sim:
  assumes "sdb_sim K s t" "with_object K a f t = Inr t'"
    and "\<And>x y. obj_eq K (sdb_ctx t) x y \<Longrightarrow> obj_eq K (sdb_ctx t) (f x) (f y)"
  shows "\<exists>s'. with_object K a f s = Inr s' \<and> sdb_sim K s' t'"
proof -
  obtain y where y: "obj_at K t a = Some y" "t' = setStateObject (f y) (snd (getStateObject K a t))"
    using assms(2) by (auto simp: with_object_eq split: option.splits)
  obtain x where x: "obj_at K s a = Some x" "obj_eq K (sdb_ctx t) x y"
    using sdb_sim_objects [OF assms(1) y(1)] .
  show ?thesis
    using sdb_sim_set [OF sdb_sim_get [OF assms(1), of a], of "f x" "f y"] assms(3) [OF x(2)] x(1) y(2)
    by (simp add: with_object_eq)
qed

lemma entry_Revert_selfDestruct:
  "entry_Revert K (selfDestructChange a p b) u =
     (if obj_at K u a = None then Inr (snd (getStateObject K a u))
      else with_object K a (\<lambda>obj. so_setBalance b (obj\<lparr>selfDestructed := p\<rparr>)) u)"
  by (simp add: with_object_eq split: prod.split option.split)

lemma entry_Revert_sim:
  assumes "sdb_sim K s t" "entry_Revert K e t = Inr t'"
  shows "\<exists>s'. entry_Revert K e s = Inr s' \<and> sdb_sim K s' t'"
proof (cases e)
  case (createObjectChange a)
  have "obj_at K (u\<lparr>stateObjects := (stateObjects u)(a := None)\<rparr>) b =
      (if b = a then map_option (newObject K a) (k_GetAccount K (sdb_ctx u) a) else obj_at K u b)" for u b
    by (simp add: obj_at_alt split: option.split)
  then show ?thesis
    using createObjectChange assms unfolding sdb_sim_def sdb_eq_def
    by (auto simp: option.rel_refl)
next
  case (resetObjectChange prev)
  then show ?thesis using assms sdb_sim_set [OF assms(1) obj_eq_refl, of prev] by auto
next
  case (selfDestructChange a p b)
  let ?f = "\<lambda>obj. so_setBalance b (obj\<lparr>selfDestructed := p\<rparr>)"
  note eq = entry_Revert_selfDestruct [of K a p b, folded selfDestructChange]
  show ?thesis
  proof (cases "obj_at K t a")
    case None
    then show ?thesis
      using assms sdb_sim_none [OF assms(1) None] sdb_sim_get [OF assms(1)] unfolding eq by auto
  next
    case (Some y)
    obtain x where "obj_at K s a = Some x" using sdb_sim_objects [OF assms(1) Some] by blast
    with Some assms(2) show ?thesis
      unfolding eq using with_object_sim [OF assms(1), of a ?f t'] by (auto intro!: obj_eq_cong)
  qed
next
  case (precompileCallChange i evs)
  with assms(2) obtain vs where vs: "cacheStore t = Some vs"
    by (cases "cacheStore t") (auto simp: sdb_RevertMultiStore_def)
  with assms(1) have "cacheStore s = Some vs"
    unfolding sdb_sim_def sdb_eq_def by (auto simp: cache_of_def split: option.splits)
  with vs precompileCallChange assms obtain vs' where vs': "vs_RevertToSnapshot vs i = Inr vs'"
    "t' = t\<lparr>cacheStore := Some vs', writeCache := Some (EmitEvents evs)\<rparr>"
    by (auto simp: sdb_RevertMultiStore_def rbind_eq_Inr)
  with assms(1) \<open>cacheStore s = Some vs\<close> show ?thesis
    unfolding precompileCallChange sdb_sim_def sdb_eq_def
    by (simp add: sdb_RevertMultiStore_def)
qed (use assms sdb_sim_fields [OF assms(1)] in
  \<open>auto intro!: with_object_sim obj_eq_cong sdb_sim_upd
     simp: rbind_eq_Inr setTransientState_def split: if_splits\<close>)

lemma revert_entries_sim:
  assumes "sdb_sim K s t" "revert_entries K es t = Inr t'"
  shows "\<exists>s'. revert_entries K es s = Inr s' \<and> sdb_sim K s' t'"
  using assms
proof (induction es arbitrary: s t)
  case Nil
  then show ?case by simp
next
  case (Cons e es)
  then obtain t1 where t1: "entry_Revert K e t = Inr t1"
    "revert_entries K es (t1\<lparr>dirties := unmark_dirty e (dirties t1)\<rparr>) = Inr t'"
    by (auto simp: rbind_eq_Inr)
  obtain s1 where s1: "entry_Revert K e s = Inr s1" "sdb_sim K s1 t1"
    using entry_Revert_sim [OF Cons.prems(1) t1(1)] by blast
  have "sdb_sim K (s1\<lparr>dirties := unmark_dirty e (dirties s1)\<rparr>) (t1\<lparr>dirties := unmark_dirty e (dirties t1)\<rparr>)"
    using sdb_sim_upd(5) [OF s1(2)] sdb_sim_fields(4) [OF s1(2)] by simp
  from Cons.IH [OF this t1(2)] s1(1) show ?case by simp
qed

lemma revert_entries_append:
  "revert_entries K (es @ fs) s = rbind (revert_entries K es s) (revert_entries K fs)"
proof (induction es arbitrary: s)
  case (Cons e es)
  then show ?case by (cases "entry_Revert K e s") simp_all
qed simp

text \<open>Undoing reads and writes neither the entries nor the revisions nor the events.\<close>

definition frame :: "JournalEntry list \<Rightarrow> revision list \<Rightarrow> event list \<Rightarrow> 'c StateDB \<Rightarrow> 'c StateDB" where
  "frame es rs evs s = s\<lparr>entries := es, validRevisions := rs, sdb_ctxEvents := evs\<rparr>"

definition same_frame :: "'c StateDB \<Rightarrow> 'c StateDB \<Rightarrow> bool" where
  "same_frame s t \<longleftrightarrow> sdb_ctx s = sdb_ctx t \<and> entries s = entries t \<and> validRevisions s = validRevisions t \<and>
     sdb_ctxEvents s = sdb_ctxEvents t \<and> nextRevisionID s = nextRevisionID t"

lemma frame_fields [simp]:
  "entries (frame es rs evs s) = es" "validRevisions (frame es rs evs s) = rs"
  "sdb_ctxEvents (frame es rs evs s) = evs" "nextRevisionID (frame es rs evs s) = nextRevisionID s"
  by (simp_all add: frame_def)

lemma with_object_frame:
  "with_object K a f (frame es rs evs s) = map_sum id (frame es rs evs) (with_object K a f s)"
  by (simp add: with_object_def getStateObject_def setStateObject_def frame_def Let_def split: option.split)

lemma entry_Revert_frame:
  "entry_Revert K e (frame es rs evs s) = map_sum id (frame es rs evs) (entry_Revert K e s)"
proof (cases e)
  case (selfDestructChange a p b)
  then show ?thesis
    by (simp add: getStateObject_def setStateObject_def frame_def Let_def split: option.split)
next
  case (precompileCallChange i evs)
  then show ?thesis
    by (cases "cacheStore s")
      (auto simp: sdb_RevertMultiStore_def frame_def vs_RevertToSnapshot_def)
next
  case (accessListAddSlotChange a h)
  then show ?thesis
    by (cases "al_DeleteSlot (sdb_accessList s) a h") (simp_all add: frame_def)
qed (simp_all add: with_object_frame, simp_all add: frame_def setStateObject_def setTransientState_def)

lemma revert_entries_frame:
  "revert_entries K fs (frame es rs evs s) = map_sum id (frame es rs evs) (revert_entries K fs s)"
proof (induction fs arbitrary: s)
  case Nil
  then show ?case by simp
next
  case (Cons f fs)
  have "(frame es rs evs s')\<lparr>dirties := d\<rparr> = frame es rs evs (s'\<lparr>dirties := d\<rparr>)"
    "dirties (frame es rs evs s') = dirties s'" for s' :: "'a StateDB" and d
    by (simp_all add: frame_def)
  with Cons show ?case by (cases "entry_Revert K f s") (simp_all add: entry_Revert_frame)
qed

lemma sdb_sim_frame [simp]:
  "sdb_sim K (frame es rs evs s) t \<longleftrightarrow> sdb_sim K s t" "sdb_sim K s (frame es rs evs t) \<longleftrightarrow> sdb_sim K s t"
  by (simp_all add: sdb_sim_def sdb_eq_def frame_def)

lemma same_frame_entry:
  assumes "entry_Revert K e s = Inr t"
  shows "same_frame t s"
proof (cases e)
  case (selfDestructChange a p b)
  with assms show ?thesis
    by (auto simp: same_frame_def entry_Revert_selfDestruct with_object_eq
        simp del: entry_Revert.simps split: option.splits if_splits)
qed (use assms in
  \<open>auto simp: same_frame_def with_object_eq sdb_RevertMultiStore_def setTransientState_def rbind_eq_Inr
     split: option.splits if_splits\<close>)

lemma same_frame_revert:
  assumes "revert_entries K es s = Inr t"
  shows "same_frame t s"
  using assms
proof (induction es arbitrary: s)
  case Nil
  then show ?case by (simp add: same_frame_def)
next
  case (Cons e es)
  then obtain s1 where "entry_Revert K e s = Inr s1"
    "revert_entries K es (s1\<lparr>dirties := unmark_dirty e (dirties s1)\<rparr>) = Inr t"
    by (auto simp: rbind_eq_Inr)
  with Cons.IH same_frame_entry show ?case unfolding same_frame_def by fastforce
qed

section \<open>Steps that can be undone\<close>

text \<open>
  \<open>jstep K s s'\<close>: from \<open>s\<close> to \<open>s'\<close> the invariant is kept and the journal has grown by entries
  whose undoing leads from \<open>s'\<close> back to a state equivalent to \<open>s\<close>.
\<close>

text \<open>A cache context is never there without the closure that writes it.\<close>

definition cache_ok :: "'c StateDB \<Rightarrow> bool" where
  "cache_ok s \<longleftrightarrow> (writeCache s = None \<longrightarrow> cacheStore s = None)"

lemma cache_ok_simps [simp]:
  "cache_ok (setStateObject obj s) = cache_ok s" "cache_ok (journal_append e s) = cache_ok s"
  "cache_ok (snd (getStateObject K a s)) = cache_ok s" "cache_ok (s\<lparr>transient := x\<rparr>) = cache_ok s"
  "cache_ok (s\<lparr>refund := r\<rparr>) = cache_ok s" "cache_ok (s\<lparr>logs := l\<rparr>) = cache_ok s"
  "cache_ok (s\<lparr>sdb_accessList := al\<rparr>) = cache_ok s" "cache_ok (frame es rs evs s) = cache_ok s"
  by (simp_all add: cache_ok_def frame_def)

definition entries_ok :: "'c keeper \<Rightarrow> 'c StateDB \<Rightarrow> JournalEntry list \<Rightarrow> bool" where
  "entries_ok K s es \<longleftrightarrow>
     (\<forall>e \<in> set es. \<forall>a. Dirtied e = Some a \<longrightarrow> stateObjects s a \<noteq> None) \<and>
     (\<forall>a. createObjectChange a \<in> set es \<longrightarrow> k_GetAccount K (sdb_ctx s) a = None)"

definition jstep :: "'c keeper \<Rightarrow> 'c StateDB \<Rightarrow> 'c StateDB \<Rightarrow> bool" where
  "jstep K s s' \<longleftrightarrow> (sdb_inv K s \<and> cache_ok s \<longrightarrow>
     sdb_inv K s' \<and> cache_ok s' \<and> sdb_ctx s' = sdb_ctx s \<and> validRevisions s' = validRevisions s \<and> nextRevisionID s' = nextRevisionID s \<and>
     sdb_ctxEvents s' = sdb_ctxEvents s \<and>
     (\<forall>a. stateObjects s a \<noteq> None \<longrightarrow> stateObjects s' a \<noteq> None) \<and>
     (\<exists>es t. entries s' = entries s @ es \<and> entries_ok K s' es \<and>
       dirties s' = fold mark_dirty es (dirties s) \<and>
       revert_entries K (rev es) s' = Inr t \<and> sdb_sim K t s))"

lemma jstepI:
  assumes "\<And>R. sdb_inv K s \<Longrightarrow> cache_ok s \<Longrightarrow> sdb_inv K s' \<and> cache_ok s' \<and> sdb_ctx s' = sdb_ctx s"
    and "validRevisions s' = validRevisions s" "nextRevisionID s' = nextRevisionID s"
    and "sdb_ctxEvents s' = sdb_ctxEvents s"
    and "\<And>a. stateObjects s a \<noteq> None \<Longrightarrow> stateObjects s' a \<noteq> None"
    and "sdb_inv K s \<Longrightarrow> cache_ok s \<Longrightarrow> \<exists>es t. entries s' = entries s @ es \<and> entries_ok K s' es \<and>
       dirties s' = fold mark_dirty es (dirties s) \<and>
       revert_entries K (rev es) s' = Inr t \<and> sdb_sim K t s"
  shows "jstep K s s'"
  unfolding jstep_def using assms by blast

lemma jstepD:
  assumes "jstep K s s'" "sdb_inv K s" "cache_ok s"
  shows "sdb_inv K s'" "cache_ok s'" "sdb_ctx s' = sdb_ctx s" "validRevisions s' = validRevisions s"
    "nextRevisionID s' = nextRevisionID s" "sdb_ctxEvents s' = sdb_ctxEvents s"
    "stateObjects s a \<noteq> None \<Longrightarrow> stateObjects s' a \<noteq> None"
    "\<exists>es t. entries s' = entries s @ es \<and> entries_ok K s' es \<and> dirties s' = fold mark_dirty es (dirties s) \<and>
       revert_entries K (rev es) s' = Inr t \<and> sdb_sim K t s"
  using assms unfolding jstep_def by blast+

lemma entries_ok_Nil [simp]: "entries_ok K s []"
  by (simp add: entries_ok_def)

lemma jstep_refl [simp]: "jstep K s s"
  by (rule jstepI) (auto intro: exI [of _ "[]"])

lemma jstep_trans:
  assumes "jstep K s s1" "jstep K s1 s2"
  shows "jstep K s s2"
proof (cases "sdb_inv K s \<and> cache_ok s")
  case True
  then have inv: "sdb_inv K s" "cache_ok s" by blast+
  note 1 = jstepD [OF assms(1) inv]
  note 2 = jstepD [OF assms(2) 1(1,2)]
  obtain es1 t1 where e1: "entries s1 = entries s @ es1" "entries_ok K s1 es1"
    "dirties s1 = fold mark_dirty es1 (dirties s)"
    "revert_entries K (rev es1) s1 = Inr t1" "sdb_sim K t1 s" using 1(8) by blast
  obtain es2 t2 where e2: "entries s2 = entries s1 @ es2" "entries_ok K s2 es2"
    "dirties s2 = fold mark_dirty es2 (dirties s1)"
    "revert_entries K (rev es2) s2 = Inr t2" "sdb_sim K t2 s1" using 2(8) by blast
  obtain t where t: "revert_entries K (rev es1) t2 = Inr t" "sdb_sim K t t1"
    using revert_entries_sim [OF e2(5) e1(4)] by blast
  have ok: "entries_ok K s2 (es1 @ es2)"
    using e1(2) e2(2) 2(7) 2(3) unfolding entries_ok_def by auto
  have "entries s2 = entries s @ (es1 @ es2) \<and> dirties s2 = fold mark_dirty (es1 @ es2) (dirties s) \<and>
      revert_entries K (rev (es1 @ es2)) s2 = Inr t \<and> sdb_sim K t s"
    using e1 e2 t sdb_sim_trans by (auto simp: revert_entries_append)
  with ok 1 2 show ?thesis by (intro jstepI) (auto intro!: exI [of _ "es1 @ es2"])
qed (use assms in \<open>auto simp: jstep_def\<close>)

text \<open>A step that only fills caches.\<close>

lemma jstep_cache:
  assumes "sdb_inv K s \<Longrightarrow> cache_ok s \<Longrightarrow> sdb_sim K s' s" "same_frame s' s" "cache_ok s \<Longrightarrow> cache_ok s'"
    and "\<And>a. stateObjects s a \<noteq> None \<Longrightarrow> stateObjects s' a \<noteq> None"
  shows "jstep K s s'"
proof (cases "sdb_inv K s \<and> cache_ok s")
  case True
  then have sim: "sdb_sim K s' s" using assms(1) by blast
  then have "sdb_inv K s'" using True sdb_inv_eq unfolding sdb_sim_def by blast
  with sim True assms(2-4) sdb_sim_fields(4,5) [OF sim] show ?thesis
    unfolding same_frame_def by (intro jstepI) (auto intro!: exI [of _ "[]"])
qed (auto simp: jstep_def)

text \<open>A step that appends one entry.\<close>

lemma jstep_entry:
  assumes "sdb_inv K s \<Longrightarrow> sdb_inv K s'" "sdb_ctx s' = sdb_ctx s" "validRevisions s' = validRevisions s"
    and "nextRevisionID s' = nextRevisionID s" "sdb_ctxEvents s' = sdb_ctxEvents s"
    and "entries s' = entries s @ [e]" "cache_ok s \<Longrightarrow> cache_ok s'"
    and "sdb_inv K s \<Longrightarrow> \<exists>t. entry_Revert K e s' = Inr t \<and> sdb_sim K (t\<lparr>dirties := unmark_dirty e (dirties t)\<rparr>) s"
    and "\<And>a. stateObjects s a \<noteq> None \<Longrightarrow> stateObjects s' a \<noteq> None"
    and "sdb_inv K s \<Longrightarrow> entries_ok K s' [e]" "dirties s' = mark_dirty e (dirties s)"
  shows "jstep K s s'"
proof (cases "sdb_inv K s \<and> cache_ok s")
  case True
  then obtain t where "entry_Revert K e s' = Inr t" "sdb_sim K (t\<lparr>dirties := unmark_dirty e (dirties t)\<rparr>) s"
    using assms(8) by blast
  then have "\<exists>es t. entries s' = entries s @ es \<and> entries_ok K s' es \<and> dirties s' = fold mark_dirty es (dirties s) \<and>
      revert_entries K (rev es) s' = Inr t \<and> sdb_sim K t s"
    using assms(6,10,11) True by (intro exI [of _ "[e]"]) auto
  with assms(1-7,9) True show ?thesis by (intro jstepI) blast+
qed (auto simp: jstep_def)

section \<open>The steps of the operations\<close>

lemma inv_set:
  "sdb_inv K s \<Longrightarrow> obj_ok K (sdb_ctx s) (so_address obj) obj \<Longrightarrow> sdb_inv K (setStateObject obj s)"
  by (auto simp: sdb_inv_def)

lemma inv_append [simp]: "sdb_inv K s \<Longrightarrow> sdb_inv K (journal_append e s)"
  by (simp add: sdb_inv_def mark_dirty_ok)

lemma stateObjects_set [simp]:
  "stateObjects (setStateObject obj s) a = (if a = so_address obj then Some obj else stateObjects s a)"
  by (simp add: setStateObject_def)

lemma stateObjects_get: "stateObjects s b \<noteq> None \<Longrightarrow> stateObjects (snd (getStateObject K a s)) b \<noteq> None"
  by (auto simp: snd_getStateObject split: option.splits)

lemma entries_ok_none [simp]:
  "Dirtied e = None \<Longrightarrow> entries_ok K s [e]"
  by (cases e) (auto simp: entries_ok_def)

lemma inv_obj: "sdb_inv K s \<Longrightarrow> obj_at K s a = Some obj \<Longrightarrow> obj_ok K (sdb_ctx s) a obj"
  by (simp add: sdb_inv_def)

lemma obj_ok_newObject: "obj_ok K c a (newObject K a x)"
  by (simp add: obj_ok_def so_GetCommittedState_def newObject_def Let_def)

lemma jstep_get: "jstep K s (snd (getStateObject K a s))"
  using stateObjects_get [of s _ K a]
  by (intro jstep_cache) (simp_all add: same_frame_def sdb_sim_def sdb_eq_def option.rel_refl)

lemma jstep_put:
  assumes "obj_at K s a = Some obj" "obj_eq K (sdb_ctx s) obj' obj"
  shows "jstep K s (setStateObject obj' s)"
proof (rule jstep_cache)
  assume "sdb_inv K s"
  then have "so_address obj' = a" using inv_obj [OF _ assms(1)] assms(2) by (simp add: obj_eq_def obj_ok_def)
  with assms show "sdb_sim K (setStateObject obj' s) s"
    by (auto simp: sdb_sim_def sdb_eq_def option.rel_refl)
qed (simp_all add: same_frame_def)

lemma jstep_object:
  assumes at: "obj_at K s a = Some obj"
    and undo: "\<And>u. obj_at K u a \<noteq> None \<Longrightarrow> entry_Revert K e u = with_object K a f u"
    and ok: "obj_ok K (sdb_ctx s) a obj \<Longrightarrow>
      obj_ok K (sdb_ctx s) a obj' \<and> obj_eq K (sdb_ctx s) (f obj') obj"
    and e: "Dirtied e \<in> {None, Some a}" "\<And>b. e \<noteq> createObjectChange b"
  shows "jstep K s (setStateObject obj' (journal_append e s))" (is "jstep K s ?s'")
proof (rule jstep_entry)
  assume inv: "sdb_inv K s"
  have obj': "obj_ok K (sdb_ctx s) a obj'" "obj_eq K (sdb_ctx s) (f obj') obj"
    using ok [OF inv_obj [OF inv at]] by simp_all
  then have a: "so_address obj' = a" "so_address (f obj') = a"
    using inv_obj [OF inv at] by (simp_all add: obj_ok_def obj_eq_def)
  show "sdb_inv K ?s'" using inv obj' a by (intro inv_set) simp_all
  have "entry_Revert K e ?s' = Inr (setStateObject (f obj') (snd (getStateObject K a ?s')))"
    using undo [of ?s'] a by (simp add: with_object_eq)
  moreover have "unmark_dirty e (dirties ?s') = dirties s"
    using inv by (simp add: unmark_mark sdb_inv_def)
  moreover have "sdb_sim K ((setStateObject (f obj') (snd (getStateObject K a ?s')))\<lparr>dirties := dirties s\<rparr>) s"
    using obj' a at by (auto simp: sdb_sim_def sdb_eq_def option.rel_refl)
  ultimately show "\<exists>t. entry_Revert K e ?s' = Inr t \<and> sdb_sim K (t\<lparr>dirties := unmark_dirty e (dirties t)\<rparr>) s"
    by simp
  show "entries_ok K ?s' [e]" using e a by (auto simp: entries_ok_def)
qed simp_all

lemma jstep_create:
  assumes "obj_at K s a = None"
  shows "jstep K s (setStateObject (newObject K a x) (journal_append (createObjectChange a) s))" (is "jstep K s ?s'")
proof (rule jstep_entry)
  assume inv: "sdb_inv K s"
  show "sdb_inv K ?s'" using inv by (intro inv_set) (simp_all add: obj_ok_newObject)
  have none: "k_GetAccount K (sdb_ctx s) a = None" using assms by (auto simp: obj_at_alt split: option.splits)
  have "unmark_dirty (createObjectChange a) (dirties ?s') = dirties s"
    using inv by (simp add: unmark_mark sdb_inv_def)
  moreover have "obj_at K (?s'\<lparr>stateObjects := (stateObjects ?s')(a := None), dirties := dirties s\<rparr>) b = obj_at K s b" for b
    using assms none by (auto simp: obj_at_alt setStateObject_def split: option.split)
  ultimately show "\<exists>t. entry_Revert K (createObjectChange a) ?s' = Inr t \<and>
      sdb_sim K (t\<lparr>dirties := unmark_dirty (createObjectChange a) (dirties t)\<rparr>) s"
    by (simp add: sdb_sim_def sdb_eq_def option.rel_refl)
  show "entries_ok K ?s' [createObjectChange a]" using none by (simp add: entries_ok_def)
qed simp_all

lemma jstep_reset:
  assumes "obj_at K s a = Some prev" "obj_ok K (sdb_ctx s) a obj"
  shows "jstep K s (setStateObject obj (journal_append (resetObjectChange prev) s))" (is "jstep K s ?s'")
proof (rule jstep_entry)
  assume inv: "sdb_inv K s"
  have a: "so_address prev = a" using inv_obj [OF inv assms(1)] by (simp add: obj_ok_def)
  have o: "so_address obj = a" using assms(2) by (simp add: obj_ok_def)
  show "sdb_inv K ?s'" using inv assms o by (intro inv_set) simp_all
  show "\<exists>t. entry_Revert K (resetObjectChange prev) ?s' = Inr t \<and>
      sdb_sim K (t\<lparr>dirties := unmark_dirty (resetObjectChange prev) (dirties t)\<rparr>) s"
    using assms a o
    by (auto simp: sdb_sim_def sdb_eq_def option.rel_refl unmark_dirty_def mark_dirty_def)
qed simp_all

lemma getStateObject_None: "obj_at K s a = None \<Longrightarrow> getStateObject K a s = (None, s)"
  by (auto simp: getStateObject_def Let_def split: option.splits)

lemma getStateObject_Some:
  "obj_at K s a = Some obj \<Longrightarrow> getStateObject K a s = (Some obj, snd (getStateObject K a s))"
  by (simp add: prod_eq_iff)

lemma jstep_if_inv: "(sdb_inv K s \<Longrightarrow> jstep K s s') \<Longrightarrow> jstep K s s'"
  by (auto simp: jstep_def)

lemma getOrNewStateObject_step:
  assumes "getOrNewStateObject K a s = (obj, s')"
  shows "jstep K s s'" and "obj_at K s' a = Some obj" and "sdb_inv K s \<Longrightarrow> so_address obj = a"
proof -
  have "jstep K s s' \<and> obj_at K s' a = Some obj \<and> (sdb_inv K s \<longrightarrow> so_address obj = a)"
  proof (cases "obj_at K s a")
    case None
    then have "s' = setStateObject (newObject K a zeroAccount) (journal_append (createObjectChange a) s)"
      "obj = newObject K a zeroAccount"
      using assms by (auto simp: getOrNewStateObject_def createObject_def getStateObject_None Let_def)
    with None show ?thesis by (simp add: jstep_create)
  next
    case (Some x)
    then have "s' = snd (getStateObject K a s)" "obj = x"
      using assms by (auto simp: getOrNewStateObject_def split: prod.splits option.splits)
    moreover have "sdb_inv K s \<longrightarrow> so_address x = a" using inv_obj [OF _ Some] by (simp add: obj_ok_def)
    ultimately show ?thesis using Some by (simp add: jstep_get)
  qed
  then show "jstep K s s'" "obj_at K s' a = Some obj" "sdb_inv K s \<Longrightarrow> so_address obj = a" by simp_all
qed

lemma so_simps [simp]:
  "so_address (so_setBalance n x) = so_address x" "dirtyStorage (so_setBalance n x) = dirtyStorage x"
  "so_address (so_setNonce m x) = so_address x" "dirtyStorage (so_setNonce m x) = dirtyStorage x"
  "so_address (so_setCode h code x) = so_address x" "dirtyStorage (so_setCode h code x) = dirtyStorage x"
  "so_address (so_setState k v w x) = so_address x"
  by (simp_all add: so_setBalance_def so_setNonce_def so_setCode_def so_setState_def)

lemma append_set: "journal_append e (setStateObject obj s) = setStateObject obj (journal_append e s)"
  by (simp add: journal_append_def setStateObject_def)

lemma obj_ok_frame:
  assumes "obj_ok K c a x" "so_address y = so_address x" "dirtyStorage y = dirtyStorage x"
    and "\<And>key. committed K c y key = committed K c x key"
  shows "obj_ok K c a y"
  using assms by (simp add: obj_ok_def)

text \<open>An update of the object alone, undone by the update that restores it.\<close>

lemma jstep_update:
  assumes "obj_at K s a = Some obj" "so_address obj = a"
    and "\<And>u. obj_at K u a \<noteq> None \<Longrightarrow> entry_Revert K e u = with_object K a f u"
    and "so_address obj' = a" "dirtyStorage obj' = dirtyStorage obj"
    and "\<And>key. committed K (sdb_ctx s) obj' key = committed K (sdb_ctx s) obj key"
    and "obj_eq K (sdb_ctx s) (f obj') obj" "Dirtied e \<in> {None, Some a}" "\<And>b. e \<noteq> createObjectChange b"
  shows "jstep K s (setStateObject obj' (journal_append e s))"
  using assms(1,3) by (rule jstep_object) (use assms in \<open>simp_all add: obj_ok_def\<close>)

lemma so_SetBalance_step:
  assumes "obj_at K s a = Some obj" "so_address obj = a"
  shows "jstep K s (snd (so_SetBalance n obj s))"
proof -
  have "so_setBalance (acc_Balance (so_account obj)) (so_setBalance n obj) = obj"
    by (simp add: so_setBalance_def)
  with jstep_update [OF assms, where f = "so_setBalance (acc_Balance (so_account obj))"
      and e = "balanceChange a (acc_Balance (so_account obj))" and obj' = "so_setBalance n obj"] assms(2)
  show ?thesis by (simp add: so_SetBalance_def Let_def)
qed

lemma so_SetNonce_step:
  assumes "obj_at K s a = Some obj" "so_address obj = a"
  shows "jstep K s (so_SetNonce n obj s)"
proof -
  have "so_setNonce (acc_Nonce (so_account obj)) (so_setNonce n obj) = obj"
    by (simp add: so_setNonce_def)
  with jstep_update [OF assms, where f = "so_setNonce (acc_Nonce (so_account obj))"
      and e = "nonceChange a (acc_Nonce (so_account obj))" and obj' = "so_setNonce n obj"] assms(2)
  show ?thesis by (simp add: so_SetNonce_def)
qed

lemma so_Code_cached:
  "snd (so_Code K c obj) = obj\<lparr>so_code := fst (so_Code K c obj)\<rparr>"
  by (auto simp: so_Code_def Let_def split: option.split)

lemma code_of_alt:
  "code_of K c obj = (case so_code obj of Some bs \<Rightarrow> Some bs
     | None \<Rightarrow> if IsEmptyCodeHash K (acc_CodeHash (so_account obj)) then None
       else k_GetCode K c (acc_CodeHash (so_account obj)))"
  by (simp add: so_Code_def Let_def split: option.split)

lemma so_SetCode_step:
  assumes "obj_at K s a = Some obj" "so_address obj = a"
  shows "jstep K s (so_SetCode K h code obj s)"
proof -
  let ?c = "sdb_ctx s"
  let ?f = "so_setCode (acc_CodeHash (so_account obj)) (code_of K ?c obj)"
  let ?obj' = "so_setCode h code (snd (so_Code K ?c obj))"
  have com: "committed K ?c ?obj' key = committed K ?c obj key" for key
    by (simp add: so_Code_cached so_GetCommittedState_def so_setCode_def Let_def split: option.split)
  have "code_of K ?c (?f ?obj') = code_of K ?c obj"
    unfolding code_of_setCode by (auto simp: code_of_alt split: option.split)
  with com have "obj_eq K ?c (?f ?obj') obj"
    by (simp add: obj_eq_def) (simp add: so_setCode_def so_Code_cached)
  with com jstep_update [OF assms, where f = ?f and obj' = ?obj'
      and e = "codeChange a (code_of K ?c obj) (acc_CodeHash (so_account obj))"] assms(2)
  show ?thesis by (simp add: so_SetCode_def case_prod_beta) (simp add: so_Code_cached)
qed

lemma so_GetCommittedState_cached:
  "snd (so_GetCommittedState K c key obj) = obj \<or>
   overrideStorage obj = None \<and> kv_get (originStorage obj) key = None \<and>
   snd (so_GetCommittedState K c key obj) =
     obj\<lparr>originStorage := kv_set key (k_GetState K c (so_address obj) key) (originStorage obj)\<rparr>"
  by (auto simp: so_GetCommittedState_def Let_def split: option.split)

lemma committed_alt:
  "committed K c obj key = (case overrideStorage obj of
     Some ov \<Rightarrow> (case kv_get ov key of Some v \<Rightarrow> v | None \<Rightarrow> 0)
   | None \<Rightarrow> (case kv_get (originStorage obj) key of Some v \<Rightarrow> v
       | None \<Rightarrow> k_GetState K c (so_address obj) key))"
  by (simp add: so_GetCommittedState_def Let_def split: option.split)

lemma committed_cached: "committed K c (snd (so_GetCommittedState K c key obj)) k = committed K c obj k"
  using so_GetCommittedState_cached [of K c key obj]
  by (elim disjE conjE) (simp_all add: committed_alt kv_get_set split: option.split)

lemma obj_eq_cached: "obj_eq K c (snd (so_GetCommittedState K c key obj)) obj"
proof -
  have "code_of K c (snd (so_GetCommittedState K c key obj)) = code_of K c obj"
    using so_GetCommittedState_cached [of K c key obj] by (auto simp: code_of_alt split: option.split)
  then show ?thesis
    using so_GetCommittedState_cached [of K c key obj]
    by (auto simp: obj_eq_def committed_cached)
qed

lemma so_GetState_alt:
  "fst (so_GetState K c key obj) =
     (case kv_get (dirtyStorage obj) key of Some v \<Rightarrow> v | None \<Rightarrow> committed K c obj key)"
  "obj_eq K c (snd (so_GetState K c key obj)) obj"
  by (simp_all add: so_GetState_def obj_eq_cached split: option.split)

lemma so_setState_undo:
  assumes "obj_ok K c a obj" "prev = fst (so_GetState K c key obj)" "origin = committed K c obj key"
    and "dirtyStorage obj' = dirtyStorage obj"
  shows "dirtyStorage (so_setState key prev origin (so_setState key v origin obj')) = dirtyStorage obj"
  using assms unfolding so_GetState_alt
  by (auto simp: so_setState_def obj_ok_def kv_set_set kv_set_same kv_delete_set kv_set_delete
      kv_delete_absent split: option.splits)

lemma so_SetState_step:
  assumes "obj_at K s a = Some obj" "so_address obj = a"
  shows "jstep K s (snd (so_SetState K key v obj s))"
proof -
  let ?c = "sdb_ctx s"
  define obj1 where "obj1 = snd (so_GetState K ?c key obj)"
  define obj2 where "obj2 = snd (so_GetCommittedState K ?c key obj1)"
  define prev where "prev = fst (so_GetState K ?c key obj)"
  define origin where "origin = committed K ?c obj1 key"
  have o1: "obj_eq K ?c obj1 obj" by (simp add: obj1_def so_GetState_alt)
  then have o2: "obj_eq K ?c obj2 obj" unfolding obj2_def by (rule obj_eq_trans [OF obj_eq_cached])
  have origin: "origin = committed K ?c obj key" using o1 by (simp add: origin_def obj_eq_def)
  show ?thesis
  proof (cases "prev = v")
    case True
    then show ?thesis
      using jstep_put [OF assms(1) o1] by (simp add: so_SetState_def case_prod_beta prev_def obj1_def)
  next
    case False
    let ?obj' = "so_setState key v origin obj2"
    have "jstep K s (setStateObject ?obj' (journal_append (storageChange a key prev origin) s))"
      using assms(1)
    proof (rule jstep_object)
      assume ok: "obj_ok K ?c a obj"
      then have "obj_ok K ?c a obj2" using obj_ok_eq [OF o2] by simp
      then have "obj_ok K ?c a ?obj'"
        using o2 origin by (auto simp: obj_ok_def obj_eq_def) (auto simp: so_setState_def kv_simps split: if_splits)
      moreover have "dirtyStorage (so_setState key prev origin ?obj') = dirtyStorage obj"
        using so_setState_undo [OF ok prev_def origin] o2 by (simp add: obj_eq_def)
      then have "obj_eq K ?c (so_setState key prev origin ?obj') obj"
        using o2 by (simp add: obj_eq_def) (simp add: so_setState_def)
      ultimately show "obj_ok K ?c a ?obj' \<and> obj_eq K ?c (so_setState key prev origin ?obj') obj" ..
    qed simp_all
    with False assms(2) show ?thesis
      by (simp add: so_SetState_def case_prod_beta prev_def obj1_def obj2_def origin_def)
  qed
qed

section \<open>Every operation can be undone\<close>

lemma with_new_object_step:
  assumes "\<And>obj s'. obj_at K s' a = Some obj \<Longrightarrow> so_address obj = a \<Longrightarrow> jstep K s' (F obj s')"
  shows "jstep K s (case getOrNewStateObject K a s of (obj, s') \<Rightarrow> F obj s')"
proof (rule jstep_if_inv)
  assume inv: "sdb_inv K s"
  obtain obj s' where g: "getOrNewStateObject K a s = (obj, s')" by (cases "getOrNewStateObject K a s")
  note step = getOrNewStateObject_step [OF g]
  show "jstep K s (case getOrNewStateObject K a s of (obj, s') \<Rightarrow> F obj s')"
    using jstep_trans [OF step(1) assms [OF step(2) step(3) [OF inv]]] by (simp add: g)
qed

lemma obj_step:
  assumes "\<And>obj s'. obj_at K s' a = Some obj \<Longrightarrow> so_address obj = a \<Longrightarrow> jstep K s' (F obj s')"
  shows "jstep K s (case getStateObject K a s of (None, s') \<Rightarrow> s' | (Some obj, s') \<Rightarrow> F obj s')"
proof (rule jstep_if_inv)
  assume inv: "sdb_inv K s"
  show "jstep K s (case getStateObject K a s of (None, s') \<Rightarrow> s' | (Some obj, s') \<Rightarrow> F obj s')"
  proof (cases "obj_at K s a")
    case None
    then show ?thesis by (simp add: getStateObject_None)
  next
    case (Some obj)
    then have "jstep K (snd (getStateObject K a s)) (F obj (snd (getStateObject K a s)))"
      using inv_obj [OF inv Some] by (intro assms) (simp_all add: obj_ok_def)
    from jstep_trans [OF jstep_get this] show ?thesis by (subst getStateObject_Some [OF Some]) simp
  qed
qed

lemma sdb_AddBalance_step: "jstep K s (snd (sdb_AddBalance K a n s))"
proof -
  have "jstep K s (case getOrNewStateObject K a s of (obj, s') \<Rightarrow> snd (so_AddBalance n obj s'))"
    by (rule with_new_object_step) (auto simp: so_AddBalance_def intro: so_SetBalance_step)
  then show ?thesis by (simp add: sdb_AddBalance_def split: prod.splits)
qed

lemma sdb_SubBalance_step: "jstep K s (snd (sdb_SubBalance K a n s))"
proof -
  have "jstep K s (case getOrNewStateObject K a s of (obj, s') \<Rightarrow>
      snd (if n = 0 then (acc_Balance (so_account obj), s') else so_SubBalance n obj s'))"
    by (rule with_new_object_step) (auto simp: so_SubBalance_def intro: so_SetBalance_step)
  then show ?thesis by (cases "n = 0") (simp_all add: sdb_SubBalance_def split: prod.splits)
qed

lemma sdb_SetBalance_step: "jstep K s (sdb_SetBalance K a n s)"
  unfolding sdb_SetBalance_def by (rule with_new_object_step) (rule so_SetBalance_step)

lemma sdb_SetNonce_step: "jstep K s (sdb_SetNonce K a n s)"
  unfolding sdb_SetNonce_def by (rule with_new_object_step) (rule so_SetNonce_step)

lemma sdb_SetCode_step: "jstep K s (snd (sdb_SetCode K a code s))"
proof -
  let ?h = "k_Keccak256 K (case code of None \<Rightarrow> [] | Some bs \<Rightarrow> bs)"
  have "jstep K s (case getOrNewStateObject K a s of (obj, s') \<Rightarrow> so_SetCode K ?h code obj s')"
    by (rule with_new_object_step) (rule so_SetCode_step)
  then show ?thesis by (simp add: sdb_SetCode_def split: prod.splits)
qed

lemma sdb_SetState_step: "jstep K s (snd (sdb_SetState K a key v s))"
proof -
  have "jstep K s (case getOrNewStateObject K a s of (obj, s') \<Rightarrow> snd (so_SetState K key v obj s'))"
    by (rule with_new_object_step) (rule so_SetState_step)
  then show ?thesis by (simp add: sdb_SetState_def split: prod.splits)
qed

lemma sdb_CreateAccount_step: "jstep K s (sdb_CreateAccount K a s)"
proof (cases "obj_at K s a")
  case None
  then show ?thesis
    by (simp add: sdb_CreateAccount_def createObject_def getStateObject_None Let_def jstep_create)
next
  case (Some prev)
  let ?g = "snd (getStateObject K a s)"
  let ?new = "newObject K a zeroAccount"
  have "setStateObject x (setStateObject y u) = setStateObject x u" if "so_address x = so_address y" for x y and u :: "'a StateDB"
    using that by (simp add: setStateObject_def)
  then have "sdb_CreateAccount K a s =
      setStateObject (so_setBalance (acc_Balance (so_account prev)) ?new)
        (journal_append (resetObjectChange prev) ?g)"
    using Some by (auto simp: sdb_CreateAccount_def createObject_def Let_def split: prod.splits option.splits)
  moreover have "jstep K ?g (setStateObject (so_setBalance (acc_Balance (so_account prev)) ?new)
        (journal_append (resetObjectChange prev) ?g))"
    using Some obj_ok_newObject [of K "sdb_ctx s" a zeroAccount]
    by (intro jstep_reset) (auto intro: obj_ok_frame)
  ultimately show ?thesis using jstep_trans [OF jstep_get] by simp
qed

lemma sdb_CreateContract_step:
  assumes "sdb_CreateContract K a s = Inr s'"
  shows "jstep K s s'"
proof -
  let ?F = "\<lambda>obj u. if newContract obj then u
     else journal_append (createContractChange a) (setStateObject (obj\<lparr>newContract := True\<rparr>) u)"
  have "jstep K s (case getStateObject K a s of (None, s') \<Rightarrow> s' | (Some obj, s') \<Rightarrow> ?F obj s')"
  proof (rule obj_step)
    fix obj and u :: "'a StateDB"
    assume at: "obj_at K u a = Some obj" "so_address obj = a"
    have "obj_eq K (sdb_ctx u) (obj\<lparr>newContract := False\<rparr>) obj" if "\<not> newContract obj"
      using that by (simp add: obj_eq_def)
    then show "jstep K u (?F obj u)"
      using jstep_update [OF at, where f = "\<lambda>obj. obj\<lparr>newContract := False\<rparr>"
          and e = "createContractChange a" and obj' = "obj\<lparr>newContract := True\<rparr>"] at
      by (cases "newContract obj") (simp_all add: append_set)
  qed
  then show ?thesis
    using assms by (auto simp: sdb_CreateContract_def split: prod.splits option.splits if_splits)
qed

lemma sdb_SelfDestruct_step: "jstep K s (snd (sdb_SelfDestruct K a s))"
proof -
  let ?F = "\<lambda>obj u. setStateObject (so_setBalance 0 (so_markSelfDestructed obj))
     (journal_append (selfDestructChange a (selfDestructed obj) (acc_Balance (so_account obj))) u)"
  have "jstep K s (case getStateObject K a s of (None, s') \<Rightarrow> s' | (Some obj, s') \<Rightarrow> ?F obj s')"
  proof (rule obj_step)
    fix obj and u :: "'a StateDB"
    assume at: "obj_at K u a = Some obj" "so_address obj = a"
    let ?f = "\<lambda>x. so_setBalance (acc_Balance (so_account obj)) (x\<lparr>selfDestructed := selfDestructed obj\<rparr>)"
    have "?f (so_setBalance 0 (so_markSelfDestructed obj)) = obj"
      by (simp add: so_setBalance_def so_markSelfDestructed_def)
    then have eq: "obj_eq K (sdb_ctx u) (?f (so_setBalance 0 (so_markSelfDestructed obj))) obj" by simp
    have rev: "entry_Revert K (selfDestructChange a p b) w =
        with_object K a (\<lambda>x. so_setBalance b (x\<lparr>selfDestructed := p\<rparr>)) w" if "obj_at K w a \<noteq> None" for w p b
      using that by (simp only: entry_Revert_selfDestruct if_False)
    show "jstep K u (?F obj u)"
      using at rev eq by (intro jstep_update [where f = ?f]) (simp_all add: so_markSelfDestructed_def)
  qed
  then show ?thesis by (simp add: sdb_SelfDestruct_def Let_def split: prod.splits option.splits)
qed

lemma sdb_SelfDestruct6780_step: "jstep K s (snd (sdb_SelfDestruct6780 K a s))"
proof (cases "obj_at K s a")
  case None
  then show ?thesis by (simp add: sdb_SelfDestruct6780_def getStateObject_None)
next
  case (Some obj)
  have "snd (sdb_SelfDestruct6780 K a s) =
      (if newContract obj then snd (sdb_SelfDestruct K a (snd (getStateObject K a s)))
       else snd (getStateObject K a s))"
    using Some by (auto simp: sdb_SelfDestruct6780_def split: prod.splits option.splits)
  then show ?thesis by (auto intro: jstep_get jstep_trans [OF jstep_get sdb_SelfDestruct_step])
qed

lemma sdb_AddLog_step: "jstep K s (sdb_AddLog p s)"
proof (rule jstep_entry [where e = addLogChange])
  show "sdb_inv K s \<Longrightarrow> sdb_inv K (sdb_AddLog p s)"
    by (simp add: sdb_AddLog_def Let_def sdb_inv_def mark_dirty_ok)
  show "\<exists>t. entry_Revert K addLogChange (sdb_AddLog p s) = Inr t \<and>
      sdb_sim K (t\<lparr>dirties := unmark_dirty addLogChange (dirties t)\<rparr>) s"
    by (simp add: sdb_AddLog_def Let_def sdb_sim_def sdb_eq_def option.rel_refl mark_dirty_def unmark_dirty_def)
qed (simp_all add: sdb_AddLog_def Let_def)

lemma refund_step: "jstep K s ((journal_append (refundChange (refund s)) s)\<lparr>refund := r\<rparr>)"
proof (rule jstep_entry [where e = "refundChange (refund s)"])
  show "\<exists>t. entry_Revert K (refundChange (refund s)) ((journal_append (refundChange (refund s)) s)\<lparr>refund := r\<rparr>) = Inr t \<and>
      sdb_sim K (t\<lparr>dirties := unmark_dirty (refundChange (refund s)) (dirties t)\<rparr>) s"
    by (simp add: sdb_sim_def sdb_eq_def option.rel_refl mark_dirty_def unmark_dirty_def)
qed (simp_all add: sdb_inv_def mark_dirty_ok)

lemma sdb_AddRefund_step: "jstep K s (sdb_AddRefund g s)"
  using refund_step [of K s "refund s + g"] by (simp add: sdb_AddRefund_def Let_def)

lemma sdb_SubRefund_step: "sdb_SubRefund g s = Inr s' \<Longrightarrow> jstep K s s'"
  using refund_step [of K s "refund s - g"] by (auto simp: sdb_SubRefund_def Let_def split: if_splits)

lemma sdb_SetTransientState_step: "jstep K s (sdb_SetTransientState a key v s)"
proof (cases "sdb_GetTransientState a key s = v")
  case True
  then show ?thesis by (simp add: sdb_SetTransientState_def)
next
  case False
  let ?e = "transientStorageChange a key (ts_Get (transient s) a key)"
  let ?s' = "setTransientState a key v (journal_append ?e s)"
  have "jstep K s ?s'"
  proof (rule jstep_entry [where e = ?e])
    show "sdb_inv K s \<Longrightarrow> sdb_inv K ?s'"
      by (simp add: setTransientState_def sdb_inv_def mark_dirty_ok ts_wf_Set)
    show "\<exists>t. entry_Revert K ?e ?s' = Inr t \<and> sdb_sim K (t\<lparr>dirties := unmark_dirty ?e (dirties t)\<rparr>) s"
      if "sdb_inv K s"
      using that ts_Set_undo [of "transient s" a key v]
      by (simp add: sdb_inv_def setTransientState_def sdb_sim_def sdb_eq_def option.rel_refl
          mark_dirty_def unmark_dirty_def)
  qed (simp_all add: setTransientState_def)
  with False show ?thesis by (simp add: sdb_SetTransientState_def sdb_GetTransientState_def Let_def)
qed

lemma address_step:
  assumes "fst (al_AddAddress (sdb_accessList s) a)"
  shows "jstep K s (journal_append (accessListAddAccountChange a)
    (s\<lparr>sdb_accessList := snd (al_AddAddress (sdb_accessList s) a)\<rparr>))" (is "jstep K s ?s'")
proof (rule jstep_entry [where e = "accessListAddAccountChange a"])
  show "sdb_inv K s \<Longrightarrow> sdb_inv K ?s'"
    by (simp add: sdb_inv_def mark_dirty_ok al_wf_AddAddress)
  show "\<exists>t. entry_Revert K (accessListAddAccountChange a) ?s' = Inr t \<and>
      sdb_sim K (t\<lparr>dirties := unmark_dirty (accessListAddAccountChange a) (dirties t)\<rparr>) s"
    using al_DeleteAddress_Add [OF assms]
    by (simp add: sdb_sim_def sdb_eq_def option.rel_refl mark_dirty_def unmark_dirty_def)
qed simp_all

lemma sdb_AddAddressToAccessList_step: "jstep K s (sdb_AddAddressToAccessList a s)"
proof (cases "fst (al_AddAddress (sdb_accessList s) a)")
  case True
  then show ?thesis
    using address_step [OF True] by (simp add: sdb_AddAddressToAccessList_def case_prod_beta Let_def)
next
  case False
  then have "snd (al_AddAddress (sdb_accessList s) a) = sdb_accessList s"
    by (auto simp: al_AddAddress_def split: if_splits)
  with False show ?thesis by (simp add: sdb_AddAddressToAccessList_def case_prod_beta Let_def)
qed

lemma slot_step:
  assumes "al_DeleteSlot al a h = Inr (sdb_accessList s)" "sdb_inv K s \<Longrightarrow> al_wf al"
  shows "jstep K s ((journal_append (accessListAddSlotChange a h) s)\<lparr>sdb_accessList := al\<rparr>)" (is "jstep K s ?s'")
proof (rule jstep_entry [where e = "accessListAddSlotChange a h"])
  show "sdb_inv K s \<Longrightarrow> sdb_inv K ?s'"
    using assms(2) by (simp add: sdb_inv_def mark_dirty_ok)
  show "\<exists>t. entry_Revert K (accessListAddSlotChange a h) ?s' = Inr t \<and>
      sdb_sim K (t\<lparr>dirties := unmark_dirty (accessListAddSlotChange a h) (dirties t)\<rparr>) s"
    using assms(1)
    by (simp add: sdb_sim_def sdb_eq_def option.rel_refl mark_dirty_def unmark_dirty_def)
qed simp_all

lemma sdb_AddSlotToAccessList_step:
  assumes "sdb_AddSlotToAccessList a h s = Inr s'"
  shows "jstep K s s'"
proof (rule jstep_if_inv)
  assume "sdb_inv K s"
  then have wf: "al_wf (sdb_accessList s)" by (simp add: sdb_inv_def)
  obtain addrMod slotMod al where add: "al_AddSlot (sdb_accessList s) a h = Inr ((addrMod, slotMod), al)"
    using assms by (auto simp: sdb_AddSlotToAccessList_def rbind_eq_Inr)
  have al: "al_wf al" using al_wf_AddSlot [OF wf add] .
  define s1 where "s1 = (if addrMod then journal_append (accessListAddAccountChange a)
      (s\<lparr>sdb_accessList := snd (al_AddAddress (sdb_accessList s) a)\<rparr>) else s)"
  have "addrMod \<longleftrightarrow> fst (al_AddAddress (sdb_accessList s) a)"
    using al_warm_AddSlot [OF wf add] by (simp add: fst_al_AddAddress)
  then have s1: "jstep K s s1" using address_step [of s a K] by (simp add: s1_def)
  have cases: "\<not> slotMod \<Longrightarrow> \<not> addrMod \<and> al = sdb_accessList s"
    using al_AddSlot_cases [OF wf, of a h] add by fastforce
  show "jstep K s s'"
  proof (cases slotMod)
    case True
    then have "al_DeleteSlot al a h = Inr (sdb_accessList s1)"
      using al_DeleteSlot_Add [OF wf] add by (simp add: s1_def)
    note step = jstep_trans [OF s1 slot_step [OF this al]]
    have "s' = (journal_append (accessListAddSlotChange a h) s1)\<lparr>sdb_accessList := al\<rparr>"
      using assms add True
      by (auto simp: sdb_AddSlotToAccessList_def s1_def journal_append_def Let_def intro!: StateDB.equality)
    with step show ?thesis by simp
  next
    case False
    then show ?thesis using cases assms add by (auto simp: sdb_AddSlotToAccessList_def Let_def)
  qed
qed

subsection \<open>Precompile calls\<close>

text \<open>No slot of a dirty account is dirty, so flushing the journal leaves the objects alone.\<close>

definition flush_clean :: "'c StateDB \<Rightarrow> bool" where
  "flush_clean s \<longleftrightarrow>
     list_all (\<lambda>a. case stateObjects s a of
        None \<Rightarrow> True | Some obj \<Rightarrow> selfDestructed obj \<or> dirtyStorage obj = []) (sortedDirties s)"

lemma setStateObject_same: "stateObjects s (so_address obj) = Some obj \<Longrightarrow> setStateObject obj s = s"
  by (simp add: setStateObject_def fun_upd_idem)

lemma commit_object_clean:
  assumes "selfDestructed obj \<or> dirtyStorage obj = []" "commit_object K keep obj c = Inr (obj', c')"
  shows "obj' = obj"
  using assms by (auto simp: commit_object_def rbind_eq_Inr SortedKeys_def kv_keys_def split: if_splits)

lemma commit_loop_clean:
  assumes "commit_loop K keep as s c = Inr (s', c')"
    and "\<And>a obj. stateObjects s a = Some obj \<Longrightarrow> so_address obj = a"
    and "list_all (\<lambda>a. case stateObjects s a of
        None \<Rightarrow> True | Some obj \<Rightarrow> selfDestructed obj \<or> dirtyStorage obj = []) as"
  shows "s' = s"
  using assms
proof (induction as arbitrary: c)
  case (Cons a as)
  then obtain obj obj' c1 where o: "stateObjects s a = Some obj" "commit_object K keep obj c = Inr (obj', c1)"
    "commit_loop K keep as (setStateObject obj' s) c1 = Inr (s', c')"
    by (auto simp: rbind_eq_Inr split: option.splits)
  then have "obj' = obj" using commit_object_clean Cons.prems(3) by fastforce
  with o Cons.prems(2) [OF o(1)] have "commit_loop K keep as s c1 = Inr (s', c')"
    by (simp add: setStateObject_same)
  with Cons show ?case by simp
qed simp

lemma GetCacheContext_step:
  assumes "sdb_GetCacheContext K s = Inr s'"
  shows "jstep K s s'"
proof (cases "writeCache s")
  case None
  then have s': "s' = s\<lparr>cacheStore := Some [k_CacheContext K (sdb_ctx s)],
      cacheEvents := k_CacheEvents K (sdb_ctxEvents s), writeCache := Some EmitCacheEvents\<rparr>"
    using assms by (auto simp: sdb_GetCacheContext_def sdb_cache_def split: if_splits)
  have "sdb_sim K s' s" if "cache_ok s"
    using that None by (simp add: s' sdb_sim_def sdb_eq_def option.rel_refl) (simp add: cache_of_def cache_ok_def)
  then show ?thesis by (intro jstep_cache) (simp_all add: s' same_frame_def cache_ok_def)
next
  case (Some w)
  with assms show ?thesis by (simp add: sdb_GetCacheContext_def)
qed

lemma sdb_inv_address: "sdb_inv K s \<Longrightarrow> stateObjects s a = Some obj \<Longrightarrow> so_address obj = a"
  using inv_obj [of K s a obj] by (simp add: obj_at_alt obj_ok_def)

lemma CommitWithCacheCtx_clean:
  assumes "sdb_CommitWithCacheCtx K s = Inr s'" "cacheStore s = Some vs" "flush_clean s" "sdb_inv K s"
  shows "\<exists>c. s' = s\<lparr>cacheStore := Some (vs_update (\<lambda>_. c) vs)\<rparr>"
proof -
  obtain s1 c where c: "commit_loop K True (sortedDirties s) s (last vs) = Inr (s1, c)"
    "s' = s1\<lparr>cacheStore := Some (vs_update (\<lambda>_. c) vs)\<rparr>"
    using assms(1,2) by (auto simp: sdb_CommitWithCacheCtx_def commitWithCtx_def rbind_eq_Inr)
  then have "s1 = s"
    using commit_loop_clean [OF c(1) sdb_inv_address [OF assms(4)]] assms(3) by (simp add: flush_clean_def)
  with c show ?thesis by blast
qed

text \<open>
  What a call leaves behind: the entry of the call, and any versions of the cache context
  above the one that was live before.
\<close>

lemma precompile_entry_step:
  assumes "cacheStore s = Some vs"
    and "s' = journal_append (precompileCallChange (int (length vs) - 1) evs) s
      \<lparr>precompileCallsCounter := n, cacheStore := Some (vs @ [c]), cacheEvents := evs'\<rparr>"
  shows "jstep K s s'"
proof (rule jstep_entry [where e = "precompileCallChange (int (length vs) - 1) evs"])
  assume inv: "sdb_inv K s"
  then have vs: "vs \<noteq> []" using assms(1) by (simp add: sdb_inv_def cache_of_def)
  show "sdb_inv K s'" using inv by (simp add: assms(2) sdb_inv_def mark_dirty_ok)
  have "nat (int (length vs) - 1) + 1 = length vs" using vs by (cases vs) auto
  then have "vs_RevertToSnapshot (vs @ [c]) (int (length vs) - 1) = Inr vs"
    using vs by (simp add: vs_RevertToSnapshot_def Suc_le_eq)
  then show "\<exists>t. entry_Revert K (precompileCallChange (int (length vs) - 1) evs) s' = Inr t \<and>
      sdb_sim K (t\<lparr>dirties := unmark_dirty (precompileCallChange (int (length vs) - 1) evs) (dirties t)\<rparr>) s"
    using assms
    by (simp add: sdb_RevertMultiStore_def sdb_sim_def sdb_eq_def option.rel_refl mark_dirty_def unmark_dirty_def)
      (simp add: cache_of_def)
qed (use assms in \<open>simp_all add: cache_ok_def\<close>)

lemma GetCacheContext_cached: "writeCache s \<noteq> None \<Longrightarrow> sdb_GetCacheContext K s = Inr s"
  by (auto simp: sdb_GetCacheContext_def)

lemma GetCacheContext_same:
  assumes "sdb_GetCacheContext K s = Inr s'"
  shows "flush_clean s' = flush_clean s"
  using assms
  by (auto simp: sdb_GetCacheContext_def sdb_cache_def flush_clean_def sortedDirties_def split: if_splits)

lemma vs_update_snoc [simp]: "vs_update f (vs @ [x]) = vs @ [f x]"
  by (simp add: vs_update_def)

lemma precompile_shape:
  assumes "cacheStore s = Some vs" "flush_clean s" "sdb_inv K s" "writeCache s \<noteq> None"
    and "precompile_call K action evs s = Inr s'"
  shows "\<exists>n c evs'. s' = journal_append (precompileCallChange (int (length vs) - 1) (cacheEvents s)) s
      \<lparr>precompileCallsCounter := n, cacheStore := Some (vs @ [c]), cacheEvents := evs'\<rparr>"
proof -
  let ?e = "precompileCallChange (int (length vs) - 1) (cacheEvents s)"
  define s3 where "s3 = journal_append ?e s\<lparr>precompileCallsCounter := precompileCallsCounter s + 1,
    cacheStore := Some (vs @ [last vs])\<rparr>"
  have s3: "snd (sdb_AddPrecompileFn (int (length vs) - 1) (cacheEvents s)
      (s\<lparr>cacheStore := Some (vs @ [last vs])\<rparr>)) = s3"
    by (auto simp: sdb_AddPrecompileFn_def s3_def journal_append_def Let_def intro!: StateDB.equality)
  have pre: "precompile_setup K s =
      (case sdb_AddPrecompileFn (int (length vs) - 1) (cacheEvents s) (s\<lparr>cacheStore := Some (vs @ [last vs])\<rparr>) of
        (Some e, s3) \<Rightarrow> Inr (Some e, s3)
      | (None, s3) \<Rightarrow> rbind (sdb_CommitWithCacheCtx K s3) (\<lambda>s4. Inr (None, s4)))"
    using assms(1) GetCacheContext_cached [OF assms(4)]
    by (simp add: precompile_setup_def sdb_MultiStoreSnapshot_def vs_Snapshot_def)
  have inv3: "cacheStore s3 = Some (vs @ [last vs])" "flush_clean s3" "sdb_inv K s3"
    using assms(2,3) by (simp_all add: s3_def flush_clean_def sortedDirties_def mark_dirty_def sdb_inv_def)
  show ?thesis
  proof (cases "fst (sdb_AddPrecompileFn (int (length vs) - 1) (cacheEvents s) (s\<lparr>cacheStore := Some (vs @ [last vs])\<rparr>))")
    case (Some e)
    then have "s' = s3" using assms(5) s3 pre
      by (auto simp: precompile_call_def split: prod.splits)
    then show ?thesis by (intro exI [of _ "precompileCallsCounter s + 1"] exI [of _ "last vs"]
        exI [of _ "cacheEvents s"]) (simp add: s3_def)
  next
    case None
    then obtain s4 where s4: "sdb_CommitWithCacheCtx K s3 = Inr s4"
      and s': "s' = s4\<lparr>cacheStore := map_option (vs_update action) (cacheStore s4), cacheEvents := cacheEvents s4 @ evs\<rparr>"
      using assms(5) s3 pre by (auto simp: precompile_call_def rbind_eq_Inr split: prod.splits)
    obtain c where "s4 = s3\<lparr>cacheStore := Some (vs @ [c])\<rparr>"
      using CommitWithCacheCtx_clean [OF s4 inv3] by auto
    then show ?thesis by (intro exI [of _ "precompileCallsCounter s + 1"] exI [of _ "action c"]
        exI [of _ "cacheEvents s @ evs"]) (simp add: s' s3_def)
  qed
qed

lemma precompile_call_step:
  assumes "precompile_call K action evs s = Inr s'" "flush_clean s" "sdb_inv K s" "cache_ok s"
  shows "jstep K s s'"
proof -
  obtain s1 where s1: "sdb_GetCacheContext K s = Inr s1"
    using assms(1) by (auto simp: precompile_call_def precompile_setup_def rbind_eq_Inr)
  note step1 = GetCacheContext_step [OF s1]
  have inv1: "sdb_inv K s1" "cache_ok s1" using step1 assms(3,4) unfolding jstep_def by blast+
  have w: "writeCache s1 \<noteq> None"
    using s1 by (auto simp: sdb_GetCacheContext_def sdb_cache_def split: if_splits)
  then have "sdb_GetCacheContext K s1 = Inr s1" by (rule GetCacheContext_cached)
  then have r1: "precompile_call K action evs s1 = Inr s'"
    using assms(1) s1 by (simp add: precompile_call_def precompile_setup_def)
  then obtain vs where vs: "cacheStore s1 = Some vs"
    using s1 w by (cases "cacheStore s1") (auto simp: precompile_call_def precompile_setup_def
        sdb_MultiStoreSnapshot_def sdb_GetCacheContext_def)
  show ?thesis
    using precompile_shape [OF vs _ inv1(1) w r1] GetCacheContext_same [OF s1] assms(2)
      jstep_trans [OF step1] precompile_entry_step [OF vs] by blast
qed

section \<open>Runs\<close>

datatype 'c op =
    OpExist address | OpEmpty address | OpGetBalance address | OpGetNonce address
  | OpGetCode address | OpGetCodeSize address | OpGetCodeHash address
  | OpGetState address hash | OpGetCommittedState address hash | OpHasSelfDestructed address
  | OpCreateAccount address | OpCreateContract address
  | OpAddBalance address u256 | OpSubBalance address u256 | OpSetBalance address u256
  | OpSetNonce address u64 | OpSetCode address "bytes option" | OpSetState address hash hash
  | OpSelfDestruct address | OpSelfDestruct6780 address
  | OpAddLog bytes | OpAddRefund u64 | OpSubRefund u64
  | OpSetTransientState address hash hash
  | OpAddAddressToAccessList address | OpAddSlotToAccessList address hash
  | OpPrecompile "'c \<Rightarrow> 'c" "event list"
  | OpSnapshot | OpRevertToSnapshot int

fun exec :: "'c keeper \<Rightarrow> 'c op \<Rightarrow> 'c StateDB \<Rightarrow> 'c StateDB res" where
  "exec K (OpExist a) s = Inr (snd (sdb_Exist K a s))"
| "exec K (OpEmpty a) s = Inr (snd (sdb_Empty K a s))"
| "exec K (OpGetBalance a) s = Inr (snd (sdb_GetBalance K a s))"
| "exec K (OpGetNonce a) s = Inr (snd (sdb_GetNonce K a s))"
| "exec K (OpGetCode a) s = Inr (snd (sdb_GetCode K a s))"
| "exec K (OpGetCodeSize a) s = Inr (snd (sdb_GetCodeSize K a s))"
| "exec K (OpGetCodeHash a) s = Inr (snd (sdb_GetCodeHash K a s))"
| "exec K (OpGetState a k) s = Inr (snd (sdb_GetState K a k s))"
| "exec K (OpGetCommittedState a k) s = Inr (snd (sdb_GetCommittedState K a k s))"
| "exec K (OpHasSelfDestructed a) s = Inr (snd (sdb_HasSelfDestructed K a s))"
| "exec K (OpCreateAccount a) s = Inr (sdb_CreateAccount K a s)"
| "exec K (OpCreateContract a) s = sdb_CreateContract K a s"
| "exec K (OpAddBalance a n) s = Inr (snd (sdb_AddBalance K a n s))"
| "exec K (OpSubBalance a n) s = Inr (snd (sdb_SubBalance K a n s))"
| "exec K (OpSetBalance a n) s = Inr (sdb_SetBalance K a n s)"
| "exec K (OpSetNonce a n) s = Inr (sdb_SetNonce K a n s)"
| "exec K (OpSetCode a code) s = Inr (snd (sdb_SetCode K a code s))"
| "exec K (OpSetState a k v) s = Inr (snd (sdb_SetState K a k v s))"
| "exec K (OpSelfDestruct a) s = Inr (snd (sdb_SelfDestruct K a s))"
| "exec K (OpSelfDestruct6780 a) s = Inr (snd (sdb_SelfDestruct6780 K a s))"
| "exec K (OpAddLog p) s = Inr (sdb_AddLog p s)"
| "exec K (OpAddRefund g) s = Inr (sdb_AddRefund g s)"
| "exec K (OpSubRefund g) s = sdb_SubRefund g s"
| "exec K (OpSetTransientState a k v) s = Inr (sdb_SetTransientState a k v s)"
| "exec K (OpAddAddressToAccessList a) s = Inr (sdb_AddAddressToAccessList a s)"
| "exec K (OpAddSlotToAccessList a h) s = sdb_AddSlotToAccessList a h s"
| "exec K (OpPrecompile action evs) s = precompile_call K action evs s"
| "exec K OpSnapshot s = Inr (snd (sdb_Snapshot s))"
| "exec K (OpRevertToSnapshot i) s = sdb_RevertToSnapshot K i s"

fun run :: "'c keeper \<Rightarrow> 'c op list \<Rightarrow> 'c StateDB \<Rightarrow> 'c StateDB res" where
  "run K [] s = Inr s"
| "run K (p # ps) s = rbind (exec K p s) (run K ps)"

text \<open>The precompile calls of a run are made while no storage slot is dirty.\<close>

definition op_clean :: "'c op \<Rightarrow> 'c StateDB \<Rightarrow> bool" where
  "op_clean p s = (case p of OpPrecompile action evs \<Rightarrow> flush_clean s | _ \<Rightarrow> True)"

fun clean_run :: "'c keeper \<Rightarrow> 'c op list \<Rightarrow> 'c StateDB \<Rightarrow> bool" where
  "clean_run K [] s = True"
| "clean_run K (p # ps) s =
     (op_clean p s \<and> (case exec K p s of Inl _ \<Rightarrow> True | Inr s' \<Rightarrow> clean_run K ps s'))"

lemma read_steps:
  "snd (sdb_Exist K a s) = snd (getStateObject K a s)"
  "snd (sdb_Empty K a s) = snd (getStateObject K a s)"
  "snd (sdb_GetBalance K a s) = snd (getStateObject K a s)"
  "snd (sdb_GetNonce K a s) = snd (getStateObject K a s)"
  "snd (sdb_GetCodeHash K a s) = snd (getStateObject K a s)"
  "snd (sdb_HasSelfDestructed K a s) = snd (getStateObject K a s)"
  by (simp_all add: sdb_Exist_def sdb_Empty_def sdb_GetBalance_def sdb_GetNonce_def sdb_GetCodeHash_def
      sdb_HasSelfDestructed_def split: prod.splits option.splits)

lemma obj_eq_code: "obj_eq K c (snd (so_Code K c obj)) obj"
proof -
  have "code_of K c (snd (so_Code K c obj)) = code_of K c obj"
    by (auto simp: so_Code_cached code_of_alt split: option.split)
  then show ?thesis
    by (simp add: obj_eq_def) (simp add: so_Code_cached committed_alt split: option.split)
qed

lemma sdb_GetCode_step: "jstep K s (snd (sdb_GetCode K a s))"
proof -
  have "jstep K s (case getStateObject K a s of (None, u) \<Rightarrow> u
      | (Some so, u) \<Rightarrow> setStateObject (snd (so_Code K (sdb_ctx u) so)) u)"
    by (rule obj_step) (auto intro: jstep_put obj_eq_code)
  then show ?thesis by (auto simp: sdb_GetCode_def split: prod.splits option.splits)
qed

lemma sdb_GetCodeSize_step: "jstep K s (snd (sdb_GetCodeSize K a s))"
  using sdb_GetCode_step [of K s a]
  by (auto simp: sdb_GetCodeSize_def sdb_GetCode_def so_CodeSize_def split: prod.splits option.splits)

lemma sdb_GetState_step: "jstep K s (snd (sdb_GetState K a key s))"
proof -
  have "jstep K s (case getStateObject K a s of (None, u) \<Rightarrow> u
      | (Some so, u) \<Rightarrow> setStateObject (snd (so_GetState K (sdb_ctx u) key so)) u)"
    by (rule obj_step) (auto intro: jstep_put so_GetState_alt)
  then show ?thesis by (auto simp: sdb_GetState_def split: prod.splits option.splits)
qed

lemma sdb_GetCommittedState_step: "jstep K s (snd (sdb_GetCommittedState K a key s))"
proof -
  have "jstep K s (case getStateObject K a s of (None, u) \<Rightarrow> u
      | (Some so, u) \<Rightarrow> setStateObject (snd (so_GetCommittedState K (sdb_ctx u) key so)) u)"
    by (rule obj_step) (auto intro: jstep_put obj_eq_cached)
  then show ?thesis by (auto simp: sdb_GetCommittedState_def split: prod.splits option.splits)
qed

lemmas op_steps =
  jstep_get sdb_GetCode_step sdb_GetCodeSize_step sdb_GetState_step sdb_GetCommittedState_step
  sdb_CreateAccount_step sdb_CreateContract_step sdb_AddBalance_step sdb_SubBalance_step
  sdb_SetBalance_step sdb_SetNonce_step sdb_SetCode_step sdb_SetState_step sdb_SelfDestruct_step
  sdb_SelfDestruct6780_step sdb_AddLog_step sdb_AddRefund_step sdb_SubRefund_step
  sdb_SetTransientState_step sdb_AddAddressToAccessList_step sdb_AddSlotToAccessList_step

lemma exec_step:
  assumes "exec K p s = Inr s'" "op_clean p s" "sdb_inv K s" "cache_ok s"
    and "p \<noteq> OpSnapshot" "\<And>i. p \<noteq> OpRevertToSnapshot i"
  shows "jstep K s s'"
proof (cases p)
  case (OpPrecompile action evs)
  with assms show ?thesis by (auto simp: op_clean_def intro: precompile_call_step)
qed (use assms in \<open>auto simp: read_steps intro: op_steps\<close>)

section \<open>Reverting restores\<close>

text \<open>
  An account is live when it is cached or not stored at all. Dirty accounts are cached, and
  accounts the journal created are not stored.
\<close>

definition live :: "'c keeper \<Rightarrow> 'c StateDB \<Rightarrow> address \<Rightarrow> bool" where
  "live K s a \<longleftrightarrow> stateObjects s a \<noteq> None \<or> k_GetAccount K (sdb_ctx s) a = None"

definition dirty_live :: "'c keeper \<Rightarrow> 'c StateDB \<Rightarrow> bool" where
  "dirty_live K s \<longleftrightarrow>
     (\<forall>a. kv_get (dirties s) a \<noteq> None \<longrightarrow> stateObjects s a \<noteq> None) \<and>
     (\<forall>a. createObjectChange a \<in> set (entries s) \<longrightarrow> k_GetAccount K (sdb_ctx s) a = None)"

lemma kv_get_mark_all:
  "kv_get (fold mark_dirty es d) a \<noteq> None \<Longrightarrow> kv_get d a \<noteq> None \<or> (\<exists>e \<in> set es. Dirtied e = Some a)"
proof (induction es arbitrary: d)
  case (Cons e es)
  then show ?case by (force simp: mark_dirty_def kv_get_set split: option.splits if_splits)
qed simp

lemma dirty_live_jstep:
  assumes "jstep K s s'" "sdb_inv K s" "cache_ok s" "dirty_live K s"
  shows "dirty_live K s'"
proof -
  note step = jstepD [OF assms(1-3)]
  obtain es where es: "entries s' = entries s @ es" "entries_ok K s' es"
    "dirties s' = fold mark_dirty es (dirties s)" using step(8) by blast
  have "stateObjects s' a \<noteq> None" if "kv_get (dirties s') a \<noteq> None" for a
    using kv_get_mark_all [of es "dirties s" a] that es step(7) assms(4)
    unfolding entries_ok_def dirty_live_def by auto
  with assms(4) es step(3) show ?thesis unfolding entries_ok_def dirty_live_def by auto
qed

lemma live_jstep: "jstep K s s' \<Longrightarrow> sdb_inv K s \<Longrightarrow> cache_ok s \<Longrightarrow> live K s a \<Longrightarrow> live K s' a"
  using jstepD(3,7) unfolding live_def by metis

lemma live_with_object:
  "with_object K a f s = Inr t \<Longrightarrow> live K s b \<Longrightarrow> live K t b"
  using stateObjects_get [of s b K a]
  by (auto simp: with_object_eq live_def split: option.splits)

lemma live_entry:
  assumes "entry_Revert K e s = Inr t" "\<And>a. e = createObjectChange a \<Longrightarrow> k_GetAccount K (sdb_ctx s) a = None"
    and "live K s b"
  shows "live K t b \<and> sdb_ctx t = sdb_ctx s"
proof (cases e)
  case (selfDestructChange a p c)
  then show ?thesis
    using assms(1,3) live_with_object [of K a _ s t b] stateObjects_get [of s b K a]
    by (auto simp: entry_Revert_selfDestruct with_object_eq live_def simp del: entry_Revert.simps
        split: option.splits if_splits)
next
  case (createObjectChange a)
  with assms show ?thesis by (auto simp: live_def)
next
  case (precompileCallChange i evs)
  with assms show ?thesis
    by (auto simp: sdb_RevertMultiStore_def rbind_eq_Inr live_def split: option.splits)
qed (use assms live_with_object [of K _ _ s t b] in
  \<open>auto simp: setTransientState_def rbind_eq_Inr live_def with_object_eq split: option.splits if_splits\<close>)

lemma live_revert:
  assumes "revert_entries K es s = Inr t" "\<And>a. createObjectChange a \<in> set es \<Longrightarrow> k_GetAccount K (sdb_ctx s) a = None"
    and "live K s b"
  shows "live K t b"
  using assms
proof (induction es arbitrary: s)
  case (Cons e es)
  then obtain s1 where s1: "entry_Revert K e s = Inr s1"
    "revert_entries K es (s1\<lparr>dirties := unmark_dirty e (dirties s1)\<rparr>) = Inr t"
    by (auto simp: rbind_eq_Inr)
  have "live K s1 b \<and> sdb_ctx s1 = sdb_ctx s"
    using live_entry [OF s1(1)] Cons.prems(2,3) by auto
  then show ?case using Cons.IH [OF s1(2)] Cons.prems(2) by (auto simp: live_def)
qed simp

text \<open>
  \<open>recov K s n g\<close>: undoing the entries of \<open>s\<close> from the \<open>n\<close>-th on leads to a state equivalent to
  \<open>g\<close>. \<open>recorded K gs s\<close>: the \<open>i\<close>-th valid revision of \<open>s\<close> was taken in the state \<open>gs ! i\<close>, which
  can be recovered.
\<close>

definition recov :: "'c keeper \<Rightarrow> 'c StateDB \<Rightarrow> nat \<Rightarrow> 'c StateDB \<Rightarrow> bool" where
  "recov K s n g \<longleftrightarrow> n \<le> length (entries s) \<and> entries g = take n (entries s) \<and> sdb_inv K g \<and>
     dirty_live K g \<and> (\<forall>a. live K g a \<longrightarrow> live K s a) \<and>
     (\<exists>t. revert_entries K (rev (drop n (entries s))) s = Inr t \<and> sdb_sim K t g)"

definition recorded :: "'c keeper \<Rightarrow> 'c StateDB list \<Rightarrow> 'c StateDB \<Rightarrow> bool" where
  "recorded K gs s \<longleftrightarrow> sdb_inv K s \<and> cache_ok s \<and> dirty_live K s \<and> length gs = length (validRevisions s) \<and>
     sorted_wrt (<) (map rev_id (validRevisions s)) \<and> sorted (map rev_journalIndex (validRevisions s)) \<and>
     (\<forall>r \<in> set (validRevisions s). rev_id r < nextRevisionID s \<and> rev_journalIndex r \<le> length (entries s)) \<and>
     (\<forall>i < length gs. recov K s (rev_journalIndex (validRevisions s ! i)) (gs ! i) \<and>
        validRevisions (gs ! i) = take i (validRevisions s) \<and>
        sdb_ctxEvents (gs ! i) = rev_events (validRevisions s ! i))"

lemma recov_step:
  assumes "recov K s n g" "entries s' = entries s @ es"
    and "revert_entries K (rev es) s' = Inr t" "sdb_sim K t s" "\<And>a. live K s a \<Longrightarrow> live K s' a"
  shows "recov K s' n g"
proof -
  obtain u where u: "revert_entries K (rev (drop n (entries s))) s = Inr u" "sdb_sim K u g"
    using assms(1) unfolding recov_def by blast
  obtain u' where "revert_entries K (rev (drop n (entries s))) t = Inr u'" "sdb_sim K u' u"
    using revert_entries_sim [OF assms(4) u(1)] by blast
  with assms u(2) show ?thesis
    unfolding recov_def by (auto simp: revert_entries_append intro: sdb_sim_trans)
qed

lemma recorded_jstep:
  assumes "recorded K gs s" "jstep K s s'"
  shows "recorded K gs s'"
proof -
  have inv: "sdb_inv K s" "cache_ok s" "dirty_live K s" using assms(1) unfolding recorded_def by blast+
  note step = jstepD [OF assms(2) inv(1,2)]
  obtain es t where es: "entries s' = entries s @ es"
    "revert_entries K (rev es) s' = Inr t" "sdb_sim K t s" using step(8) by blast
  note rc = recov_step [OF _ es live_jstep [OF assms(2) inv(1,2)]]
  then show ?thesis
    using assms(1) es(1) step(1-5) dirty_live_jstep [OF assms(2) inv] unfolding recorded_def by auto
qed

lemma recorded_snapshot:
  assumes "recorded K gs s" "sdb_Snapshot s = (i, s')"
  shows "recorded K (gs @ [s]) s'"
proof -
  let ?r = "\<lparr>rev_id = nextRevisionID s, rev_journalIndex = length (entries s), rev_events = sdb_ctxEvents s\<rparr>"
  have s': "s' = s\<lparr>nextRevisionID := nextRevisionID s + 1, validRevisions := validRevisions s @ [?r]\<rparr>"
    using assms(2) by (auto simp: sdb_Snapshot_def journal_length_def Let_def)
  have sim: "sdb_sim K s' s" by (simp add: s' sdb_sim_def sdb_eq_def option.rel_refl)
  have inv: "sdb_inv K s" "cache_ok s" "dirty_live K s" using assms(1) unfolding recorded_def by blast+
  have live: "live K s' a = live K s a" "dirty_live K s' = dirty_live K s" for a
    by (simp_all add: s' live_def dirty_live_def)
  have new: "recov K s' (length (entries s)) s" using sim inv live by (simp add: recov_def s')
  have old: "recov K s' n g" if "recov K s n g" for n g
    using recov_step [OF that, of s' "[]" s'] sim live by (simp add: s')
  have len: "length gs = length (validRevisions s)" using assms(1) by (simp add: recorded_def)
  have inv': "sdb_inv K s'" "cache_ok s'"
    using inv sim sdb_inv_eq unfolding sdb_sim_def by (blast, simp add: s' cache_ok_def)
  have "recov K s' (rev_journalIndex (validRevisions s' ! i)) ((gs @ [s]) ! i) \<and>
      validRevisions ((gs @ [s]) ! i) = take i (validRevisions s') \<and>
      sdb_ctxEvents ((gs @ [s]) ! i) = rev_events (validRevisions s' ! i)" if "i < length (gs @ [s])" for i
  proof (cases "i < length gs")
    case True
    with assms(1) old len show ?thesis by (simp add: recorded_def s' nth_append)
  next
    case False
    with that have "i = length gs" by simp
    with new len show ?thesis by (simp add: s' nth_append)
  qed
  moreover have "\<forall>r \<in> set (validRevisions s). rev_id r \<le> nextRevisionID s"
    using assms(1) by (auto simp: recorded_def intro: less_imp_le)
  ultimately show ?thesis
    using inv' assms(1) len live(2) unfolding recorded_def by (simp add: s' sorted_wrt_append sorted_append)
qed

lemma cache_ok_entry:
  assumes "entry_Revert K e s = Inr t" "cache_ok s"
  shows "cache_ok t"
proof (cases e)
  case (selfDestructChange a p b)
  with assms show ?thesis
    by (auto simp: entry_Revert_selfDestruct with_object_eq simp del: entry_Revert.simps
        split: option.splits if_splits)
next
  case (precompileCallChange i evs)
  with assms show ?thesis
    by (auto simp: sdb_RevertMultiStore_def rbind_eq_Inr cache_ok_def split: option.splits)
next
  case (createObjectChange a)
  with assms show ?thesis by (auto simp: cache_ok_def)
qed (use assms in \<open>auto simp: with_object_eq setTransientState_def rbind_eq_Inr split: option.splits if_splits\<close>)

lemma cache_ok_revert: "revert_entries K es s = Inr t \<Longrightarrow> cache_ok s \<Longrightarrow> cache_ok t"
proof (induction es arbitrary: s)
  case (Cons e es)
  then obtain s1 where s1: "entry_Revert K e s = Inr s1"
    "revert_entries K es (s1\<lparr>dirties := unmark_dirty e (dirties s1)\<rparr>) = Inr t"
    by (auto simp: rbind_eq_Inr)
  then show ?case using Cons.IH [OF s1(2)] cache_ok_entry [OF s1(1) Cons.prems(2)] by (simp add: cache_ok_def)
qed simp

text \<open>Where the search finds a revision of a recorded state.\<close>

lemma search_revision:
  assumes "sorted_wrt (<) (map rev_id rs)" "p < length rs"
  shows "sort_search (length rs) (\<lambda>i. rev_id (rs ! p) \<le> rev_id (rs ! i)) = p"
proof (rule sort_search_eqI)
  have lt: "rev_id (rs ! i) < rev_id (rs ! j)" if "i < j" "j < length rs" for i j
    using sorted_wrt_nth_less [OF assms(1), of i j] that by simp
  fix a b
  assume "a \<le> b" "b < length rs" "rev_id (rs ! p) \<le> rev_id (rs ! a)"
  then show "rev_id (rs ! p) \<le> rev_id (rs ! b)"
    using lt [of a b] by (cases "a = b") auto
next
  show "\<forall>a<p. \<not> rev_id (rs ! p) \<le> rev_id (rs ! a)"
    using sorted_wrt_nth_less [OF assms(1), of _ p] assms(2) by (auto simp: not_le)
qed (use assms in auto)

lemma sorted_index:
  "sorted (map f rs) \<Longrightarrow> i < p \<Longrightarrow> p < length rs \<Longrightarrow> f (rs ! i) \<le> f (rs ! p)"
  using sorted_nth_mono [of "map f rs" i p] by simp

lemma live_frame [simp]: "live K (frame es rs evs s) a = live K s a"
  by (simp add: live_def frame_def)

lemma live_undone:
  assumes "revert_entries K (rev (drop m (entries s))) s = Inr t" "dirty_live K s" "live K s a"
  shows "live K t a"
  using assms(1) _ assms(3)
proof (rule live_revert)
  fix b
  assume "createObjectChange b \<in> set (rev (drop m (entries s)))"
  then show "k_GetAccount K (sdb_ctx s) b = None"
    using assms(2) by (auto simp: dirty_live_def dest: in_set_dropD)
qed

lemma dirty_live_undone:
  assumes "recov K s n g" "revert_entries K (rev (drop n (entries s))) s = Inr t" "sdb_sim K t g"
    and "dirty_live K s"
  shows "dirty_live K (frame (take n (entries s)) rs evs t)"
proof -
  have g: "dirty_live K g" "\<And>a. live K g a \<Longrightarrow> live K s a" using assms(1) unfolding recov_def by blast+
  have "stateObjects t a \<noteq> None" if "kv_get (dirties t) a \<noteq> None" for a
  proof -
    have *: "stateObjects g a \<noteq> None"
      using g(1) that sdb_sim_fields(4) [OF assms(3)] by (simp add: dirty_live_def)
    then obtain y where "obj_at K g a = Some y" by (auto simp: obj_at_alt)
    then obtain x where x: "obj_at K t a = Some x" using sdb_sim_objects [OF assms(3)] by blast
    have "live K t a" using * g(2) live_undone [OF assms(2,4)] by (simp add: live_def)
    with x show ?thesis by (auto simp: live_def obj_at_alt split: option.splits)
  qed
  moreover have "sdb_ctx t = sdb_ctx s"
    using same_frame_revert [OF assms(2)] by (simp add: same_frame_def)
  ultimately show ?thesis
    using assms(4) by (auto simp: dirty_live_def frame_def dest: in_set_takeD)
qed

text \<open>Undoing down to \<open>n\<close> leaves every state below \<open>n\<close> recoverable.\<close>

lemma recov_below:
  assumes "recov K s n g" "revert_entries K (rev (drop m (entries s))) s = Inr t" "n \<le> m" "m \<le> length (entries s)"
    and "dirty_live K s"
  shows "recov K (frame (take m (entries s)) rs evs t) n g"
proof -
  obtain u where u: "revert_entries K (rev (drop n (entries s))) s = Inr u" "sdb_sim K u g"
    using assms(1) unfolding recov_def by blast
  have "drop n (entries s) = drop n (take m (entries s)) @ drop m (entries s)"
    using assms(3) by (metis append_take_drop_id drop_append drop_drop drop_take le_add_diff_inverse2
        length_take min.absorb2 assms(4) diff_is_0_eq drop0)
  then have "revert_entries K (rev (drop n (take m (entries s)))) t = Inr u"
    using u(1) assms(2) by (simp add: revert_entries_append)
  then have "revert_entries K (rev (drop n (take m (entries s)))) (frame (take m (entries s)) rs evs t)
      = Inr (frame (take m (entries s)) rs evs u)" by (simp add: revert_entries_frame)
  moreover have "live K t a" if "live K g a" for a
    using assms(1) that live_undone [OF assms(2,5)] unfolding recov_def by blast
  ultimately show ?thesis using assms u(2) unfolding recov_def by auto
qed

lemma sdb_RevertToSnapshot_eq:
  assumes "sorted_wrt (<) (map rev_id (validRevisions s))" "p < length (validRevisions s)"
    and "r = validRevisions s ! p" "rev_journalIndex r \<le> length (entries s)"
    and "revert_entries K (rev (drop (rev_journalIndex r) (entries s))) s = Inr t"
  shows "sdb_RevertToSnapshot K (rev_id r) s =
    Inr (frame (take (rev_journalIndex r) (entries s)) (take p (validRevisions s)) (rev_events r) t)"
proof -
  let ?s1 = "frame (entries s) (validRevisions s) (rev_events r) s"
  have s1: "s\<lparr>sdb_ctxEvents := rev_events r\<rparr> = ?s1" by (simp add: frame_def)
  have "revert_entries K (rev (drop (rev_journalIndex r) (entries s))) ?s1
      = Inr (frame (entries s) (validRevisions s) (rev_events r) t)"
    using assms(5) by (simp add: revert_entries_frame)
  then show ?thesis
    using search_revision [OF assms(1,2)] assms(2-4)
    by (simp add: sdb_RevertToSnapshot_def journal_Revert_def Let_def s1) (simp add: frame_def)
qed

lemma revert_recorded:
  assumes rec: "recorded K gs s" and p: "p < length (validRevisions s)"
  obtains s' where "sdb_RevertToSnapshot K (rev_id (validRevisions s ! p)) s = Inr s'"
    "recorded K (take p gs) s'" "sdb_sim K s' (gs ! p)" "entries s' = entries (gs ! p)"
    "validRevisions s' = validRevisions (gs ! p)" "sdb_ctxEvents s' = sdb_ctxEvents (gs ! p)"
    "nextRevisionID s' = nextRevisionID s" "validRevisions s' = take p (validRevisions s)"
proof -
  let ?r = "validRevisions s ! p"
  let ?n = "rev_journalIndex ?r"
  have sorted: "sorted_wrt (<) (map rev_id (validRevisions s))" "sorted (map rev_journalIndex (validRevisions s))"
    and len: "length gs = length (validRevisions s)"
    and below: "\<And>r. r \<in> set (validRevisions s) \<Longrightarrow> rev_id r < nextRevisionID s"
    and g: "\<And>i. i < length gs \<Longrightarrow> recov K s (rev_journalIndex (validRevisions s ! i)) (gs ! i) \<and>
        validRevisions (gs ! i) = take i (validRevisions s) \<and>
        sdb_ctxEvents (gs ! i) = rev_events (validRevisions s ! i)"
    using rec unfolding recorded_def by blast+
  from g [of p] p len obtain t where t: "revert_entries K (rev (drop ?n (entries s))) s = Inr t"
    "sdb_sim K t (gs ! p)" "?n \<le> length (entries s)" "entries (gs ! p) = take ?n (entries s)" "sdb_inv K (gs ! p)"
    unfolding recov_def by auto
  define s' where "s' = frame (take ?n (entries s)) (take p (validRevisions s)) (rev_events ?r) t"
  have eq: "sdb_RevertToSnapshot K (rev_id ?r) s = Inr s'"
    unfolding s'_def by (rule sdb_RevertToSnapshot_eq [OF sorted(1) p refl t(3,1)])
  have sim: "sdb_sim K s' (gs ! p)" using t(2) by (simp add: s'_def)
  then have inv: "sdb_inv K s'" using sdb_inv_eq t(5) unfolding sdb_sim_def by blast
  have ok: "cache_ok s'" using cache_ok_revert [OF t(1)] rec by (simp add: s'_def recorded_def)
  have dl: "dirty_live K s" using rec by (simp add: recorded_def)
  then have dl': "dirty_live K s'"
    unfolding s'_def using dirty_live_undone [OF _ t(1,2)] g [of p] p len by simp
  have frame: "entries s' = take ?n (entries s)" "validRevisions s' = take p (validRevisions s)"
    "sdb_ctxEvents s' = rev_events ?r" "nextRevisionID s' = nextRevisionID s"
    using same_frame_revert [OF t(1)] by (simp_all add: s'_def frame_def same_frame_def)
  have idx: "rev_journalIndex (validRevisions s ! i) \<le> ?n" if "i < p" for i
    using sorted_index [OF sorted(2) that p] .
  have rc: "recov K s' (rev_journalIndex (validRevisions s ! i)) (gs ! i)" if "i < p" for i
    unfolding s'_def using recov_below [OF _ t(1) idx [OF that] t(3) dl] g [of i] that p len by simp
  have "\<forall>r \<in> set (take p (validRevisions s)). rev_id r < nextRevisionID s \<and> rev_journalIndex r \<le> length (entries s')"
  proof
    fix r
    assume "r \<in> set (take p (validRevisions s))"
    then obtain i where "i < p" "r = validRevisions s ! i" using p by (auto simp: in_set_conv_nth)
    with idx [of i] below p frame t(3)
    show "rev_id r < nextRevisionID s \<and> rev_journalIndex r \<le> length (entries s')" by simp
  qed
  then have "recorded K (take p gs) s'"
    using inv ok dl' frame rc g len p sorted
    unfolding recorded_def by (simp add: take_map [symmetric] sorted_wrt_take min_def)
  with that eq sim frame t(4) g [of p] p len show thesis by simp
qed

lemma revision_mono:
  assumes "sorted_wrt (<) (map rev_id rs)" "a \<le> b" "b < length rs" "x \<le> rev_id (rs ! a)"
  shows "x \<le> rev_id (rs ! b)"
  using sorted_wrt_nth_less [OF assms(1), of a b] assms(2-4) by (cases "a = b") auto

lemma revision_found:
  assumes "sorted_wrt (<) (map rev_id (validRevisions s))" "sdb_RevertToSnapshot K i s = Inr s'"
  obtains p where "p < length (validRevisions s)" "rev_id (validRevisions s ! p) = i"
proof -
  let ?rs = "validRevisions s"
  let ?idx = "sort_search (length ?rs) (\<lambda>j. i \<le> rev_id (?rs ! j))"
  have "?idx \<le> length ?rs" by (rule sort_search_least(1)) (rule revision_mono [OF assms(1)])
  moreover have "\<not> (?idx = length ?rs \<or> rev_id (?rs ! ?idx) \<noteq> i)"
    using assms(2) by (auto simp: sdb_RevertToSnapshot_def Let_def split: if_splits)
  ultimately show thesis using that [of ?idx] by auto
qed

text \<open>How the revisions of a state and the states they record survive a run.\<close>

definition tracks :: "'c StateDB list \<Rightarrow> 'c StateDB \<Rightarrow> 'c StateDB list \<Rightarrow> 'c StateDB \<Rightarrow> bool" where
  "tracks gs s gs' s' \<longleftrightarrow> nextRevisionID s \<le> nextRevisionID s' \<and>
     (\<forall>r \<in> set (validRevisions s'). rev_id r < nextRevisionID s \<longrightarrow> r \<in> set (validRevisions s)) \<and>
     (\<forall>p < length (validRevisions s). rev_id (validRevisions s ! p) \<in> rev_id ` set (validRevisions s') \<longrightarrow>
        p < length (validRevisions s') \<and> validRevisions s' ! p = validRevisions s ! p \<and> gs' ! p = gs ! p)"

lemma tracks_same:
  assumes "validRevisions s' = validRevisions s" "nextRevisionID s' = nextRevisionID s"
  shows "tracks gs s gs s'"
  using assms by (simp add: tracks_def)

lemma tracks_trans:
  assumes "tracks gs s gs' s'" "tracks gs' s' gs'' s''" "recorded K gs s"
  shows "tracks gs s gs'' s''"
proof -
  have "p < length (validRevisions s'') \<and> validRevisions s'' ! p = validRevisions s ! p \<and> gs'' ! p = gs ! p"
    if p: "p < length (validRevisions s)" "rev_id (validRevisions s ! p) \<in> rev_id ` set (validRevisions s'')" for p
  proof -
    obtain r where r: "r \<in> set (validRevisions s'')" "rev_id r = rev_id (validRevisions s ! p)" using p(2) by auto
    have "rev_id r < nextRevisionID s" using assms(3) p(1) r(2) by (simp add: recorded_def)
    then have "r \<in> set (validRevisions s')" using assms(1,2) r(1) unfolding tracks_def by force
    then have *: "rev_id (validRevisions s ! p) \<in> rev_id ` set (validRevisions s')" using r(2) by (metis imageI)
    have 1: "p < length (validRevisions s') \<and> validRevisions s' ! p = validRevisions s ! p \<and> gs' ! p = gs ! p"
      using assms(1) p(1) * unfolding tracks_def by blast
    with assms(2) p(2) show ?thesis unfolding tracks_def by metis
  qed
  with assms(1,2) show ?thesis unfolding tracks_def by force
qed

lemma tracks_snapshot:
  assumes "sdb_Snapshot s = (i, s')" "length gs = length (validRevisions s)"
  shows "tracks gs s (gs @ [s]) s'"
  using assms by (auto simp: tracks_def sdb_Snapshot_def Let_def nth_append)

lemma tracks_revert:
  assumes "recorded K gs s" "validRevisions s' = take q (validRevisions s)" "nextRevisionID s' = nextRevisionID s"
  shows "tracks gs s (take q gs) s'"
proof -
  have "p < q"
    if p: "p < length (validRevisions s)" "rev_id (validRevisions s ! p) \<in> rev_id ` set (validRevisions s')" for p
  proof -
    obtain j where j: "j < q" "j < length (validRevisions s)" "rev_id (validRevisions s ! j) = rev_id (validRevisions s ! p)"
      using p(2) assms(2) by (auto simp: in_set_conv_nth)
    have "sorted_wrt (<) (map rev_id (validRevisions s))" using assms(1) by (simp add: recorded_def)
    from sorted_wrt_nth_less [OF this, of j p] sorted_wrt_nth_less [OF this, of p j] j p(1)
    have "j = p" by (cases j p rule: linorder_cases) auto
    with j(1) show ?thesis by simp
  qed
  with assms show ?thesis by (auto simp: tracks_def dest: in_set_takeD)
qed

lemma exec_recorded:
  assumes rec: "recorded K gs s" and ex: "exec K p s = Inr s'" "op_clean p s"
  obtains gs' where "recorded K gs' s'" "tracks gs s gs' s'"
proof -
  have inv: "sdb_inv K s" "cache_ok s" and len: "length gs = length (validRevisions s)"
    and sorted: "sorted_wrt (<) (map rev_id (validRevisions s))"
    using rec unfolding recorded_def by blast+
  consider "p = OpSnapshot" | i where "p = OpRevertToSnapshot i"
    | "p \<noteq> OpSnapshot" "\<And>i. p \<noteq> OpRevertToSnapshot i" by blast
  then show thesis
  proof cases
    case 1
    then have "sdb_Snapshot s = (fst (sdb_Snapshot s), s')" using ex(1) by (simp add: prod_eq_iff)
    with that recorded_snapshot [OF rec] tracks_snapshot [OF _ len] show thesis by blast
  next
    case (2 i)
    then have r: "sdb_RevertToSnapshot K i s = Inr s'" using ex(1) by simp
    obtain q where q: "q < length (validRevisions s)" "rev_id (validRevisions s ! q) = i"
      using revision_found [OF sorted r] .
    from revert_recorded [OF rec q(1)] r q(2) have "recorded K (take q gs) s'"
      "validRevisions s' = take q (validRevisions s)" "nextRevisionID s' = nextRevisionID s"
      by (metis sum.inject(2))+
    with that tracks_revert [OF rec] show thesis by blast
  next
    case 3
    then have step: "jstep K s s'" using exec_step [OF ex inv] by blast
    then have "validRevisions s' = validRevisions s" "nextRevisionID s' = nextRevisionID s"
      using inv unfolding jstep_def by blast+
    with that recorded_jstep [OF rec step] tracks_same show thesis by blast
  qed
qed

lemma run_recorded:
  assumes "recorded K gs s" "run K ps s = Inr s'" "clean_run K ps s"
  shows "\<exists>gs'. recorded K gs' s' \<and> tracks gs s gs' s'"
  using assms
proof (induction ps arbitrary: gs s)
  case Nil
  then show ?case using tracks_same by auto
next
  case (Cons p ps)
  then obtain s1 where s1: "exec K p s = Inr s1" "run K ps s1 = Inr s'" "op_clean p s" "clean_run K ps s1"
    by (auto simp: rbind_eq_Inr)
  obtain gs1 where gs1: "recorded K gs1 s1" "tracks gs s gs1 s1" using exec_recorded [OF Cons.prems(1) s1(1,3)] .
  obtain gs' where "recorded K gs' s'" "tracks gs1 s1 gs' s'" using Cons.IH [OF gs1(1) s1(2,4)] by blast
  with tracks_trans [OF gs1(2) _ Cons.prems(1)] show ?case by blast
qed

lemma sdb_inv_New: "recorded K [] (sdb_New c evs cfg)"
proof -
  have "obj_at K (sdb_New c evs cfg) a = map_option (newObject K a) (k_GetAccount K c a)" for a
    by (simp add: obj_at_alt sdb_New_def)
  then show ?thesis
    by (auto simp: recorded_def sdb_inv_def cache_ok_def cache_of_def dirties_ok_def dirty_live_def obj_ok_newObject sdb_New_def)
qed

text \<open>What each getter returns, in terms of the object at the address.\<close>

lemma getter_values:
  "fst (sdb_Exist K a s) \<longleftrightarrow> obj_at K s a \<noteq> None"
  "fst (sdb_Empty K a s) \<longleftrightarrow> (case obj_at K s a of None \<Rightarrow> True | Some x \<Rightarrow> so_empty K x)"
  "fst (sdb_GetBalance K a s) = (case obj_at K s a of None \<Rightarrow> 0 | Some x \<Rightarrow> acc_Balance (so_account x))"
  "fst (sdb_GetNonce K a s) = (case obj_at K s a of None \<Rightarrow> 0 | Some x \<Rightarrow> acc_Nonce (so_account x))"
  "fst (sdb_GetCodeHash K a s) = (case obj_at K s a of None \<Rightarrow> 0 | Some x \<Rightarrow> acc_CodeHash (so_account x))"
  "fst (sdb_HasSelfDestructed K a s) \<longleftrightarrow> (case obj_at K s a of None \<Rightarrow> False | Some x \<Rightarrow> selfDestructed x)"
  "fst (sdb_GetCode K a s) = (case obj_at K s a of None \<Rightarrow> None | Some x \<Rightarrow> code_of K (sdb_ctx s) x)"
  "fst (sdb_GetCodeSize K a s) = (case obj_at K s a of None \<Rightarrow> 0
     | Some x \<Rightarrow> (case code_of K (sdb_ctx s) x of None \<Rightarrow> 0 | Some bs \<Rightarrow> int (length bs)))"
  "fst (sdb_GetState K a key s) = (case obj_at K s a of None \<Rightarrow> 0
     | Some x \<Rightarrow> fst (so_GetState K (sdb_ctx s) key x))"
  "fst (sdb_GetCommittedState K a key s) = (case obj_at K s a of None \<Rightarrow> 0
     | Some x \<Rightarrow> committed K (sdb_ctx s) x key)"
proof -
  obtain o1 u where g: "getStateObject K a s = (o1, u)" by fastforce
  then have u: "sdb_ctx u = sdb_ctx s" using getStateObject_fields(1) [of K a s] by simp
  show "fst (sdb_Exist K a s) \<longleftrightarrow> obj_at K s a \<noteq> None"
    "fst (sdb_Empty K a s) \<longleftrightarrow> (case obj_at K s a of None \<Rightarrow> True | Some x \<Rightarrow> so_empty K x)"
    "fst (sdb_GetBalance K a s) = (case obj_at K s a of None \<Rightarrow> 0 | Some x \<Rightarrow> acc_Balance (so_account x))"
    "fst (sdb_GetNonce K a s) = (case obj_at K s a of None \<Rightarrow> 0 | Some x \<Rightarrow> acc_Nonce (so_account x))"
    "fst (sdb_GetCodeHash K a s) = (case obj_at K s a of None \<Rightarrow> 0 | Some x \<Rightarrow> acc_CodeHash (so_account x))"
    "fst (sdb_HasSelfDestructed K a s) \<longleftrightarrow> (case obj_at K s a of None \<Rightarrow> False | Some x \<Rightarrow> selfDestructed x)"
    by (simp_all add: sdb_Exist_def sdb_Empty_def sdb_GetBalance_def sdb_GetNonce_def sdb_GetCodeHash_def
        sdb_HasSelfDestructed_def g split: option.split)
  show "fst (sdb_GetCode K a s) = (case obj_at K s a of None \<Rightarrow> None | Some x \<Rightarrow> code_of K (sdb_ctx s) x)"
    "fst (sdb_GetCodeSize K a s) = (case obj_at K s a of None \<Rightarrow> 0
       | Some x \<Rightarrow> (case code_of K (sdb_ctx s) x of None \<Rightarrow> 0 | Some bs \<Rightarrow> int (length bs)))"
    "fst (sdb_GetState K a key s) = (case obj_at K s a of None \<Rightarrow> 0
       | Some x \<Rightarrow> fst (so_GetState K (sdb_ctx s) key x))"
    "fst (sdb_GetCommittedState K a key s) = (case obj_at K s a of None \<Rightarrow> 0
       | Some x \<Rightarrow> committed K (sdb_ctx s) x key)"
    by (simp_all add: sdb_GetCode_def sdb_GetCodeSize_def sdb_GetState_def sdb_GetCommittedState_def
        so_CodeSize_def g u case_prod_beta split: option.split)
qed

section \<open>Properties\<close>

text \<open>
  C1. \<open>RevertToSnapshot\<close> restores the state of the snapshot. Take any run of a new \<open>StateDB\<close>
  (reads, writes, self-destructs, logs, refunds, access list additions, precompile calls,
  nested snapshots and reverts), a snapshot, and any further run after which that snapshot
  is still valid, where the precompile calls are made while no storage slot is dirty. Then
  the revert does not panic, and it gives back a state that the EVM cannot tell from the
  one at the snapshot, with the same journal, revisions, dirty counts and events.
\<close>

theorem RevertToSnapshot_restores:
  assumes "run K ps (sdb_New c evs cfg) = Inr s" "clean_run K ps (sdb_New c evs cfg)"
    and "sdb_Snapshot s = (i, s1)" "run K qs s1 = Inr s2" "clean_run K qs s1"
    and "i \<in> rev_id ` set (validRevisions s2)"
  shows "\<exists>s3. sdb_RevertToSnapshot K i s2 = Inr s3 \<and> sdb_eq K s3 s \<and> entries s3 = entries s \<and>
    validRevisions s3 = validRevisions s \<and> sdb_ctxEvents s3 = sdb_ctxEvents s"
proof -
  obtain gs where gs: "recorded K gs s" using run_recorded [OF sdb_inv_New assms(1,2)] by blast
  then have len: "length gs = length (validRevisions s)" by (simp add: recorded_def)
  have s1: "recorded K (gs @ [s]) s1" using recorded_snapshot [OF gs assms(3)] .
  obtain gs2 where gs2: "recorded K gs2 s2" "tracks (gs @ [s]) s1 gs2 s2"
    using run_recorded [OF s1 assms(4,5)] by blast
  let ?p = "length gs"
  have p: "?p < length (validRevisions s1)" "rev_id (validRevisions s1 ! ?p) = i"
    using assms(3) len by (auto simp: sdb_Snapshot_def Let_def)
  then have p2: "?p < length (validRevisions s2)" "rev_id (validRevisions s2 ! ?p) = i" "gs2 ! ?p = s"
    using gs2(2) assms(6) unfolding tracks_def by (metis nth_append_length)+
  from revert_recorded [OF gs2(1) p2(1)] obtain s3 where s3: "sdb_RevertToSnapshot K i s2 = Inr s3"
    "sdb_sim K s3 s" "entries s3 = entries s" "validRevisions s3 = validRevisions s"
    "sdb_ctxEvents s3 = sdb_ctxEvents s" using p2(2,3) by metis
  then show ?thesis unfolding sdb_sim_def by blast
qed

text \<open>
  States related by \<open>sdb_eq\<close> answer every query of the EVM alike: existence, emptiness,
  balance, nonce, code and its size and hash, current and committed storage, transient
  storage, self-destruction, access list, refund and logs.
\<close>

theorem sdb_eq_observations:
  assumes "sdb_eq K s t"
  shows "fst (sdb_Exist K a s) = fst (sdb_Exist K a t) \<and> fst (sdb_Empty K a s) = fst (sdb_Empty K a t) \<and>
    fst (sdb_GetBalance K a s) = fst (sdb_GetBalance K a t) \<and> fst (sdb_GetNonce K a s) = fst (sdb_GetNonce K a t) \<and>
    fst (sdb_GetCode K a s) = fst (sdb_GetCode K a t) \<and> fst (sdb_GetCodeSize K a s) = fst (sdb_GetCodeSize K a t) \<and>
    fst (sdb_GetCodeHash K a s) = fst (sdb_GetCodeHash K a t) \<and>
    fst (sdb_GetState K a key s) = fst (sdb_GetState K a key t) \<and>
    fst (sdb_GetCommittedState K a key s) = fst (sdb_GetCommittedState K a key t) \<and>
    fst (sdb_HasSelfDestructed K a s) = fst (sdb_HasSelfDestructed K a t) \<and>
    sdb_GetTransientState a key s = sdb_GetTransientState a key t \<and>
    sdb_AddressInAccessList a s = sdb_AddressInAccessList a t \<and>
    sdb_SlotInAccessList a key s = sdb_SlotInAccessList a key t \<and>
    sdb_GetRefund s = sdb_GetRefund t \<and> sdb_Logs s = sdb_Logs t"
proof -
  have ctx: "sdb_ctx s = sdb_ctx t" and rest: "transient s = transient t" "sdb_accessList s = sdb_accessList t"
    "refund s = refund t" "logs s = logs t"
    using assms by (simp_all add: sdb_eq_def)
  have rel: "rel_option (obj_eq K (sdb_ctx t)) (obj_at K s a) (obj_at K t a)"
    using assms unfolding sdb_eq_def by blast
  have state: "fst (so_GetState K (sdb_ctx t) key x) = fst (so_GetState K (sdb_ctx t) key y)"
    if "obj_eq K (sdb_ctx t) x y" for x y
    using that by (simp add: so_GetState_alt obj_eq_def split: option.split)
  show ?thesis
  proof (cases "obj_at K t a")
    case None
    with rel show ?thesis
      by (simp add: getter_values rest sdb_GetTransientState_def sdb_AddressInAccessList_def
          sdb_SlotInAccessList_def sdb_GetRefund_def sdb_Logs_def)
  next
    case (Some y)
    with rel obtain x where "obj_at K s a = Some x" "obj_eq K (sdb_ctx t) x y"
      by (auto simp: rel_option_iff split: option.splits)
    with Some state [of x y] show ?thesis
      by (simp add: getter_values rest ctx sdb_GetTransientState_def sdb_AddressInAccessList_def
          sdb_SlotInAccessList_def sdb_GetRefund_def sdb_Logs_def obj_eq_def so_empty_def)
  qed
qed

section \<open>A keeper in memory\<close>

text \<open>An instance of the keeper interface that keeps everything in maps; it runs the witnesses.\<close>

record mem =
  m_accounts :: "address \<Rightarrow> Account option"
  m_storage :: "address \<Rightarrow> Storage"
  m_codes :: "hash \<Rightarrow> bytes option"

definition mem_empty :: mem where
  "mem_empty = \<lparr>m_accounts = Map.empty, m_storage = (\<lambda>_. []), m_codes = Map.empty\<rparr>"

definition mem_keeper :: "mem keeper" where
  "mem_keeper =
     \<lparr>k_GetAccount = (\<lambda>c a. map_option (\<lambda>x. \<lparr>in_Nonce = acc_Nonce x, in_Balance = Some (acc_Balance x),
        in_CodeHash = Some (acc_CodeHash x)\<rparr>) (m_accounts c a)),
      k_GetState = (\<lambda>c a key. case kv_get (m_storage c a) key of None \<Rightarrow> 0 | Some v \<Rightarrow> v),
      k_GetCode = m_codes,
      k_ForEachStorage = m_storage,
      k_SetAccount = (\<lambda>c a x. Inr (c\<lparr>m_accounts := (m_accounts c)(a \<mapsto> x)\<rparr>)),
      k_DeleteState = (\<lambda>c a key. c\<lparr>m_storage := (m_storage c)(a := kv_delete key (m_storage c a))\<rparr>),
      k_SetState = (\<lambda>c a key bs. c\<lparr>m_storage := (m_storage c)(a := kv_set key (BytesToHash bs) (m_storage c a))\<rparr>),
      k_DeleteCode = (\<lambda>c h. c\<lparr>m_codes := (m_codes c)(h := None)\<rparr>),
      k_SetCode = (\<lambda>c h bs. c\<lparr>m_codes := (m_codes c)(h \<mapsto> bs)\<rparr>),
      k_DeleteAccount = (\<lambda>c a. Inr (c\<lparr>m_accounts := (m_accounts c)(a := None), m_storage := (m_storage c)(a := [])\<rparr>)),
      k_Keccak256 = (\<lambda>bs. BytesToHash (1 # bs)),
      k_MultiStoreNil = (\<lambda>_. False), k_CacheContext = (\<lambda>c. c), k_CacheEvents = (\<lambda>_. [])\<rparr>"

lemma length_hash_Bytes [simp]: "length (hash_Bytes h) = 32" "hash_Bytes h \<noteq> []"
  by (simp_all add: hash_Bytes_def)

lemma mem_keeper_simps [simp]:
  "k_GetAccount mem_keeper c a = map_option (\<lambda>x. \<lparr>in_Nonce = acc_Nonce x,
     in_Balance = Some (acc_Balance x), in_CodeHash = Some (acc_CodeHash x)\<rparr>) (m_accounts c a)"
  "k_GetState mem_keeper c a key = (case kv_get (m_storage c a) key of None \<Rightarrow> 0 | Some v \<Rightarrow> v)"
  "k_GetCode mem_keeper = m_codes" "k_ForEachStorage mem_keeper = m_storage"
  "k_SetAccount mem_keeper c a x = Inr (c\<lparr>m_accounts := (m_accounts c)(a \<mapsto> x)\<rparr>)"
  "k_SetState mem_keeper c a key bs =
     c\<lparr>m_storage := (m_storage c)(a := kv_set key (BytesToHash bs) (m_storage c a))\<rparr>"
  "k_DeleteAccount mem_keeper c a =
     Inr (c\<lparr>m_accounts := (m_accounts c)(a := None), m_storage := (m_storage c)(a := [])\<rparr>)"
  "k_Keccak256 mem_keeper bs = BytesToHash (1 # bs)"
  "k_MultiStoreNil mem_keeper c = False" "k_CacheContext mem_keeper c = c" "k_CacheEvents mem_keeper evs = []"
  by (simp_all add: mem_keeper_def)

definition ex_new :: "mem StateDB" where
  "ex_new = sdb_New mem_empty [] \<lparr>TxHash = 0, TxIndex = 0\<rparr>"

definition ex_before :: "mem op list" where
  "ex_before = [OpAddBalance 1 100, OpSetState 1 5 7]"

definition ex_after :: "mem op list" where
  "ex_after = [OpSetState 1 5 9, OpSubBalance 1 30, OpAddBalance 2 30, OpAddLog [1], OpAddRefund 5,
     OpAddSlotToAccessList 2 3, OpSnapshot, OpCreateAccount 1, OpSetNonce 2 4, OpRevertToSnapshot 1,
     OpSelfDestruct 1, OpSetTransientState 1 2 3]"

text \<open>The definitions a witness unfolds to evaluate a run.\<close>

lemmas sdb_eval =
  EmptyCodeHash_def IsEmptyCodeHash_def NewEmptyAccount_def HasCodeHash_def SortedKeys_def
  newObject_def so_empty_def so_markSelfDestructed_def so_setBalance_def so_setNonce_def
  so_setCode_def so_Code_def so_CodeSize_def so_GetCommittedState_def so_GetState_def
  so_setState_def so_SetStorage_def so_SetStateOverride_def sdb_New_def count_of_def mark_dirty_def
  unmark_dirty_def sortedDirties_def journal_append_def journal_reset_def journal_length_def
  setStateObject_def getStateObject_def zeroAccount_def createObject_def getOrNewStateObject_def
  so_SetBalance_def so_AddBalance_def so_SubBalance_def so_SetNonce_def so_SetCode_def
  so_SetState_def sdb_Exist_def sdb_Empty_def sdb_GetBalance_def sdb_GetNonce_def sdb_GetCode_def
  sdb_GetCodeSize_def sdb_GetCodeHash_def sdb_GetState_def sdb_GetCommittedState_def
  sdb_GetStateAndCommittedState_def sdb_HasSelfDestructed_def sdb_GetRefund_def sdb_Logs_def
  sdb_GetTransientState_def sdb_AddressInAccessList_def sdb_SlotInAccessList_def
  sdb_IsStorageEmpty_def sdb_ForEachStorage_def sdb_CreateContract_def sdb_CreateAccount_def
  sdb_AddBalance_def sdb_SubBalance_def sdb_SetBalance_def sdb_SetNonce_def sdb_SetCode_def
  sdb_SetState_def sdb_SetStorage_def sdb_SetStateOverride_def sdb_SelfDestruct_def
  sdb_SelfDestruct6780_def sdb_AddLog_def sdb_AddRefund_def sdb_SubRefund_def setTransientState_def
  sdb_SetTransientState_def sdb_AddAddressToAccessList_def sdb_AddSlotToAccessList_def
  add_addresses_def sdb_Prepare_def sdb_cache_def sdb_GetCacheContext_def sdb_MultiStoreSnapshot_def
  sdb_RevertMultiStore_def sdb_writeCache_def MaxPrecompileCalls_def sdb_AddPrecompileFn_def
  with_object_def journal_Revert_def sdb_Snapshot_def sdb_RevertToSnapshot_def
  clearJournalAndRefund_def sdb_Finalise_def commit_code_def commit_object_def commitWithCtx_def
  sdb_Commit_def sdb_CommitWithCacheCtx_def precompile_setup_def precompile_call_def
  al_ContainsAddress_def al_Contains_def newAccessList_def al_AddAddress_def al_AddSlot_def
  al_DeleteSlot_def al_DeleteAddress_def slot_at_def newTransientStorage_def ts_Set_def ts_Get_def
  vs_Snapshot_def vs_RevertToSnapshot_def vs_update_def sort_search_def search_loop.simps
  kv_keys_def frame_def Let_def

lemma ex_revert_run:
  "case run mem_keeper ex_before ex_new of Inl _ \<Rightarrow> False
   | Inr s \<Rightarrow> clean_run mem_keeper ex_before ex_new \<and>
      (case sdb_Snapshot s of (i, s1) \<Rightarrow> i = 0 \<and> clean_run mem_keeper ex_after s1 \<and>
        (case run mem_keeper ex_after s1 of Inl _ \<Rightarrow> False
         | Inr s2 \<Rightarrow> i \<in> rev_id ` set (validRevisions s2) \<and>
            fst (sdb_GetBalance mem_keeper 1 s2) = 0 \<and> fst (sdb_GetBalance mem_keeper 1 s) = 100 \<and>
            fst (sdb_GetState mem_keeper 1 5 s) = 7))"
  by (simp add: ex_before_def ex_after_def ex_new_def mem_empty_def sdb_eval
      op_clean_def flush_clean_def)

theorem RevertToSnapshot_restores_witness:
  "\<exists>s s1 s2 s3. run mem_keeper ex_before ex_new = Inr s \<and> sdb_Snapshot s = (0, s1) \<and>
     run mem_keeper ex_after s1 = Inr s2 \<and> fst (sdb_GetBalance mem_keeper 1 s2) = 0 \<and>
     sdb_RevertToSnapshot mem_keeper 0 s2 = Inr s3 \<and> sdb_eq mem_keeper s3 s \<and>
     fst (sdb_GetBalance mem_keeper 1 s) = 100"
proof -
  obtain s i s1 s2 where r: "run mem_keeper ex_before ex_new = Inr s" "clean_run mem_keeper ex_before ex_new"
    "sdb_Snapshot s = (i, s1)" "run mem_keeper ex_after s1 = Inr s2" "clean_run mem_keeper ex_after s1"
    "i \<in> rev_id ` set (validRevisions s2)" "i = 0" "fst (sdb_GetBalance mem_keeper 1 s2) = 0"
    "fst (sdb_GetBalance mem_keeper 1 s) = 100"
    using ex_revert_run
    by (cases "run mem_keeper ex_before ex_new"; cases "run mem_keeper ex_after (snd (sdb_Snapshot (projr (run mem_keeper ex_before ex_new))))")
      (auto split: prod.splits)
  from RevertToSnapshot_restores [OF r(1,2) [unfolded ex_new_def] r(3-6)] r show ?thesis by auto
qed

definition ex_funded :: "mem StateDB" where
  "ex_funded = sdb_New (mem_empty\<lparr>m_accounts := [1 \<mapsto> \<lparr>acc_Nonce = 3, acc_Balance = 50, acc_CodeHash = 0\<rparr>]\<rparr>)
     [] \<lparr>TxHash = 0, TxIndex = 0\<rparr>"

lemma sdb_eq_get: "sdb_eq K (snd (getStateObject K a s)) s"
  by (simp add: sdb_eq_def option.rel_refl)

theorem sdb_eq_observations_witness:
  "stateObjects (snd (getStateObject mem_keeper 1 ex_funded)) \<noteq> stateObjects ex_funded \<and>
   fst (sdb_GetBalance mem_keeper 1 (snd (getStateObject mem_keeper 1 ex_funded))) = 50 \<and>
   fst (sdb_GetBalance mem_keeper 1 ex_funded) = 50"
proof -
  have "fst (sdb_GetBalance mem_keeper 1 ex_funded) = 50"
    "stateObjects (snd (getStateObject mem_keeper 1 ex_funded)) 1 \<noteq> stateObjects ex_funded 1"
    by (simp_all add: ex_funded_def mem_empty_def sdb_eval)
  with sdb_eq_observations [OF sdb_eq_get, of mem_keeper 1 1 ex_funded] show ?thesis by auto
qed


end
