(* ===== verification/StateDBCommit.thy ===== *)
theory StateDBCommit
  imports StateDBRevert
begin

text \<open>
  Committing a \<open>StateDB\<close>. The contract that \<open>Commit\<close> needs of a keeper is the locale
  \<open>keeper_contract\<close>; under it \<open>Commit\<close> writes exactly what the EVM saw: the accounts and
  slots of the dirty addresses, and nothing else.
\<close>

section \<open>Hashes as bytes\<close>

lemma shift_byte:
  fixes h :: "'l::len word"
  shows "push_bit 8 (drop_bit (m + 8) h) OR ucast (ucast (drop_bit m h) :: 8 word) = drop_bit m h"
proof (rule bit_word_eqI)
  fix k :: nat
  assume k: "k < LENGTH('l)"
  show "bit (push_bit 8 (drop_bit (m + 8) h) OR ucast (ucast (drop_bit m h) :: 8 word)) k = bit (drop_bit m h) k"
  proof (cases "8 \<le> k")
    case True
    then have "m + 8 + (k - 8) = m + k" by simp
    with True k show ?thesis by (simp add: bit_or_iff bit_push_bit_iff bit_drop_bit_eq bit_ucast_iff)
  next
    case False
    with k show ?thesis by (simp add: bit_or_iff bit_push_bit_iff bit_drop_bit_eq bit_ucast_iff)
  qed
qed

lemma fold_hash_Bytes:
  "n \<le> 32 \<Longrightarrow>
   fold (\<lambda>b h. push_bit 8 h OR ucast b)
     (map (\<lambda>i. ucast (drop_bit (8 * (31 - i)) (h :: hash)) :: 8 word) [0..<n]) (0 :: hash)
   = drop_bit (8 * (32 - n)) h"
proof (induction n)
  case 0
  have "drop_bit 256 h = 0" by (rule bit_word_eqI) (simp add: bit_drop_bit_eq bit_imp_le_length)
  then show ?case by simp
next
  case (Suc n)
  have "push_bit 8 (drop_bit (8 * (32 - n)) h) OR ucast (ucast (drop_bit (8 * (31 - n)) h) :: 8 word)
      = drop_bit (8 * (32 - Suc n)) h"
  proof -
    have "8 * (32 - n) = 8 * (31 - n) + 8" "8 * (32 - Suc n) = 8 * (31 - n)" using Suc.prems by simp_all
    then show ?thesis using shift_byte [of "8 * (31 - n)" h] by simp
  qed
  with Suc show ?case by simp
qed

lemma BytesToHash_hash_Bytes [simp]: "BytesToHash (hash_Bytes h) = h"
  using fold_hash_Bytes [of 32 h] by (simp add: BytesToHash_def hash_Bytes_def)

text \<open>A hash has 32 bytes, so the branch of \<open>commitWithCtx\<close> that deletes a slot is never taken.\<close>

lemma commit_slots_Cons:
  "commit_slots K keep (key # keys) obj c =
     (let v = (case kv_get (dirtyStorage obj) key of None \<Rightarrow> 0 | Some v \<Rightarrow> v);
          obj1 = obj\<lparr>originStorage := kv_set key v (originStorage obj)\<rparr>
      in commit_slots K keep keys
        (if keep then obj1 else obj1\<lparr>dirtyStorage := kv_delete key (dirtyStorage obj)\<rparr>)
        (k_SetState K c (so_address obj) key (hash_Bytes v)))"
  by (cases keep) (simp_all add: Let_def)

section \<open>The contract of the keeper\<close>

definition acc_in :: "Account \<Rightarrow> AccountIn" where
  "acc_in x = \<lparr>in_Nonce = acc_Nonce x, in_Balance = Some (acc_Balance x), in_CodeHash = Some (acc_CodeHash x)\<rparr>"

text \<open>The value of a slot: the dirty one, or else the given one.\<close>

definition dirty_value :: "stateObject \<Rightarrow> hash \<Rightarrow> hash \<Rightarrow> hash" where
  "dirty_value obj k v = (case kv_get (dirtyStorage obj) k of None \<Rightarrow> v | Some w \<Rightarrow> w)"

text \<open>
  \<open>good\<close> is an invariant of the store that the writes keep. Reading back gives what was
  written; other accounts and slots are untouched. The laws of the account writes hold for the
  addresses in \<open>ok\<close>, which leaves out the module accounts that a keeper uses itself.
\<close>

locale keeper_contract =
  fixes K :: "'c keeper" and good :: "'c \<Rightarrow> bool" and ok :: "address \<Rightarrow> bool"
  assumes SetAccount_good: "good c \<Longrightarrow> ok a \<Longrightarrow> k_SetAccount K c a x = Inr c' \<Longrightarrow> good c'"
    and SetAccount_account: "good c \<Longrightarrow> ok a \<Longrightarrow> k_SetAccount K c a x = Inr c' \<Longrightarrow>
      k_GetAccount K c' b = (if b = a then Some (acc_in x) else k_GetAccount K c b)"
    and SetAccount_state: "good c \<Longrightarrow> ok a \<Longrightarrow> k_SetAccount K c a x = Inr c' \<Longrightarrow> k_GetState K c' b key = k_GetState K c b key"
    and SetState_good: "good c \<Longrightarrow> good (k_SetState K c a key bs)"
    and SetState_account: "good c \<Longrightarrow> k_GetAccount K (k_SetState K c a key bs) b = k_GetAccount K c b"
    and SetState_state: "good c \<Longrightarrow> bs \<noteq> [] \<Longrightarrow>
      k_GetState K (k_SetState K c a key bs) b k = (if b = a \<and> k = key then BytesToHash bs else k_GetState K c b k)"
    and code_good: "good c \<Longrightarrow> good (k_SetCode K c h code)" "good c \<Longrightarrow> good (k_DeleteCode K c h)"
    and code_account: "k_GetAccount K (k_SetCode K c h code) b = k_GetAccount K c b"
      "k_GetAccount K (k_DeleteCode K c h) b = k_GetAccount K c b"
    and code_state: "k_GetState K (k_SetCode K c h code) b key = k_GetState K c b key"
      "k_GetState K (k_DeleteCode K c h) b key = k_GetState K c b key"
    and DeleteAccount_good: "good c \<Longrightarrow> ok a \<Longrightarrow> k_DeleteAccount K c a = Inr c' \<Longrightarrow> good c'"
    and DeleteAccount_account: "good c \<Longrightarrow> ok a \<Longrightarrow> k_DeleteAccount K c a = Inr c' \<Longrightarrow>
      k_GetAccount K c' b = (if b = a then None else k_GetAccount K c b)"
    and DeleteAccount_state: "good c \<Longrightarrow> ok a \<Longrightarrow> k_DeleteAccount K c a = Inr c' \<Longrightarrow> b \<noteq> a \<Longrightarrow>
      k_GetState K c' b key = k_GetState K c b key"
begin

lemma commit_slots_spec:
  assumes "good c" "distinct keys" "commit_slots K keep keys obj c = (obj', c')"
  shows "good c' \<and> so_address obj' = so_address obj \<and> k_GetAccount K c' b = k_GetAccount K c b \<and>
    k_GetState K c' b k = (if b = so_address obj \<and> k \<in> set keys
      then (case kv_get (dirtyStorage obj) k of None \<Rightarrow> 0 | Some v \<Rightarrow> v) else k_GetState K c b k)"
  using assms
proof (induction keys arbitrary: obj c)
  case Nil
  then show ?case by simp
next
  case (Cons key keys)
  let ?v = "case kv_get (dirtyStorage obj) key of None \<Rightarrow> 0 | Some v \<Rightarrow> v"
  define c1 where "c1 = k_SetState K c (so_address obj) key (hash_Bytes ?v)"
  define obj1 where "obj1 = obj\<lparr>originStorage := kv_set key ?v (originStorage obj)\<rparr>"
  define obj2 where "obj2 = (if keep then obj1 else obj1\<lparr>dirtyStorage := kv_delete key (dirtyStorage obj1)\<rparr>)"
  have rest: "commit_slots K keep keys obj2 c1 = (obj', c')"
    using Cons.prems(3) by (cases keep) (simp_all add: commit_slots_Cons c1_def obj2_def obj1_def Let_def del: commit_slots.simps)
  have c1: "good c1" using Cons.prems(1) by (simp add: c1_def SetState_good)
  have o2: "so_address obj2 = so_address obj"
    "k \<noteq> key \<Longrightarrow> kv_get (dirtyStorage obj2) k = kv_get (dirtyStorage obj) k"
    by (simp_all add: obj2_def obj1_def kv_get_delete)
  have d: "key \<notin> set keys" "distinct keys" using Cons.prems(2) by simp_all
  have "k_GetState K c1 b k = (if b = so_address obj \<and> k = key then ?v else k_GetState K c b k)"
    using Cons.prems(1) by (simp add: c1_def SetState_state)
  moreover have "k_GetAccount K c1 b = k_GetAccount K c b"
    using Cons.prems(1) by (simp add: c1_def SetState_account)
  ultimately show ?case using Cons.IH [OF c1 d(2) rest] o2 d(1) by auto
qed

lemma commit_code_spec:
  assumes "good c"
  shows "good (commit_code K obj c)" "k_GetAccount K (commit_code K obj c) b = k_GetAccount K c b"
    "k_GetState K (commit_code K obj c) b k = k_GetState K c b k"
  using assms by (simp_all add: commit_code_def code_good code_account code_state split: option.split)

text \<open>What the commit of one object leaves in the store.\<close>

lemma commit_object_spec:
  assumes "good c" "kv_ok (dirtyStorage obj)" "commit_object K keep obj c = Inr (obj', c')" "ok (so_address obj)"
  shows "good c'" "so_address obj' = so_address obj"
    and "k_GetAccount K c' b = (if b = so_address obj
      then (if selfDestructed obj then None else Some (acc_in (so_account obj))) else k_GetAccount K c b)"
    and "b \<noteq> so_address obj \<or> \<not> selfDestructed obj \<Longrightarrow> k_GetState K c' b k =
      (if b = so_address obj \<and> kv_get (dirtyStorage obj) k \<noteq> None
       then (case kv_get (dirtyStorage obj) k of None \<Rightarrow> 0 | Some v \<Rightarrow> v) else k_GetState K c b k)"
proof -
  have "good c' \<and> so_address obj' = so_address obj \<and> k_GetAccount K c' b = (if b = so_address obj
      then (if selfDestructed obj then None else Some (acc_in (so_account obj))) else k_GetAccount K c b) \<and>
    (b \<noteq> so_address obj \<or> \<not> selfDestructed obj \<longrightarrow> k_GetState K c' b k =
      (if b = so_address obj \<and> kv_get (dirtyStorage obj) k \<noteq> None
       then (case kv_get (dirtyStorage obj) k of None \<Rightarrow> 0 | Some v \<Rightarrow> v) else k_GetState K c b k))"
  proof (cases "selfDestructed obj")
    case True
    then have d: "k_DeleteAccount K c (so_address obj) = Inr c'" "obj' = obj"
      using assms(3) by (auto simp: commit_object_def rbind_eq_Inr)
    with True assms(1,4) show ?thesis
      by (auto simp: DeleteAccount_good DeleteAccount_account DeleteAccount_state)
  next
    case False
    let ?c1 = "commit_code K obj c"
    obtain c2 where c2: "k_SetAccount K ?c1 (so_address obj) (so_account obj) = Inr c2"
      "commit_slots K keep (SortedKeys (dirtyStorage obj)) obj c2 = (obj', c')"
      using assms(3) False by (auto simp: commit_object_def rbind_eq_Inr)
    note c1 = commit_code_spec [OF assms(1)]
    have g2: "good c2" using SetAccount_good [OF c1(1) assms(4) c2(1)] .
    have keys: "distinct (SortedKeys (dirtyStorage obj))"
      "k \<in> set (SortedKeys (dirtyStorage obj)) \<longleftrightarrow> kv_get (dirtyStorage obj) k \<noteq> None"
      using distinct_kv_keys [OF assms(2)] by (auto simp: SortedKeys_def set_kv_keys)
    show ?thesis
      using commit_slots_spec [OF g2 keys(1) c2(2), of b k] keys(2) False
        SetAccount_account [OF c1(1) assms(4) c2(1), of b] SetAccount_state [OF c1(1) assms(4) c2(1), of b k]
        c1(2,3) [of obj b] by auto
  qed
  then show "good c'" "so_address obj' = so_address obj"
    "k_GetAccount K c' b = (if b = so_address obj
      then (if selfDestructed obj then None else Some (acc_in (so_account obj))) else k_GetAccount K c b)"
    "b \<noteq> so_address obj \<or> \<not> selfDestructed obj \<Longrightarrow> k_GetState K c' b k =
      (if b = so_address obj \<and> kv_get (dirtyStorage obj) k \<noteq> None
       then (case kv_get (dirtyStorage obj) k of None \<Rightarrow> 0 | Some v \<Rightarrow> v) else k_GetState K c b k)"
    by blast+
qed

text \<open>The loop over the dirty addresses.\<close>

lemma commit_loop_spec:
  assumes "good c" "distinct as" "commit_loop K keep as s c = Inr (s', c')"
    and "\<And>a obj. a \<in> set as \<Longrightarrow> stateObjects s a = Some obj \<Longrightarrow> so_address obj = a \<and> kv_ok (dirtyStorage obj)"
    and "\<And>a. a \<in> set as \<Longrightarrow> ok a"
  shows "good c' \<and> (b \<notin> set as \<longrightarrow> k_GetAccount K c' b = k_GetAccount K c b \<and> k_GetState K c' b k = k_GetState K c b k) \<and>
    (b \<in> set as \<longrightarrow> (\<exists>obj. stateObjects s b = Some obj \<and>
       k_GetAccount K c' b = (if selfDestructed obj then None else Some (acc_in (so_account obj))) \<and>
       (\<not> selfDestructed obj \<longrightarrow> k_GetState K c' b k = dirty_value obj k (k_GetState K c b k))))"
  using assms
proof (induction as arbitrary: s c)
  case Nil
  then show ?case by simp
next
  case (Cons a as)
  then obtain obj obj' c1 where o: "stateObjects s a = Some obj" "commit_object K keep obj c = Inr (obj', c1)"
    "commit_loop K keep as (setStateObject obj' s) c1 = Inr (s', c')"
    by (auto simp: rbind_eq_Inr split: option.splits)
  have a: "so_address obj = a" "kv_ok (dirtyStorage obj)" using Cons.prems(4) [OF _ o(1)] by simp_all
  have "ok (so_address obj)" using a(1) Cons.prems(5) by simp
  note spec = commit_object_spec [OF Cons.prems(1) a(2) o(2) this]
  have d: "a \<notin> set as" "distinct as" using Cons.prems(2) by simp_all
  have obj': "so_address obj' = a" using spec(2) a(1) by simp
  have ih: "good c' \<and> (b \<notin> set as \<longrightarrow> k_GetAccount K c' b = k_GetAccount K c1 b \<and> k_GetState K c' b k = k_GetState K c1 b k) \<and>
    (b \<in> set as \<longrightarrow> (\<exists>obj. stateObjects (setStateObject obj' s) b = Some obj \<and>
       k_GetAccount K c' b = (if selfDestructed obj then None else Some (acc_in (so_account obj))) \<and>
       (\<not> selfDestructed obj \<longrightarrow> k_GetState K c' b k = dirty_value obj k (k_GetState K c1 b k))))"
    using spec(1) d(2) o(3)
  proof (rule Cons.IH)
    fix x y
    assume "x \<in> set as" "stateObjects (setStateObject obj' s) x = Some y"
    then show "so_address y = x \<and> kv_ok (dirtyStorage y)"
      using d(1) obj' Cons.prems(4) by (auto split: if_splits)
  qed (use Cons.prems(5) in simp)
  show ?case
  proof (cases "b = a")
    case True
    with ih d(1) o(1) a(1) spec(3) [of a] spec(4) [of a k] show ?thesis
      by (auto simp: dirty_value_def split: option.splits)
  next
    case False
    with ih obj' spec(3) [of b] spec(4) [of b k] a(1) show ?thesis by auto
  qed
qed

end

lemma commit_loop_total:
  assumes "\<And>c a x. \<exists>c'. k_SetAccount K c a x = Inr c'" "\<And>c a. \<exists>c'. k_DeleteAccount K c a = Inr c'"
    and "\<And>a. a \<in> set as \<Longrightarrow> stateObjects s a \<noteq> None"
  shows "\<exists>s' c'. commit_loop K keep as s c = Inr (s', c')"
  using assms(3)
proof (induction as arbitrary: s c)
  case (Cons a as)
  then obtain obj where obj: "stateObjects s a = Some obj" by fastforce
  have "\<exists>r. commit_object K keep obj c = Inr r"
    using assms(1) [of "commit_code K obj c" "so_address obj" "so_account obj"] assms(2) [of c "so_address obj"]
    by (cases "selfDestructed obj") (auto simp: commit_object_def)
  then obtain obj' c1 where o: "commit_object K keep obj c = Inr (obj', c1)" by auto
  have "stateObjects (setStateObject obj' s) x \<noteq> None" if "x \<in> set as" for x
    using Cons.prems [of x] that by simp
  with Cons.IH [of "setStateObject obj' s" c1] obj o show ?case by simp
qed simp

section \<open>Accounts outside the dirty set\<close>

text \<open>
  Undoing the whole journal leads back to the new \<open>StateDB\<close>, and the dirty counts are those
  of the journal. So an address that no entry dirties still holds the stored account.
\<close>

definition journaled :: "'c keeper \<Rightarrow> 'c StateDB \<Rightarrow> 'c StateDB \<Rightarrow> bool" where
  "journaled K g s \<longleftrightarrow> dirties s = fold mark_dirty (entries s) [] \<and> recov K s 0 g"

lemma entry_Revert_dirties:
  assumes "entry_Revert K e s = Inr t"
  shows "dirties t = dirties s"
proof (cases e)
  case (selfDestructChange a p b)
  with assms show ?thesis
    by (auto simp: entry_Revert_selfDestruct with_object_eq simp del: entry_Revert.simps
        split: option.splits if_splits)
qed (use assms in \<open>auto simp: with_object_eq sdb_RevertMultiStore_def setTransientState_def rbind_eq_Inr
      split: option.splits if_splits\<close>)

lemma revert_entries_dirties: "revert_entries K es s = Inr t \<Longrightarrow> dirties t = fold unmark_dirty es (dirties s)"
proof (induction es arbitrary: s)
  case (Cons e es)
  then show ?case by (auto simp: rbind_eq_Inr dest!: entry_Revert_dirties)
qed simp

lemma dirties_ok_mark_all: "dirties_ok d \<Longrightarrow> dirties_ok (fold mark_dirty es d)"
  by (induction es arbitrary: d) (auto simp: mark_dirty_ok)

lemma unmark_mark_all: "dirties_ok d \<Longrightarrow> fold unmark_dirty (rev es) (fold mark_dirty es d) = d"
  by (induction es rule: rev_induct) (simp_all add: unmark_mark dirties_ok_mark_all)

lemma journaled_New: "journaled K (sdb_New c evs cfg) (sdb_New c evs cfg)"
  using sdb_inv_New [of K c evs cfg] by (simp add: journaled_def recov_def recorded_def sdb_New_def)

lemma journaled_jstep:
  assumes "jstep K s s'" "sdb_inv K s" "cache_ok s" "journaled K g s"
  shows "journaled K g s'"
proof -
  obtain es t where es: "entries s' = entries s @ es" "dirties s' = fold mark_dirty es (dirties s)"
    "revert_entries K (rev es) s' = Inr t" "sdb_sim K t s" using jstepD(8) [OF assms(1-3)] by blast
  with recov_step [OF _ es(1,3,4) live_jstep [OF assms(1-3)]] assms(4) show ?thesis
    by (simp add: journaled_def)
qed

lemma journaled_revert:
  assumes "recorded K gs s" "p < length (validRevisions s)" "journaled K g s"
    and "sdb_RevertToSnapshot K (rev_id (validRevisions s ! p)) s = Inr s'"
  shows "journaled K g s'"
proof -
  let ?n = "rev_journalIndex (validRevisions s ! p)"
  have rc: "recov K s ?n (gs ! p)" and sorted: "sorted_wrt (<) (map rev_id (validRevisions s))"
    and dl: "dirty_live K s" using assms(1,2) unfolding recorded_def by simp_all
  then obtain t where t: "revert_entries K (rev (drop ?n (entries s))) s = Inr t" "?n \<le> length (entries s)"
    unfolding recov_def by blast
  have s': "s' = frame (take ?n (entries s)) (take p (validRevisions s)) (rev_events (validRevisions s ! p)) t"
    using sdb_RevertToSnapshot_eq [OF sorted assms(2) refl t(2,1)] assms(4) by simp
  have "dirties s = fold mark_dirty (drop ?n (entries s)) (fold mark_dirty (take ?n (entries s)) [])"
    using assms(3) fold_append [of mark_dirty "take ?n (entries s)" "drop ?n (entries s)"]
    by (simp add: journaled_def)
  moreover have "dirties_ok (fold mark_dirty (take ?n (entries s)) [])"
    by (rule dirties_ok_mark_all) (simp add: dirties_ok_def)
  ultimately have "dirties t = fold mark_dirty (take ?n (entries s)) []"
    using revert_entries_dirties [OF t(1)] by (simp add: unmark_mark_all)
  with recov_below [OF _ t(1) _ t(2) dl] assms(3) show ?thesis by (simp add: journaled_def s') (simp add: frame_def)
qed

lemma journaled_exec:
  assumes rec: "recorded K gs s" and ex: "exec K p s = Inr s'" "op_clean p s" and j: "journaled K g s"
  shows "journaled K g s'"
proof -
  have inv: "sdb_inv K s" "cache_ok s" and sorted: "sorted_wrt (<) (map rev_id (validRevisions s))"
    using rec unfolding recorded_def by blast+
  consider "p = OpSnapshot" | i where "p = OpRevertToSnapshot i"
    | "p \<noteq> OpSnapshot" "\<And>i. p \<noteq> OpRevertToSnapshot i" by blast
  then show ?thesis
  proof cases
    case 1
    then have s': "entries s' = entries s" "dirties s' = dirties s" "sdb_sim K s' s" "\<And>a. live K s' a = live K s a"
      using ex(1) by (auto simp: sdb_Snapshot_def Let_def sdb_sim_def sdb_eq_def option.rel_refl live_def)
    with recov_step [of K s 0 g s' "[]" s'] j show ?thesis by (simp add: journaled_def)
  next
    case (2 i)
    then have r: "sdb_RevertToSnapshot K i s = Inr s'" using ex(1) by simp
    obtain q where "q < length (validRevisions s)" "rev_id (validRevisions s ! q) = i"
      using revision_found [OF sorted r] .
    with journaled_revert [OF rec _ j] r show ?thesis by blast
  next
    case 3
    then show ?thesis using journaled_jstep [OF exec_step [OF ex inv] inv j] by blast
  qed
qed

lemma run_journaled:
  assumes "recorded K gs s" "journaled K g s" "run K ps s = Inr s'" "clean_run K ps s"
  shows "journaled K g s'"
  using assms
proof (induction ps arbitrary: gs s)
  case (Cons p ps)
  then obtain s1 where s1: "exec K p s = Inr s1" "run K ps s1 = Inr s'" "op_clean p s" "clean_run K ps s1"
    by (auto simp: rbind_eq_Inr)
  obtain gs1 where "recorded K gs1 s1" using exec_recorded [OF Cons.prems(1) s1(1,3)] .
  then show ?case using Cons.IH journaled_exec [OF Cons.prems(1) s1(1,3) Cons.prems(2)] s1(2,4) by blast
qed simp

text \<open>Undoing an entry touches only the object that the entry dirties; a reset dirties none.\<close>

fun is_reset :: "JournalEntry \<Rightarrow> bool" where
  "is_reset (resetObjectChange prev) = True"
| "is_reset e = False"

definition no_resets :: "'c StateDB \<Rightarrow> bool" where
  "no_resets s \<longleftrightarrow> list_all (\<lambda>e. \<not> is_reset e) (entries s)"

definition addressed :: "'c keeper \<Rightarrow> 'c StateDB \<Rightarrow> bool" where
  "addressed K s \<longleftrightarrow> (\<forall>b obj. obj_at K s b = Some obj \<longrightarrow> so_address obj = b)"

lemma with_object_untouched:
  assumes "with_object K b f s = Inr t" "addressed K s" "\<And>obj. so_address (f obj) = so_address obj"
  shows "addressed K t \<and> (a \<noteq> b \<longrightarrow> obj_at K t a = obj_at K s a)"
  using assms by (auto simp: with_object_eq addressed_def split: option.splits if_splits)

lemma obj_at_removed:
  "obj_at K (s\<lparr>stateObjects := (stateObjects s)(b := None)\<rparr>) a =
     (if a = b then map_option (newObject K b) (k_GetAccount K (sdb_ctx s) b) else obj_at K s a)"
  by (simp add: obj_at_alt split: option.split)

text \<open>The object at an address up to \<open>newContract\<close>, the one field whose change dirties nothing.\<close>

definition bare_at :: "'c keeper \<Rightarrow> 'c StateDB \<Rightarrow> address \<Rightarrow> stateObject option" where
  "bare_at K s a = map_option (\<lambda>obj. obj\<lparr>newContract := False\<rparr>) (obj_at K s a)"

lemma entry_Revert_untouched:
  assumes "entry_Revert K e s = Inr t" "addressed K s" "\<not> is_reset e"
  shows "addressed K t \<and> (Dirtied e \<noteq> Some a \<longrightarrow> bare_at K t a = bare_at K s a)"
proof (cases e)
  case (selfDestructChange b p c)
  with assms(1,2) show ?thesis
    using with_object_untouched [of K b "\<lambda>obj. so_setBalance c (obj\<lparr>selfDestructed := p\<rparr>)" s t a]
    by (auto simp: bare_at_def entry_Revert_selfDestruct addressed_def so_setBalance_def simp del: entry_Revert.simps
        split: if_splits)
next
  case (createObjectChange b)
  with assms(1,2) show ?thesis by (auto simp: bare_at_def addressed_def obj_at_removed newObject_def split: if_splits)
next
  case (precompileCallChange i evs)
  with assms(1,2) show ?thesis
    by (auto simp: bare_at_def sdb_RevertMultiStore_def rbind_eq_Inr addressed_def split: option.splits)
next
  case (createContractChange b)
  with assms(1) obtain obj where obj: "obj_at K s b = Some obj"
    "t = setStateObject (obj\<lparr>newContract := False\<rparr>) (snd (getStateObject K b s))"
    by (auto simp: with_object_eq split: option.splits)
  have "addressed K t" using createContractChange assms(1,2)
    with_object_untouched [of K b "\<lambda>obj. obj\<lparr>newContract := False\<rparr>" s t a] by simp
  moreover have "so_address obj = b" using obj(1) assms(2) unfolding addressed_def by blast
  ultimately show ?thesis using obj by (simp add: bare_at_def)
next
  case (balanceChange b n)
  with assms(1,2) with_object_untouched [of K b "so_setBalance n" s t a] show ?thesis
    by (simp add: bare_at_def so_setBalance_def)
next
  case (nonceChange b n)
  with assms(1,2) with_object_untouched [of K b "so_setNonce n" s t a] show ?thesis
    by (simp add: bare_at_def so_setNonce_def)
next
  case (codeChange b code h)
  with assms(1,2) with_object_untouched [of K b "so_setCode h code" s t a] show ?thesis
    by (simp add: bare_at_def so_setCode_def)
next
  case (storageChange b k v w)
  with assms(1,2) with_object_untouched [of K b "so_setState k v w" s t a] show ?thesis
    by (simp add: bare_at_def so_setState_def)
qed (use assms in \<open>auto simp: bare_at_def setTransientState_def rbind_eq_Inr addressed_def split: if_splits\<close>)

lemma revert_entries_untouched:
  assumes "revert_entries K es s = Inr t" "addressed K s" "list_all (\<lambda>e. \<not> is_reset e) es"
    and "\<And>e. e \<in> set es \<Longrightarrow> Dirtied e \<noteq> Some a"
  shows "bare_at K t a = bare_at K s a"
  using assms
proof (induction es arbitrary: s)
  case (Cons e es)
  then obtain s1 where s1: "entry_Revert K e s = Inr s1"
    "revert_entries K es (s1\<lparr>dirties := unmark_dirty e (dirties s1)\<rparr>) = Inr t"
    by (auto simp: rbind_eq_Inr)
  have "addressed K s1 \<and> bare_at K s1 a = bare_at K s a"
    using entry_Revert_untouched [OF s1(1) Cons.prems(2)] Cons.prems(3,4) by auto
  then show ?case using Cons.IH [OF s1(2)] Cons.prems(3,4) by (auto simp: addressed_def bare_at_def)
qed simp

lemma mark_all_None:
  "kv_get (fold mark_dirty es d) a = None \<Longrightarrow> kv_get d a = None \<and> (\<forall>e \<in> set es. Dirtied e \<noteq> Some a)"
proof (induction es arbitrary: d)
  case (Cons e es)
  have "kv_get (mark_dirty e d) a = None \<Longrightarrow> kv_get d a = None \<and> Dirtied e \<noteq> Some a"
    by (auto simp: mark_dirty_def kv_get_set split: option.splits if_splits)
  with Cons show ?case by simp
qed simp

lemma clean_address:
  assumes "recorded K gs s" "journaled K (sdb_New c evs cfg) s" "no_resets s" "kv_get (dirties s) a = None"
  shows "case obj_at K s a of None \<Rightarrow> k_GetAccount K c a = None
    | Some x \<Rightarrow> (\<exists>acc. k_GetAccount K c a = Some acc \<and> so_account x = so_account (newObject K a acc) \<and>
        dirtyStorage x = [] \<and> \<not> selfDestructed x)"
proof -
  obtain t where t: "revert_entries K (rev (entries s)) s = Inr t" "sdb_sim K t (sdb_New c evs cfg)"
    using assms(2) unfolding journaled_def recov_def by auto
  have "addressed K s" using assms(1) by (simp add: recorded_def sdb_inv_def addressed_def obj_ok_def)
  moreover have "Dirtied e \<noteq> Some a" if "e \<in> set (rev (entries s))" for e
    using mark_all_None [of "entries s" "[]" a] assms(2,4) that by (simp add: journaled_def)
  ultimately have bare: "bare_at K t a = bare_at K s a"
    using revert_entries_untouched [OF t(1)] assms(3) by (simp add: no_resets_def)
  have "rel_option (obj_eq K c) (obj_at K t a) (map_option (newObject K a) (k_GetAccount K c a))"
    using t(2) by (simp add: sdb_sim_def sdb_eq_def sdb_New_def obj_at_alt)
  then have new: "(obj_at K t a = None \<longrightarrow> k_GetAccount K c a = None) \<and>
    (\<forall>y. obj_at K t a = Some y \<longrightarrow> (\<exists>acc. k_GetAccount K c a = Some acc \<and> obj_eq K c y (newObject K a acc)))"
    by (auto simp: rel_option_iff split: option.splits)
  show ?thesis
  proof (cases "obj_at K s a")
    case None
    with bare new show ?thesis by (simp add: bare_at_def)
  next
    case (Some x)
    with bare obtain y where y: "obj_at K t a = Some y" "y\<lparr>newContract := False\<rparr> = x\<lparr>newContract := False\<rparr>"
      by (auto simp: bare_at_def)
    from y(2) have "so_account x = so_account y" "dirtyStorage x = dirtyStorage y" "selfDestructed x = selfDestructed y"
      by (cases x; cases y; simp)+
    with new y(1) Some show ?thesis by (auto simp: obj_eq_def newObject_def)
  qed
qed

section \<open>Commit\<close>

definition commit_base :: "'c StateDB \<Rightarrow> 'c" where
  "commit_base s = sdb_ctx (if writeCache s \<noteq> None then sdb_writeCache s else s)"

lemma writeCache_fields [simp]:
  "stateObjects (sdb_writeCache s) = stateObjects s" "dirties (sdb_writeCache s) = dirties s"
  by (simp_all add: sdb_writeCache_def Let_def split: option.split)

lemma Commit_loop:
  assumes "sdb_Commit K s = Inr s'"
  shows "\<exists>s1 s2. commit_loop K False (kv_keys (dirties s)) s1 (commit_base s) = Inr (s2, sdb_ctx s') \<and>
    stateObjects s1 = stateObjects s"
proof -
  let ?s1 = "if writeCache s \<noteq> None then sdb_writeCache s else s"
  have "\<exists>s2. commit_loop K False (kv_keys (dirties s)) ?s1 (commit_base s) = Inr (s2, sdb_ctx s')"
    using assms by (auto simp: sdb_Commit_def commitWithCtx_def commit_base_def sortedDirties_def Let_def
        rbind_eq_Inr split: if_splits)
  moreover have "stateObjects ?s1 = stateObjects s" by simp
  ultimately show ?thesis by blast
qed

lemma commit_base_New:
  assumes "journaled K (sdb_New c evs cfg) s" "writeCache s = None"
  shows "commit_base s = sdb_ctx s" "sdb_ctx s = c"
  using assms by (auto simp: commit_base_def journaled_def recov_def sdb_New_def dest!: sdb_sim_fields(5) same_frame_revert)
    (simp add: same_frame_def)

context keeper_contract
begin

lemma Commit_spec:
  assumes rec: "recorded K gs s" and commit: "sdb_Commit K s = Inr s'" and g: "good (commit_base s)"
    and ok: "\<And>b. kv_get (dirties s) b \<noteq> None \<Longrightarrow> ok b"
  shows "good (sdb_ctx s') \<and>
    (if kv_get (dirties s) a = None
     then k_GetAccount K (sdb_ctx s') a = k_GetAccount K (commit_base s) a \<and>
       k_GetState K (sdb_ctx s') a key = k_GetState K (commit_base s) a key
     else (\<exists>obj. stateObjects s a = Some obj \<and>
       k_GetAccount K (sdb_ctx s') a = (if selfDestructed obj then None else Some (acc_in (so_account obj))) \<and>
       (\<not> selfDestructed obj \<longrightarrow> k_GetState K (sdb_ctx s') a key = dirty_value obj key (k_GetState K (commit_base s) a key))))"
proof -
  obtain s1 s2 where l: "commit_loop K False (kv_keys (dirties s)) s1 (commit_base s) = Inr (s2, sdb_ctx s')"
    "stateObjects s1 = stateObjects s" using Commit_loop [OF commit] by blast
  have inv: "sdb_inv K s" using rec by (simp add: recorded_def)
  then have kv: "kv_ok (dirties s)" by (simp add: sdb_inv_def dirties_ok_def)
  have obj: "so_address obj = b \<and> kv_ok (dirtyStorage obj)" if "stateObjects s1 b = Some obj" for b obj
    using inv_obj [OF inv, of b obj] that l(2) by (simp add: obj_at_alt obj_ok_def)
  have keys: "b \<in> set (kv_keys (dirties s)) \<longleftrightarrow> kv_get (dirties s) b \<noteq> None" for b
    by (auto simp: set_kv_keys)
  with commit_loop_spec [OF g distinct_kv_keys [OF kv] l(1) obj ok, of a key] l(2) show ?thesis by auto
qed

text \<open>The account that a \<open>StateDB\<close> opened on the committed store sees.\<close>

lemma Commit_view:
  assumes rec: "recorded K gs s" and j: "journaled K (sdb_New c evs cfg) s" "no_resets s"
    and w: "writeCache s = None" and commit: "sdb_Commit K s = Inr s'" and g: "good c"
    and ok: "\<And>b. kv_get (dirties s) b \<noteq> None \<Longrightarrow> ok b"
  shows "case obj_at K s a of None \<Rightarrow> k_GetAccount K (sdb_ctx s') a = None
    | Some obj \<Rightarrow> if selfDestructed obj then k_GetAccount K (sdb_ctx s') a = None
      else (\<exists>acc. k_GetAccount K (sdb_ctx s') a = Some acc \<and> so_account (newObject K a acc) = so_account obj \<and>
        k_GetState K (sdb_ctx s') a key = fst (so_GetState K (sdb_ctx s) key obj))"
proof -
  note ctx = commit_base_New [OF j(1) w]
  note spec = Commit_spec [OF rec commit _ ok, of a key, unfolded ctx, OF g]
  have inv: "sdb_inv K s" "dirty_live K s" using rec by (simp_all add: recorded_def)
  have st: "fst (so_GetState K c key obj) = dirty_value obj key (k_GetState K c a key)"
    if "obj_at K s a = Some obj" for obj
    using inv_obj [OF inv(1) that] ctx(2)
    by (simp add: so_GetState_alt dirty_value_def obj_ok_def split: option.split)
  show ?thesis
  proof (cases "kv_get (dirties s) a")
    case None
    with spec clean_address [OF rec j None] st ctx(2) show ?thesis
      by (auto simp: dirty_value_def split: option.splits)
  next
    case (Some n)
    with spec obtain obj where obj: "stateObjects s a = Some obj"
      "k_GetAccount K (sdb_ctx s') a = (if selfDestructed obj then None else Some (acc_in (so_account obj)))"
      "\<not> selfDestructed obj \<longrightarrow> k_GetState K (sdb_ctx s') a key = dirty_value obj key (k_GetState K c a key)"
      by auto
    then have "obj_at K s a = Some obj" by (simp add: obj_at_alt)
    with obj st ctx(2) show ?thesis by (auto simp: acc_in_def newObject_def)
  qed
qed

lemma Commit_getters:
  assumes "good c"
    and "run K ps (sdb_New c evs cfg) = Inr s" "clean_run K ps (sdb_New c evs cfg)"
    and "no_resets s" "writeCache s = None" "sdb_Commit K s = Inr s'" "t = sdb_New (sdb_ctx s') evs' cfg'"
    and "\<And>b. kv_get (dirties s) b \<noteq> None \<Longrightarrow> ok b"
  shows "if fst (sdb_HasSelfDestructed K a s) then \<not> fst (sdb_Exist K a t)
    else fst (sdb_Exist K a t) = fst (sdb_Exist K a s) \<and> fst (sdb_GetNonce K a t) = fst (sdb_GetNonce K a s) \<and>
      fst (sdb_GetBalance K a t) = fst (sdb_GetBalance K a s) \<and>
      fst (sdb_GetCodeHash K a t) = fst (sdb_GetCodeHash K a s) \<and>
      fst (sdb_GetState K a key t) = fst (sdb_GetState K a key s)"
proof -
  obtain gs where rec: "recorded K gs s" using run_recorded [OF sdb_inv_New assms(2,3)] by blast
  have j: "journaled K (sdb_New c evs cfg) s" using run_journaled [OF sdb_inv_New journaled_New assms(2,3)] .
  note view = Commit_view [OF rec j assms(4,5,6,1,8), of a key]
  have t: "obj_at K t a = map_option (newObject K a) (k_GetAccount K (sdb_ctx s') a)" "sdb_ctx t = sdb_ctx s'"
    by (simp_all add: assms(7) obj_at_alt sdb_New_def)
  have "fst (so_GetState K c' key (newObject K a acc)) = k_GetState K c' a key" for c' acc
    by (simp add: so_GetState_alt so_GetCommittedState_def newObject_def Let_def)
  with view t show ?thesis by (auto simp: getter_values split: option.splits if_splits)
qed

lemma Commit_good:
  assumes "good c" "run K ps (sdb_New c evs cfg) = Inr s" "clean_run K ps (sdb_New c evs cfg)" "writeCache s = None"
    and "sdb_Commit K s = Inr s'" "\<And>b. kv_get (dirties s) b \<noteq> None \<Longrightarrow> ok b"
  shows "good (sdb_ctx s')"
proof -
  obtain gs where rec: "recorded K gs s" using run_recorded [OF sdb_inv_New assms(2,3)] by blast
  have j: "journaled K (sdb_New c evs cfg) s" using run_journaled [OF sdb_inv_New journaled_New assms(2,3)] .
  have "commit_base s = c" using commit_base_New [OF j assms(4)] by simp
  with Commit_spec [OF rec assms(5) _ assms(6)] assms(1) show ?thesis by blast
qed

end

interpretation memk: keeper_contract mem_keeper "\<lambda>_. True" "\<lambda>_. True"
  by unfold_locales (auto simp: acc_in_def kv_get_set mem_keeper_def split: if_splits)

section \<open>Properties\<close>

text \<open>
  C8. What \<open>Commit\<close> writes. After any run of a new \<open>StateDB\<close>, on a keeper that obeys the
  keeper contract, a successful \<open>Commit\<close> leaves in the store exactly the dirty accounts: a
  self-destructed account is gone, any other dirty account has the nonce, balance and code
  hash of its object and its dirty slots, and every address outside the journal keeps what
  the store (or the branch that the precompiles wrote) held. The dirty addresses are those for
  which the keeper keeps its contract.
\<close>

theorem Commit_writes_journal:
  assumes "keeper_contract K good ok" "run K ps (sdb_New c evs cfg) = Inr s" "clean_run K ps (sdb_New c evs cfg)"
    and "sdb_Commit K s = Inr s'" "good (commit_base s)" "\<And>b. kv_get (dirties s) b \<noteq> None \<Longrightarrow> ok b"
  shows "if kv_get (dirties s) a = None
     then k_GetAccount K (sdb_ctx s') a = k_GetAccount K (commit_base s) a \<and>
       k_GetState K (sdb_ctx s') a key = k_GetState K (commit_base s) a key
     else (\<exists>obj. stateObjects s a = Some obj \<and>
       k_GetAccount K (sdb_ctx s') a = (if selfDestructed obj then None else Some (acc_in (so_account obj))) \<and>
       (\<not> selfDestructed obj \<longrightarrow> k_GetState K (sdb_ctx s') a key = dirty_value obj key (k_GetState K (commit_base s) a key)))"
proof -
  obtain gs where "recorded K gs s" using run_recorded [OF sdb_inv_New assms(2,3)] by blast
  with keeper_contract.Commit_spec [OF assms(1) _ assms(4,5,6)] show ?thesis by blast
qed


text \<open>
  \<open>Commit\<close> never dereferences a missing object: after any run, when the keeper's
  writes succeed, so does \<open>Commit\<close>.
\<close>

theorem Commit_total:
  assumes "run K ps (sdb_New c evs cfg) = Inr s" "clean_run K ps (sdb_New c evs cfg)"
    and "\<And>c a x. \<exists>c'. k_SetAccount K c a x = Inr c'" "\<And>c a. \<exists>c'. k_DeleteAccount K c a = Inr c'"
  shows "\<exists>s'. sdb_Commit K s = Inr s'"
proof -
  let ?s1 = "if writeCache s \<noteq> None then sdb_writeCache s else s"
  obtain gs where rec: "recorded K gs s" using run_recorded [OF sdb_inv_New assms(1,2)] by blast
  then have "stateObjects ?s1 a \<noteq> None" if "a \<in> set (kv_keys (dirties s))" for a
    using that by (auto simp: recorded_def dirty_live_def set_kv_keys)
  then obtain s2 c2 where "commit_loop K False (kv_keys (dirties s)) ?s1 (sdb_ctx ?s1) = Inr (s2, c2)"
    using commit_loop_total [OF assms(3,4)] by blast
  then show ?thesis by (auto simp: sdb_Commit_def commitWithCtx_def sortedDirties_def Let_def)
qed

text \<open>A hash survives its byte encoding: \<open>BytesToHash(h.Bytes()) = h\<close> for all 2 ^ 256 hashes.\<close>

theorem BytesToHash_Bytes: "BytesToHash (hash_Bytes h) = h \<and> length (hash_Bytes h) = 32"
  by simp

subsection \<open>Witnesses\<close>

definition ex_commit_ops :: "mem op list" where
  "ex_commit_ops = [OpSetState 1 5 7, OpSubBalance 1 20, OpAddBalance 2 20, OpSetNonce 1 4, OpSelfDestruct 3]"

definition ex_funded2 :: mem where
  "ex_funded2 = mem_empty\<lparr>m_accounts := [1 \<mapsto> \<lparr>acc_Nonce = 3, acc_Balance = 50, acc_CodeHash = 0\<rparr>,
     3 \<mapsto> \<lparr>acc_Nonce = 1, acc_Balance = 9, acc_CodeHash = 8\<rparr>]\<rparr>"

definition ex_committing :: "mem StateDB" where
  "ex_committing = sdb_New ex_funded2 [] \<lparr>TxHash = 0, TxIndex = 0\<rparr>"

lemma ex_commit_run:
  "case run mem_keeper ex_commit_ops ex_committing of Inl _ \<Rightarrow> False
   | Inr s \<Rightarrow> clean_run mem_keeper ex_commit_ops ex_committing \<and> no_resets s \<and> writeCache s = None \<and>
      kv_get (dirties s) 1 \<noteq> None \<and> fst (sdb_HasSelfDestructed mem_keeper 3 s) \<and>
      \<not> fst (sdb_HasSelfDestructed mem_keeper 1 s) \<and>
      fst (sdb_GetBalance mem_keeper 1 s) = 30 \<and> fst (sdb_GetState mem_keeper 1 5 s) = 7 \<and>
      (case sdb_Commit mem_keeper s of Inl _ \<Rightarrow> False | Inr s' \<Rightarrow> True)"
  by (simp add: ex_commit_ops_def ex_committing_def ex_funded2_def mem_empty_def sdb_eval no_resets_def
      op_clean_def flush_clean_def)

lemma ex_committed:
  obtains s s' where "run mem_keeper ex_commit_ops ex_committing = Inr s" "clean_run mem_keeper ex_commit_ops ex_committing"
    "no_resets s" "writeCache s = None" "sdb_Commit mem_keeper s = Inr s'" "kv_get (dirties s) 1 \<noteq> None"
    "fst (sdb_HasSelfDestructed mem_keeper 3 s)" "\<not> fst (sdb_HasSelfDestructed mem_keeper 1 s)"
    "fst (sdb_GetBalance mem_keeper 1 s) = 30" "fst (sdb_GetState mem_keeper 1 5 s) = 7"
  using ex_commit_run by (auto split: sum.splits)

theorem Commit_writes_journal_witness:
  "\<exists>s s' obj. run mem_keeper ex_commit_ops ex_committing = Inr s \<and> sdb_Commit mem_keeper s = Inr s' \<and>
     stateObjects s 1 = Some obj \<and> k_GetAccount mem_keeper (sdb_ctx s') 1 =
       (if selfDestructed obj then None else Some (acc_in (so_account obj)))"
proof -
  obtain s s' where e: "run mem_keeper ex_commit_ops ex_committing = Inr s" "clean_run mem_keeper ex_commit_ops ex_committing"
    "sdb_Commit mem_keeper s = Inr s'" "kv_get (dirties s) 1 \<noteq> None" by (rule ex_committed)
  from Commit_writes_journal [OF memk.keeper_contract_axioms e(1,2) [unfolded ex_committing_def] e(3) TrueI TrueI, of 1 5]
    e(1,3,4) show ?thesis by auto
qed


theorem Commit_total_witness:
  "\<exists>s s'. run mem_keeper ex_commit_ops ex_committing = Inr s \<and> sdb_Commit mem_keeper s = Inr s'"
proof -
  obtain s where e: "run mem_keeper ex_commit_ops ex_committing = Inr s" "clean_run mem_keeper ex_commit_ops ex_committing"
    by (rule ex_committed)
  from Commit_total [OF e [unfolded ex_committing_def]] e(1) show ?thesis by simp
qed

end
