(* ===== verification/EvmDenom.thy ===== *)
theory EvmDenom
  imports Prelude
begin

text \<open>
  The coin of the EVM: its decimals, its denominations and the conversion to 18 decimals
  (\<open>x/vm/types/denom.go\<close>, \<open>denom_config.go\<close>, \<open>scaling.go\<close>). The coin information is a global
  variable of the Go package; here it is a value that is set once and then passed along.
\<close>

section \<open>Types\<close>

type_synonym AccAddress = bytes
type_synonym denom = string
type_synonym coin = "denom \<times> int"
type_synonym coins = "coin list"

record EvmCoinInfo =
  Denom :: denom
  ExtendedDenom :: denom
  DisplayDenom :: denom
  eci_Decimals :: u32

section \<open>Decimals\<close>

text \<open>The map \<open>ConversionFactor\<close>. A missing key gives Go's zero \<open>math.Int\<close>, whose number is nil.\<close>

definition ConversionFactor_table :: "(u32 \<times> int) list" where
  "ConversionFactor_table =
     [(1, 100000000000000000), (2, 10000000000000000), (3, 1000000000000000),
      (4, 100000000000000), (5, 10000000000000), (6, 1000000000000), (7, 100000000000),
      (8, 10000000000), (9, 1000000000), (10, 100000000), (11, 10000000), (12, 1000000),
      (13, 100000), (14, 10000), (15, 1000), (16, 100), (17, 10), (18, 1)]"

definition Decimals_Validate :: "u32 \<Rightarrow> unit res" where
  "Decimals_Validate d =
     (if 0 < d \<and> d \<le> 18 then Inr () else Inl (Err ''received unsupported decimals''))"

definition Decimals_ConversionFactor :: "u32 \<Rightarrow> int option" where
  "Decimals_ConversionFactor d = map_of ConversionFactor_table d"

text \<open>The number that the callers compute with; a nil number panics in the first operation on it.\<close>

definition conversion :: "EvmCoinInfo \<Rightarrow> int" where
  "conversion E = (case Decimals_ConversionFactor (eci_Decimals E) of None \<Rightarrow> 0 | Some f \<Rightarrow> f)"

section \<open>The configuration\<close>

text \<open>
  \<open>setEVMCoinInfo\<close>: the state is the global pointer. An error after the allocation leaves a
  partly filled value behind. \<open>valid\<close> is the SDK's \<open>ValidateDenom\<close>.
\<close>

definition new_EvmCoinInfo :: EvmCoinInfo where
  "new_EvmCoinInfo = \<lparr>Denom = [], ExtendedDenom = [], DisplayDenom = [], eci_Decimals = 0\<rparr>"

definition setEVMCoinDecimals :: "u32 \<Rightarrow> EvmCoinInfo \<Rightarrow> fault option \<times> EvmCoinInfo" where
  "setEVMCoinDecimals d g =
     (case Decimals_Validate d of Inl e \<Rightarrow> (Some e, g) | Inr _ \<Rightarrow> (None, g\<lparr>eci_Decimals := d\<rparr>))"

definition setEVMCoinDenom :: "(denom \<Rightarrow> bool) \<Rightarrow> denom \<Rightarrow> EvmCoinInfo \<Rightarrow> fault option \<times> EvmCoinInfo" where
  "setEVMCoinDenom valid d g =
     (if valid d then (None, g\<lparr>Denom := d\<rparr>) else (Some (Err ''setting EVM coin denom''), g))"

definition setEVMCoinExtendedDenom :: "(denom \<Rightarrow> bool) \<Rightarrow> denom \<Rightarrow> EvmCoinInfo \<Rightarrow> fault option \<times> EvmCoinInfo" where
  "setEVMCoinExtendedDenom valid d g =
     (if valid d then (None, g\<lparr>ExtendedDenom := d\<rparr>) else (Some (Err ''invalid denom''), g))"

definition setDisplayDenom :: "(denom \<Rightarrow> bool) \<Rightarrow> denom \<Rightarrow> EvmCoinInfo \<Rightarrow> fault option \<times> EvmCoinInfo" where
  "setDisplayDenom valid d g =
     (if valid d then (None, g\<lparr>DisplayDenom := d\<rparr>) else (Some (Err ''setting EVM coin display denom''), g))"

text \<open>One setter after the other, up to the first error.\<close>

definition and_then ::
  "fault option \<times> EvmCoinInfo \<Rightarrow> (EvmCoinInfo \<Rightarrow> fault option \<times> EvmCoinInfo) \<Rightarrow> fault option \<times> EvmCoinInfo" where
  "and_then r f = (case r of (Some e, g) \<Rightarrow> (Some e, g) | (None, g) \<Rightarrow> f g)"

definition setEVMCoinInfo ::
  "(denom \<Rightarrow> bool) \<Rightarrow> EvmCoinInfo \<Rightarrow> EvmCoinInfo option \<Rightarrow> fault option \<times> EvmCoinInfo option" where
  "setEVMCoinInfo valid eci global =
     (if global \<noteq> None then (Some (Err ''EVM coin info already set''), global)
      else if eci_Decimals eci = 18 \<and> Denom eci \<noteq> ExtendedDenom eci
      then (Some (Err ''EVM coin denom and extended denom must be the same for 18 decimals''), global)
      else case and_then (and_then (and_then
               (setEVMCoinDenom valid (Denom eci) new_EvmCoinInfo)
               (setEVMCoinExtendedDenom valid (ExtendedDenom eci)))
               (setDisplayDenom valid (DisplayDenom eci)))
               (setEVMCoinDecimals (eci_Decimals eci))
           of (e, g) \<Rightarrow> (e, Some g))"

definition getEvmCoinInfo :: "EvmCoinInfo option \<Rightarrow> EvmCoinInfo option \<Rightarrow> EvmCoinInfo option" where
  "getEvmCoinInfo evmCoinInfo defaultEvmCoinInfo =
     (if evmCoinInfo = None then defaultEvmCoinInfo else evmCoinInfo)"

section \<open>Scaling\<close>

definition ConvertAmountTo18DecimalsBigInt :: "EvmCoinInfo \<Rightarrow> int \<Rightarrow> int" where
  "ConvertAmountTo18DecimalsBigInt E amt = amt * conversion E"

text \<open>The product is taken modulo \<open>2 ^ 256\<close>, the factor modulo \<open>2 ^ 64\<close>.\<close>

definition ConvertAmountTo18Decimals256Int :: "EvmCoinInfo \<Rightarrow> u256 \<Rightarrow> u256" where
  "ConvertAmountTo18Decimals256Int E amt = amt * ucast (word_of_int (conversion E) :: u64)"

definition ConvertEvmCoinDenomToExtendedDenom :: "EvmCoinInfo \<Rightarrow> coin \<Rightarrow> coin res" where
  "ConvertEvmCoinDenomToExtendedDenom E c =
     (if fst c \<noteq> Denom E then Inl (Err ''expected coin denom'') else Inr (ExtendedDenom E, snd c))"

text \<open>\<open>Sort\<close> is the SDK's \<open>Coins.Sort\<close>.\<close>

definition ConvertCoinsDenomToExtendedDenom :: "(coins \<Rightarrow> coins) \<Rightarrow> EvmCoinInfo \<Rightarrow> coins \<Rightarrow> coins" where
  "ConvertCoinsDenomToExtendedDenom Sort E cs =
     Sort (map (\<lambda>c. if fst c = Denom E
        then (case ConvertEvmCoinDenomToExtendedDenom E c of Inl _ \<Rightarrow> c | Inr c' \<Rightarrow> c') else c) cs)"

section \<open>Lemmas\<close>

lemma small_u32:
  assumes "0 < (d :: u32)" "d \<le> 18"
  shows "d = 1 \<or> d = 2 \<or> d = 3 \<or> d = 4 \<or> d = 5 \<or> d = 6 \<or> d = 7 \<or> d = 8 \<or> d = 9 \<or>
    d = 10 \<or> d = 11 \<or> d = 12 \<or> d = 13 \<or> d = 14 \<or> d = 15 \<or> d = 16 \<or> d = 17 \<or> d = 18"
proof -
  have u: "0 < unat d" "unat d \<le> 18"
    using assms by (simp_all add: word_less_nat_alt word_le_nat_alt)
  have "unat d \<in> {1..18}" using u by simp
  also have "{1..18} = {1, 2, 3, 4, 5, 6, 7, 8, 9, 10, 11, 12, 13, 14, 15, 16, 17, 18 :: nat}" by (auto, presburger)
  finally have "word_of_nat (unat d) \<in> (word_of_nat ` {1, 2, 3, 4, 5, 6, 7, 8, 9, 10, 11, 12, 13, 14, 15, 16, 17, 18} :: u32 set)"
    by (rule imageI)
  then show ?thesis by simp
qed

lemma Decimals_Validate_ok: "Decimals_Validate d = Inr u \<longleftrightarrow> 0 < d \<and> d \<le> 18"
  by (simp add: Decimals_Validate_def)

lemma conversion_table:
  assumes "0 < d" "d \<le> 18"
  shows "\<exists>f. Decimals_ConversionFactor d = Some f \<and> 0 < f \<and> f < 2 ^ 64 \<and> f * 10 ^ unat d = 10 ^ 18"
  using small_u32 [OF assms]
  by (elim disjE) (simp_all add: Decimals_ConversionFactor_def ConversionFactor_table_def)

lemma setEVMCoinInfo_ok:
  assumes "setEVMCoinInfo valid eci None = (None, g)"
  shows "g = Some eci" "0 < eci_Decimals eci" "eci_Decimals eci \<le> 18"
    "eci_Decimals eci = 18 \<Longrightarrow> Denom eci = ExtendedDenom eci"
  using assms
  by (auto simp: setEVMCoinInfo_def and_then_def setEVMCoinDenom_def setEVMCoinExtendedDenom_def
      setDisplayDenom_def setEVMCoinDecimals_def Decimals_Validate_def new_EvmCoinInfo_def
      split: if_splits)

section \<open>Properties\<close>

text \<open>
  A configuration that \<open>setEVMCoinInfo\<close> accepts is stored as given, and its conversion
  factor is the power of ten that takes its decimals to 18: a positive number below
  \<open>2 ^ 64\<close>, so that \<open>ConvertAmountTo18Decimals256Int\<close> multiplies by the same factor as
  \<open>ConvertAmountTo18DecimalsBigInt\<close>.
\<close>

theorem setEVMCoinInfo_conversion:
  assumes "setEVMCoinInfo valid eci None = (None, g)"
  shows "g = Some eci \<and> 0 < conversion eci \<and> conversion eci * 10 ^ unat (eci_Decimals eci) = 10 ^ 18 \<and>
    ConvertAmountTo18Decimals256Int eci amt = word_of_int (ConvertAmountTo18DecimalsBigInt eci (uint amt))"
proof -
  note ok = setEVMCoinInfo_ok [OF assms]
  obtain f where f: "Decimals_ConversionFactor (eci_Decimals eci) = Some f" "0 < f" "f < 2 ^ 64"
    "f * 10 ^ unat (eci_Decimals eci) = 10 ^ 18" using conversion_table [OF ok(2,3)] by blast
  then have c: "conversion eci = f" by (simp add: conversion_def)
  have "(ucast (word_of_int f :: u64) :: u256) = word_of_int f"
    using f(2,3) by (simp add: ucast_eq uint_word_of_int take_bit_int_eq_self_iff)
  then show ?thesis
    using ok(1) f(2,4) by (simp add: c ConvertAmountTo18Decimals256Int_def ConvertAmountTo18DecimalsBigInt_def)
qed

definition ex_coin_info :: EvmCoinInfo where
  "ex_coin_info = \<lparr>Denom = ''uatom'', ExtendedDenom = ''aatom'', DisplayDenom = ''atom'', eci_Decimals = 6\<rparr>"

theorem setEVMCoinInfo_conversion_witness:
  "setEVMCoinInfo (\<lambda>d. d \<noteq> []) ex_coin_info None = (None, Some ex_coin_info) \<and>
   conversion ex_coin_info * 10 ^ 6 = 10 ^ 18"
proof -
  have set: "setEVMCoinInfo (\<lambda>d. d \<noteq> []) ex_coin_info None = (None, Some ex_coin_info)"
    by (simp add: setEVMCoinInfo_def and_then_def setEVMCoinDenom_def setEVMCoinExtendedDenom_def
      setDisplayDenom_def setEVMCoinDecimals_def Decimals_Validate_def new_EvmCoinInfo_def ex_coin_info_def)
  from setEVMCoinInfo_conversion [OF set, of 0] set show ?thesis by (simp add: ex_coin_info_def)
qed

end
