(* ===== verification/PreciseBank.thy ===== *)
theory PreciseBank
  imports EvmDenom
begin

text \<open>
  \<open>x/precisebank\<close>: balances of the EVM coin with 18 decimals on top of a bank that keeps
  fewer. The integer part of a balance is in \<open>x/bank\<close>, the rest is a fractional balance of
  this module, and the module account holds a reserve of integer coins that backs the
  fractional balances and a remainder. The bank, the module accounts and the \<open>Coins\<close>
  functions of the SDK are the record \<open>bank\<close>; numbers are unbounded (\<open>sdkmath.Int\<close> panics
  beyond 256 bits).
\<close>

section \<open>The SDK\<close>

record moduleAccount =
  ma_Address :: AccAddress
  ma_Permissions :: "string list"

record 'b bank =
  bk_GetBalance :: "'b \<Rightarrow> AccAddress \<Rightarrow> denom \<Rightarrow> int"
  bk_SpendableCoin :: "'b \<Rightarrow> AccAddress \<Rightarrow> denom \<Rightarrow> int"
  bk_GetSupply :: "'b \<Rightarrow> denom \<Rightarrow> int"
  bk_BlockedAddr :: "AccAddress \<Rightarrow> bool"
  bk_IsSendEnabledCoin :: "'b \<Rightarrow> coin \<Rightarrow> bool"
  bk_SendCoins :: "'b \<Rightarrow> AccAddress \<Rightarrow> AccAddress \<Rightarrow> coins \<Rightarrow> 'b res"
  bk_SendCoinsFromAccountToModule :: "'b \<Rightarrow> AccAddress \<Rightarrow> string \<Rightarrow> coins \<Rightarrow> 'b res"
  bk_SendCoinsFromModuleToModule :: "'b \<Rightarrow> string \<Rightarrow> string \<Rightarrow> coins \<Rightarrow> 'b res"
  bk_MintCoins :: "'b \<Rightarrow> string \<Rightarrow> coins \<Rightarrow> 'b res"
  bk_BurnCoins :: "'b \<Rightarrow> string \<Rightarrow> coins \<Rightarrow> 'b res"
  ak_GetModuleAddress :: "string \<Rightarrow> AccAddress"
  ak_GetModuleAccount :: "'b \<Rightarrow> string \<Rightarrow> moduleAccount option \<times> 'b"
  ak_StringToBytes :: "string \<Rightarrow> AccAddress res"
  acc_FromBech32 :: "string \<Rightarrow> AccAddress res"
  acc_String :: "AccAddress \<Rightarrow> string"
  coins_New :: "coins \<Rightarrow> coins"
  coins_IsValid :: "coins \<Rightarrow> bool"
  coins_IsAllPositive :: "coins \<Rightarrow> bool"
  coins_AmountOf :: "coins \<Rightarrow> denom \<Rightarrow> int"
  coins_Sub :: "coins \<Rightarrow> coin \<Rightarrow> coins"

text \<open>A missing module address is the nil slice.\<close>

definition pb_ModuleName :: string where
  "pb_ModuleName = ''precisebank''"

abbreviation reserve :: "'b bank \<Rightarrow> AccAddress" where
  "reserve B \<equiv> ak_GetModuleAddress B pb_ModuleName"

section \<open>State\<close>

text \<open>The store of the module, with the state of the bank and of the accounts under it.\<close>

record 'b pbState =
  pbank :: 'b
  fractional :: "(AccAddress, int) kv"
  remainder :: "int option"
  pb_events :: "(AccAddress \<times> int) list"

definition on_bank :: "('b \<Rightarrow> 'b res) \<Rightarrow> 'b pbState \<Rightarrow> 'b pbState res" where
  "on_bank f s = rbind (f (pbank s)) (\<lambda>b. Inr (s\<lparr>pbank := b\<rparr>))"

definition ValidateFractionalAmount :: "EvmCoinInfo \<Rightarrow> int \<Rightarrow> unit res" where
  "ValidateFractionalAmount E amt =
     (if \<not> 0 < amt then Inl (Err ''non-positive amount'')
      else if conversion E \<le> amt then Inl (Err ''amount exceeds max'')
      else Inr ())"

definition GetFractionalBalance :: "'b pbState \<Rightarrow> AccAddress \<Rightarrow> int" where
  "GetFractionalBalance s a = (case kv_get (fractional s) a of None \<Rightarrow> 0 | Some v \<Rightarrow> v)"

definition DeleteFractionalBalance :: "AccAddress \<Rightarrow> 'b pbState \<Rightarrow> 'b pbState" where
  "DeleteFractionalBalance a s = s\<lparr>fractional := kv_delete a (fractional s)\<rparr>"

definition SetFractionalBalance :: "EvmCoinInfo \<Rightarrow> AccAddress \<Rightarrow> int \<Rightarrow> 'b pbState \<Rightarrow> 'b pbState res" where
  "SetFractionalBalance E a amount s =
     (if a = [] then Inl (Panic ''address cannot be empty'')
      else if amount = 0 then Inr (DeleteFractionalBalance a s)
      else case ValidateFractionalAmount E amount of
             Inl _ \<Rightarrow> Inl (Panic ''amount is invalid'')
           | Inr _ \<Rightarrow> Inr (s\<lparr>fractional := kv_set a amount (fractional s)\<rparr>))"

text \<open>The callback returns the new accumulator and whether to stop.\<close>

fun iterate :: "('k \<Rightarrow> 'v \<Rightarrow> 'a \<Rightarrow> 'a \<times> bool) \<Rightarrow> ('k, 'v) kv \<Rightarrow> 'a \<Rightarrow> 'a" where
  "iterate cb [] acc = acc"
| "iterate cb ((k, v) # s) acc =
     (case cb k v acc of (acc', stop) \<Rightarrow> if stop then acc' else iterate cb s acc')"

definition IterateFractionalBalances ::
  "'b pbState \<Rightarrow> (AccAddress \<Rightarrow> int \<Rightarrow> 'a \<Rightarrow> 'a \<times> bool) \<Rightarrow> 'a \<Rightarrow> 'a" where
  "IterateFractionalBalances s cb acc = iterate cb (fractional s) acc"

definition GetTotalSumFractionalBalances :: "'b pbState \<Rightarrow> int" where
  "GetTotalSumFractionalBalances s = IterateFractionalBalances s (\<lambda>_ amount sum. (sum + amount, False)) 0"

definition GetRemainderAmount :: "'b pbState \<Rightarrow> int" where
  "GetRemainderAmount s = (case remainder s of None \<Rightarrow> 0 | Some r \<Rightarrow> r)"

definition DeleteRemainderAmount :: "'b pbState \<Rightarrow> 'b pbState" where
  "DeleteRemainderAmount s = s\<lparr>remainder := None\<rparr>"

definition SetRemainderAmount :: "EvmCoinInfo \<Rightarrow> int \<Rightarrow> 'b pbState \<Rightarrow> 'b pbState res" where
  "SetRemainderAmount E amount s =
     (if amount = 0 then Inr (DeleteRemainderAmount s)
      else case ValidateFractionalAmount E amount of
             Inl _ \<Rightarrow> Inl (Panic ''remainder amount is invalid'')
           | Inr _ \<Rightarrow> Inr (s\<lparr>remainder := Some amount\<rparr>))"

text \<open>The event of a change carries the address and the difference.\<close>

definition EmitEventFractionalBalanceChange :: "AccAddress \<Rightarrow> int \<Rightarrow> int \<Rightarrow> 'b pbState \<Rightarrow> 'b pbState" where
  "EmitEventFractionalBalanceChange a before after s = s\<lparr>pb_events := pb_events s @ [(a, after - before)]\<rparr>"

section \<open>Views\<close>

definition pb_GetBalance :: "EvmCoinInfo \<Rightarrow> 'b bank \<Rightarrow> 'b pbState \<Rightarrow> AccAddress \<Rightarrow> denom \<Rightarrow> int" where
  "pb_GetBalance E B s addr d =
     (if d = ExtendedDenom E \<and> addr = reserve B then 0
      else if d \<noteq> ExtendedDenom E then bk_GetBalance B (pbank s) addr d
      else bk_GetBalance B (pbank s) addr (Denom E) * conversion E + GetFractionalBalance s addr)"

definition pb_SpendableCoin :: "EvmCoinInfo \<Rightarrow> 'b bank \<Rightarrow> 'b pbState \<Rightarrow> AccAddress \<Rightarrow> denom \<Rightarrow> int" where
  "pb_SpendableCoin E B s addr d =
     (if d = ExtendedDenom E \<and> addr = reserve B then 0
      else if d \<noteq> ExtendedDenom E then bk_SpendableCoin B (pbank s) addr d
      else bk_SpendableCoin B (pbank s) addr (Denom E) * conversion E + GetFractionalBalance s addr)"

text \<open>The total of integer and extended coins in extended coins.\<close>

definition SumExtendedCoin :: "EvmCoinInfo \<Rightarrow> 'b bank \<Rightarrow> coins \<Rightarrow> coin" where
  "SumExtendedCoin E B amt =
     (let integerAmount = coins_AmountOf B amt (Denom E) * conversion E;
          extendedAmount = coins_AmountOf B amt (ExtendedDenom E)
      in (ExtendedDenom E, integerAmount + extendedAmount))"

section \<open>Mint\<close>

definition mintExtendedCoin :: "EvmCoinInfo \<Rightarrow> 'b bank \<Rightarrow> string \<Rightarrow> int \<Rightarrow> 'b pbState \<Rightarrow> 'b pbState res" where
  "mintExtendedCoin E B recipientModuleName amt s =
     (let moduleAddr = ak_GetModuleAddress B recipientModuleName; cf = conversion E in
      if recipientModuleName = pb_ModuleName then
        let integerMintAmount = quo amt cf in
        if 0 < integerMintAmount
        then on_bank (\<lambda>b. bk_MintCoins B b recipientModuleName (coins_New B [(Denom E, integerMintAmount)])) s
        else Inr s
      else
        let fractionalAmount = GetFractionalBalance s moduleAddr;
            integerMintAmount = quo amt cf;
            fractionalMintAmount = emod amt cf;
            prevRemainder = GetRemainderAmount s;
            newRemainder = prevRemainder - fractionalMintAmount;
            newFractionalBalance = fractionalAmount + fractionalMintAmount
        in
        rbind (if cf \<le> newFractionalBalance \<and> 0 \<le> newRemainder
               then on_bank (\<lambda>b. bk_SendCoinsFromModuleToModule B b pb_ModuleName recipientModuleName
                 (coins_New B [(Denom E, 1)])) s
               else Inr s) (\<lambda>s1.
        let integerMintAmount1 =
              (if cf \<le> newFractionalBalance \<and> newRemainder < 0 then integerMintAmount + 1 else integerMintAmount);
            newFractionalBalance1 =
              (if cf \<le> newFractionalBalance then newFractionalBalance - cf else newFractionalBalance)
        in
        rbind (if 0 < integerMintAmount1
               then on_bank (\<lambda>b. bk_MintCoins B b recipientModuleName
                 (coins_New B [(Denom E, integerMintAmount1)])) s1
               else Inr s1) (\<lambda>s2.
        rbind (SetFractionalBalance E moduleAddr newFractionalBalance1 s2) (\<lambda>s3.
        let wasCarried = (cf \<le> fractionalAmount + fractionalMintAmount) in
        rbind (if prevRemainder < fractionalMintAmount \<and> \<not> wasCarried
               then on_bank (\<lambda>b. bk_MintCoins B b pb_ModuleName (coins_New B [(Denom E, 1)])) s3
               else Inr s3) (\<lambda>s4.
        let newRemainder1 = (if newRemainder < 0 then newRemainder + cf else newRemainder) in
        rbind (SetRemainderAmount E newRemainder1 s4) (\<lambda>s5.
        Inr (EmitEventFractionalBalanceChange moduleAddr fractionalAmount newFractionalBalance1 s5)))))))"

text \<open>The part of \<open>MintCoins\<close> and \<open>BurnCoins\<close> after the permission check.\<close>

definition extended_split :: "EvmCoinInfo \<Rightarrow> 'b bank \<Rightarrow> coins \<Rightarrow> int \<times> coins" where
  "extended_split E B amt =
     (let extendedAmount = coins_AmountOf B amt (ExtendedDenom E)
      in (extendedAmount,
          if 0 < extendedAmount then coins_Sub B amt (ExtendedDenom E, extendedAmount) else amt))"

definition pb_MintCoins :: "EvmCoinInfo \<Rightarrow> 'b bank \<Rightarrow> string \<Rightarrow> coins \<Rightarrow> 'b pbState \<Rightarrow> 'b pbState res" where
  "pb_MintCoins E B moduleName amt s =
     (if moduleName = pb_ModuleName then Inl (Panic ''module account cannot be minted to'')
      else case ak_GetModuleAccount B (pbank s) moduleName of
        (None, b) \<Rightarrow> Inl (Panic ''module account does not exist'')
      | (Some acc, b) \<Rightarrow>
          let s1 = s\<lparr>pbank := b\<rparr> in
          if ''minter'' \<notin> set (ma_Permissions acc)
          then Inl (Panic ''module account does not have permissions to mint tokens'')
          else if \<not> coins_IsValid B amt then Inl (Err ''invalid coins'')
          else case extended_split E B amt of (extendedAmount, passthroughCoins) \<Rightarrow>
            rbind (if passthroughCoins \<noteq> [] then on_bank (\<lambda>b. bk_MintCoins B b moduleName passthroughCoins) s1
                   else Inr s1) (\<lambda>s2.
            if 0 < extendedAmount then mintExtendedCoin E B moduleName extendedAmount s2 else Inr s2))"

section \<open>Errors of the bank\<close>

text \<open>
  The message of an insufficient-funds error is rewritten to extended amounts, with the
  spendable balance in the state that the failing call left.
\<close>

definition updateInsufficientFundsError ::
  "EvmCoinInfo \<Rightarrow> 'b bank \<Rightarrow> 'b pbState \<Rightarrow> AccAddress \<Rightarrow> int \<Rightarrow> fault \<Rightarrow> fault" where
  "updateInsufficientFundsError E B s addr amt err =
     (case err of
        ErrInsufficientFunds _ \<Rightarrow> ErrInsufficientFunds (Some (pb_SpendableCoin E B s addr (ExtendedDenom E), amt))
      | _ \<Rightarrow> err)"

definition on_bank_upd ::
  "EvmCoinInfo \<Rightarrow> 'b bank \<Rightarrow> AccAddress \<Rightarrow> int \<Rightarrow> ('b \<Rightarrow> 'b res) \<Rightarrow> 'b pbState \<Rightarrow> 'b pbState res" where
  "on_bank_upd E B addr amt f s =
     (case on_bank f s of
        Inl err \<Rightarrow> Inl (updateInsufficientFundsError E B s addr amt err)
      | Inr s' \<Rightarrow> Inr s')"

section \<open>Burn\<close>

definition burnExtendedCoin :: "EvmCoinInfo \<Rightarrow> 'b bank \<Rightarrow> string \<Rightarrow> int \<Rightarrow> 'b pbState \<Rightarrow> 'b pbState res" where
  "burnExtendedCoin E B moduleName amt s =
     (let moduleAddr = ak_GetModuleAddress B moduleName; cf = conversion E in
      if moduleName = pb_ModuleName then
        let integerBurnAmount = quo amt cf in
        if 0 < integerBurnAmount
        then on_bank (\<lambda>b. bk_BurnCoins B b moduleName (coins_New B [(Denom E, integerBurnAmount)])) s
        else Inr s
      else
        let prevFractionalBalance = GetFractionalBalance s moduleAddr;
            prevRemainder = GetRemainderAmount s;
            integerBurnAmount = quo amt cf;
            fractionalBurnAmount = emod amt cf;
            newFractionalBalance = prevFractionalBalance - fractionalBurnAmount;
            requiresBorrow = (newFractionalBalance < 0);
            newRemainder = prevRemainder + fractionalBurnAmount;
            overflowingRemainder = (cf \<le> newRemainder);
            newFractionalBalance1 = (if requiresBorrow then newFractionalBalance + cf else newFractionalBalance);
            newRemainder1 = (if requiresBorrow \<and> overflowingRemainder then newRemainder - cf else newRemainder);
            integerBurnAmount1 =
              (if requiresBorrow \<and> overflowingRemainder then integerBurnAmount + 1 else integerBurnAmount)
        in
        rbind (if requiresBorrow \<and> \<not> overflowingRemainder
               then on_bank_upd E B moduleAddr amt (\<lambda>b. bk_SendCoinsFromModuleToModule B b moduleName pb_ModuleName
                 (coins_New B [(Denom E, 1)])) s
               else Inr s) (\<lambda>s1.
        rbind (if \<not> requiresBorrow \<and> overflowingRemainder
               then on_bank (\<lambda>b. bk_BurnCoins B b pb_ModuleName (coins_New B [(Denom E, 1)])) s1
               else Inr s1) (\<lambda>s2.
        let newRemainder2 =
              (if \<not> requiresBorrow \<and> overflowingRemainder then newRemainder1 - cf else newRemainder1) in
        rbind (if integerBurnAmount1 \<noteq> 0
               then on_bank_upd E B moduleAddr amt (\<lambda>b. bk_BurnCoins B b moduleName
                 (coins_New B [(Denom E, integerBurnAmount1)])) s2
               else Inr s2) (\<lambda>s3.
        rbind (SetFractionalBalance E moduleAddr newFractionalBalance1 s3) (\<lambda>s4.
        rbind (SetRemainderAmount E newRemainder2 s4) (\<lambda>s5.
        Inr (EmitEventFractionalBalanceChange moduleAddr prevFractionalBalance newFractionalBalance1 s5)))))))"

definition pb_BurnCoins :: "EvmCoinInfo \<Rightarrow> 'b bank \<Rightarrow> string \<Rightarrow> coins \<Rightarrow> 'b pbState \<Rightarrow> 'b pbState res" where
  "pb_BurnCoins E B moduleName amt s =
     (if moduleName = pb_ModuleName then Inl (Panic ''module account cannot be burned from'')
      else case ak_GetModuleAccount B (pbank s) moduleName of
        (None, b) \<Rightarrow> Inl (Panic ''module account does not exist'')
      | (Some acc, b) \<Rightarrow>
          let s1 = s\<lparr>pbank := b\<rparr> in
          if ''burner'' \<notin> set (ma_Permissions acc)
          then Inl (Panic ''module account does not have permissions to burn tokens'')
          else if \<not> coins_IsValid B amt then Inl (Err ''invalid coins'')
          else case extended_split E B amt of (extendedAmount, passthroughCoins) \<Rightarrow>
            rbind (if passthroughCoins \<noteq> [] then on_bank (\<lambda>b. bk_BurnCoins B b moduleName passthroughCoins) s1
                   else Inr s1) (\<lambda>s2.
            if 0 < extendedAmount then burnExtendedCoin E B moduleName extendedAmount s2 else Inr s2))"

section \<open>Send\<close>

definition subFromFractionalBalance :: "EvmCoinInfo \<Rightarrow> int \<Rightarrow> int \<Rightarrow> (int \<times> bool) res" where
  "subFromFractionalBalance E currentFractionalBalance amountToSub =
     (if conversion E \<le> currentFractionalBalance
      then Inl (Panic ''currentFractionalBalance must be less than ConversionFactor'')
      else if conversion E \<le> amountToSub then Inl (Panic ''amountToSub must be less than ConversionFactor'')
      else let newFractionalBalance = currentFractionalBalance - amountToSub;
               borrowRequired = (newFractionalBalance < 0)
           in Inr (if borrowRequired then newFractionalBalance + conversion E else newFractionalBalance,
                   borrowRequired))"

definition addToFractionalBalance :: "EvmCoinInfo \<Rightarrow> int \<Rightarrow> int \<Rightarrow> (int \<times> bool) res" where
  "addToFractionalBalance E currentFractionalBalance amountToAdd =
     (if conversion E \<le> currentFractionalBalance
      then Inl (Panic ''currentFractionalBalance must be less than ConversionFactor'')
      else if conversion E \<le> amountToAdd then Inl (Panic ''amountToAdd must be less than ConversionFactor'')
      else let newFractionalBalance = currentFractionalBalance + amountToAdd;
               carryRequired = (conversion E \<le> newFractionalBalance)
           in Inr (if carryRequired then newFractionalBalance - conversion E else newFractionalBalance,
                   carryRequired))"

definition sendExtendedCoins ::
  "EvmCoinInfo \<Rightarrow> 'b bank \<Rightarrow> AccAddress \<Rightarrow> AccAddress \<Rightarrow> int \<Rightarrow> 'b pbState \<Rightarrow> 'b pbState res" where
  "sendExtendedCoins E B from to amt s =
     (let cf = conversion E in
      if from = reserve B \<or> to = reserve B then
        let integerAmt = quo amt cf in
        if 0 < integerAmt
        then on_bank_upd E B from amt (\<lambda>b. bk_SendCoins B b from to (coins_New B [(Denom E, integerAmt)])) s
        else Inr s
      else if from = to then Inr s
      else
        let senderFracBal = GetFractionalBalance s from;
            recipientFracBal = GetFractionalBalance s to;
            integerAmt = quo amt cf;
            fractionalAmt = emod amt cf
        in
        rbind (subFromFractionalBalance E senderFracBal fractionalAmt) (\<lambda>(senderNewFracBal, senderNeedsBorrow).
        rbind (addToFractionalBalance E recipientFracBal fractionalAmt) (\<lambda>(recipientNewFracBal, recipientNeedsCarry).
        let integerAmt1 = (if senderNeedsBorrow \<and> recipientNeedsCarry then integerAmt + 1 else integerAmt) in
        rbind (if 0 < integerAmt1
               then on_bank_upd E B from amt (\<lambda>b. bk_SendCoins B b from to (coins_New B [(Denom E, integerAmt1)])) s
               else Inr s) (\<lambda>s1.
        rbind (if senderNeedsBorrow \<and> \<not> recipientNeedsCarry
               then on_bank_upd E B from amt (\<lambda>b. bk_SendCoinsFromAccountToModule B b from pb_ModuleName
                 (coins_New B [(Denom E, 1)])) s1
               else Inr s1) (\<lambda>s2.
        rbind (if \<not> senderNeedsBorrow \<and> recipientNeedsCarry
               then (case on_bank (\<lambda>b. bk_SendCoins B b (reserve B) to (coins_New B [(Denom E, 1)])) s2 of
                       Inl _ \<Rightarrow> Inl (Panic ''failed to carry fractional coins'')
                     | Inr s' \<Rightarrow> Inr s')
               else Inr s2) (\<lambda>s3.
        rbind (SetFractionalBalance E from senderNewFracBal s3) (\<lambda>s4.
        rbind (SetFractionalBalance E to recipientNewFracBal s4) (\<lambda>s5.
        Inr (EmitEventFractionalBalanceChange to recipientFracBal recipientNewFracBal
          (EmitEventFractionalBalanceChange from senderFracBal senderNewFracBal s5))))))))))"

definition pb_SendCoins ::
  "EvmCoinInfo \<Rightarrow> 'b bank \<Rightarrow> AccAddress \<Rightarrow> AccAddress \<Rightarrow> coins \<Rightarrow> 'b pbState \<Rightarrow> 'b pbState res" where
  "pb_SendCoins E B from to amt s =
     (if \<not> coins_IsValid B amt then Inl (Err ''invalid coins'')
      else case extended_split E B amt of (extendedCoinAmount, passthroughCoins) \<Rightarrow>
        rbind (if coins_IsAllPositive B passthroughCoins
               then on_bank (\<lambda>b. bk_SendCoins B b from to passthroughCoins) s else Inr s) (\<lambda>s1.
        if 0 < extendedCoinAmount then sendExtendedCoins E B from to extendedCoinAmount s1 else Inr s1))"

definition pb_SendCoinsFromAccountToModule ::
  "EvmCoinInfo \<Rightarrow> 'b bank \<Rightarrow> AccAddress \<Rightarrow> string \<Rightarrow> coins \<Rightarrow> 'b pbState \<Rightarrow> 'b pbState res" where
  "pb_SendCoinsFromAccountToModule E B senderAddr recipientModule amt s =
     (case ak_GetModuleAccount B (pbank s) recipientModule of
        (None, b) \<Rightarrow> Inl (Panic ''module account does not exist'')
      | (Some acc, b) \<Rightarrow>
          if recipientModule = pb_ModuleName then Inl (Err ''module account is not allowed to receive funds'')
          else pb_SendCoins E B senderAddr (ma_Address acc) amt (s\<lparr>pbank := b\<rparr>))"

definition pb_SendCoinsFromModuleToAccount ::
  "EvmCoinInfo \<Rightarrow> 'b bank \<Rightarrow> string \<Rightarrow> AccAddress \<Rightarrow> coins \<Rightarrow> 'b pbState \<Rightarrow> 'b pbState res" where
  "pb_SendCoinsFromModuleToAccount E B senderModule recipientAddr amt s =
     (let senderAddr = ak_GetModuleAddress B senderModule in
      if senderAddr = [] then Inl (Panic ''module account does not exist'')
      else if senderModule = pb_ModuleName then Inl (Err ''module account is not allowed to send funds'')
      else if bk_BlockedAddr B recipientAddr then Inl (Err ''not allowed to receive funds'')
      else pb_SendCoins E B senderAddr recipientAddr amt s)"

definition pb_SendCoinsFromModuleToModule ::
  "EvmCoinInfo \<Rightarrow> 'b bank \<Rightarrow> string \<Rightarrow> string \<Rightarrow> coins \<Rightarrow> 'b pbState \<Rightarrow> 'b pbState res" where
  "pb_SendCoinsFromModuleToModule E B senderModule recipientModule amt s =
     (let senderAddr = ak_GetModuleAddress B senderModule in
      if senderAddr = [] then Inl (Panic ''module account does not exist'')
      else case ak_GetModuleAccount B (pbank s) recipientModule of
        (None, b) \<Rightarrow> Inl (Panic ''module account does not exist'')
      | (Some acc, b) \<Rightarrow>
          if recipientModule = pb_ModuleName then Inl (Err ''module account is not allowed to receive funds'')
          else pb_SendCoins E B senderAddr (ma_Address acc) amt (s\<lparr>pbank := b\<rparr>))"

definition pb_IsSendEnabledCoin :: "EvmCoinInfo \<Rightarrow> 'b bank \<Rightarrow> 'b pbState \<Rightarrow> coin \<Rightarrow> bool" where
  "pb_IsSendEnabledCoin E B s c =
     (if fst c = ExtendedDenom E
      then bk_IsSendEnabledCoin B (pbank s) (Denom E, quo (snd c) (conversion E))
      else bk_IsSendEnabledCoin B (pbank s) c)"

fun pb_IsSendEnabledCoins :: "EvmCoinInfo \<Rightarrow> 'b bank \<Rightarrow> 'b pbState \<Rightarrow> coins \<Rightarrow> unit res" where
  "pb_IsSendEnabledCoins E B s [] = Inr ()"
| "pb_IsSendEnabledCoins E B s (c # cs) =
     (if \<not> pb_IsSendEnabledCoin E B s c then Inl (Err ''transfers are currently disabled'')
      else pb_IsSendEnabledCoins E B s cs)"

text \<open>The message handler \<open>Send\<close>; the gauge at its end is a metric.\<close>

definition pb_Send :: "EvmCoinInfo \<Rightarrow> 'b bank \<Rightarrow> string \<Rightarrow> string \<Rightarrow> coins \<Rightarrow> 'b pbState \<Rightarrow> 'b pbState res" where
  "pb_Send E B FromAddress ToAddress amount s =
     rbind (ak_StringToBytes B FromAddress) (\<lambda>from.
     rbind (ak_StringToBytes B ToAddress) (\<lambda>to.
     rbind (guard (coins_IsValid B amount) (Err ''invalid coins'')) (\<lambda>_.
     rbind (guard (coins_IsAllPositive B amount) (Err ''invalid coins'')) (\<lambda>_.
     rbind (pb_IsSendEnabledCoins E B s amount) (\<lambda>_.
     if bk_BlockedAddr B to then Inl (Err ''not allowed to receive funds'')
     else pb_SendCoins E B from to amount s)))))"

section \<open>Genesis\<close>

record FractionalBalance =
  fb_Address :: string
  fb_Amount :: int

record pb_GenesisState =
  gs_Balances :: "FractionalBalance list"
  gs_Remainder :: int

definition NewFractionalBalance :: "string \<Rightarrow> int \<Rightarrow> FractionalBalance" where
  "NewFractionalBalance a n = \<lparr>fb_Address = a, fb_Amount = n\<rparr>"

definition FractionalBalance_Validate :: "EvmCoinInfo \<Rightarrow> 'b bank \<Rightarrow> FractionalBalance \<Rightarrow> unit res" where
  "FractionalBalance_Validate E B fb =
     rbind (acc_FromBech32 B (fb_Address fb)) (\<lambda>_. ValidateFractionalAmount E (fb_Amount fb))"

text \<open>\<open>strings.ToLower\<close> on the characters of an address.\<close>

definition to_lower_char :: "char \<Rightarrow> char" where
  "to_lower_char c = (if 65 \<le> (of_char c :: nat) \<and> (of_char c :: nat) \<le> 90 then char_of (of_char c + 32 :: nat) else c)"

definition to_lower :: "string \<Rightarrow> string" where
  "to_lower = map to_lower_char"

fun validate_balances :: "EvmCoinInfo \<Rightarrow> 'b bank \<Rightarrow> string list \<Rightarrow> FractionalBalance list \<Rightarrow> unit res" where
  "validate_balances E B seen [] = Inr ()"
| "validate_balances E B seen (fb # fbs) =
     (case FractionalBalance_Validate E B fb of
        Inl _ \<Rightarrow> Inl (Err ''invalid fractional balance'')
      | Inr _ \<Rightarrow>
          if to_lower (fb_Address fb) \<in> set seen then Inl (Err ''duplicate address'')
          else validate_balances E B (to_lower (fb_Address fb) # seen) fbs)"

definition FractionalBalances_Validate :: "EvmCoinInfo \<Rightarrow> 'b bank \<Rightarrow> FractionalBalance list \<Rightarrow> unit res" where
  "FractionalBalances_Validate E B fbs = validate_balances E B [] fbs"

definition SumAmount :: "FractionalBalance list \<Rightarrow> int" where
  "SumAmount fbs = foldl (\<lambda>sum fb. sum + fb_Amount fb) 0 fbs"

definition pb_DefaultGenesisState :: pb_GenesisState where
  "pb_DefaultGenesisState = \<lparr>gs_Balances = [], gs_Remainder = 0\<rparr>"

definition pb_GenesisState_Validate :: "EvmCoinInfo \<Rightarrow> 'b bank \<Rightarrow> pb_GenesisState \<Rightarrow> unit res" where
  "pb_GenesisState_Validate E B gs =
     (case FractionalBalances_Validate E B (gs_Balances gs) of
        Inl _ \<Rightarrow> Inl (Err ''invalid balances'')
      | Inr _ \<Rightarrow>
          if gs_Remainder gs < 0 then Inl (Err ''negative remainder amount'')
          else if conversion E \<le> gs_Remainder gs then Inl (Err ''remainder exceeds max'')
          else let sum = SumAmount (gs_Balances gs);
                   sumWithRemainder = sum + gs_Remainder gs;
                   offBy = emod sumWithRemainder (conversion E)
               in if offBy \<noteq> 0
                  then Inl (Err ''sum of fractional balances + remainder is not a multiple of the conversion factor'')
                  else Inr ())"

definition TotalAmountWithRemainder :: "pb_GenesisState \<Rightarrow> int" where
  "TotalAmountWithRemainder gs = SumAmount (gs_Balances gs) + gs_Remainder gs"

text \<open>\<open>MustAccAddressFromBech32\<close> panics on an address that does not decode.\<close>

fun set_balances :: "EvmCoinInfo \<Rightarrow> 'b bank \<Rightarrow> FractionalBalance list \<Rightarrow> 'b pbState \<Rightarrow> 'b pbState res" where
  "set_balances E B [] s = Inr s"
| "set_balances E B (bal # bals) s =
     (case acc_FromBech32 B (fb_Address bal) of
        Inl _ \<Rightarrow> Inl (Panic ''invalid address'')
      | Inr addr \<Rightarrow> rbind (SetFractionalBalance E addr (fb_Amount bal) s) (set_balances E B bals))"

definition pb_InitGenesis :: "EvmCoinInfo \<Rightarrow> 'b bank \<Rightarrow> pb_GenesisState \<Rightarrow> 'b pbState \<Rightarrow> 'b pbState res" where
  "pb_InitGenesis E B gs s =
     (case pb_GenesisState_Validate E B gs of
        Inl _ \<Rightarrow> Inl (Panic ''failed to validate genesis state'')
      | Inr _ \<Rightarrow>
        (case ak_GetModuleAccount B (pbank s) pb_ModuleName of
           (None, b) \<Rightarrow> Inl (Panic ''module account has not been set'')
         | (Some _, b) \<Rightarrow>
             let s1 = s\<lparr>pbank := b\<rparr>;
                 totalAmt = TotalAmountWithRemainder gs;
                 moduleBal = bk_GetBalance B (pbank s1) (reserve B) (Denom E);
                 moduleBalExtended = moduleBal * conversion E
             in if totalAmt \<noteq> moduleBalExtended \<and> \<not> (gs_Balances gs = [] \<and> gs_Remainder gs = 0)
                then Inl (Panic ''module account balance does not match sum of fractional balances and remainder'')
                else rbind (set_balances E B (gs_Balances gs) s1) (\<lambda>s2.
                     SetRemainderAmount E (gs_Remainder gs) s2)))"

definition pb_ExportGenesis :: "'b bank \<Rightarrow> 'b pbState \<Rightarrow> pb_GenesisState" where
  "pb_ExportGenesis B s =
     \<lparr>gs_Balances = IterateFractionalBalances s
        (\<lambda>addr amount balances. (balances @ [NewFractionalBalance (acc_String B addr) amount], False)) [],
      gs_Remainder = GetRemainderAmount s\<rparr>"

section \<open>Queries\<close>

definition query_Remainder :: "EvmCoinInfo \<Rightarrow> 'b pbState \<Rightarrow> coin" where
  "query_Remainder E s = (ExtendedDenom E, GetRemainderAmount s)"

definition query_FractionalBalance :: "EvmCoinInfo \<Rightarrow> 'b bank \<Rightarrow> 'b pbState \<Rightarrow> string \<Rightarrow> coin res" where
  "query_FractionalBalance E B s address =
     rbind (acc_FromBech32 B address) (\<lambda>addr. Inr (ExtendedDenom E, GetFractionalBalance s addr))"

end
