(* ===== verification/PreciseBankBooks.thy ===== *)
theory PreciseBankBooks
  imports PreciseBank
begin

text \<open>
  \<open>x/precisebank\<close> keeps its books: under the contract of \<open>x/bank\<close> every operation preserves
  the backing of the fractional balances and changes the extended balances exactly by
  the amounts it was asked to move.
\<close>

section \<open>The contract of the bank\<close>

text \<open>The balances (all, and those that can be spent) moved by \<open>d\<close>, the supply by \<open>n\<close>.\<close>

definition moved :: "'b bank \<Rightarrow> 'b \<Rightarrow> 'b \<Rightarrow> (AccAddress \<Rightarrow> denom \<Rightarrow> int) \<Rightarrow> (denom \<Rightarrow> int) \<Rightarrow> bool" where
  "moved B b b' d n \<longleftrightarrow>
     (\<forall>a x. bk_GetBalance B b' a x = bk_GetBalance B b a x + d a x) \<and>
     (\<forall>a x. bk_SpendableCoin B b' a x = bk_SpendableCoin B b a x + d a x) \<and>
     (\<forall>x. bk_GetSupply B b' x = bk_GetSupply B b x + n x)"

lemma moved_trans: "moved B b b1 d n \<Longrightarrow> moved B b1 b2 e m \<Longrightarrow> moved B b b2 (\<lambda>a x. d a x + e a x) (\<lambda>x. n x + m x)"
  by (simp add: moved_def)

lemma moved_refl: "moved B b b (\<lambda>_ _. 0) (\<lambda>_. 0)"
  by (simp add: moved_def)

definition transfer :: "AccAddress \<Rightarrow> AccAddress \<Rightarrow> (denom \<Rightarrow> int) \<Rightarrow> AccAddress \<Rightarrow> denom \<Rightarrow> int" where
  "transfer f t n = (\<lambda>a x. (if a = t then n x else 0) - (if a = f then n x else 0))"

definition credit :: "AccAddress \<Rightarrow> (denom \<Rightarrow> int) \<Rightarrow> AccAddress \<Rightarrow> denom \<Rightarrow> int" where
  "credit t n = (\<lambda>a x. if a = t then n x else 0)"

locale bank_contract =
  fixes E :: EvmCoinInfo and B :: "'b bank" and binv :: "'b \<Rightarrow> bool"
  assumes conversion_pos: "0 < conversion E"
    and reserve_address: "reserve B \<noteq> []"
    and reserve_name: "ak_GetModuleAddress B m = reserve B \<Longrightarrow> m = pb_ModuleName"
    and reserve_spendable: "binv b \<Longrightarrow> bk_SpendableCoin B b (reserve B) x = bk_GetBalance B b (reserve B) x"
    and spendable_bounds: "binv b \<Longrightarrow> 0 \<le> bk_SpendableCoin B b a x \<and> bk_SpendableCoin B b a x \<le> bk_GetBalance B b a x"
    and AmountOf_New: "0 < n \<Longrightarrow> coins_AmountOf B (coins_New B [(Denom E, n)]) x = (if x = Denom E then n else 0)"
    and AmountOf_Nil: "coins_AmountOf B [] x = 0"
    and AmountOf_nonneg: "coins_IsValid B cs \<Longrightarrow> 0 \<le> coins_AmountOf B cs x"
    and AmountOf_Sub: "coins_IsValid B cs \<Longrightarrow> 0 < n \<Longrightarrow> n \<le> coins_AmountOf B cs y \<Longrightarrow>
      coins_AmountOf B (coins_Sub B cs (y, n)) x = coins_AmountOf B cs x - (if x = y then n else 0)"
    and Sub_valid: "coins_IsValid B cs \<Longrightarrow> 0 < n \<Longrightarrow> n \<le> coins_AmountOf B cs y \<Longrightarrow> coins_IsValid B (coins_Sub B cs (y, n))"
    and valid_positive: "coins_IsValid B cs \<Longrightarrow> cs \<noteq> [] \<Longrightarrow> coins_IsAllPositive B cs"
    and SendCoins_moves: "binv b \<Longrightarrow> bk_SendCoins B b f t cs = Inr b' \<Longrightarrow>
      binv b' \<and> moved B b b' (transfer f t (coins_AmountOf B cs)) (\<lambda>_. 0)"
    and SendCoins_enough: "binv b \<Longrightarrow> 0 < n \<Longrightarrow> n \<le> bk_SpendableCoin B b f (Denom E) \<Longrightarrow>
      \<exists>b'. bk_SendCoins B b f t (coins_New B [(Denom E, n)]) = Inr b'"
    and SendCoins_short: "binv b \<Longrightarrow> 0 < n \<Longrightarrow> bk_SpendableCoin B b f (Denom E) < n \<Longrightarrow>
      bk_SendCoins B b f t (coins_New B [(Denom E, n)]) = Inl (ErrInsufficientFunds None)"
    and AccountToModule: "binv b \<Longrightarrow> ak_GetModuleAddress B m \<noteq> [] \<Longrightarrow>
      bk_SendCoinsFromAccountToModule B b a m cs = bk_SendCoins B b a (ak_GetModuleAddress B m) cs"
    and ModuleToModule: "binv b \<Longrightarrow> ak_GetModuleAddress B m \<noteq> [] \<Longrightarrow> ak_GetModuleAddress B m' \<noteq> [] \<Longrightarrow>
      bk_SendCoinsFromModuleToModule B b m m' cs = bk_SendCoins B b (ak_GetModuleAddress B m) (ak_GetModuleAddress B m') cs"
    and MintCoins_moves: "binv b \<Longrightarrow> bk_MintCoins B b m cs = Inr b' \<Longrightarrow>
      binv b' \<and> moved B b b' (credit (ak_GetModuleAddress B m) (coins_AmountOf B cs)) (coins_AmountOf B cs)"
    and BurnCoins_moves: "binv b \<Longrightarrow> bk_BurnCoins B b m cs = Inr b' \<Longrightarrow>
      binv b' \<and> moved B b b' (credit (ak_GetModuleAddress B m) (\<lambda>x. - coins_AmountOf B cs x)) (\<lambda>x. - coins_AmountOf B cs x)"
    and GetModuleAccount_keeps: "binv b \<Longrightarrow> ak_GetModuleAccount B b m = (r, b') \<Longrightarrow>
      binv b' \<and> moved B b b' (\<lambda>_ _. 0) (\<lambda>_. 0) \<and>
      (\<forall>acc. r = Some acc \<longrightarrow> ma_Address acc = ak_GetModuleAddress B m \<and> ma_Address acc \<noteq> [])"
begin

end

section \<open>The books\<close>

text \<open>What a list of coins is worth in the extended denomination.\<close>

definition ext_value :: "EvmCoinInfo \<Rightarrow> 'b bank \<Rightarrow> coins \<Rightarrow> int" where
  "ext_value E B cs =
     (if Denom E = ExtendedDenom E then coins_AmountOf B cs (ExtendedDenom E) else snd (SumExtendedCoin E B cs))"

text \<open>The amounts of the denominations that the bank moves itself.\<close>

definition plain_amount :: "EvmCoinInfo \<Rightarrow> 'b bank \<Rightarrow> coins \<Rightarrow> denom \<Rightarrow> int" where
  "plain_amount E B cs x = (if x = ExtendedDenom E then 0 else coins_AmountOf B cs x)"

text \<open>
  The invariant: fractional balances are positive and below the conversion factor, so is
  the remainder, the reserve has no fractional balance, and its integer coins are worth
  exactly the sum of the fractional balances and the remainder.
\<close>

definition pb_inv :: "EvmCoinInfo \<Rightarrow> 'b bank \<Rightarrow> ('b \<Rightarrow> bool) \<Rightarrow> 'b pbState \<Rightarrow> bool" where
  "pb_inv E B binv s \<longleftrightarrow>
     binv (pbank s) \<and> kv_ok (fractional s) \<and>
     (\<forall>a v. kv_get (fractional s) a = Some v \<longrightarrow> 0 < v \<and> v < conversion E) \<and>
     kv_get (fractional s) (reserve B) = None \<and>
     0 \<le> GetRemainderAmount s \<and> GetRemainderAmount s < conversion E \<and>
     bk_GetBalance B (pbank s) (reserve B) (Denom E) * conversion E =
       kv_sum (fractional s) + GetRemainderAmount s"

text \<open>
  The extended balances (all, and those that can be spent) changed by \<open>d\<close>, the balances in
  other denominations by \<open>e\<close>, and the extended supply, which is the supply of integer coins
  less the remainder, by \<open>n\<close>.
\<close>

definition ext_moved :: "EvmCoinInfo \<Rightarrow> 'b bank \<Rightarrow> 'b pbState \<Rightarrow> 'b pbState \<Rightarrow>
    (AccAddress \<Rightarrow> int) \<Rightarrow> (AccAddress \<Rightarrow> denom \<Rightarrow> int) \<Rightarrow> int \<Rightarrow> bool" where
  "ext_moved E B s s' d e n \<longleftrightarrow>
     (\<forall>a. a \<noteq> reserve B \<longrightarrow>
        pb_GetBalance E B s' a (ExtendedDenom E) = pb_GetBalance E B s a (ExtendedDenom E) + d a) \<and>
     (\<forall>a. a \<noteq> reserve B \<longrightarrow>
        pb_SpendableCoin E B s' a (ExtendedDenom E) = pb_SpendableCoin E B s a (ExtendedDenom E) + d a) \<and>
     (\<forall>a x. x \<noteq> Denom E \<longrightarrow> bk_GetBalance B (pbank s') a x = bk_GetBalance B (pbank s) a x + e a x) \<and>
     bk_GetSupply B (pbank s') (Denom E) * conversion E - GetRemainderAmount s' =
       bk_GetSupply B (pbank s) (Denom E) * conversion E - GetRemainderAmount s + n"

definition frac_put :: "AccAddress \<Rightarrow> int \<Rightarrow> (AccAddress, int) kv \<Rightarrow> (AccAddress, int) kv" where
  "frac_put a v f = (if v = 0 then kv_delete a f else kv_set a v f)"

lemma SetFractionalBalance_eq:
  assumes "a \<noteq> []" "0 \<le> v" "v < conversion E"
  shows "SetFractionalBalance E a v s = Inr (s\<lparr>fractional := frac_put a v (fractional s)\<rparr>)"
  using assms
  by (simp add: SetFractionalBalance_def frac_put_def DeleteFractionalBalance_def ValidateFractionalAmount_def)

lemma SetRemainderAmount_eq:
  assumes "0 \<le> v" "v < conversion E"
  shows "SetRemainderAmount E v s = Inr (s\<lparr>remainder := (if v = 0 then None else Some v)\<rparr>)"
  using assms
  by (simp add: SetRemainderAmount_def DeleteRemainderAmount_def ValidateFractionalAmount_def)

lemma GetFractionalBalance_int: "GetFractionalBalance s a = kv_int (fractional s) a"
  by (simp add: GetFractionalBalance_def kv_int_def)

lemma frac_put_simps [simp]:
  "kv_ok f \<Longrightarrow> kv_ok (frac_put a v f)"
  "kv_int (frac_put a v f) = (kv_int f)(a := v)"
  "kv_ok f \<Longrightarrow> kv_sum (frac_put a v f) = kv_sum f - kv_int f a + v"
  "kv_get (frac_put a v f) = (kv_get f)(a := if v = 0 then None else Some v)"
  by (auto simp: frac_put_def kv_simps kv_sum_set kv_sum_delete fun_eq_iff)

lemma remainder_put [simp]:
  "GetRemainderAmount (s\<lparr>remainder := (if v = 0 then None else Some v)\<rparr>) = v"
  by (simp add: GetRemainderAmount_def)

lemma state_simps [simp]:
  "GetRemainderAmount (s\<lparr>pbank := b\<rparr>) = GetRemainderAmount s"
  "GetRemainderAmount (s\<lparr>fractional := f\<rparr>) = GetRemainderAmount s"
  "GetRemainderAmount (EmitEventFractionalBalanceChange a x y s) = GetRemainderAmount s"
  "pbank (EmitEventFractionalBalanceChange a x y s) = pbank s"
  "fractional (EmitEventFractionalBalanceChange a x y s) = fractional s"
  by (simp_all add: GetRemainderAmount_def EmitEventFractionalBalanceChange_def)

lemma pb_inv_frac:
  assumes "pb_inv E B binv s" "0 < conversion E"
  shows "0 \<le> kv_int (fractional s) a" "kv_int (fractional s) a < conversion E"
  using assms by (force simp: pb_inv_def kv_int_def split: option.split)+

lemma on_bank_Inr: "on_bank f s = Inr s' \<longleftrightarrow> (\<exists>b. f (pbank s) = Inr b \<and> s' = s\<lparr>pbank := b\<rparr>)"
  by (auto simp: on_bank_def rbind_eq_Inr)

lemma on_bank_upd_Inr: "on_bank_upd E B a amt f s = Inr s' \<longleftrightarrow> on_bank f s = Inr s'"
  by (simp add: on_bank_upd_def split: sum.split)

lemma optional_panic:
  "(if c then (case on_bank f s of Inl _ \<Rightarrow> Inl e | Inr t \<Rightarrow> Inr t) else Inr s) = Inr s' \<longleftrightarrow>
   (if c then on_bank f s else Inr s) = Inr s'"
  by (simp split: sum.split)

lemma optional_upd:
  "(if c then on_bank_upd E B a amt f s else Inr s) = Inr s' \<longleftrightarrow> (if c then on_bank f s else Inr s) = Inr s'"
  by (simp add: on_bank_upd_Inr)

lemma books_step:
  assumes inv: "pb_inv E B binv s"
    and bank: "binv (pbank s')" "moved B (pbank s) (pbank s') d n" "\<And>a x. x \<noteq> Denom E \<Longrightarrow> d a x = 0"
    and frac: "kv_ok (fractional s')" "\<And>a v. kv_get (fractional s') a = Some v \<Longrightarrow> 0 < v \<and> v < conversion E"
      "kv_get (fractional s') (reserve B) = None"
    and rem: "0 \<le> GetRemainderAmount s'" "GetRemainderAmount s' < conversion E"
    and backing: "d (reserve B) (Denom E) * conversion E =
      kv_sum (fractional s') - kv_sum (fractional s) + (GetRemainderAmount s' - GetRemainderAmount s)"
    and ext: "\<And>a. a \<noteq> reserve B \<Longrightarrow>
      d a (Denom E) * conversion E + (kv_int (fractional s') a - kv_int (fractional s) a) = e a"
    and total: "n (Denom E) * conversion E - (GetRemainderAmount s' - GetRemainderAmount s) = m"
  shows "pb_inv E B binv s' \<and> ext_moved E B s s' e (\<lambda>_ _. 0) m"
proof
  show "pb_inv E B binv s'"
    using inv bank(1,2) frac rem backing by (simp add: pb_inv_def moved_def algebra_simps)
  show "ext_moved E B s s' e (\<lambda>_ _. 0) m"
    using bank(2,3) ext total
    by (simp add: ext_moved_def moved_def pb_GetBalance_def pb_SpendableCoin_def GetFractionalBalance_int algebra_simps)
qed

definition at_denom :: "EvmCoinInfo \<Rightarrow> int \<Rightarrow> denom \<Rightarrow> int" where
  "at_denom E n = (\<lambda>x. if x = Denom E then n else 0)"

lemmas amount_simps = transfer_def credit_def at_denom_def

text \<open>One account and the reserve change.\<close>

lemma books_account:
  assumes inv: "pb_inv E B binv s"
    and bank: "binv (pbank s')" "moved B (pbank s) (pbank s') d n"
      "\<And>x y. d x y = at_denom E ((if x = a then da else 0) + (if x = reserve B then dr else 0)) y" "n (Denom E) = dn"
    and new: "fractional s' = frac_put a f' (fractional s)" "GetRemainderAmount s' = r'" "a \<noteq> reserve B"
    and rng: "0 \<le> f'" "f' < conversion E" "0 \<le> r'" "r' < conversion E"
    and old: "GetFractionalBalance s a = f" "GetRemainderAmount s = r"
    and num: "dr * conversion E = f' - f + (r' - r)" "da * conversion E + (f' - f) = e"
      "dn * conversion E - (r' - r) = m"
  shows "pb_inv E B binv s' \<and> ext_moved E B s s' (\<lambda>x. if x = a then e else 0) (\<lambda>_ _. 0) m"
proof (rule books_step [OF inv bank(1,2)])
  have f: "kv_int (fractional s) a = f" "kv_ok (fractional s)"
    using inv old by (simp_all add: pb_inv_def GetFractionalBalance_int)
  show "kv_ok (fractional s')" "kv_get (fractional s') (reserve B) = None"
    using inv new(3) by (auto simp: new(1) pb_inv_def)
  show "0 < v \<and> v < conversion E" if "kv_get (fractional s') x = Some v" for x v
    using that inv rng by (auto simp: new(1) pb_inv_def split: if_splits)
  show "d (reserve B) (Denom E) * conversion E =
      kv_sum (fractional s') - kv_sum (fractional s) + (GetRemainderAmount s' - GetRemainderAmount s)"
    using new(3) [symmetric] num(1) f by (simp add: bank(3) at_denom_def new(1,2) old)
  show "d x (Denom E) * conversion E + (kv_int (fractional s') x - kv_int (fractional s) x) = (if x = a then e else 0)"
    if "x \<noteq> reserve B" for x
    using that num(2) f by (simp add: bank(3) at_denom_def new)
qed (use rng num(3) bank(3,4) in \<open>simp_all add: new old at_denom_def\<close>)

text \<open>Two accounts and the reserve change.\<close>

lemma books_pair:
  assumes inv: "pb_inv E B binv s"
    and bank: "binv (pbank s')" "moved B (pbank s) (pbank s') d n"
      "\<And>x y. d x y = at_denom E ((if x = a then da else 0) + (if x = b then db else 0) + (if x = reserve B then dr else 0)) y"
      "n (Denom E) = 0"
    and new: "fractional s' = frac_put b h' (frac_put a f' (fractional s))" "remainder s' = remainder s"
      "a \<noteq> reserve B" "b \<noteq> reserve B" "a \<noteq> b"
    and rng: "0 \<le> f'" "f' < conversion E" "0 \<le> h'" "h' < conversion E"
    and old: "GetFractionalBalance s a = f" "GetFractionalBalance s b = h"
    and num: "dr * conversion E = f' - f + (h' - h)" "da * conversion E + (f' - f) = e" "db * conversion E + (h' - h) = k"
  shows "pb_inv E B binv s' \<and> ext_moved E B s s' (\<lambda>x. if x = a then e else if x = b then k else 0) (\<lambda>_ _. 0) 0"
proof (rule books_step [OF inv bank(1,2)])
  have f: "kv_int (fractional s) a = f" "kv_int (fractional s) b = h" "kv_ok (fractional s)"
    using inv old by (simp_all add: pb_inv_def GetFractionalBalance_int)
  have r: "GetRemainderAmount s' = GetRemainderAmount s" by (simp add: GetRemainderAmount_def new(2))
  show "kv_ok (fractional s')" "kv_get (fractional s') (reserve B) = None"
    using inv new(3,4) by (auto simp: new(1) pb_inv_def)
  show "0 < v \<and> v < conversion E" if "kv_get (fractional s') x = Some v" for x v
    using that inv rng by (auto simp: new(1) pb_inv_def split: if_splits)
  show "d (reserve B) (Denom E) * conversion E =
      kv_sum (fractional s') - kv_sum (fractional s) + (GetRemainderAmount s' - GetRemainderAmount s)"
    using new(3-5) [symmetric] num(1) f by (simp add: bank(3) at_denom_def new(1) r)
  show "d x (Denom E) * conversion E + (kv_int (fractional s') x - kv_int (fractional s) x) =
      (if x = a then e else if x = b then k else 0)" if "x \<noteq> reserve B" for x
    using that num(2,3) f new(5) by (simp add: bank(3) at_denom_def new(1))
  show "0 \<le> GetRemainderAmount s'" "GetRemainderAmount s' < conversion E"
    "n (Denom E) * conversion E - (GetRemainderAmount s' - GetRemainderAmount s) = 0"
    using inv bank(4) by (simp_all add: r pb_inv_def)
qed (simp add: bank(3) at_denom_def)

text \<open>Numbers with an integer and a fractional part are ordered lexicographically.\<close>

lemma parts_le:
  fixes c :: int
  assumes "0 \<le> x" "x < c" "0 \<le> y" "y < c"
  shows "i * c + x \<le> j * c + y \<longleftrightarrow> i < j \<or> i = j \<and> x \<le> y"
proof (cases i j rule: linorder_cases)
  case less
  then have "(i + 1) * c \<le> j * c" using assms by (intro mult_right_mono) auto
  with less assms show ?thesis by (simp add: algebra_simps)
next
  case greater
  then have "(j + 1) * c \<le> i * c" using assms by (intro mult_right_mono) auto
  with greater assms show ?thesis by (simp add: algebra_simps)
qed simp

lemma kv_sum_nonneg:
  fixes s :: "('k::linorder, int) kv"
  assumes "kv_ok s" "\<And>k v. kv_get s k = Some v \<Longrightarrow> 0 \<le> v"
  shows "0 \<le> kv_sum s"
  unfolding kv_sum_def using assms by (intro sum_list_nonneg) (auto simp: kv_get_in)

lemma kv_sum_two:
  fixes s :: "('k::linorder, int) kv"
  assumes ok: "kv_ok s" and nn: "\<And>k v. kv_get s k = Some v \<Longrightarrow> 0 \<le> v" and "a \<noteq> b"
  shows "kv_int s a + kv_int s b \<le> kv_sum s"
proof -
  have "0 \<le> kv_sum (kv_delete b (kv_delete a s))"
    using ok nn by (intro kv_sum_nonneg) (auto simp: kv_simps split: if_splits)
  with ok \<open>a \<noteq> b\<close> show ?thesis by (simp add: kv_sum_delete kv_simps)
qed

text \<open>A bank call that is made only under a condition.\<close>

lemma optional_call:
  assumes "(if c then on_bank f s else Inr s) = Inr s'" "binv (pbank s)"
    and "\<And>b. c \<Longrightarrow> f (pbank s) = Inr b \<Longrightarrow> binv b \<and> moved B (pbank s) b d n"
  shows "\<exists>b. s' = s\<lparr>pbank := b\<rparr> \<and> binv b \<and>
    moved B (pbank s) b (\<lambda>a x. if c then d a x else 0) (\<lambda>x. if c then n x else 0)"
proof (cases c)
  case True
  with assms show ?thesis by (auto simp: on_bank_Inr)
next
  case False
  with assms show ?thesis by (intro exI [of _ "pbank s"]) (simp add: moved_refl)
qed

context bank_contract
begin

lemma AmountOf_one: "0 < n \<Longrightarrow> coins_AmountOf B (coins_New B [(Denom E, n)]) = at_denom E n"
  by (auto simp: AmountOf_New at_denom_def)

lemma send_one:
  "binv b \<Longrightarrow> 0 < n \<Longrightarrow> bk_SendCoins B b f t (coins_New B [(Denom E, n)]) = Inr b' \<Longrightarrow>
     binv b' \<and> moved B b b' (transfer f t (at_denom E n)) (\<lambda>_. 0)"
  using SendCoins_moves AmountOf_one by metis

lemma mint_one:
  "binv b \<Longrightarrow> 0 < n \<Longrightarrow> bk_MintCoins B b m (coins_New B [(Denom E, n)]) = Inr b' \<Longrightarrow>
     binv b' \<and> moved B b b' (credit (ak_GetModuleAddress B m) (at_denom E n)) (at_denom E n)"
  using MintCoins_moves AmountOf_one by metis

lemma burn_one:
  assumes "binv b" "0 < n" "bk_BurnCoins B b m (coins_New B [(Denom E, n)]) = Inr b'"
  shows "binv b' \<and> moved B b b' (credit (ak_GetModuleAddress B m) (at_denom E (- n))) (at_denom E (- n))"
proof -
  have "(\<lambda>x. - at_denom E n x) = at_denom E (- n)" by (auto simp: at_denom_def)
  then show ?thesis using BurnCoins_moves [OF assms(1,3)] AmountOf_one [OF assms(2)] by simp
qed

lemma module_send_one:
  "binv b \<Longrightarrow> 0 < n \<Longrightarrow> ak_GetModuleAddress B m \<noteq> [] \<Longrightarrow> ak_GetModuleAddress B m' \<noteq> [] \<Longrightarrow>
     bk_SendCoinsFromModuleToModule B b m m' (coins_New B [(Denom E, n)]) = Inr b' \<Longrightarrow>
     binv b' \<and> moved B b b' (transfer (ak_GetModuleAddress B m) (ak_GetModuleAddress B m') (at_denom E n)) (\<lambda>_. 0)"
  using send_one by (simp add: ModuleToModule)

text \<open>The bank calls of the operations below are each made under a condition.\<close>

lemma opt_send:
  assumes "(if c then on_bank (\<lambda>b. bk_SendCoins B b f t (coins_New B [(Denom E, n)])) s else Inr s) = Inr s'"
    and "binv (pbank s)" "c \<Longrightarrow> 0 < n"
  shows "\<exists>b. s' = s\<lparr>pbank := b\<rparr> \<and> binv b \<and>
    moved B (pbank s) b (\<lambda>a x. if c then transfer f t (at_denom E n) a x else 0) (\<lambda>x. if c then 0 else 0)"
  using assms(1,2)
proof (rule optional_call, goal_cases)
  case (1 b)
  then show ?case using send_one assms(2-) by simp
qed

lemma opt_module_send:
  assumes "(if c then on_bank (\<lambda>b. bk_SendCoinsFromModuleToModule B b m m' (coins_New B [(Denom E, n)])) s else Inr s) = Inr s'"
    and "binv (pbank s)" "c \<Longrightarrow> 0 < n" "ak_GetModuleAddress B m \<noteq> []" "ak_GetModuleAddress B m' \<noteq> []"
  shows "\<exists>b. s' = s\<lparr>pbank := b\<rparr> \<and> binv b \<and>
    moved B (pbank s) b (\<lambda>a x. if c then transfer (ak_GetModuleAddress B m) (ak_GetModuleAddress B m') (at_denom E n) a x else 0)
      (\<lambda>x. if c then 0 else 0)"
  using assms(1,2)
proof (rule optional_call, goal_cases)
  case (1 b)
  then show ?case using module_send_one assms(2-) by simp
qed

lemma opt_mint:
  assumes "(if c then on_bank (\<lambda>b. bk_MintCoins B b m (coins_New B [(Denom E, n)])) s else Inr s) = Inr s'"
    and "binv (pbank s)" "c \<Longrightarrow> 0 < n"
  shows "\<exists>b. s' = s\<lparr>pbank := b\<rparr> \<and> binv b \<and>
    moved B (pbank s) b (\<lambda>a x. if c then credit (ak_GetModuleAddress B m) (at_denom E n) a x else 0)
      (\<lambda>x. if c then at_denom E n x else 0)"
  using assms(1,2)
proof (rule optional_call, goal_cases)
  case (1 b)
  then show ?case using mint_one assms(2-) by simp
qed

lemma opt_burn:
  assumes "(if c then on_bank (\<lambda>b. bk_BurnCoins B b m (coins_New B [(Denom E, n)])) s else Inr s) = Inr s'"
    and "binv (pbank s)" "c \<Longrightarrow> 0 < n"
  shows "\<exists>b. s' = s\<lparr>pbank := b\<rparr> \<and> binv b \<and>
    moved B (pbank s) b (\<lambda>a x. if c then credit (ak_GetModuleAddress B m) (at_denom E (- n)) a x else 0)
      (\<lambda>x. if c then at_denom E (- n) x else 0)"
  using assms(1,2)
proof (rule optional_call, goal_cases)
  case (1 b)
  then show ?case using burn_one assms(2-) by simp
qed

text \<open>The effects of a mint, with its numbers worked out.\<close>

lemma mintExtendedCoin_eq:
  assumes "m \<noteq> pb_ModuleName" "a = ak_GetModuleAddress B m" "cf = conversion E"
    and "f = GetFractionalBalance s a" "g = emod amt cf" "i = quo amt cf" "r = GetRemainderAmount s"
    and "f' = (if cf \<le> f + g then f + g - cf else f + g)" "r' = (if r < g then r - g + cf else r - g)"
    and "i' = (if cf \<le> f + g \<and> r < g then i + 1 else i)"
  shows "mintExtendedCoin E B m amt s =
    rbind (if cf \<le> f + g \<and> g \<le> r then on_bank (\<lambda>b. bk_SendCoinsFromModuleToModule B b pb_ModuleName m
        (coins_New B [(Denom E, 1)])) s else Inr s) (\<lambda>s1.
    rbind (if 0 < i' then on_bank (\<lambda>b. bk_MintCoins B b m (coins_New B [(Denom E, i')])) s1 else Inr s1) (\<lambda>s2.
    rbind (SetFractionalBalance E a f' s2) (\<lambda>s3.
    rbind (if r < g \<and> \<not> cf \<le> f + g
      then on_bank (\<lambda>b. bk_MintCoins B b pb_ModuleName (coins_New B [(Denom E, 1)])) s3 else Inr s3) (\<lambda>s4.
    rbind (SetRemainderAmount E r' s4) (\<lambda>s5.
    Inr (EmitEventFractionalBalanceChange a f f' s5))))))"
  unfolding mintExtendedCoin_def Let_def assms(2-)
  by (simp only: assms(1) if_False diff_ge_0_iff_ge diff_less_0_iff_less)

lemma mintExtendedCoin_spec:
  assumes inv: "pb_inv E B binv s" and m: "m \<noteq> pb_ModuleName" "ak_GetModuleAddress B m \<noteq> []" and amt: "0 \<le> amt"
    and mint: "mintExtendedCoin E B m amt s = Inr s'"
  shows "pb_inv E B binv s' \<and> ext_moved E B s s' (\<lambda>a. if a = ak_GetModuleAddress B m then amt else 0) (\<lambda>_ _. 0) amt"
proof -
  define a where "a = ak_GetModuleAddress B m"
  define cf where "cf = conversion E"
  define f where "f = GetFractionalBalance s a"
  define g where "g = emod amt cf"
  define i where "i = quo amt cf"
  define r where "r = GetRemainderAmount s"
  define f' where "f' = (if cf \<le> f + g then f + g - cf else f + g)"
  define r' where "r' = (if r < g then r - g + cf else r - g)"
  define i' where "i' = (if cf \<le> f + g \<and> r < g then i + 1 else i)"
  have split: "i * cf + g = amt" "0 \<le> g" "g < cf" "0 \<le> i" "0 < cf"
    using amt conversion_pos quo_emod emod_bounds quo_nonneg by (auto simp: i_def g_def cf_def)
  have fr: "0 \<le> f" "f < cf" "0 \<le> r" "r < cf"
    using pb_inv_frac [OF inv conversion_pos] inv by (auto simp: f_def r_def cf_def pb_inv_def GetFractionalBalance_int)
  have a: "a \<noteq> reserve B" "a \<noteq> []" using reserve_name m by (auto simp: a_def)
  have rng: "0 \<le> f'" "f' < cf" "0 \<le> r'" "r' < cf" "0 \<le> i'"
    using split fr by (auto simp: f'_def r'_def i'_def)
  have binv: "binv (pbank s)" using inv by (simp add: pb_inv_def)
  from mint [unfolded mintExtendedCoin_eq [OF m(1) a_def cf_def f_def g_def i_def r_def f'_def r'_def i'_def]]
  obtain s1 s2 s4 where
    1: "(if cf \<le> f + g \<and> g \<le> r then on_bank (\<lambda>b. bk_SendCoinsFromModuleToModule B b pb_ModuleName m
        (coins_New B [(Denom E, 1)])) s else Inr s) = Inr s1" and
    2: "(if 0 < i' then on_bank (\<lambda>b. bk_MintCoins B b m (coins_New B [(Denom E, i')])) s1 else Inr s1) = Inr s2" and
    4: "(if r < g \<and> \<not> cf \<le> f + g then on_bank (\<lambda>b. bk_MintCoins B b pb_ModuleName (coins_New B [(Denom E, 1)]))
        (s2\<lparr>fractional := frac_put a f' (fractional s2)\<rparr>)
      else Inr (s2\<lparr>fractional := frac_put a f' (fractional s2)\<rparr>)) = Inr s4" and
    s': "s' = EmitEventFractionalBalanceChange a f f' (s4\<lparr>remainder := (if r' = 0 then None else Some r')\<rparr>)"
    unfolding rbind_eq_Inr SetFractionalBalance_eq [OF a(2) rng(1,2) [unfolded cf_def]]
      SetRemainderAmount_eq [OF rng(3,4) [unfolded cf_def]] by blast
  note b1 = opt_module_send [OF 1 binv _ reserve_address m(2), folded a_def, simplified]
  then obtain b1 where b1: "s1 = s\<lparr>pbank := b1\<rparr>" "binv b1" "moved B (pbank s) b1
      (\<lambda>x y. if cf \<le> f + g \<and> g \<le> r then transfer (reserve B) a (at_denom E 1) x y else 0) (\<lambda>_. 0)" by blast
  obtain b2 where b2: "s2 = s1\<lparr>pbank := b2\<rparr>" "binv b2" "moved B b1 b2
      (\<lambda>x y. if 0 < i' then credit a (at_denom E i') x y else 0) (\<lambda>y. if 0 < i' then at_denom E i' y else 0)"
    using opt_mint [OF 2, folded a_def] b1(1,2) by auto
  obtain b4 where b4: "s4 = s2\<lparr>fractional := frac_put a f' (fractional s2), pbank := b4\<rparr>" "binv b4" "moved B b2 b4
      (\<lambda>x y. if r < g \<and> \<not> cf \<le> f + g then credit (reserve B) (at_denom E 1) x y else 0)
      (\<lambda>y. if r < g \<and> \<not> cf \<le> f + g then at_denom E 1 y else 0)"
    using opt_mint [OF 4] b2 by auto
  have new: "fractional s' = frac_put a f' (fractional s)" "GetRemainderAmount s' = r'" "pbank s' = b4"
    by (simp_all add: s' b1(1) b2(1) b4(1))
  note all = moved_trans [OF moved_trans [OF b1(3) b2(3)] b4(3), folded new(3)]
  show ?thesis unfolding a_def [symmetric]
  proof (rule books_account [OF inv _ all _ _ new(1,2) a(1) rng(1-4) [unfolded cf_def] f_def [symmetric] r_def [symmetric]])
    fix x y
    let ?carry = "if cf \<le> f + g \<and> g \<le> r then 1 else 0"
    show "(if cf \<le> f + g \<and> g \<le> r then transfer (reserve B) a (at_denom E 1) x y else 0) +
        (if 0 < i' then credit a (at_denom E i') x y else 0) +
        (if r < g \<and> \<not> cf \<le> f + g then credit (reserve B) (at_denom E 1) x y else 0) =
      at_denom E ((if x = a then ?carry + i' else 0) +
        (if x = reserve B then (if r < g \<and> \<not> cf \<le> f + g then 1 else 0) - ?carry else 0)) y"
      using a(1) rng(5) by (auto simp: amount_simps)
  qed (use b4(2) split rng(5) in \<open>auto simp: new f'_def r'_def i'_def at_denom_def algebra_simps cf_def\<close>)
qed

text \<open>The effects of a burn.\<close>

lemma burnExtendedCoin_eq:
  assumes "m \<noteq> pb_ModuleName" "a = ak_GetModuleAddress B m" "cf = conversion E"
    and "f = GetFractionalBalance s a" "r = GetRemainderAmount s" "i = quo amt cf" "g = emod amt cf"
    and "f' = (if f < g then f - g + cf else f - g)"
    and "r' = (if \<not> f < g \<and> cf \<le> r + g then (if f < g \<and> cf \<le> r + g then r + g - cf else r + g) - cf
       else if f < g \<and> cf \<le> r + g then r + g - cf else r + g)"
    and "i' = (if f < g \<and> cf \<le> r + g then i + 1 else i)"
  shows "burnExtendedCoin E B m amt s =
    rbind (if f < g \<and> \<not> cf \<le> r + g then on_bank_upd E B a amt (\<lambda>b. bk_SendCoinsFromModuleToModule B b m pb_ModuleName
        (coins_New B [(Denom E, 1)])) s else Inr s) (\<lambda>s1.
    rbind (if \<not> f < g \<and> cf \<le> r + g
      then on_bank (\<lambda>b. bk_BurnCoins B b pb_ModuleName (coins_New B [(Denom E, 1)])) s1 else Inr s1) (\<lambda>s2.
    rbind (if i' \<noteq> 0 then on_bank_upd E B a amt (\<lambda>b. bk_BurnCoins B b m (coins_New B [(Denom E, i')])) s2
      else Inr s2) (\<lambda>s3.
    rbind (SetFractionalBalance E a f' s3) (\<lambda>s4.
    rbind (SetRemainderAmount E r' s4) (\<lambda>s5.
    Inr (EmitEventFractionalBalanceChange a f f' s5))))))"
  unfolding burnExtendedCoin_def Let_def assms(2-)
  by (simp only: assms(1) if_False diff_less_0_iff_less)

lemma burnExtendedCoin_spec:
  assumes inv: "pb_inv E B binv s" and m: "m \<noteq> pb_ModuleName" "ak_GetModuleAddress B m \<noteq> []" and amt: "0 \<le> amt"
    and burn: "burnExtendedCoin E B m amt s = Inr s'"
  shows "pb_inv E B binv s' \<and> ext_moved E B s s' (\<lambda>a. if a = ak_GetModuleAddress B m then - amt else 0) (\<lambda>_ _. 0) (- amt)"
proof -
  define a where "a = ak_GetModuleAddress B m"
  define cf where "cf = conversion E"
  define f where "f = GetFractionalBalance s a"
  define r where "r = GetRemainderAmount s"
  define i where "i = quo amt cf"
  define g where "g = emod amt cf"
  define f' where "f' = (if f < g then f - g + cf else f - g)"
  define r' where "r' = (if \<not> f < g \<and> cf \<le> r + g then (if f < g \<and> cf \<le> r + g then r + g - cf else r + g) - cf
       else if f < g \<and> cf \<le> r + g then r + g - cf else r + g)"
  define i' where "i' = (if f < g \<and> cf \<le> r + g then i + 1 else i)"
  have split: "i * cf + g = amt" "0 \<le> g" "g < cf" "0 \<le> i" "0 < cf"
    using amt conversion_pos quo_emod emod_bounds quo_nonneg by (auto simp: i_def g_def cf_def)
  have fr: "0 \<le> f" "f < cf" "0 \<le> r" "r < cf"
    using pb_inv_frac [OF inv conversion_pos] inv by (auto simp: f_def r_def cf_def pb_inv_def GetFractionalBalance_int)
  have a: "a \<noteq> reserve B" "a \<noteq> []" using reserve_name m by (auto simp: a_def)
  have rng: "0 \<le> f'" "f' < cf" "0 \<le> r'" "r' < cf" "0 \<le> i'"
    using split fr by (auto simp: f'_def r'_def i'_def)
  have binv: "binv (pbank s)" using inv by (simp add: pb_inv_def)
  from burn [unfolded burnExtendedCoin_eq [OF m(1) a_def cf_def f_def r_def i_def g_def f'_def r'_def i'_def]]
  obtain s1 s2 s3 where
    1: "(if f < g \<and> \<not> cf \<le> r + g then on_bank (\<lambda>b. bk_SendCoinsFromModuleToModule B b m pb_ModuleName
        (coins_New B [(Denom E, 1)])) s else Inr s) = Inr s1" and
    2: "(if \<not> f < g \<and> cf \<le> r + g then on_bank (\<lambda>b. bk_BurnCoins B b pb_ModuleName
        (coins_New B [(Denom E, 1)])) s1 else Inr s1) = Inr s2" and
    3: "(if i' \<noteq> 0 then on_bank (\<lambda>b. bk_BurnCoins B b m (coins_New B [(Denom E, i')])) s2 else Inr s2) = Inr s3" and
    s': "s' = EmitEventFractionalBalanceChange a f f'
      (s3\<lparr>fractional := frac_put a f' (fractional s3), remainder := (if r' = 0 then None else Some r')\<rparr>)"
    unfolding rbind_eq_Inr optional_upd SetFractionalBalance_eq [OF a(2) rng(1,2) [unfolded cf_def]]
      SetRemainderAmount_eq [OF rng(3,4) [unfolded cf_def]] by blast
  obtain b1 where b1: "s1 = s\<lparr>pbank := b1\<rparr>" "binv b1" "moved B (pbank s) b1
      (\<lambda>x y. if f < g \<and> \<not> cf \<le> r + g then transfer a (reserve B) (at_denom E 1) x y else 0) (\<lambda>_. 0)"
    using opt_module_send [OF 1 binv _ m(2) reserve_address, folded a_def] by auto
  obtain b2 where b2: "s2 = s1\<lparr>pbank := b2\<rparr>" "binv b2" "moved B b1 b2
      (\<lambda>x y. if \<not> f < g \<and> cf \<le> r + g then credit (reserve B) (at_denom E (- 1)) x y else 0)
      (\<lambda>y. if \<not> f < g \<and> cf \<le> r + g then at_denom E (- 1) y else 0)"
    using opt_burn [OF 2] b1(1,2) by auto
  obtain b3 where b3: "s3 = s2\<lparr>pbank := b3\<rparr>" "binv b3" "moved B b2 b3
      (\<lambda>x y. if i' \<noteq> 0 then credit a (at_denom E (- i')) x y else 0) (\<lambda>y. if i' \<noteq> 0 then at_denom E (- i') y else 0)"
    using opt_burn [OF 3, folded a_def] b2(1,2) rng(5) by auto
  have new: "fractional s' = frac_put a f' (fractional s)" "GetRemainderAmount s' = r'" "pbank s' = b3"
    by (simp_all add: s' b1(1) b2(1) b3(1))
  note all = moved_trans [OF moved_trans [OF b1(3) b2(3)] b3(3), folded new(3)]
  show ?thesis unfolding a_def [symmetric]
  proof (rule books_account [OF inv _ all _ _ new(1,2) a(1) rng(1-4) [unfolded cf_def] f_def [symmetric] r_def [symmetric]])
    fix x y
    let ?borrow = "if f < g \<and> \<not> cf \<le> r + g then 1 else 0"
    show "(if f < g \<and> \<not> cf \<le> r + g then transfer a (reserve B) (at_denom E 1) x y else 0) +
        (if \<not> f < g \<and> cf \<le> r + g then credit (reserve B) (at_denom E (- 1)) x y else 0) +
        (if i' \<noteq> 0 then credit a (at_denom E (- i')) x y else 0) =
      at_denom E ((if x = a then - ?borrow - i' else 0) +
        (if x = reserve B then ?borrow - (if \<not> f < g \<and> cf \<le> r + g then 1 else 0) else 0)) y"
      using a(1) by (auto simp: amount_simps)
  qed (use b3(2) split in \<open>auto simp: new f'_def r'_def i'_def at_denom_def algebra_simps cf_def\<close>)
qed

text \<open>The effects of a transfer between two accounts other than the reserve.\<close>

lemma sendExtendedCoins_eq:
  assumes "from \<noteq> reserve B" "to \<noteq> reserve B" "from \<noteq> to" "cf = conversion E"
    and "f = GetFractionalBalance s from" "h = GetFractionalBalance s to" "i = quo amt cf" "g = emod amt cf"
    and "f < cf" "h < cf" "g < cf"
    and "f' = (if f < g then f - g + cf else f - g)" "h' = (if cf \<le> h + g then h + g - cf else h + g)"
    and "i' = (if f < g \<and> cf \<le> h + g then i + 1 else i)"
  shows "sendExtendedCoins E B from to amt s =
    rbind (if 0 < i' then on_bank_upd E B from amt (\<lambda>b. bk_SendCoins B b from to (coins_New B [(Denom E, i')])) s
      else Inr s) (\<lambda>s1.
    rbind (if f < g \<and> \<not> cf \<le> h + g then on_bank_upd E B from amt
      (\<lambda>b. bk_SendCoinsFromAccountToModule B b from pb_ModuleName (coins_New B [(Denom E, 1)])) s1 else Inr s1) (\<lambda>s2.
    rbind (if \<not> f < g \<and> cf \<le> h + g
      then (case on_bank (\<lambda>b. bk_SendCoins B b (reserve B) to (coins_New B [(Denom E, 1)])) s2 of
              Inl _ \<Rightarrow> Inl (Panic ''failed to carry fractional coins'') | Inr s' \<Rightarrow> Inr s')
      else Inr s2) (\<lambda>s3.
    rbind (SetFractionalBalance E from f' s3) (\<lambda>s4.
    rbind (SetFractionalBalance E to h' s4) (\<lambda>s5.
    Inr (EmitEventFractionalBalanceChange to h h' (EmitEventFractionalBalanceChange from f f' s5)))))))"
proof -
  have "subFromFractionalBalance E f g = Inr (f', f < g)" "addToFractionalBalance E h g = Inr (h', cf \<le> h + g)"
    using assms(4,9-13) by (simp_all add: subFromFractionalBalance_def addToFractionalBalance_def Let_def)
  then show ?thesis
    using assms(1-3) unfolding sendExtendedCoins_def Let_def assms(4-8,14)
    by (simp only: if_False simp_thms rbind_Inr prod.case)
qed

lemma opt_account_to_reserve:
  assumes "(if c then on_bank (\<lambda>b. bk_SendCoinsFromAccountToModule B b f pb_ModuleName (coins_New B [(Denom E, n)])) s
      else Inr s) = Inr s'" "binv (pbank s)" "c \<Longrightarrow> 0 < n"
  shows "\<exists>b. s' = s\<lparr>pbank := b\<rparr> \<and> binv b \<and>
    moved B (pbank s) b (\<lambda>a x. if c then transfer f (reserve B) (at_denom E n) a x else 0) (\<lambda>x. if c then 0 else 0)"
  using assms(1,2)
proof (rule optional_call, goal_cases)
  case (1 b)
  then show ?case using send_one assms(2-) AccountToModule [OF assms(2) reserve_address] by simp
qed

lemma sendExtendedCoins_spec:
  assumes inv: "pb_inv E B binv s" and acc: "from \<noteq> reserve B" "to \<noteq> reserve B" "from \<noteq> []" "to \<noteq> []"
    and amt: "0 \<le> amt" and send: "sendExtendedCoins E B from to amt s = Inr s'" and ne: "from \<noteq> to"
  shows "pb_inv E B binv s' \<and> ext_moved E B s s' (\<lambda>a. if a = from then - amt else if a = to then amt else 0) (\<lambda>_ _. 0) 0"
proof -
  define cf where "cf = conversion E"
  define f where "f = GetFractionalBalance s from"
  define h where "h = GetFractionalBalance s to"
  define i where "i = quo amt cf"
  define g where "g = emod amt cf"
  define f' where "f' = (if f < g then f - g + cf else f - g)"
  define h' where "h' = (if cf \<le> h + g then h + g - cf else h + g)"
  define i' where "i' = (if f < g \<and> cf \<le> h + g then i + 1 else i)"
  have split: "i * cf + g = amt" "0 \<le> g" "g < cf" "0 \<le> i" "0 < cf"
    using amt conversion_pos quo_emod emod_bounds quo_nonneg by (auto simp: i_def g_def cf_def)
  have fr: "0 \<le> f" "f < cf" "0 \<le> h" "h < cf"
    using pb_inv_frac [OF inv conversion_pos] by (auto simp: f_def h_def cf_def GetFractionalBalance_int)
  have rng: "0 \<le> f'" "f' < cf" "0 \<le> h'" "h' < cf" "0 \<le> i'"
    using split fr by (auto simp: f'_def h'_def i'_def)
  have binv: "binv (pbank s)" using inv by (simp add: pb_inv_def)
  note eq = sendExtendedCoins_eq [OF acc(1,2) ne cf_def f_def h_def i_def g_def fr(2,4) split(3) f'_def h'_def i'_def]
  from send [unfolded eq] obtain s1 s2 s3 where
    1: "(if 0 < i' then on_bank (\<lambda>b. bk_SendCoins B b from to (coins_New B [(Denom E, i')])) s else Inr s) = Inr s1" and
    2: "(if f < g \<and> \<not> cf \<le> h + g then on_bank (\<lambda>b. bk_SendCoinsFromAccountToModule B b from pb_ModuleName
        (coins_New B [(Denom E, 1)])) s1 else Inr s1) = Inr s2" and
    3: "(if \<not> f < g \<and> cf \<le> h + g then on_bank (\<lambda>b. bk_SendCoins B b (reserve B) to (coins_New B [(Denom E, 1)])) s2
        else Inr s2) = Inr s3" and
    s': "s' = EmitEventFractionalBalanceChange to h h' (EmitEventFractionalBalanceChange from f f'
      (s3\<lparr>fractional := frac_put to h' (frac_put from f' (fractional s3))\<rparr>))"
    unfolding rbind_eq_Inr optional_upd optional_panic SetFractionalBalance_eq [OF acc(3) rng(1,2) [unfolded cf_def]]
      SetFractionalBalance_eq [OF acc(4) rng(3,4) [unfolded cf_def]] by force
  obtain b1 where b1: "s1 = s\<lparr>pbank := b1\<rparr>" "binv b1" "moved B (pbank s) b1
      (\<lambda>x y. if 0 < i' then transfer from to (at_denom E i') x y else 0) (\<lambda>_. 0)"
    using opt_send [OF 1 binv] by auto
  obtain b2 where b2: "s2 = s1\<lparr>pbank := b2\<rparr>" "binv b2" "moved B b1 b2
      (\<lambda>x y. if f < g \<and> \<not> cf \<le> h + g then transfer from (reserve B) (at_denom E 1) x y else 0) (\<lambda>_. 0)"
    using opt_account_to_reserve [OF 2] b1(1,2) by auto
  obtain b3 where b3: "s3 = s2\<lparr>pbank := b3\<rparr>" "binv b3" "moved B b2 b3
      (\<lambda>x y. if \<not> f < g \<and> cf \<le> h + g then transfer (reserve B) to (at_denom E 1) x y else 0) (\<lambda>_. 0)"
    using opt_send [OF 3] b2(1,2) by auto
  have new: "fractional s' = frac_put to h' (frac_put from f' (fractional s))" "remainder s' = remainder s" "pbank s' = b3"
    by (simp_all add: s' b1(1) b2(1) b3(1) EmitEventFractionalBalanceChange_def)
  note all = moved_trans [OF moved_trans [OF b1(3) b2(3)] b3(3), folded new(3)]
  show ?thesis
  proof (rule books_pair [OF inv _ all _ _ new(1,2) acc(1,2) ne rng(1-4) [unfolded cf_def] f_def [symmetric] h_def [symmetric]])
    fix x y
    let ?borrow = "if f < g \<and> \<not> cf \<le> h + g then 1 else 0" and ?carry = "if \<not> f < g \<and> cf \<le> h + g then 1 else 0"
    show "(if 0 < i' then transfer from to (at_denom E i') x y else 0) +
        (if f < g \<and> \<not> cf \<le> h + g then transfer from (reserve B) (at_denom E 1) x y else 0) +
        (if \<not> f < g \<and> cf \<le> h + g then transfer (reserve B) to (at_denom E 1) x y else 0) =
      at_denom E ((if x = from then - i' - ?borrow else 0) + (if x = to then i' + ?carry else 0) +
        (if x = reserve B then ?borrow - ?carry else 0)) y"
      using ne acc(1,2) rng(5) by (auto simp: amount_simps)
  qed (use b3(2) split in \<open>auto simp: new f'_def h'_def i'_def at_denom_def algebra_simps cf_def\<close>)
qed

text \<open>A transfer succeeds exactly when the spendable extended balance covers it.\<close>

lemma send_enough:
  assumes "binv (pbank s)" "n \<le> bk_SpendableCoin B (pbank s) f (Denom E)" "0 \<le> n"
  shows "\<exists>b. (if 0 < n then on_bank_upd E B a amt (\<lambda>b. bk_SendCoins B b f t (coins_New B [(Denom E, n)])) s else Inr s)
      = Inr (s\<lparr>pbank := b\<rparr>) \<and> binv b \<and> moved B (pbank s) b (transfer f t (at_denom E n)) (\<lambda>_. 0)"
proof (cases "0 < n")
  case True
  with SendCoins_enough [OF assms(1) True assms(2), of t] send_one [OF assms(1) True] show ?thesis
    by (auto simp: on_bank_upd_Inr on_bank_Inr)
next
  case False
  with assms have "n = 0" by simp
  with assms(1) show ?thesis by (intro exI [of _ "pbank s"]) (simp add: moved_def amount_simps)
qed

lemma send_short:
  assumes "binv (pbank s)" "bk_SpendableCoin B (pbank s) f (Denom E) < n" "0 < n"
  shows "on_bank_upd E B a amt (\<lambda>b. bk_SendCoins B b f t (coins_New B [(Denom E, n)])) s =
    Inl (ErrInsufficientFunds (Some (pb_SpendableCoin E B s a (ExtendedDenom E), amt)))"
  using SendCoins_short [OF assms(1,3,2)]
  by (simp add: on_bank_upd_def on_bank_def updateInsufficientFundsError_def)

lemma on_bank_to_reserve:
  assumes "binv (pbank s)"
  shows "on_bank_upd E B a amt (\<lambda>b. bk_SendCoinsFromAccountToModule B b f pb_ModuleName cs) s =
    on_bank_upd E B a amt (\<lambda>b. bk_SendCoins B b f (reserve B) cs) s"
  using AccountToModule [OF assms reserve_address] by (simp add: on_bank_upd_def on_bank_def)

lemma reserve_covers_carry:
  assumes inv: "pb_inv E B binv s" and "a \<noteq> b" "g \<le> GetFractionalBalance s a" "conversion E \<le> GetFractionalBalance s b + g"
  shows "1 \<le> bk_SpendableCoin B (pbank s) (reserve B) (Denom E)"
proof -
  have "kv_int (fractional s) a + kv_int (fractional s) b \<le> kv_sum (fractional s)"
    using inv assms(2) by (intro kv_sum_two) (auto simp: pb_inv_def intro: less_imp_le)
  then have "conversion E \<le> bk_GetBalance B (pbank s) (reserve B) (Denom E) * conversion E"
    using inv assms(3,4) by (simp add: pb_inv_def GetFractionalBalance_int)
  then have "0 < bk_GetBalance B (pbank s) (reserve B) (Denom E) * conversion E"
    using conversion_pos by linarith
  then have "0 < bk_GetBalance B (pbank s) (reserve B) (Denom E)"
    using conversion_pos by (rule zero_less_mult_pos2)
  then show ?thesis using reserve_spendable inv by (simp add: pb_inv_def)
qed

lemma sendExtendedCoins_decides:
  assumes inv: "pb_inv E B binv s" and acc: "from \<noteq> reserve B" "to \<noteq> reserve B" "from \<noteq> []" "to \<noteq> []"
    and amt: "0 \<le> amt" and ne: "from \<noteq> to"
  shows "if amt \<le> pb_SpendableCoin E B s from (ExtendedDenom E)
    then \<exists>s'. sendExtendedCoins E B from to amt s = Inr s'
    else \<exists>x. sendExtendedCoins E B from to amt s = Inl (ErrInsufficientFunds (Some (x, amt)))"
proof -
  define cf where "cf = conversion E"
  define f where "f = GetFractionalBalance s from"
  define h where "h = GetFractionalBalance s to"
  define i where "i = quo amt cf"
  define g where "g = emod amt cf"
  define f' where "f' = (if f < g then f - g + cf else f - g)"
  define h' where "h' = (if cf \<le> h + g then h + g - cf else h + g)"
  define i' where "i' = (if f < g \<and> cf \<le> h + g then i + 1 else i)"
  define sp where "sp = bk_SpendableCoin B (pbank s) from (Denom E)"
  have split: "i * cf + g = amt" "0 \<le> g" "g < cf" "0 \<le> i" "0 < cf"
    using amt conversion_pos quo_emod emod_bounds quo_nonneg by (auto simp: i_def g_def cf_def)
  have fr: "0 \<le> f" "f < cf" "0 \<le> h" "h < cf"
    using pb_inv_frac [OF inv conversion_pos] by (auto simp: f_def h_def cf_def GetFractionalBalance_int)
  have rng: "0 \<le> f'" "f' < cf" "0 \<le> h'" "h' < cf" "0 \<le> i'"
    using split fr by (auto simp: f'_def h'_def i'_def)
  have binv: "binv (pbank s)" using inv by (simp add: pb_inv_def)
  have enough: "amt \<le> pb_SpendableCoin E B s from (ExtendedDenom E) \<longleftrightarrow> i + (if f < g then 1 else 0) \<le> sp"
  proof -
    have "pb_SpendableCoin E B s from (ExtendedDenom E) = sp * cf + f"
      using acc(1) by (simp add: pb_SpendableCoin_def sp_def cf_def f_def)
    with parts_le [OF split(2,3) fr(1,2), of i sp, unfolded split(1)] show ?thesis by auto
  qed
  note eq = sendExtendedCoins_eq [OF acc(1,2) ne cf_def f_def h_def i_def g_def fr(2,4) split(3) f'_def h'_def i'_def]
  note put = SetFractionalBalance_eq [OF acc(3) rng(1,2) [unfolded cf_def]] SetFractionalBalance_eq [OF acc(4) rng(3,4) [unfolded cf_def]]
  let ?s1 = "if 0 < i' then on_bank_upd E B from amt (\<lambda>b. bk_SendCoins B b from to (coins_New B [(Denom E, i')])) s else Inr s"
  let ?s2 = "\<lambda>s. on_bank_upd E B from amt (\<lambda>b. bk_SendCoinsFromAccountToModule B b from pb_ModuleName (coins_New B [(Denom E, 1)])) s"
  show ?thesis
  proof (cases "i' \<le> sp")
    case False
    then have "0 < i'" using rng(5) spendable_bounds [OF binv, of "from" "Denom E"] by (simp add: sp_def)
    moreover have "\<not> amt \<le> pb_SpendableCoin E B s from (ExtendedDenom E)"
      unfolding enough using False by (auto simp: i'_def split: if_splits)
    ultimately show ?thesis unfolding eq using send_short [OF binv, of "from" i'] False by (simp add: sp_def)
  next
    case True
    then obtain b1 where b1: "?s1 = Inr (s\<lparr>pbank := b1\<rparr>)" "binv b1" "moved B (pbank s) b1 (transfer from to (at_denom E i')) (\<lambda>_. 0)"
      using send_enough [OF binv _ rng(5), of "from" "from" amt to] by (auto simp: sp_def)
    have sp1: "bk_SpendableCoin B b1 from (Denom E) = sp - i'"
      "bk_SpendableCoin B b1 (reserve B) (Denom E) = bk_SpendableCoin B (pbank s) (reserve B) (Denom E)"
    proof -
      have "bk_SpendableCoin B b1 x (Denom E) = bk_SpendableCoin B (pbank s) x (Denom E) + transfer from to (at_denom E i') x (Denom E)" for x
        using b1(3) by (simp add: moved_def)
      then show "bk_SpendableCoin B b1 from (Denom E) = sp - i'"
        "bk_SpendableCoin B b1 (reserve B) (Denom E) = bk_SpendableCoin B (pbank s) (reserve B) (Denom E)"
        using ne acc(1,2) by (auto simp: amount_simps sp_def)
    qed
    have to_reserve: "?s2 (s\<lparr>pbank := b1\<rparr>) = on_bank_upd E B from amt (\<lambda>b. bk_SendCoins B b from (reserve B) (coins_New B [(Denom E, 1)])) (s\<lparr>pbank := b1\<rparr>)"
      using b1(2) by (intro on_bank_to_reserve) simp
    consider "f < g" "\<not> cf \<le> h + g" "sp = i'" | "f < g" "\<not> cf \<le> h + g" "i' + 1 \<le> sp" | "\<not> f < g" "cf \<le> h + g" | "f < g \<longleftrightarrow> cf \<le> h + g"
      using True by fastforce
    then show ?thesis
    proof cases
      case 1
      then have "\<not> amt \<le> pb_SpendableCoin E B s from (ExtendedDenom E)" unfolding enough by (simp add: i'_def)
      moreover have "\<exists>x. ?s2 (s\<lparr>pbank := b1\<rparr>) = Inl (ErrInsufficientFunds (Some (x, amt)))"
        unfolding to_reserve using send_short [of "s\<lparr>pbank := b1\<rparr>" "from" 1] b1(2) sp1 1(3) by auto
      ultimately show ?thesis unfolding eq b1(1) using 1(1,2) by auto
    next
      case 2
      then have "\<exists>b. ?s2 (s\<lparr>pbank := b1\<rparr>) = Inr (s\<lparr>pbank := b\<rparr>)"
        unfolding to_reserve using send_enough [of "s\<lparr>pbank := b1\<rparr>" 1 "from" "from" amt "reserve B"] b1(2) sp1 by auto
      then obtain b where "?s2 (s\<lparr>pbank := b1\<rparr>) = Inr (s\<lparr>pbank := b\<rparr>)" by blast
      with 2 show ?thesis unfolding eq b1(1) enough by (simp add: i'_def put)
    next
      case 3
      have "1 \<le> bk_SpendableCoin B b1 (reserve B) (Denom E)"
        unfolding sp1 using 3 reserve_covers_carry [OF inv ne, of g] by (simp add: f_def h_def cf_def)
      then obtain b where "bk_SendCoins B b1 (reserve B) to (coins_New B [(Denom E, 1)]) = Inr b"
        using SendCoins_enough [OF b1(2), of 1 "reserve B" to] by auto
      with 3 True show ?thesis unfolding eq b1(1) enough by (simp add: i'_def put on_bank_def)
    next
      case 4
      with True show ?thesis unfolding eq b1(1) enough by (cases "f < g") (simp_all add: i'_def put)
    qed
  qed
qed

text \<open>A call that only touches the bank, and not the reserve.\<close>

lemma passthrough:
  assumes "pb_inv E B binv s" "binv b" "moved B (pbank s) b d n" "d (reserve B) (Denom E) = 0"
  shows "pb_inv E B binv (s\<lparr>pbank := b\<rparr>) \<and>
    ext_moved E B s (s\<lparr>pbank := b\<rparr>) (\<lambda>a. d a (Denom E) * conversion E) d (n (Denom E) * conversion E)"
  using assms by (auto simp: pb_inv_def ext_moved_def moved_def pb_GetBalance_def pb_SpendableCoin_def
      GetFractionalBalance_def algebra_simps)

lemma ext_moved_trans:
  assumes "ext_moved E B s t d e n" "ext_moved E B t u d' e' n'"
  shows "ext_moved E B s u (\<lambda>a. d a + d' a) (\<lambda>a x. e a x + e' a x) (n + n')"
  using assms by (simp add: ext_moved_def)

lemma ext_moved_cong:
  assumes "ext_moved E B s t d e n" "\<And>a. a \<noteq> reserve B \<Longrightarrow> d a = d' a" "\<And>a x. x \<noteq> Denom E \<Longrightarrow> e a x = e' a x" "n = n'"
  shows "ext_moved E B s t d' e' n'"
  using assms by (simp add: ext_moved_def)

lemma extended_split_amounts:
  assumes "coins_IsValid B cs" "extended_split E B cs = (x, ps)"
  shows "0 \<le> x" "x = coins_AmountOf B cs (ExtendedDenom E)" "coins_IsValid B ps"
    "coins_AmountOf B ps y = (if y = ExtendedDenom E then 0 else coins_AmountOf B cs y)"
  using assms AmountOf_nonneg [OF assms(1), of "ExtendedDenom E"]
  by (auto simp: extended_split_def Let_def AmountOf_Sub Sub_valid split: if_splits)

lemma ext_moved_refl: "ext_moved E B s s (\<lambda>_. 0) (\<lambda>_ _. 0) 0"
  by (simp add: ext_moved_def)

lemma sendExtendedCoins_any:
  assumes "pb_inv E B binv s" "from \<noteq> reserve B" "to \<noteq> reserve B" "from \<noteq> []" "to \<noteq> []" "0 \<le> amt"
    and "sendExtendedCoins E B from to amt s = Inr s'"
  shows "pb_inv E B binv s' \<and> ext_moved E B s s' (\<lambda>a. (if a = to then amt else 0) - (if a = from then amt else 0)) (\<lambda>_ _. 0) 0"
proof (cases "from = to")
  case True
  with assms(1-3,7) show ?thesis by (auto simp: sendExtendedCoins_def Let_def ext_moved_refl)
next
  case False
  note spec = sendExtendedCoins_spec [OF assms(1-7) False]
  with False show ?thesis by (auto intro: ext_moved_cong)
qed

lemma plain_ext_value: "plain_amount E B cs (Denom E) * conversion E + coins_AmountOf B cs (ExtendedDenom E) = ext_value E B cs"
  by (simp add: plain_amount_def ext_value_def SumExtendedCoin_def)

lemma plain_amount_split:
  "coins_IsValid B cs \<Longrightarrow> extended_split E B cs = (x, ps) \<Longrightarrow> coins_AmountOf B ps = plain_amount E B cs"
  using extended_split_amounts(4) by (auto simp: plain_amount_def)

lemma pb_SendCoins_spec:
  assumes inv: "pb_inv E B binv s" and acc: "from \<noteq> reserve B" "to \<noteq> reserve B" "from \<noteq> []" "to \<noteq> []"
    and send: "pb_SendCoins E B from to cs s = Inr s'"
  shows "pb_inv E B binv s' \<and> ext_moved E B s s' (\<lambda>a. (if a = to then ext_value E B cs else 0) - (if a = from then ext_value E B cs else 0))
    (transfer from to (plain_amount E B cs)) 0"
proof -
  obtain x ps where ps: "extended_split E B cs = (x, ps)" by fastforce
  have valid: "coins_IsValid B cs" using send by (simp add: pb_SendCoins_def split: if_splits)
  note amounts = extended_split_amounts [OF valid ps] plain_amount_split [OF valid ps]
  obtain s1 where s1: "(if coins_IsAllPositive B ps then on_bank (\<lambda>b. bk_SendCoins B b from to ps) s else Inr s) = Inr s1"
    "(if 0 < x then sendExtendedCoins E B from to x s1 else Inr s1) = Inr s'"
    using send valid ps by (auto simp: pb_SendCoins_def rbind_eq_Inr)
  have binv: "binv (pbank s)" using inv by (simp add: pb_inv_def)
  obtain b where b: "s1 = s\<lparr>pbank := b\<rparr>" "binv b" "moved B (pbank s) b (transfer from to (plain_amount E B cs)) (\<lambda>_. 0)"
  proof (cases "coins_IsAllPositive B ps")
    case True
    with s1(1) SendCoins_moves [OF binv, of "from" to ps] that show thesis by (auto simp: on_bank_Inr amounts(5))
  next
    case False
    then have "ps = []" using valid_positive amounts(3) by blast
    then have "plain_amount E B cs = (\<lambda>_. 0)" using amounts(5) AmountOf_Nil by (metis ext)
    with False s1(1) that [of "pbank s"] binv show thesis by (simp add: moved_def transfer_def)
  qed
  have p: "pb_inv E B binv s1" "ext_moved E B s s1 (\<lambda>a. transfer from to (plain_amount E B cs) a (Denom E) * conversion E) (transfer from to (plain_amount E B cs)) 0"
    using passthrough [OF inv b(2,3)] acc(1,2) [symmetric] by (simp_all add: b(1) transfer_def)
  have "pb_inv E B binv s' \<and> ext_moved E B s1 s' (\<lambda>a. (if a = to then x else 0) - (if a = from then x else 0)) (\<lambda>_ _. 0) 0"
    using s1(2) sendExtendedCoins_any [OF p(1) acc amounts(1)] p(1) amounts(1) ext_moved_refl [of s1]
    by (cases "0 < x") auto
  then have "pb_inv E B binv s'" "ext_moved E B s s' (\<lambda>a. transfer from to (plain_amount E B cs) a (Denom E) * conversion E +
      ((if a = to then x else 0) - (if a = from then x else 0))) (\<lambda>a y. transfer from to (plain_amount E B cs) a y + 0) (0 + 0)"
    using ext_moved_trans [OF p(2)] by blast+
  then show ?thesis
    by (auto elim!: ext_moved_cong simp: transfer_def amounts(2) algebra_simps simp flip: plain_ext_value)
qed

text \<open>Minting and burning: the coins that the bank handles, then the extended coins.\<close>

lemma module_coins_spec:
  assumes inv: "pb_inv E B binv s" and m: "ak_GetModuleAddress B m \<noteq> reserve B"
    and acc: "ak_GetModuleAccount B (pbank s) m = (Some ma, b0)"
    and cs: "coins_IsValid B cs" "extended_split E B cs = (x, ps)"
    and pass: "(if ps \<noteq> [] then on_bank f (s\<lparr>pbank := b0\<rparr>) else Inr (s\<lparr>pbank := b0\<rparr>)) = Inr s1"
      "\<And>b. binv b0 \<Longrightarrow> f b0 = Inr b \<Longrightarrow> binv b \<and> moved B b0 b (credit (ak_GetModuleAddress B m) (\<lambda>y. k * plain_amount E B cs y)) (\<lambda>y. k * plain_amount E B cs y)"
    and ext: "(if 0 < x then g s1 else Inr s1) = Inr s'"
      "\<And>s1. pb_inv E B binv s1 \<Longrightarrow> g s1 = Inr s' \<Longrightarrow> ak_GetModuleAddress B m \<noteq> [] \<Longrightarrow> pb_inv E B binv s' \<and>
        ext_moved E B s1 s' (\<lambda>a. if a = ak_GetModuleAddress B m then k * x else 0) (\<lambda>_ _. 0) (k * x)"
  shows "pb_inv E B binv s' \<and> ext_moved E B s s' (\<lambda>a. if a = ak_GetModuleAddress B m then k * ext_value E B cs else 0)
    (credit (ak_GetModuleAddress B m) (\<lambda>y. k * plain_amount E B cs y)) (k * ext_value E B cs)"
proof -
  let ?a = "ak_GetModuleAddress B m"
  note amounts = extended_split_amounts [OF cs] plain_amount_split [OF cs]
  have b0: "binv b0" "moved B (pbank s) b0 (\<lambda>_ _. 0) (\<lambda>_. 0)" "?a \<noteq> []"
    using GetModuleAccount_keeps [OF _ acc] inv by (auto simp: pb_inv_def)
  obtain b where b: "s1 = s\<lparr>pbank := b\<rparr>" "binv b"
    "moved B b0 b (credit ?a (\<lambda>y. k * plain_amount E B cs y)) (\<lambda>y. k * plain_amount E B cs y)"
  proof (cases "ps = []")
    case True
    then have "plain_amount E B cs = (\<lambda>_. 0)" using amounts(5) AmountOf_Nil by (metis ext)
    with True pass(1) b0(1) that [of b0] show thesis by (simp add: moved_def credit_def)
  next
    case False
    with pass b0(1) that show thesis by (auto simp: on_bank_Inr)
  qed
  note mv = moved_trans [OF b0(2) b(3)]
  have p: "pb_inv E B binv s1" "ext_moved E B s s1 (\<lambda>z. (0 + credit ?a (\<lambda>y. k * plain_amount E B cs y) z (Denom E)) * conversion E)
      (\<lambda>z y. 0 + credit ?a (\<lambda>y. k * plain_amount E B cs y) z y) ((0 + k * plain_amount E B cs (Denom E)) * conversion E)"
    using passthrough [OF inv b(2) mv] m [symmetric] by (simp_all add: b(1) credit_def)
  have "pb_inv E B binv s' \<and> ext_moved E B s1 s' (\<lambda>a. if a = ?a then k * x else 0) (\<lambda>_ _. 0) (k * x)"
    using ext p(1) b0(3) amounts(1) by (cases "0 < x") (auto intro!: ext_moved_cong [OF ext_moved_refl])
  with ext_moved_trans [OF p(2)] have "pb_inv E B binv s'" "ext_moved E B s s'
      (\<lambda>z. (0 + credit ?a (\<lambda>y. k * plain_amount E B cs y) z (Denom E)) * conversion E + (if z = ?a then k * x else 0))
      (\<lambda>z y. (0 + credit ?a (\<lambda>y. k * plain_amount E B cs y) z y) + 0)
      ((0 + k * plain_amount E B cs (Denom E)) * conversion E + k * x)" by blast+
  then show ?thesis
    by (auto elim!: ext_moved_cong simp: credit_def amounts(2) algebra_simps simp flip: plain_ext_value)
qed

lemma pb_MintCoins_spec:
  assumes inv: "pb_inv E B binv s" and mint: "pb_MintCoins E B m cs s = Inr s'"
  shows "pb_inv E B binv s' \<and> ext_moved E B s s' (\<lambda>a. if a = ak_GetModuleAddress B m then ext_value E B cs else 0)
    (credit (ak_GetModuleAddress B m) (plain_amount E B cs)) (ext_value E B cs)"
proof -
  obtain x ps where ps: "extended_split E B cs = (x, ps)" by fastforce
  from mint ps obtain ma b0 s1 where c: "m \<noteq> pb_ModuleName" "ak_GetModuleAccount B (pbank s) m = (Some ma, b0)" "coins_IsValid B cs"
    "(if ps \<noteq> [] then on_bank (\<lambda>b. bk_MintCoins B b m ps) (s\<lparr>pbank := b0\<rparr>) else Inr (s\<lparr>pbank := b0\<rparr>)) = Inr s1"
    "(if 0 < x then mintExtendedCoin E B m x s1 else Inr s1) = Inr s'"
    unfolding pb_MintCoins_def by (auto simp: Let_def rbind_eq_Inr split: if_splits prod.splits option.splits)
  have "ak_GetModuleAddress B m \<noteq> reserve B" using c(1) reserve_name by blast
  note spec = module_coins_spec [where f = "\<lambda>b. bk_MintCoins B b m ps" and g = "mintExtendedCoin E B m x" and k = 1,
    OF inv this c(2,3) ps c(4) _ c(5)]
  show ?thesis
    using spec extended_split_amounts(1) [OF c(3) ps] c(1) mintExtendedCoin_spec MintCoins_moves [of b0 m ps]
      plain_amount_split [OF c(3) ps] by (simp cong: if_cong)
qed

lemma pb_BurnCoins_spec:
  assumes inv: "pb_inv E B binv s" and burn: "pb_BurnCoins E B m cs s = Inr s'"
  shows "pb_inv E B binv s' \<and> ext_moved E B s s' (\<lambda>a. if a = ak_GetModuleAddress B m then - ext_value E B cs else 0)
    (credit (ak_GetModuleAddress B m) (\<lambda>y. - plain_amount E B cs y)) (- ext_value E B cs)"
proof -
  obtain x ps where ps: "extended_split E B cs = (x, ps)" by fastforce
  from burn ps obtain ma b0 s1 where c: "m \<noteq> pb_ModuleName" "ak_GetModuleAccount B (pbank s) m = (Some ma, b0)" "coins_IsValid B cs"
    "(if ps \<noteq> [] then on_bank (\<lambda>b. bk_BurnCoins B b m ps) (s\<lparr>pbank := b0\<rparr>) else Inr (s\<lparr>pbank := b0\<rparr>)) = Inr s1"
    "(if 0 < x then burnExtendedCoin E B m x s1 else Inr s1) = Inr s'"
    unfolding pb_BurnCoins_def by (auto simp: Let_def rbind_eq_Inr split: if_splits prod.splits option.splits)
  have "ak_GetModuleAddress B m \<noteq> reserve B" using c(1) reserve_name by blast
  note spec = module_coins_spec [where f = "\<lambda>b. bk_BurnCoins B b m ps" and g = "burnExtendedCoin E B m x" and k = "- 1",
    OF inv this c(2,3) ps c(4) _ c(5)]
  show ?thesis
    using spec extended_split_amounts(1) [OF c(3) ps] c(1) burnExtendedCoin_spec BurnCoins_moves [of b0 m ps]
      plain_amount_split [OF c(3) ps] by (simp cong: if_cong)
qed

end

end
