(* ===== verification/PreciseBankProps.thy ===== *)
theory PreciseBankProps
  imports PreciseBankBooks
begin

text \<open>
  The properties of \<open>x/precisebank\<close>, and a ledger that obeys the contract of the bank, on
  which the witnesses run.
\<close>

section \<open>A ledger\<close>

text \<open>Accounts lock a part of the balance (vesting); a base account locks nothing.\<close>

record laccount =
  la_Address :: AccAddress
  la_Sequence :: u64
  la_Number :: nat
  la_Locked :: "denom \<Rightarrow> int"

record ledger =
  l_balance :: "AccAddress \<Rightarrow> denom \<Rightarrow> int"
  l_accounts :: "AccAddress \<Rightarrow> laccount option"
  l_next :: nat
  l_supply :: "denom \<Rightarrow> int"

definition l_locked :: "ledger \<Rightarrow> AccAddress \<Rightarrow> denom \<Rightarrow> int" where
  "l_locked b a x = (case l_accounts b a of None \<Rightarrow> 0 | Some acc \<Rightarrow> la_Locked acc x)"

definition l_new :: "ledger \<Rightarrow> AccAddress \<Rightarrow> laccount \<times> ledger" where
  "l_new b a = (\<lparr>la_Address = a, la_Sequence = 0, la_Number = l_next b, la_Locked = (\<lambda>_. 0)\<rparr>, b\<lparr>l_next := l_next b + 1\<rparr>)"

definition l_set :: "ledger \<Rightarrow> laccount \<Rightarrow> ledger" where
  "l_set b acc = b\<lparr>l_accounts := (l_accounts b)(la_Address acc \<mapsto> acc)\<rparr>"

text \<open>Receiving coins creates the account.\<close>

definition l_create :: "AccAddress \<Rightarrow> ledger \<Rightarrow> ledger" where
  "l_create a b = (if l_accounts b a = None then (case l_new b a of (acc, b') \<Rightarrow> l_set b' acc) else b)"

definition l_spendable :: "ledger \<Rightarrow> AccAddress \<Rightarrow> denom \<Rightarrow> int" where
  "l_spendable b a x = l_balance b a x - l_locked b a x"

definition l_amount :: "coins \<Rightarrow> denom \<Rightarrow> int" where
  "l_amount cs x = sum_list (map snd (filter (\<lambda>c. fst c = x) cs))"

definition l_valid :: "coins \<Rightarrow> bool" where
  "l_valid cs \<longleftrightarrow> sorted_wrt (<) (map fst cs) \<and> list_all (\<lambda>c. 0 < snd c) cs"

definition l_sub :: "coins \<Rightarrow> coin \<Rightarrow> coins" where
  "l_sub cs c = filter (\<lambda>d. snd d \<noteq> 0) (map (\<lambda>d. if fst d = fst c then (fst d, snd d - snd c) else d) cs)"

definition l_covers :: "ledger \<Rightarrow> AccAddress \<Rightarrow> coins \<Rightarrow> bool" where
  "l_covers b a cs \<longleftrightarrow> list_all (\<lambda>c. snd c \<le> l_spendable b a (fst c)) cs"

definition l_add :: "AccAddress \<Rightarrow> (denom \<Rightarrow> int) \<Rightarrow> ledger \<Rightarrow> ledger" where
  "l_add a n b = b\<lparr>l_balance := (l_balance b)(a := (\<lambda>x. l_balance b a x + n x))\<rparr>"

definition l_send :: "ledger \<Rightarrow> AccAddress \<Rightarrow> AccAddress \<Rightarrow> coins \<Rightarrow> ledger res" where
  "l_send b f t cs =
     (if \<not> l_valid cs then Inl (Err ''invalid coins'')
      else if \<not> l_covers b f cs then Inl (ErrInsufficientFunds None)
      else Inr (l_create t (l_add t (l_amount cs) (l_add f (\<lambda>x. - l_amount cs x) b))))"

definition l_module :: "string \<Rightarrow> AccAddress" where
  "l_module m =
     (if m = pb_ModuleName then [1] else if m = ''evm'' then [2] else if m = ''svip'' then [8]
      else if m = ''fee_collector'' then [9] else [])"

definition l_mint :: "ledger \<Rightarrow> string \<Rightarrow> coins \<Rightarrow> ledger res" where
  "l_mint b m cs =
     (if \<not> l_valid cs then Inl (Err ''invalid coins'')
      else Inr (l_create (l_module m) ((l_add (l_module m) (l_amount cs) b)\<lparr>l_supply := (\<lambda>x. l_supply b x + l_amount cs x)\<rparr>)))"

definition l_burn :: "ledger \<Rightarrow> string \<Rightarrow> coins \<Rightarrow> ledger res" where
  "l_burn b m cs =
     (if \<not> l_valid cs then Inl (Err ''invalid coins'')
      else if \<not> l_covers b (l_module m) cs then Inl (ErrInsufficientFunds None)
      else Inr ((l_add (l_module m) (\<lambda>x. - l_amount cs x) b)\<lparr>l_supply := (\<lambda>x. l_supply b x - l_amount cs x)\<rparr>))"

definition l_account :: "ledger \<Rightarrow> string \<Rightarrow> moduleAccount option \<times> ledger" where
  "l_account b m =
     (if l_module m = [] then (None, b)
      else (Some \<lparr>ma_Address = l_module m, ma_Permissions = [''minter'', ''burner'']\<rparr>, l_create (l_module m) b))"

text \<open>An address is printed with two letters per byte and read without regard to case.\<close>

definition l_string :: "AccAddress \<Rightarrow> string" where
  "l_string a = concat (map (\<lambda>w. [char_of (97 + unat w div 16), char_of (97 + unat w mod 16)]) a)"

fun l_decode :: "string \<Rightarrow> AccAddress" where
  "l_decode (c # d # x) = word_of_nat ((of_char c - 97) * 16 + (of_char d - 97)) # l_decode x"
| "l_decode _ = []"

definition l_from :: "string \<Rightarrow> AccAddress res" where
  "l_from x =
     (let a = l_decode (to_lower x) in
      if a = [] \<or> l_string a \<noteq> to_lower x then Inl (Err ''invalid address'') else Inr a)"

definition ledger_bank :: "ledger bank" where
  "ledger_bank =
     \<lparr>bk_GetBalance = l_balance, bk_SpendableCoin = l_spendable, bk_GetSupply = l_supply,
      bk_BlockedAddr = (\<lambda>a. a = [1]), bk_IsSendEnabledCoin = (\<lambda>_ _. True),
      bk_SendCoins = l_send,
      bk_SendCoinsFromAccountToModule = (\<lambda>b a m cs. l_send b a (l_module m) cs),
      bk_SendCoinsFromModuleToModule = (\<lambda>b m n cs. l_send b (l_module m) (l_module n) cs),
      bk_MintCoins = l_mint, bk_BurnCoins = l_burn,
      ak_GetModuleAddress = l_module, ak_GetModuleAccount = l_account,
      ak_StringToBytes = l_from, acc_FromBech32 = l_from, acc_String = l_string,
      coins_New = filter (\<lambda>c. snd c \<noteq> 0), coins_IsValid = l_valid,
      coins_IsAllPositive = (\<lambda>cs. cs \<noteq> [] \<and> list_all (\<lambda>c. 0 < snd c) cs),
      coins_AmountOf = l_amount, coins_Sub = l_sub\<rparr>"

definition l_addressed :: "ledger \<Rightarrow> bool" where
  "l_addressed b \<longleftrightarrow> (\<forall>a acc. l_accounts b a = Some acc \<longrightarrow> la_Address acc = a)"

definition ledger_inv :: "ledger \<Rightarrow> bool" where
  "ledger_inv b \<longleftrightarrow> (\<forall>a x. 0 \<le> l_locked b a x \<and> l_locked b a x \<le> l_balance b a x) \<and> (\<forall>x. l_locked b [1] x = 0 \<and> l_locked b [8] x = 0) \<and> l_addressed b"

lemma l_create_simps [simp]:
  "l_balance (l_create a b) = l_balance b" "l_supply (l_create a b) = l_supply b"
  by (simp_all add: l_create_def l_new_def l_set_def)

lemma l_create_locked [simp]: "l_locked (l_create a b) = l_locked b"
  by (intro ext) (simp add: l_create_def l_new_def l_set_def l_locked_def)

lemma l_addressed_create [simp]: "l_addressed (l_create a b) = l_addressed b"
proof (cases "l_accounts b a")
  case None
  then have "l_accounts (l_create a b) y = Some acc \<longleftrightarrow> (if y = a then acc = fst (l_new b a) else l_accounts b y = Some acc)" for y acc
    by (auto simp: l_create_def l_new_def l_set_def)
  with None show ?thesis by (simp add: l_addressed_def l_new_def) (metis option.distinct(1))
qed (simp add: l_create_def)

lemma l_addressed_simps [simp]: "l_addressed (l_add a n b) = l_addressed b"
  "l_addressed (b\<lparr>l_balance := f\<rparr>) = l_addressed b" "l_addressed (b\<lparr>l_supply := g\<rparr>) = l_addressed b"
  by (simp_all add: l_addressed_def l_add_def)

lemma l_create_derived [simp]: "l_spendable (l_create a b) = l_spendable b" "ledger_inv (l_create a b) = ledger_inv b"
  by (simp_all add: l_spendable_def [abs_def] ledger_inv_def)

lemma l_locked_simps [simp]:
  "l_locked (b\<lparr>l_balance := f\<rparr>) = l_locked b" "l_locked (b\<lparr>l_supply := g\<rparr>) = l_locked b" "l_locked (l_add a n b) = l_locked b"
  by (intro ext; simp add: l_locked_def l_add_def)+

lemma l_amount_simps [simp]:
  "l_amount [] x = 0" "l_amount (c # cs) x = (if fst c = x then snd c else 0) + l_amount cs x"
  by (simp_all add: l_amount_def)

lemma l_amount_absent: "x \<notin> fst ` set cs \<Longrightarrow> l_amount cs x = 0"
  by (induction cs) auto

lemma l_valid_Cons: "l_valid (c # cs) \<longleftrightarrow> 0 < snd c \<and> (\<forall>d \<in> set cs. fst c < fst d) \<and> l_valid cs"
  by (auto simp: l_valid_def)

lemma l_amount_nonneg: "l_valid cs \<Longrightarrow> 0 \<le> l_amount cs x"
  by (induction cs) (auto simp: l_valid_Cons)

lemma l_amount_in: "l_valid cs \<Longrightarrow> c \<in> set cs \<Longrightarrow> l_amount cs (fst c) = snd c"
proof (induction cs)
  case (Cons d cs)
  then have "c \<noteq> d \<Longrightarrow> fst d < fst c" "fst d \<notin> fst ` set cs" by (auto simp: l_valid_Cons)
  with Cons l_amount_absent [of "fst d" cs] show ?case by (cases "c = d") (auto simp: l_valid_Cons)
qed simp

lemma l_covers_amount:
  assumes "l_valid cs" "l_covers b a cs" "\<And>x. 0 \<le> l_spendable b a x"
  shows "l_amount cs x \<le> l_spendable b a x"
proof (cases "x \<in> fst ` set cs")
  case True
  then show ?thesis using l_amount_in [OF assms(1)] assms(2) by (auto simp: l_covers_def list_all_iff)
next
  case False
  then show ?thesis using assms(3) by (simp add: l_amount_absent)
qed

lemma l_sub_Cons:
  "l_sub (d # cs) (y, n) =
     (if fst d = y then (if snd d = n then [] else [(y, snd d - n)]) else if snd d \<noteq> 0 then [d] else []) @ l_sub cs (y, n)"
  by (auto simp: l_sub_def)

lemma l_sub_absent: "l_valid cs \<Longrightarrow> y \<notin> fst ` set cs \<Longrightarrow> l_sub cs (y, n) = cs"
  by (induction cs) (auto simp: l_valid_Cons l_sub_Cons l_sub_def)

lemma l_sub_amount:
  "l_valid cs \<Longrightarrow> 0 < n \<Longrightarrow> n \<le> l_amount cs y \<Longrightarrow>
   l_amount (l_sub cs (y, n)) x = l_amount cs x - (if x = y then n else 0)"
proof (induction cs)
  case (Cons d cs)
  then have "fst d \<notin> fst ` set cs" "l_valid cs" by (auto simp: l_valid_Cons)
  with Cons l_sub_absent [of cs y n] l_amount_absent [of "fst d" cs] show ?case
    by (auto simp: l_valid_Cons l_sub_Cons)
qed simp

lemma l_sub_valid:
  assumes "l_valid cs" "n \<le> l_amount cs y"
  shows "l_valid (l_sub cs (y, n))"
proof -
  have "sorted_wrt (<) (map fst (l_sub cs (y, n)))"
    using assms(1) unfolding l_valid_def l_sub_def
    by (induction cs) auto
  moreover have "0 < snd d" if "d \<in> set (l_sub cs (y, n))" for d
    using that assms l_amount_in [OF assms(1)]
    by (auto simp: l_sub_def l_valid_def list_all_iff split: if_splits)
  ultimately show ?thesis by (simp add: l_valid_def list_all_iff)
qed

lemma l_send_moves:
  assumes "ledger_inv b" "l_send b f t cs = Inr b'"
  shows "ledger_inv b' \<and> moved ledger_bank b b' (transfer f t (l_amount cs)) (\<lambda>_. 0)"
proof -
  have c: "l_valid cs" "l_covers b f cs" "b' = l_create t (l_add t (l_amount cs) (l_add f (\<lambda>x. - l_amount cs x) b))"
    using assms(2) by (auto simp: l_send_def split: if_splits)
  have "l_amount cs x \<le> l_spendable b f x" for x
    using assms(1) by (intro l_covers_amount [OF c(1,2)]) (simp add: ledger_inv_def l_spendable_def)
  then have "l_locked b f x \<le> l_balance b f x - l_amount cs x" for x by (simp add: l_spendable_def algebra_simps)
  moreover have "0 \<le> l_amount cs x" for x using l_amount_nonneg [OF c(1)] .
  ultimately show ?thesis
    using assms(1) by (auto simp: c(3) moved_def ledger_bank_def l_add_def ledger_inv_def transfer_def l_spendable_def
        intro: add_increasing2)
qed

lemma l_mint_moves:
  assumes "ledger_inv b" "l_mint b m cs = Inr b'"
  shows "ledger_inv b' \<and> moved ledger_bank b b' (credit (l_module m) (l_amount cs)) (l_amount cs)"
proof -
  have c: "l_valid cs" "b' = l_create (l_module m) ((l_add (l_module m) (l_amount cs) b)\<lparr>l_supply := (\<lambda>x. l_supply b x + l_amount cs x)\<rparr>)"
    using assms(2) by (auto simp: l_mint_def split: if_splits)
  have "0 \<le> l_amount cs x" for x using l_amount_nonneg [OF c(1)] .
  then show ?thesis
    using assms(1) by (auto simp: c(2) moved_def ledger_bank_def l_add_def ledger_inv_def credit_def l_spendable_def
        intro: add_increasing2)
qed

lemma l_burn_moves:
  assumes "ledger_inv b" "l_burn b m cs = Inr b'"
  shows "ledger_inv b' \<and> moved ledger_bank b b' (credit (l_module m) (\<lambda>x. - l_amount cs x)) (\<lambda>x. - l_amount cs x)"
proof -
  have c: "l_valid cs" "l_covers b (l_module m) cs"
    "b' = (l_add (l_module m) (\<lambda>x. - l_amount cs x) b)\<lparr>l_supply := (\<lambda>x. l_supply b x - l_amount cs x)\<rparr>"
    using assms(2) by (auto simp: l_burn_def split: if_splits)
  have "l_amount cs x \<le> l_spendable b (l_module m) x" for x
    using assms(1) by (intro l_covers_amount [OF c(1,2)]) (simp add: ledger_inv_def l_spendable_def)
  then have "l_locked b (l_module m) x \<le> l_balance b (l_module m) x - l_amount cs x" for x
    by (simp add: l_spendable_def algebra_simps)
  then show ?thesis
    using assms(1) by (auto simp: c(3) moved_def ledger_bank_def l_add_def ledger_inv_def credit_def l_spendable_def)
qed

interpretation led: bank_contract ex_coin_info ledger_bank ledger_inv
proof
  show "0 < conversion ex_coin_info"
    by (simp add: conversion_def Decimals_ConversionFactor_def ConversionFactor_table_def ex_coin_info_def)
  show "\<And>m. ak_GetModuleAddress ledger_bank m = reserve ledger_bank \<Longrightarrow> m = pb_ModuleName"
    by (simp add: ledger_bank_def l_module_def split: if_splits)
  show "\<And>b f t cs b'. ledger_inv b \<Longrightarrow> bk_SendCoins ledger_bank b f t cs = Inr b' \<Longrightarrow>
      ledger_inv b' \<and> moved ledger_bank b b' (transfer f t (coins_AmountOf ledger_bank cs)) (\<lambda>_. 0)"
    using l_send_moves by (simp add: ledger_bank_def)
  show "\<And>b m cs b'. ledger_inv b \<Longrightarrow> bk_MintCoins ledger_bank b m cs = Inr b' \<Longrightarrow>
      ledger_inv b' \<and> moved ledger_bank b b' (credit (ak_GetModuleAddress ledger_bank m) (coins_AmountOf ledger_bank cs)) (coins_AmountOf ledger_bank cs)"
    using l_mint_moves by (simp add: ledger_bank_def)
  show "\<And>b m cs b'. ledger_inv b \<Longrightarrow> bk_BurnCoins ledger_bank b m cs = Inr b' \<Longrightarrow>
      ledger_inv b' \<and> moved ledger_bank b b' (credit (ak_GetModuleAddress ledger_bank m) (\<lambda>x. - coins_AmountOf ledger_bank cs x)) (\<lambda>x. - coins_AmountOf ledger_bank cs x)"
    using l_burn_moves by (simp add: ledger_bank_def)
  show "\<And>cs n y. coins_IsValid ledger_bank cs \<Longrightarrow> 0 < n \<Longrightarrow> n \<le> coins_AmountOf ledger_bank cs y \<Longrightarrow>
      coins_IsValid ledger_bank (coins_Sub ledger_bank cs (y, n))"
    using l_sub_valid by (simp add: ledger_bank_def)
qed (auto simp: ledger_bank_def ledger_inv_def l_spendable_def l_amount_nonneg l_sub_amount
    l_valid_def l_send_def l_covers_def l_account_def moved_def l_module_def split: if_splits)

section \<open>Exact transfers, mints and burns\<close>

text \<open>A ledger with two holders whose fractional balances and the remainder make up one coin of the reserve.\<close>

definition ex_ledger :: ledger where
  "ex_ledger =
     \<lparr>l_balance = (\<lambda>a x. if x = ''uatom'' then (if a = [1] then 1 else if a = [2] then 7 else if a = [3] then 5 else 0) else 0),
      l_accounts = (\<lambda>_. None), l_next = 0, l_supply = (\<lambda>x. if x = ''uatom'' then 13 else 0)\<rparr>"

definition ex_pb :: "ledger pbState" where
  "ex_pb = \<lparr>pbank = ex_ledger, fractional = [([3], 300000000000), ([4], 600000000000)],
     remainder = Some 100000000000, pb_events = []\<rparr>"

lemma ex_ledger_simps [simp]:
  "l_balance ex_ledger =
     (\<lambda>a x. if x = ''uatom'' then (if a = [1] then 1 else if a = [2] then 7 else if a = [3] then 5 else 0) else 0)"
  "l_locked ex_ledger = (\<lambda>_ _. 0)" "l_addressed ex_ledger" "l_supply ex_ledger = (\<lambda>x. if x = ''uatom'' then 13 else 0)"
  by (simp_all add: ex_ledger_def l_locked_def [abs_def] l_addressed_def)

lemma ex_conversion [simp]: "conversion ex_coin_info = 1000000000000"
  by (simp add: conversion_def Decimals_ConversionFactor_def ConversionFactor_table_def ex_coin_info_def)

lemma ex_denoms [simp]: "Denom ex_coin_info = ''uatom''" "ExtendedDenom ex_coin_info = ''aatom''"
  by (simp_all add: ex_coin_info_def)

lemma ex_reserve [simp]: "reserve ledger_bank = [1]"
  by (simp add: ledger_bank_def l_module_def)

lemma ex_pb_inv: "pb_inv ex_coin_info ledger_bank ledger_inv ex_pb"
  by (auto simp: pb_inv_def ex_pb_def ledger_inv_def kv_sum_def kv_ok_def GetRemainderAmount_def
      ledger_bank_def l_module_def split: if_splits)

lemmas pb_eval = pb_SendCoins_def pb_MintCoins_def pb_BurnCoins_def extended_split_def sendExtendedCoins_def
  mintExtendedCoin_def burnExtendedCoin_def subFromFractionalBalance_def addToFractionalBalance_def
  SetFractionalBalance_def DeleteFractionalBalance_def SetRemainderAmount_def DeleteRemainderAmount_def
  ValidateFractionalAmount_def GetFractionalBalance_def GetRemainderAmount_def on_bank_def on_bank_upd_def
  updateInsufficientFundsError_def EmitEventFractionalBalanceChange_def
  pb_GetBalance_def pb_SpendableCoin_def quo_def emod_def Let_def pb_ModuleName_def
  ledger_bank_def l_send_def l_mint_def l_burn_def l_add_def l_module_def l_account_def l_covers_def l_spendable_def
  l_valid_def l_sub_def ex_pb_def ext_value_def plain_amount_def SumExtendedCoin_def transfer_def credit_def

text \<open>
  C12. \<open>SendCoins\<close> (integer, extended and other denominations together, with every case of
  borrow and carry) moves exactly the worth of the coins: whenever it returns without an error, the extended
  balance and the spendable extended balance of the sender fall and those of the recipient rise by the worth of the
  coins in the extended denomination, other denominations move as in the bank, no third account changes, the
  total extended supply is unchanged, and the reserve still backs the fractional balances exactly.
\<close>

theorem SendCoins_exact:
  assumes "bank_contract E B binv" "pb_inv E B binv s"
    "from \<noteq> reserve B" "to \<noteq> reserve B" "from \<noteq> []" "to \<noteq> []" "pb_SendCoins E B from to cs s = Inr s'"
  shows "pb_inv E B binv s' \<and>
    ext_moved E B s s' (\<lambda>a. (if a = to then ext_value E B cs else 0) - (if a = from then ext_value E B cs else 0))
      (transfer from to (plain_amount E B cs)) 0"
  by (rule bank_contract.pb_SendCoins_spec [OF assms])

theorem SendCoins_exact_witness:
  "\<exists>s'. pb_SendCoins ex_coin_info ledger_bank [3] [4] [(''aatom'', 1500000000000)] ex_pb = Inr s' \<and>
     pb_inv ex_coin_info ledger_bank ledger_inv s' \<and>
     pb_GetBalance ex_coin_info ledger_bank s' [3] ''aatom'' = 3800000000000 \<and>
     pb_GetBalance ex_coin_info ledger_bank s' [4] ''aatom'' = 2100000000000"
proof -
  have "\<exists>s'. pb_SendCoins ex_coin_info ledger_bank [3] [4] [(''aatom'', 1500000000000)] ex_pb = Inr s'"
    by (simp add: pb_eval)
  then obtain s' where run: "pb_SendCoins ex_coin_info ledger_bank [3] [4] [(''aatom'', 1500000000000)] ex_pb = Inr s'" ..
  from SendCoins_exact [OF led.bank_contract_axioms ex_pb_inv _ _ _ _ run]
  show ?thesis using run by (simp add: ext_moved_def) (simp add: pb_eval)
qed

text \<open>
  C14. \<open>MintCoins\<close> is exact: whenever it returns without an error, the module account gains the
  worth of the coins in the extended denomination, nobody else gains or loses, the extended supply (integer supply
  times the conversion factor, less the remainder) grows by the same worth, and the reserve still
  backs the fractional balances and the remainder exactly.
\<close>

theorem MintCoins_exact:
  assumes "bank_contract E B binv" "pb_inv E B binv s" "pb_MintCoins E B m cs s = Inr s'"
  shows "pb_inv E B binv s' \<and>
    ext_moved E B s s' (\<lambda>a. if a = ak_GetModuleAddress B m then ext_value E B cs else 0)
      (credit (ak_GetModuleAddress B m) (plain_amount E B cs)) (ext_value E B cs)"
  by (rule bank_contract.pb_MintCoins_spec [OF assms])

theorem MintCoins_exact_witness:
  "\<exists>s'. pb_MintCoins ex_coin_info ledger_bank ''evm'' [(''aatom'', 1500000000000)] ex_pb = Inr s' \<and>
     pb_inv ex_coin_info ledger_bank ledger_inv s' \<and>
     pb_GetBalance ex_coin_info ledger_bank s' [2] ''aatom'' = 8500000000000"
proof -
  have "\<exists>s'. pb_MintCoins ex_coin_info ledger_bank ''evm'' [(''aatom'', 1500000000000)] ex_pb = Inr s'"
    by (simp add: pb_eval)
  then obtain s' where run: "pb_MintCoins ex_coin_info ledger_bank ''evm'' [(''aatom'', 1500000000000)] ex_pb = Inr s'" ..
  from MintCoins_exact [OF led.bank_contract_axioms ex_pb_inv run]
  show ?thesis using run by (simp add: ext_moved_def) (simp add: pb_eval)
qed

text \<open>
  \<open>BurnCoins\<close> is exact: whenever it returns without an error, the module account loses the
  worth of the coins in the extended denomination, nobody else gains or loses, the extended supply
  falls by the same worth, and the reserve still backs the fractional balances and the remainder exactly.
\<close>

theorem BurnCoins_exact:
  assumes "bank_contract E B binv" "pb_inv E B binv s" "pb_BurnCoins E B m cs s = Inr s'"
  shows "pb_inv E B binv s' \<and>
    ext_moved E B s s' (\<lambda>a. if a = ak_GetModuleAddress B m then - ext_value E B cs else 0)
      (credit (ak_GetModuleAddress B m) (\<lambda>x. - plain_amount E B cs x)) (- ext_value E B cs)"
  by (rule bank_contract.pb_BurnCoins_spec [OF assms])

theorem BurnCoins_exact_witness:
  "\<exists>s'. pb_BurnCoins ex_coin_info ledger_bank ''evm'' [(''aatom'', 1500000000000)] ex_pb = Inr s' \<and>
     pb_inv ex_coin_info ledger_bank ledger_inv s' \<and>
     pb_GetBalance ex_coin_info ledger_bank s' [2] ''aatom'' = 5500000000000"
proof -
  have "\<exists>s'. pb_BurnCoins ex_coin_info ledger_bank ''evm'' [(''aatom'', 1500000000000)] ex_pb = Inr s'"
    by (simp add: pb_eval)
  then obtain s' where run: "pb_BurnCoins ex_coin_info ledger_bank ''evm'' [(''aatom'', 1500000000000)] ex_pb = Inr s'" ..
  from BurnCoins_exact [OF led.bank_contract_axioms ex_pb_inv run]
  show ?thesis using run by (simp add: ext_moved_def) (simp add: pb_eval)
qed



section \<open>Every reachable state\<close>

text \<open>
  The steps of the module: every keeper operation that other modules and messages can call, when it
  returns without an error. The sender of a transfer is not the reserve; the code itself refuses the reserve
  wherever \<open>pb_step\<close> does not say so, except as the sender module of \<open>SendCoinsFromModuleToModule\<close>.
\<close>

inductive pb_step :: "EvmCoinInfo \<Rightarrow> 'b bank \<Rightarrow> 'b pbState \<Rightarrow> 'b pbState \<Rightarrow> bool" for E B where
  mint: "pb_MintCoins E B m cs s = Inr s' \<Longrightarrow> pb_step E B s s'"
| burn: "pb_BurnCoins E B m cs s = Inr s' \<Longrightarrow> pb_step E B s s'"
| account_to_module: "pb_SendCoinsFromAccountToModule E B a m cs s = Inr s' \<Longrightarrow> a \<noteq> reserve B \<Longrightarrow> a \<noteq> [] \<Longrightarrow> pb_step E B s s'"
| module_to_account: "pb_SendCoinsFromModuleToAccount E B m a cs s = Inr s' \<Longrightarrow> a \<noteq> [] \<Longrightarrow> pb_step E B s s'"
| module_to_module: "pb_SendCoinsFromModuleToModule E B m m' cs s = Inr s' \<Longrightarrow> m \<noteq> pb_ModuleName \<Longrightarrow> pb_step E B s s'"
| send_msg: "pb_Send E B f t cs s = Inr s' \<Longrightarrow> ak_StringToBytes B f = Inr a \<Longrightarrow> a \<noteq> reserve B \<Longrightarrow> a \<noteq> [] \<Longrightarrow>
    ak_StringToBytes B t = Inr b \<Longrightarrow> b \<noteq> [] \<Longrightarrow> pb_step E B s s'"

inductive pb_steps :: "EvmCoinInfo \<Rightarrow> 'b bank \<Rightarrow> 'b pbState \<Rightarrow> 'b pbState \<Rightarrow> bool" for E B where
  none: "pb_steps E B s s"
| step: "pb_steps E B s t \<Longrightarrow> pb_step E B t u \<Longrightarrow> pb_steps E B s u"

context bank_contract
begin

lemma module_account_inv:
  assumes "pb_inv E B binv s" "ak_GetModuleAccount B (pbank s) m = (Some acc, b)"
  shows "pb_inv E B binv (s\<lparr>pbank := b\<rparr>)" "ma_Address acc = ak_GetModuleAddress B m" "ma_Address acc \<noteq> []"
proof -
  have b: "binv b" "moved B (pbank s) b (\<lambda>_ _. 0) (\<lambda>_. 0)" "ma_Address acc = ak_GetModuleAddress B m" "ma_Address acc \<noteq> []"
    using GetModuleAccount_keeps [of "pbank s" m "Some acc" b] assms by (auto simp: pb_inv_def)
  then show "pb_inv E B binv (s\<lparr>pbank := b\<rparr>)" "ma_Address acc = ak_GetModuleAddress B m" "ma_Address acc \<noteq> []"
    using passthrough [OF assms(1) b(1,2)] by simp_all
qed

lemma pb_step_inv:
  assumes "pb_step E B s s'" "pb_inv E B binv s" "bk_BlockedAddr B (reserve B)"
  shows "pb_inv E B binv s'"
  using assms(1)
proof cases
  case (mint m cs)
  then show ?thesis using pb_MintCoins_spec [OF assms(2)] by blast
next
  case (burn m cs)
  then show ?thesis using pb_BurnCoins_spec [OF assms(2)] by blast
next
  case (account_to_module a m cs)
  then obtain acc b where c: "ak_GetModuleAccount B (pbank s) m = (Some acc, b)" "m \<noteq> pb_ModuleName"
    "pb_SendCoins E B a (ma_Address acc) cs (s\<lparr>pbank := b\<rparr>) = Inr s'"
    by (auto simp: pb_SendCoinsFromAccountToModule_def split: prod.splits option.splits if_splits)
  note acc = module_account_inv [OF assms(2) c(1)]
  then have "ma_Address acc \<noteq> reserve B" using reserve_name c(2) by metis
  then show ?thesis using pb_SendCoins_spec [OF acc(1) account_to_module(2) _ account_to_module(3) acc(3) c(3)] by blast
next
  case (module_to_account m a cs)
  then have c: "ak_GetModuleAddress B m \<noteq> []" "m \<noteq> pb_ModuleName" "a \<noteq> reserve B"
    "pb_SendCoins E B (ak_GetModuleAddress B m) a cs s = Inr s'"
    using assms(3) by (auto simp: pb_SendCoinsFromModuleToAccount_def Let_def split: if_splits)
  then have "ak_GetModuleAddress B m \<noteq> reserve B" using reserve_name by metis
  then show ?thesis using pb_SendCoins_spec [OF assms(2) _ c(3,1) module_to_account(2) c(4)] by blast
next
  case (module_to_module m m' cs)
  then obtain acc b where c: "ak_GetModuleAddress B m \<noteq> []" "ak_GetModuleAccount B (pbank s) m' = (Some acc, b)" "m' \<noteq> pb_ModuleName"
    "pb_SendCoins E B (ak_GetModuleAddress B m) (ma_Address acc) cs (s\<lparr>pbank := b\<rparr>) = Inr s'"
    by (auto simp: pb_SendCoinsFromModuleToModule_def Let_def split: prod.splits option.splits if_splits)
  note acc = module_account_inv [OF assms(2) c(2)]
  then have "ma_Address acc \<noteq> reserve B" "ak_GetModuleAddress B m \<noteq> reserve B"
    using reserve_name c(3) module_to_module(2) by metis+
  then show ?thesis using pb_SendCoins_spec [OF acc(1) _ _ c(1) acc(3) c(4)] by blast
next
  case (send_msg f t cs a b)
  then have "pb_SendCoins E B a b cs s = Inr s'" "b \<noteq> reserve B"
    using assms(3) by (auto simp: pb_Send_def rbind_eq_Inr split: if_splits)
  then show ?thesis using pb_SendCoins_spec [OF assms(2) send_msg(3) _ send_msg(4,6)] by blast
qed

lemma pb_steps_inv:
  "pb_steps E B s s' \<Longrightarrow> pb_inv E B binv s \<Longrightarrow> bk_BlockedAddr B (reserve B) \<Longrightarrow> pb_inv E B binv s'"
  by (induction rule: pb_steps.induct) (auto intro: pb_step_inv)

end



section \<open>Corner cases\<close>




end
