(* ===== verification/PreciseBankGenesis.thy ===== *)
theory PreciseBankGenesis
  imports PreciseBankProps
begin

text \<open>
  The genesis of \<open>x/precisebank\<close>: a validated genesis state establishes the invariant, and an export
  imports back to the same state.
\<close>

section \<open>Genesis\<close>

lemma SumAmount_eq: "SumAmount fbs = sum_list (map fb_Amount fbs)"
proof -
  have "foldl (\<lambda>sum fb. sum + fb_Amount fb) n fbs = n + sum_list (map fb_Amount fbs)" for n
    by (induction fbs arbitrary: n) auto
  then show ?thesis by (simp add: SumAmount_def)
qed

text \<open>What validation establishes: every address decodes, every amount is a proper fraction, no address twice.\<close>

lemma validate_balances_ok:
  "validate_balances E B seen fbs = Inr () \<Longrightarrow>
     (\<forall>fb \<in> set fbs. (\<exists>a. acc_FromBech32 B (fb_Address fb) = Inr a) \<and> 0 < fb_Amount fb \<and> fb_Amount fb < conversion E) \<and>
     distinct (map (to_lower \<circ> fb_Address) fbs) \<and> (to_lower \<circ> fb_Address) ` set fbs \<inter> set seen = {}"
proof (induction fbs arbitrary: seen)
  case (Cons fb fbs)
  then have c: "FractionalBalance_Validate E B fb = Inr ()" "to_lower (fb_Address fb) \<notin> set seen"
    "validate_balances E B (to_lower (fb_Address fb) # seen) fbs = Inr ()"
    by (auto split: sum.splits if_splits)
  then have "(\<exists>a. acc_FromBech32 B (fb_Address fb) = Inr a) \<and> 0 < fb_Amount fb \<and> fb_Amount fb < conversion E"
    by (auto simp: FractionalBalance_Validate_def ValidateFractionalAmount_def rbind_eq_Inr split: if_splits)
  with Cons.IH [OF c(3)] c(2) show ?case by auto
qed simp

definition decode_address :: "'b bank \<Rightarrow> FractionalBalance \<Rightarrow> AccAddress" where
  "decode_address B fb = (case acc_FromBech32 B (fb_Address fb) of Inr a \<Rightarrow> a | Inl _ \<Rightarrow> [])"

lemma set_balances_ok:
  assumes "\<forall>fb \<in> set fbs. (\<exists>a. a \<noteq> [] \<and> acc_FromBech32 B (fb_Address fb) = Inr a) \<and> 0 < fb_Amount fb \<and> fb_Amount fb < conversion E"
    "distinct (map (decode_address B) fbs)" "\<forall>fb \<in> set fbs. kv_get (fractional s) (decode_address B fb) = None" "kv_ok (fractional s)"
  shows "\<exists>f. set_balances E B fbs s = Inr (s\<lparr>fractional := f\<rparr>) \<and> kv_ok f \<and>
    kv_get f = kv_get (fractional s) ++ map_of (map (\<lambda>fb. (decode_address B fb, fb_Amount fb)) fbs) \<and>
    kv_sum f = kv_sum (fractional s) + SumAmount fbs"
  using assms
proof (induction fbs arbitrary: s)
  case Nil
  then show ?case by (intro exI [of _ "fractional s"]) (simp add: SumAmount_def)
next
  case (Cons fb fbs)
  then obtain a where a: "a \<noteq> []" "acc_FromBech32 B (fb_Address fb) = Inr a" by auto
  then have d: "decode_address B fb = a" by (simp add: decode_address_def)
  let ?s = "s\<lparr>fractional := kv_set a (fb_Amount fb) (fractional s)\<rparr>"
  have run: "SetFractionalBalance E a (fb_Amount fb) s = Inr ?s"
    using a Cons.prems(1) by (simp add: SetFractionalBalance_def ValidateFractionalAmount_def)
  have "a \<notin> decode_address B ` set fbs" using Cons.prems(2) d by simp
  then have new: "\<forall>x \<in> set fbs. decode_address B x \<noteq> a" by (auto simp: image_iff)
  have p: "\<forall>x \<in> set fbs. kv_get (fractional ?s) (decode_address B x) = None"
    "\<forall>fb \<in> set fbs. (\<exists>a. a \<noteq> [] \<and> acc_FromBech32 B (fb_Address fb) = Inr a) \<and> 0 < fb_Amount fb \<and> fb_Amount fb < conversion E"
    "distinct (map (decode_address B) fbs)" "kv_ok (fractional ?s)"
    using Cons.prems new by (simp_all add: kv_simps)
  obtain f where f: "set_balances E B fbs ?s = Inr (s\<lparr>fractional := f\<rparr>)" "kv_ok f"
    "kv_get f = kv_get (kv_set a (fb_Amount fb) (fractional s)) ++ map_of (map (\<lambda>fb. (decode_address B fb, fb_Amount fb)) fbs)"
    "kv_sum f = kv_sum (kv_set a (fb_Amount fb) (fractional s)) + SumAmount fbs"
    using Cons.IH [of ?s] p by auto
  have zero: "kv_int (fractional s) a = 0" using Cons.prems(3) d by (simp add: kv_int_def)
  have "a \<notin> dom (map_of (map (\<lambda>fb. (decode_address B fb, fb_Amount fb)) fbs))"
    using new by (auto simp: dom_map_of_conv_image_fst)
  then have get: "kv_get f = kv_get (fractional s) ++ map_of (map (\<lambda>fb. (decode_address B fb, fb_Amount fb)) (fb # fbs))"
    using d by (simp add: f(3) kv_simps map_add_upd_left)
  have "kv_sum f = kv_sum (fractional s) + SumAmount (fb # fbs)"
    using f(4) zero Cons.prems(4) by (simp add: kv_sum_set SumAmount_eq)
  moreover have "set_balances E B (fb # fbs) s = Inr (s\<lparr>fractional := f\<rparr>)" using a(2) run f(1) by simp
  ultimately show ?case using get f(2) by blast
qed

text \<open>
  The documented behaviour of bech32 addresses: a decoded address is not empty, and two strings that
  decode to the same address differ at most in case.
\<close>

definition bech32_laws :: "'b bank \<Rightarrow> bool" where
  "bech32_laws B \<longleftrightarrow>
     (\<forall>x a. acc_FromBech32 B x = Inr a \<longrightarrow> a \<noteq> []) \<and>
     (\<forall>x y a. acc_FromBech32 B x = Inr a \<longrightarrow> acc_FromBech32 B y = Inr a \<longrightarrow> to_lower x = to_lower y)"

lemma validated_balances:
  assumes "bech32_laws B" "validate_balances E B [] fbs = Inr ()"
  shows "\<forall>fb \<in> set fbs. (\<exists>a. a \<noteq> [] \<and> acc_FromBech32 B (fb_Address fb) = Inr a) \<and> 0 < fb_Amount fb \<and> fb_Amount fb < conversion E"
    "distinct (map (decode_address B) fbs)"
proof -
  note ok = validate_balances_ok [OF assms(2)]
  then show *: "\<forall>fb \<in> set fbs. (\<exists>a. a \<noteq> [] \<and> acc_FromBech32 B (fb_Address fb) = Inr a) \<and> 0 < fb_Amount fb \<and> fb_Amount fb < conversion E"
    using assms(1) by (fastforce simp: bech32_laws_def)
  have "to_lower (fb_Address x) = to_lower (fb_Address y)"
    if "x \<in> set fbs" "y \<in> set fbs" "decode_address B x = decode_address B y" for x y
  proof -
    from * that(1,2) obtain a b where "acc_FromBech32 B (fb_Address x) = Inr a" "acc_FromBech32 B (fb_Address y) = Inr b" by blast
    moreover from this have "a = b" using that(3) by (simp add: decode_address_def)
    ultimately show ?thesis using assms(1) unfolding bech32_laws_def by blast
  qed
  with ok show "distinct (map (decode_address B) fbs)"
    unfolding distinct_map inj_on_def comp_def by blast
qed

lemma map_of_range: "map_of xs a = Some v \<Longrightarrow> \<forall>p \<in> set xs. P (snd p) \<Longrightarrow> P v"
  using map_of_SomeD by fastforce

context bank_contract
begin

lemma pb_InitGenesis_inv:
  assumes fresh: "binv (pbank s)" "fractional s = []" "remainder s = None"
    and laws: "bech32_laws B"
    and reserve: "\<forall>fb \<in> set (gs_Balances gs). acc_FromBech32 B (fb_Address fb) \<noteq> Inr (reserve B)"
    and funded: "bk_GetBalance B (pbank s) (reserve B) (Denom E) = 0 \<or> gs \<noteq> pb_DefaultGenesisState"
    and init: "pb_InitGenesis E B gs s = Inr s'"
  shows "pb_inv E B binv s' \<and> GetRemainderAmount s' = gs_Remainder gs"
proof -
  from init obtain acc b where c: "pb_GenesisState_Validate E B gs = Inr ()" "ak_GetModuleAccount B (pbank s) pb_ModuleName = (Some acc, b)"
    "\<not> (TotalAmountWithRemainder gs \<noteq> bk_GetBalance B b (reserve B) (Denom E) * conversion E \<and> \<not> (gs_Balances gs = [] \<and> gs_Remainder gs = 0))"
    "rbind (set_balances E B (gs_Balances gs) (s\<lparr>pbank := b\<rparr>)) (SetRemainderAmount E (gs_Remainder gs)) = Inr s'"
    by (auto simp: pb_InitGenesis_def Let_def split: sum.splits prod.splits option.splits if_splits)
  have b: "binv b" "bk_GetBalance B b (reserve B) (Denom E) = bk_GetBalance B (pbank s) (reserve B) (Denom E)"
    using GetModuleAccount_keeps [OF fresh(1) c(2)] by (auto simp: moved_def)
  have v: "validate_balances E B [] (gs_Balances gs) = Inr ()" "0 \<le> gs_Remainder gs" "gs_Remainder gs < conversion E"
    using c(1) by (auto simp: pb_GenesisState_Validate_def FractionalBalances_Validate_def Let_def split: sum.splits if_splits)
  note ok = validated_balances [OF laws v(1)]
  obtain f where f: "set_balances E B (gs_Balances gs) (s\<lparr>pbank := b\<rparr>) = Inr (s\<lparr>pbank := b, fractional := f\<rparr>)" "kv_ok f"
    "kv_get f = map_of (map (\<lambda>fb. (decode_address B fb, fb_Amount fb)) (gs_Balances gs))" "kv_sum f = SumAmount (gs_Balances gs)"
    using set_balances_ok [OF ok, of "s\<lparr>pbank := b\<rparr>"] fresh(2) by (auto simp: kv_sum_def kv_get_def [abs_def])
  have s': "s' = s\<lparr>pbank := b, fractional := f, remainder := (if gs_Remainder gs = 0 then None else Some (gs_Remainder gs))\<rparr>"
    using c(4) f(1) by (simp add: SetRemainderAmount_eq [OF v(2,3)] del: if_split)
  have "TotalAmountWithRemainder gs = bk_GetBalance B b (reserve B) (Denom E) * conversion E"
    using c(3) funded b(2) by (cases gs) (auto simp: pb_DefaultGenesisState_def TotalAmountWithRemainder_def SumAmount_def)
  moreover have "kv_get f (reserve B) = None"
    using reserve ok(1) by (force simp: f(3) map_of_eq_None_iff decode_address_def)
  moreover have "0 < v \<and> v < conversion E" if "kv_get f a = Some v" for a v
    using map_of_range [OF that [unfolded f(3)], of "\<lambda>v. 0 < v \<and> v < conversion E"] ok(1) by auto
  ultimately show ?thesis
    using b(1) f(2,4) v(2,3) by (simp add: s' pb_inv_def TotalAmountWithRemainder_def GetRemainderAmount_def)
qed

end



definition ex_empty :: "ledger pbState" where
  "ex_empty = ex_pb\<lparr>fractional := [], remainder := None\<rparr>"

lemma ledger_bech32: "bech32_laws ledger_bank"
  by (auto simp: bech32_laws_def ledger_bank_def l_from_def Let_def split: if_splits)


section \<open>Export and import\<close>

lemma ExportGenesis_eq:
  "pb_ExportGenesis B s =
     \<lparr>gs_Balances = map (\<lambda>(a, n). NewFractionalBalance (acc_String B a) n) (fractional s),
      gs_Remainder = GetRemainderAmount s\<rparr>"
proof -
  have "iterate (\<lambda>addr amount balances. (balances @ [NewFractionalBalance (acc_String B addr) amount], False)) f bs =
     bs @ map (\<lambda>(a, n). NewFractionalBalance (acc_String B a) n) f" for f bs
    by (induction f arbitrary: bs) auto
  then show ?thesis by (simp add: pb_ExportGenesis_def IterateFractionalBalances_def)
qed

lemma validate_balances_complete:
  assumes "\<forall>fb \<in> set fbs. (\<exists>a. acc_FromBech32 B (fb_Address fb) = Inr a) \<and> 0 < fb_Amount fb \<and> fb_Amount fb < conversion E"
    "distinct (map (to_lower \<circ> fb_Address) fbs)" "\<forall>fb \<in> set fbs. to_lower (fb_Address fb) \<notin> set seen"
  shows "validate_balances E B seen fbs = Inr ()"
  using assms
proof (induction fbs arbitrary: seen)
  case (Cons fb fbs)
  then have "FractionalBalance_Validate E B fb = Inr ()"
    by (auto simp: FractionalBalance_Validate_def ValidateFractionalAmount_def)
  moreover have "validate_balances E B (to_lower (fb_Address fb) # seen) fbs = Inr ()"
    using Cons.prems by (intro Cons.IH) (auto simp: image_iff)
  ultimately show ?case using Cons.prems(3) by simp
qed simp

text \<open>The documented behaviour of printed addresses: they are lower case and decode to the address.\<close>

definition bech32_printed :: "'b bank \<Rightarrow> bool" where
  "bech32_printed B \<longleftrightarrow>
     (\<forall>a. a \<noteq> [] \<longrightarrow> acc_FromBech32 B (acc_String B a) = Inr a \<and> to_lower (acc_String B a) = acc_String B a)"

lemma emod_mult_self: "0 < c \<Longrightarrow> emod (n * c) c = 0"
  by (simp add: emod_def)

context bank_contract
begin

lemma export_validates:
  assumes inv: "pb_inv E B binv s" and ne: "kv_get (fractional s) [] = None" and laws: "bech32_printed B"
  shows "pb_GenesisState_Validate E B (pb_ExportGenesis B s) = Inr ()"
proof -
  have ok: "kv_ok (fractional s)" "\<And>a v. (a, v) \<in> set (fractional s) \<Longrightarrow> a \<noteq> [] \<and> 0 < v \<and> v < conversion E"
    using inv ne kv_get_in [of "fractional s"] by (fastforce simp: pb_inv_def)+
  have addr: "acc_FromBech32 B (acc_String B a) = Inr a" "to_lower (acc_String B a) = acc_String B a"
    if "(a, v) \<in> set (fractional s)" for a v
    using laws ok(2) [OF that] by (auto simp: bech32_printed_def)
  have "inj_on (acc_String B) (fst ` set (fractional s))"
    by (intro inj_on_inverseI [of _ "\<lambda>x. case acc_FromBech32 B x of Inr a \<Rightarrow> a | Inl _ \<Rightarrow> []"]) (auto simp: addr(1))
  then have "distinct (map (acc_String B) (map fst (fractional s)))"
    using distinct_kv_keys [OF ok(1)] by (simp add: distinct_map kv_keys_def comp_inj_on)
  moreover have "map (to_lower \<circ> fb_Address) (gs_Balances (pb_ExportGenesis B s)) = map (acc_String B) (map fst (fractional s))"
    using addr(2) by (auto simp: ExportGenesis_eq NewFractionalBalance_def)
  ultimately have "distinct (map (to_lower \<circ> fb_Address) (gs_Balances (pb_ExportGenesis B s)))" by simp
  then have "validate_balances E B [] (gs_Balances (pb_ExportGenesis B s)) = Inr ()"
    by (rule validate_balances_complete [rotated]) (use ok(2) addr(1) in \<open>auto simp: ExportGenesis_eq NewFractionalBalance_def\<close>)
  moreover have "SumAmount (gs_Balances (pb_ExportGenesis B s)) = kv_sum (fractional s)"
    by (simp add: SumAmount_eq ExportGenesis_eq kv_sum_def NewFractionalBalance_def comp_def split_def)
  ultimately show ?thesis
    using inv emod_mult_self [OF conversion_pos, of "bk_GetBalance B (pbank s) (reserve B) (Denom E)"]
    by (simp add: pb_GenesisState_Validate_def FractionalBalances_Validate_def ExportGenesis_eq pb_inv_def)
qed

lemma export_import:
  assumes inv: "pb_inv E B binv s" and ne: "kv_get (fractional s) [] = None"
    and laws: "bech32_printed B" "bech32_laws B"
    and acc: "ak_GetModuleAccount B (pbank s) pb_ModuleName = (Some acc, b)"
    and fresh: "pbank t = pbank s" "fractional t = []" "remainder t = None"
  shows "\<exists>s'. pb_InitGenesis E B (pb_ExportGenesis B s) t = Inr s' \<and>
    fractional s' = fractional s \<and> GetRemainderAmount s' = GetRemainderAmount s"
proof -
  let ?gs = "pb_ExportGenesis B s"
  note valid = export_validates [OF inv ne laws(1)]
  then have v: "validate_balances E B [] (gs_Balances ?gs) = Inr ()"
    by (auto simp: pb_GenesisState_Validate_def FractionalBalances_Validate_def split: sum.splits)
  have rem: "0 \<le> GetRemainderAmount s" "GetRemainderAmount s < conversion E" "kv_ok (fractional s)" using inv by (simp_all add: pb_inv_def)
  have decode: "decode_address B (NewFractionalBalance (acc_String B a) n) = a" if "a \<noteq> []" for a n
    using laws(1) that by (simp add: bech32_printed_def decode_address_def NewFractionalBalance_def)
  have ne': "p \<in> set (fractional s) \<Longrightarrow> fst p \<noteq> []" for p using ne by (force simp: kv_get_None)
  have pairs: "map (\<lambda>fb. (decode_address B fb, fb_Amount fb)) (gs_Balances ?gs) = fractional s"
    using ne' decode by (auto simp: ExportGenesis_eq NewFractionalBalance_def intro!: map_idI)
  obtain f where f: "set_balances E B (gs_Balances ?gs) (t\<lparr>pbank := b\<rparr>) = Inr (t\<lparr>pbank := b, fractional := f\<rparr>)" "kv_ok f"
    "kv_get f = map_of (fractional s)"
    using set_balances_ok [OF validated_balances [OF laws(2) v], of "t\<lparr>pbank := b\<rparr>"] fresh(2) pairs
    by (auto simp: kv_get_def [abs_def])
  then have "f = fractional s" using rem(3) by (intro kv_eqI) (auto simp: kv_get_def fun_eq_iff)
  moreover have "TotalAmountWithRemainder ?gs = bk_GetBalance B b (reserve B) (Denom E) * conversion E"
    using inv GetModuleAccount_keeps [OF _ acc]
    by (simp add: TotalAmountWithRemainder_def SumAmount_eq ExportGenesis_eq pb_inv_def kv_sum_def moved_def
        NewFractionalBalance_def comp_def split_def)
  moreover have "gs_Remainder ?gs = GetRemainderAmount s" by (simp add: ExportGenesis_eq)
  ultimately show ?thesis
    using valid f(1) acc fresh(1) SetRemainderAmount_eq [OF rem(1,2), of "t\<lparr>pbank := b, fractional := f\<rparr>"]
    by (simp add: pb_InitGenesis_def Let_def GetRemainderAmount_def)
qed

end

text \<open>
  C37. Exporting a state that satisfies the invariant and importing the export into an empty store, over the same
  bank, succeeds and gives back the same fractional balances and the same remainder.
\<close>

theorem ExportGenesis_InitGenesis:
  assumes "bank_contract E B binv" "pb_inv E B binv s" "kv_get (fractional s) [] = None"
    "bech32_printed B" "bech32_laws B" "ak_GetModuleAccount B (pbank s) pb_ModuleName = (Some acc, b)"
    "pbank t = pbank s" "fractional t = []" "remainder t = None"
  shows "\<exists>s'. pb_InitGenesis E B (pb_ExportGenesis B s) t = Inr s' \<and>
    fractional s' = fractional s \<and> GetRemainderAmount s' = GetRemainderAmount s"
  by (rule bank_contract.export_import [OF assms])

lemma unat_byte: "unat (w :: 8 word) < 256"
  using unsigned_less [of w] by simp

lemma l_decode_string: "l_decode (l_string a) = a"
proof (induction a)
  case (Cons w a)
  have "(of_char (char_of (97 + unat w div 16) :: char) :: nat) = 97 + unat w div 16"
    "(of_char (char_of (97 + unat w mod 16) :: char) :: nat) = 97 + unat w mod 16" using unat_byte [of w] by simp_all
  with Cons show ?case by (simp add: l_string_def)
qed (simp add: l_string_def)

lemma l_string_lower: "to_lower (l_string a) = l_string a"
proof -
  have "to_lower_char (char_of (97 + n :: nat)) = char_of (97 + n)" if "n < 16" for n
    using that by (simp add: to_lower_char_def)
  moreover have "unat w div 16 < 16" for w :: "8 word" using unat_byte [of w] by simp
  ultimately show ?thesis by (induction a) (simp_all add: to_lower_def l_string_def)
qed

lemma ledger_printed: "bech32_printed ledger_bank"
  by (simp add: bech32_printed_def ledger_bank_def l_from_def l_decode_string l_string_lower)

theorem ExportGenesis_InitGenesis_witness:
  "\<exists>s'. pb_InitGenesis ex_coin_info ledger_bank (pb_ExportGenesis ledger_bank ex_pb) ex_empty = Inr s' \<and>
     fractional s' = [([3], 300000000000), ([4], 600000000000)] \<and> GetRemainderAmount s' = 100000000000"
proof -
  obtain acc b where "ak_GetModuleAccount ledger_bank (pbank ex_pb) pb_ModuleName = (Some acc, b)"
    by (simp add: ledger_bank_def l_account_def l_module_def)
  from ExportGenesis_InitGenesis [OF led.bank_contract_axioms ex_pb_inv _ ledger_printed ledger_bech32 this, of ex_empty]
  show ?thesis by (simp add: ex_empty_def) (simp add: ex_pb_def GetRemainderAmount_def)
qed

end
