(* ===== verification/VmKeeper.thy ===== *)
theory VmKeeper
  imports StateDBCommit PreciseBankGenesis
begin

text \<open>
  The keeper of \<open>x/vm\<close> as \<open>statedb.Keeper\<close> (\<open>x/vm/keeper/statedb.go\<close>, \<open>keeper.go\<close>, \<open>utils.go\<close>) over the bank
  wrapper (\<open>x/vm/wrappers/bank.go\<close>) and \<open>x/precisebank\<close>. A balance of the EVM is the spendable extended
  balance; \<open>SetBalance\<close> mints or burns the difference. The account keeper of \<open>x/auth\<close>, the hash
  function and \<open>ParseDelegation\<close> of go-ethereum are fields of the record \<open>vmKeeper\<close>. Spans and log lines have no effect.
\<close>

section \<open>State and dependencies\<close>

definition address_Bytes :: "address \<Rightarrow> AccAddress" where
  "address_Bytes a = map (\<lambda>i. ucast (drop_bit (8 * (19 - i)) a)) [0..<20]"

text \<open>\<open>BaseAccount a x\<close> is \<open>NewBaseAccount\<close> with the key, number and sequence of \<open>x\<close>.\<close>

record ('b, 'a) vmKeeper =
  vk_coin :: EvmCoinInfo
  vk_bank :: "'b bank"
  au_GetAccount :: "'b \<Rightarrow> AccAddress \<Rightarrow> 'a option"
  au_NewAccountWithAddress :: "'b \<Rightarrow> AccAddress \<Rightarrow> 'a \<times> 'b"
  au_SetAccount :: "'b \<Rightarrow> 'a \<Rightarrow> 'b"
  au_RemoveAccount :: "'b \<Rightarrow> 'a \<Rightarrow> 'b"
  au_Address :: "'a \<Rightarrow> AccAddress"
  au_Sequence :: "'a \<Rightarrow> u64"
  au_SetSequence :: "'a \<Rightarrow> u64 \<Rightarrow> 'a res"
  au_BaseAccount :: "AccAddress \<Rightarrow> 'a \<Rightarrow> 'a"
  vk_Keccak256 :: "bytes \<Rightarrow> hash"
  vk_ParseDelegation :: "bytes \<Rightarrow> address option"
  vk_CacheEvents :: "event list \<Rightarrow> event list"

text \<open>
  The stores of a context: the bank with \<open>x/precisebank\<close> and the accounts, and the prefixes
  \<open>KeyPrefixCodeHash\<close>, \<open>KeyPrefixCode\<close> and \<open>KeyPrefixStorage\<close> of the store of \<open>x/vm\<close>.
\<close>

record 'b vmStore =
  vm_pb :: "'b pbState"
  vm_codeHash :: "(address, bytes) kv"
  vm_code :: "(hash, bytes) kv"
  vm_storage :: "address \<Rightarrow> (hash, bytes) kv"

definition vm_ModuleName :: string where
  "vm_ModuleName = ''evm''"

definition vm_bank_state :: "'b vmStore \<Rightarrow> 'b" where
  "vm_bank_state c = pbank (vm_pb c)"

section \<open>The bank wrapper\<close>

definition bw_MintAmountToAccount ::
  "('b, 'a) vmKeeper \<Rightarrow> AccAddress \<Rightarrow> int \<Rightarrow> 'b pbState \<Rightarrow> 'b pbState res" where
  "bw_MintAmountToAccount D recipientAddr amt s =
     rbind (ConvertEvmCoinDenomToExtendedDenom (vk_coin D) (Denom (vk_coin D), amt)) (\<lambda>convertedCoin.
     let coinsToMint = [convertedCoin] in
     rbind (pb_MintCoins (vk_coin D) (vk_bank D) vm_ModuleName coinsToMint s) (\<lambda>s1.
     pb_SendCoinsFromModuleToAccount (vk_coin D) (vk_bank D) vm_ModuleName recipientAddr coinsToMint s1))"

definition bw_BurnAmountFromAccount ::
  "('b, 'a) vmKeeper \<Rightarrow> AccAddress \<Rightarrow> int \<Rightarrow> 'b pbState \<Rightarrow> 'b pbState res" where
  "bw_BurnAmountFromAccount D account amt s =
     rbind (ConvertEvmCoinDenomToExtendedDenom (vk_coin D) (Denom (vk_coin D), amt)) (\<lambda>convertedCoin.
     let coinsToBurn = [convertedCoin] in
     rbind (pb_SendCoinsFromAccountToModule (vk_coin D) (vk_bank D) account vm_ModuleName coinsToBurn s) (\<lambda>s1.
     pb_BurnCoins (vk_coin D) (vk_bank D) vm_ModuleName coinsToBurn s1))"

definition bw_GetBalance :: "('b, 'a) vmKeeper \<Rightarrow> 'b pbState \<Rightarrow> AccAddress \<Rightarrow> denom \<Rightarrow> int res" where
  "bw_GetBalance D s addr d =
     (if d \<noteq> Denom (vk_coin D) then Inl (Panic ''expected evm denom'')
      else Inr (pb_GetBalance (vk_coin D) (vk_bank D) s addr (ExtendedDenom (vk_coin D))))"

definition bw_SpendableCoin :: "('b, 'a) vmKeeper \<Rightarrow> 'b pbState \<Rightarrow> AccAddress \<Rightarrow> denom \<Rightarrow> int res" where
  "bw_SpendableCoin D s addr d =
     (if d \<noteq> Denom (vk_coin D) then Inl (Panic ''expected evm denom'')
      else Inr (pb_SpendableCoin (vk_coin D) (vk_bank D) s addr (ExtendedDenom (vk_coin D))))"

text \<open>\<open>IsZero\<close> is the SDK's test on coins; the conversion sorts with \<open>Sort\<close>.\<close>

definition bw_SendCoinsFromAccountToModule ::
  "(coins \<Rightarrow> coins) \<Rightarrow> (coins \<Rightarrow> bool) \<Rightarrow> ('b, 'a) vmKeeper \<Rightarrow> AccAddress \<Rightarrow> string \<Rightarrow> coins \<Rightarrow> 'b pbState \<Rightarrow> 'b pbState res" where
  "bw_SendCoinsFromAccountToModule Sort IsZero D senderAddr recipientModule cs s =
     (let convertedCoins = ConvertCoinsDenomToExtendedDenom Sort (vk_coin D) cs in
      if IsZero convertedCoins then Inr s
      else pb_SendCoinsFromAccountToModule (vk_coin D) (vk_bank D) senderAddr recipientModule convertedCoins s)"

definition bw_SendCoinsFromModuleToAccount ::
  "(coins \<Rightarrow> coins) \<Rightarrow> (coins \<Rightarrow> bool) \<Rightarrow> ('b, 'a) vmKeeper \<Rightarrow> string \<Rightarrow> AccAddress \<Rightarrow> coins \<Rightarrow> 'b pbState \<Rightarrow> 'b pbState res" where
  "bw_SendCoinsFromModuleToAccount Sort IsZero D senderModule recipientAddr cs s =
     (let convertedCoins = ConvertCoinsDenomToExtendedDenom Sort (vk_coin D) cs in
      if IsZero convertedCoins then Inr s
      else pb_SendCoinsFromModuleToAccount (vk_coin D) (vk_bank D) senderModule recipientAddr convertedCoins s)"

section \<open>Reads\<close>

definition Uint256FromBigInt :: "int \<Rightarrow> u256 res" where
  "Uint256FromBigInt i =
     (if i < 0 then Inl (Err ''trying to convert negative *big.Int to uint256.Int'')
      else if 2 ^ 256 \<le> i then Inl (Err ''overflow trying to convert *big.Int to uint256.Int'')
      else Inr (word_of_int i))"

text \<open>A balance beyond 256 bits is the nil pointer; the denomination passed is always the right one.\<close>

definition vm_SpendableCoin :: "('b, 'a) vmKeeper \<Rightarrow> 'b vmStore \<Rightarrow> address \<Rightarrow> u256 option" where
  "vm_SpendableCoin D c addr =
     (case rbind (bw_SpendableCoin D (vm_pb c) (address_Bytes addr) (Denom (vk_coin D))) Uint256FromBigInt of
        Inl _ \<Rightarrow> None | Inr v \<Rightarrow> Some v)"

definition vm_GetBalance :: "('b, 'a) vmKeeper \<Rightarrow> 'b vmStore \<Rightarrow> address \<Rightarrow> u256 option" where
  "vm_GetBalance D c addr =
     (case rbind (bw_GetBalance D (vm_pb c) (address_Bytes addr) (Denom (vk_coin D))) Uint256FromBigInt of
        Inl _ \<Rightarrow> None | Inr v \<Rightarrow> Some v)"

definition vm_EmptyCodeHash :: "('b, 'a) vmKeeper \<Rightarrow> hash" where
  "vm_EmptyCodeHash D = vk_Keccak256 D []"

definition vm_GetCodeHash :: "('b, 'a) vmKeeper \<Rightarrow> 'b vmStore \<Rightarrow> address \<Rightarrow> hash" where
  "vm_GetCodeHash D c addr =
     (case kv_get (vm_codeHash c) addr of
        None \<Rightarrow> vm_EmptyCodeHash D
      | Some bz \<Rightarrow> if bz = [] then vm_EmptyCodeHash D else BytesToHash bz)"

definition vm_GetAccountWithoutBalance :: "('b, 'a) vmKeeper \<Rightarrow> 'b vmStore \<Rightarrow> address \<Rightarrow> AccountIn option" where
  "vm_GetAccountWithoutBalance D c addr =
     (case au_GetAccount D (vm_bank_state c) (address_Bytes addr) of
        None \<Rightarrow> None
      | Some acct \<Rightarrow> Some \<lparr>in_Nonce = au_Sequence D acct, in_Balance = None, in_CodeHash = Some (vm_GetCodeHash D c addr)\<rparr>)"

definition vm_GetAccount :: "('b, 'a) vmKeeper \<Rightarrow> 'b vmStore \<Rightarrow> address \<Rightarrow> AccountIn option" where
  "vm_GetAccount D c addr =
     (case vm_GetAccountWithoutBalance D c addr of
        None \<Rightarrow> None | Some acct \<Rightarrow> Some (acct\<lparr>in_Balance := vm_SpendableCoin D c addr\<rparr>))"

definition vm_GetAccountOrEmpty :: "('b, 'a) vmKeeper \<Rightarrow> 'b vmStore \<Rightarrow> address \<Rightarrow> AccountIn" where
  "vm_GetAccountOrEmpty D c addr =
     (case vm_GetAccount D c addr of
        Some acct \<Rightarrow> acct
      | None \<Rightarrow> \<lparr>in_Nonce = 0, in_Balance = Some 0, in_CodeHash = Some (vm_EmptyCodeHash D)\<rparr>)"

definition vm_GetNonce :: "('b, 'a) vmKeeper \<Rightarrow> 'b vmStore \<Rightarrow> address \<Rightarrow> u64" where
  "vm_GetNonce D c addr =
     (case au_GetAccount D (vm_bank_state c) (address_Bytes addr) of None \<Rightarrow> 0 | Some acct \<Rightarrow> au_Sequence D acct)"

definition vm_GetFastState :: "'b vmStore \<Rightarrow> address \<Rightarrow> hash \<Rightarrow> bytes option" where
  "vm_GetFastState c addr key = kv_get (vm_storage c addr) key"

definition vm_GetState :: "'b vmStore \<Rightarrow> address \<Rightarrow> hash \<Rightarrow> hash" where
  "vm_GetState c addr key =
     (case kv_get (vm_storage c addr) key of
        None \<Rightarrow> 0 | Some value \<Rightarrow> if value = [] then 0 else BytesToHash value)"

definition vm_GetCode :: "'b vmStore \<Rightarrow> hash \<Rightarrow> bytes option" where
  "vm_GetCode c codeHash = kv_get (vm_code c) codeHash"

text \<open>
  The iterators run over the keys in order of their bytes, which is the order of the numbers. \<open>BytesToHash\<close> and
  \<open>BytesToAddress\<close> keep the last 32 and 20 bytes of a key, which drops the prefix.
\<close>

fun iterate_contracts :: "(address \<Rightarrow> hash \<Rightarrow> 'x \<Rightarrow> 'x \<times> bool) \<Rightarrow> (address, bytes) kv \<Rightarrow> 'x \<Rightarrow> 'x" where
  "iterate_contracts cb [] x = x"
| "iterate_contracts cb ((a, v) # kvs) x =
     (case cb a (BytesToHash v) x of (x', stop) \<Rightarrow> if stop then x' else iterate_contracts cb kvs x')"

definition vm_IterateContracts :: "'b vmStore \<Rightarrow> (address \<Rightarrow> hash \<Rightarrow> 'x \<Rightarrow> 'x \<times> bool) \<Rightarrow> 'x \<Rightarrow> 'x" where
  "vm_IterateContracts c cb x = iterate_contracts cb (vm_codeHash c) x"

definition vm_storage_list :: "'b vmStore \<Rightarrow> address \<Rightarrow> (hash \<times> hash) list" where
  "vm_storage_list c addr = map (\<lambda>(k, v). (k, BytesToHash v)) (vm_storage c addr)"

fun foreach :: "(hash \<Rightarrow> hash \<Rightarrow> 'x \<Rightarrow> 'x \<times> bool) \<Rightarrow> (hash \<times> hash) list \<Rightarrow> 'x \<Rightarrow> 'x" where
  "foreach cb [] x = x"
| "foreach cb ((k, v) # kvs) x = (case cb k v x of (x', continue) \<Rightarrow> if \<not> continue then x' else foreach cb kvs x')"

definition vm_ForEachStorage :: "'b vmStore \<Rightarrow> address \<Rightarrow> (hash \<Rightarrow> hash \<Rightarrow> 'x \<Rightarrow> 'x \<times> bool) \<Rightarrow> 'x \<Rightarrow> 'x" where
  "vm_ForEachStorage c addr cb x = foreach cb (vm_storage_list c addr) x"

definition vm_GetAccountStorage :: "'b vmStore \<Rightarrow> address \<Rightarrow> (hash \<times> hash) list" where
  "vm_GetAccountStorage c addr = vm_ForEachStorage c addr (\<lambda>key value storage. (storage @ [(key, value)], True)) []"

definition vm_IsContract :: "('b, 'a) vmKeeper \<Rightarrow> 'b vmStore \<Rightarrow> address \<Rightarrow> bool" where
  "vm_IsContract D c addr =
     (case vm_GetCode c (vm_GetCodeHash D c addr) of
        None \<Rightarrow> False
      | Some code \<Rightarrow> code \<noteq> [] \<and> vk_ParseDelegation D code = None)"

section \<open>Writes\<close>

definition vm_SetState :: "'b vmStore \<Rightarrow> address \<Rightarrow> hash \<Rightarrow> bytes \<Rightarrow> 'b vmStore" where
  "vm_SetState c addr key value = c\<lparr>vm_storage := (vm_storage c)(addr := kv_set key value (vm_storage c addr))\<rparr>"

definition vm_DeleteState :: "'b vmStore \<Rightarrow> address \<Rightarrow> hash \<Rightarrow> 'b vmStore" where
  "vm_DeleteState c addr key = c\<lparr>vm_storage := (vm_storage c)(addr := kv_delete key (vm_storage c addr))\<rparr>"

definition vm_SetCodeHash :: "'b vmStore \<Rightarrow> address \<Rightarrow> bytes \<Rightarrow> 'b vmStore" where
  "vm_SetCodeHash c addr hashBytes = c\<lparr>vm_codeHash := kv_set addr hashBytes (vm_codeHash c)\<rparr>"

definition vm_DeleteCodeHash :: "'b vmStore \<Rightarrow> address \<Rightarrow> 'b vmStore" where
  "vm_DeleteCodeHash c addr = c\<lparr>vm_codeHash := kv_delete addr (vm_codeHash c)\<rparr>"

definition vm_SetCode :: "'b vmStore \<Rightarrow> hash \<Rightarrow> bytes \<Rightarrow> 'b vmStore" where
  "vm_SetCode c codeHash code = c\<lparr>vm_code := kv_set codeHash code (vm_code c)\<rparr>"

definition vm_DeleteCode :: "'b vmStore \<Rightarrow> hash \<Rightarrow> 'b vmStore" where
  "vm_DeleteCode c codeHash = c\<lparr>vm_code := kv_delete codeHash (vm_code c)\<rparr>"

definition vm_SetBalance :: "('b, 'a) vmKeeper \<Rightarrow> 'b vmStore \<Rightarrow> address \<Rightarrow> u256 option \<Rightarrow> 'b vmStore res" where
  "vm_SetBalance D c addr amount =
     (case amount of
        None \<Rightarrow> Inr c
      | Some amt \<Rightarrow>
          rbind (bw_SpendableCoin D (vm_pb c) (address_Bytes addr) (Denom (vk_coin D))) (\<lambda>balance.
          let delta = uint amt - balance in
          if 0 < delta then
            rbind (bw_MintAmountToAccount D (address_Bytes addr) delta (vm_pb c)) (\<lambda>s. Inr (c\<lparr>vm_pb := s\<rparr>))
          else if delta < 0 then
            rbind (bw_BurnAmountFromAccount D (address_Bytes addr) (- delta) (vm_pb c)) (\<lambda>s. Inr (c\<lparr>vm_pb := s\<rparr>))
          else Inr c))"

definition vm_with_bank :: "'b vmStore \<Rightarrow> 'b \<Rightarrow> 'b vmStore" where
  "vm_with_bank c b = c\<lparr>vm_pb := (vm_pb c)\<lparr>pbank := b\<rparr>\<rparr>"

definition vm_SetAccount :: "('b, 'a) vmKeeper \<Rightarrow> 'b vmStore \<Rightarrow> address \<Rightarrow> Account \<Rightarrow> 'b vmStore res" where
  "vm_SetAccount D c addr account =
     (let (acct, c1) =
        (case au_GetAccount D (vm_bank_state c) (address_Bytes addr) of
           Some acct \<Rightarrow> (acct, c)
         | None \<Rightarrow> (case au_NewAccountWithAddress D (vm_bank_state c) (address_Bytes addr) of
                     (acct, b) \<Rightarrow> (acct, vm_with_bank c b)))
      in
      rbind (au_SetSequence D acct (acc_Nonce account)) (\<lambda>acct1.
      let c2 = (if acc_CodeHash account = vm_EmptyCodeHash D then vm_DeleteCodeHash c1 addr
                else vm_SetCodeHash c1 addr (hash_Bytes (acc_CodeHash account)));
          c3 = vm_with_bank c2 (au_SetAccount D (vm_bank_state c2) acct1)
      in vm_SetBalance D c3 addr (Some (acc_Balance account))))"

definition vm_DeleteAccount :: "('b, 'a) vmKeeper \<Rightarrow> 'b vmStore \<Rightarrow> address \<Rightarrow> 'b vmStore res" where
  "vm_DeleteAccount D c addr =
     (case au_GetAccount D (vm_bank_state c) (address_Bytes addr) of
        None \<Rightarrow> Inr c
      | Some acct \<Rightarrow>
          if \<not> vm_IsContract D c addr then Inl (Err ''only smart contracts can be self-destructed'')
          else
            let c1 = vm_with_bank c (au_SetAccount D (vm_bank_state c) (au_BaseAccount D (address_Bytes addr) acct)) in
            rbind (vm_SetBalance D c1 addr (Some 0)) (\<lambda>c2.
            let keys = vm_ForEachStorage c2 addr (\<lambda>key _ keys. (keys @ [key], True)) [];
                c3 = fold (\<lambda>key c. vm_DeleteState c addr key) keys c2;
                c4 = vm_DeleteCodeHash c3 addr
            in Inr (vm_with_bank c4 (au_RemoveAccount D (vm_bank_state c4) acct))))"

text \<open>The keeper as the interface that \<open>StateDB\<close> uses.\<close>

definition vm_statedb_keeper :: "('b, 'a) vmKeeper \<Rightarrow> 'b vmStore keeper" where
  "vm_statedb_keeper D =
     \<lparr>k_GetAccount = vm_GetAccount D, k_GetState = vm_GetState, k_GetCode = vm_GetCode,
      k_ForEachStorage = vm_storage_list, k_SetAccount = vm_SetAccount D,
      k_DeleteState = vm_DeleteState, k_SetState = vm_SetState,
      k_DeleteCode = vm_DeleteCode, k_SetCode = vm_SetCode, k_DeleteAccount = vm_DeleteAccount D,
      k_Keccak256 = vk_Keccak256 D, k_MultiStoreNil = (\<lambda>_. False), k_CacheContext = (\<lambda>c. c),
      k_CacheEvents = vk_CacheEvents D\<rparr>"

end
