(* ===== verification/VmKeeperBooks.thy ===== *)
theory VmKeeperBooks
  imports VmKeeper
begin

text \<open>
  The keeper of \<open>x/vm\<close> meets the contract that \<open>StateDB\<close> relies on, over \<open>x/precisebank\<close> and the contracts of the
  bank and of the account keeper: reading an account gives back what was written, for any nonce,
  balance and code hash, and nobody else's account changes.
\<close>

section \<open>Addresses\<close>

lemma address_Bytes_length [simp]: "length (address_Bytes a) = 20"
  by (simp add: address_Bytes_def)

lemma address_Bytes_ne [simp]: "address_Bytes a \<noteq> []"
  using address_Bytes_length [of a] by (metis list.size(3) zero_neq_numeral)

lemma address_Bytes_inj [simp]: "address_Bytes a = address_Bytes b \<longleftrightarrow> a = b"
proof
  assume eq: "address_Bytes a = address_Bytes b"
  show "a = b"
  proof (rule bit_word_eqI)
    fix k :: nat
    assume "k < LENGTH(160)"
    then have k: "19 - k div 8 < 20" "8 * (19 - (19 - k div 8)) + k mod 8 = k" by auto
    have nth: "address_Bytes x ! (19 - k div 8) = ucast (drop_bit (8 * (19 - (19 - k div 8))) x)" for x
      using k(1) by (simp add: address_Bytes_def del: upt_Suc)
    have "bit (ucast (drop_bit (8 * (19 - (19 - k div 8))) x) :: 8 word) (k mod 8) = bit x k" for x :: address
      using k(2) by (simp add: bit_ucast_iff bit_drop_bit_eq)
    then show "bit a k = bit b k" using nth [of a] nth [of b] eq by metis
  qed
qed simp

section \<open>Reads\<close>

lemma Uint256_uint [simp]: "Uint256FromBigInt (uint (w :: u256)) = Inr w"
proof -
  have "uint w < 2 ^ LENGTH(256)" by (rule unsigned_less)
  then show ?thesis by (simp add: Uint256FromBigInt_def)
qed

lemma hash_Bytes_ne [simp]: "hash_Bytes h \<noteq> []"
  by (simp add: hash_Bytes_def)

lemma GetAccount_eq:
  "vm_GetAccount D c b = map_option (\<lambda>acct. \<lparr>in_Nonce = au_Sequence D acct, in_Balance = vm_SpendableCoin D c b,
     in_CodeHash = Some (vm_GetCodeHash D c b)\<rparr>) (au_GetAccount D (vm_bank_state c) (address_Bytes b))"
  by (simp add: vm_GetAccount_def vm_GetAccountWithoutBalance_def split: option.split)

lemma delete_all_states:
  "fold (\<lambda>key c. vm_DeleteState c a key) keys c =
     c\<lparr>vm_storage := (vm_storage c)(a := fold kv_delete keys (vm_storage c a))\<rparr>"
  by (induction keys arbitrary: c) (simp_all add: vm_DeleteState_def)

lemma kv_delete_all: "fold kv_delete (map fst s) s = []"
proof -
  have "kv_get (fold kv_delete ks t) k = (if k \<in> set ks then None else kv_get t k)" for ks t k
    by (induction ks arbitrary: t) (auto simp: kv_simps)
  then have "kv_get (fold kv_delete (map fst s) s) k = None" for k
    by (metis kv_get_None set_map)
  then show ?thesis by (metis kv_get_None equals0I image_is_empty set_empty)
qed

lemma storage_keys: "vm_ForEachStorage c a (\<lambda>key _ keys. (keys @ [key], True)) [] = map fst (vm_storage c a)"
proof -
  have "foreach (\<lambda>key _ keys. (keys @ [key], True)) kvs ks = ks @ map fst kvs" for kvs ks
    by (induction kvs arbitrary: ks) auto
  then show ?thesis by (simp add: vm_ForEachStorage_def vm_storage_list_def comp_def split_def)
qed

section \<open>The contract of the account keeper\<close>

text \<open>Balances and supply are the same, spendable balances too except at one address.\<close>

definition same_money :: "'b bank \<Rightarrow> AccAddress set \<Rightarrow> 'b \<Rightarrow> 'b \<Rightarrow> bool" where
  "same_money B X b b' \<longleftrightarrow>
     (\<forall>a x. bk_GetBalance B b' a x = bk_GetBalance B b a x) \<and>
     (\<forall>a x. a \<notin> X \<longrightarrow> bk_SpendableCoin B b' a x = bk_SpendableCoin B b a x) \<and>
     (\<forall>x. bk_GetSupply B b' x = bk_GetSupply B b x)"

locale vm_env =
  fixes D :: "('b, 'a) vmKeeper" and binv :: "'b \<Rightarrow> bool"
  assumes bank: "bank_contract (vk_coin D) (vk_bank D) binv"
    and evm_module: "ak_GetModuleAddress (vk_bank D) vm_ModuleName \<noteq> []"
    and AmountOf_single: "0 < n \<Longrightarrow>
      coins_AmountOf (vk_bank D) [(ExtendedDenom (vk_coin D), n)] x = (if x = ExtendedDenom (vk_coin D) then n else 0)"
    and GetAccount_address: "binv b \<Longrightarrow> au_GetAccount D b a = Some acc \<Longrightarrow> au_Address D acc = a"
    and NewAccount: "binv b \<Longrightarrow> au_NewAccountWithAddress D b a = (acc, b') \<Longrightarrow>
      au_Address D acc = a \<and> au_GetAccount D b' = au_GetAccount D b \<and> binv b' \<and> same_money (vk_bank D) {} b b'"
    and SetSequence: "au_SetSequence D acc sq = Inr acc' \<Longrightarrow> au_Address D acc' = au_Address D acc \<and> au_Sequence D acc' = sq"
    and SetAccount_get: "au_GetAccount D (au_SetAccount D b acc) a =
      (if a = au_Address D acc then Some acc else au_GetAccount D b a)"
    and SetAccount_old: "binv b \<Longrightarrow> au_GetAccount D b a = Some acc \<Longrightarrow> au_SetSequence D acc sq = Inr acc' \<Longrightarrow>
      binv (au_SetAccount D b acc') \<and> same_money (vk_bank D) {} b (au_SetAccount D b acc')"
    and SetAccount_new: "binv b \<Longrightarrow> au_GetAccount D b a = None \<Longrightarrow> au_NewAccountWithAddress D b a = (acc, b') \<Longrightarrow>
      au_SetSequence D acc sq = Inr acc' \<Longrightarrow>
      binv (au_SetAccount D b' acc') \<and> same_money (vk_bank D) {} b' (au_SetAccount D b' acc')"
    and BaseAccount_address: "au_Address D (au_BaseAccount D a acc) = a"
    and SetAccount_base: "binv b \<Longrightarrow> au_GetAccount D b a = Some acc \<Longrightarrow> a \<noteq> reserve (vk_bank D) \<Longrightarrow>
      binv (au_SetAccount D b (au_BaseAccount D a acc)) \<and>
      same_money (vk_bank D) {a} b (au_SetAccount D b (au_BaseAccount D a acc)) \<and>
      (\<forall>x. bk_SpendableCoin (vk_bank D) (au_SetAccount D b (au_BaseAccount D a acc)) a x = bk_GetBalance (vk_bank D) b a x)"
    and RemoveAccount: "binv b \<Longrightarrow> au_Address D acc \<noteq> reserve (vk_bank D) \<Longrightarrow>
      binv (au_RemoveAccount D b acc) \<and> same_money (vk_bank D) {au_Address D acc} b (au_RemoveAccount D b acc) \<and>
      (\<forall>a. au_GetAccount D (au_RemoveAccount D b acc) a = (if a = au_Address D acc then None else au_GetAccount D b a))"
    and SendCoins_accounts: "bk_SendCoins (vk_bank D) b f t cs = Inr b' \<Longrightarrow> au_GetAccount D b t \<noteq> None \<Longrightarrow>
      au_GetAccount D b' = au_GetAccount D b"
    and MintCoins_accounts: "bk_MintCoins (vk_bank D) b m cs = Inr b' \<Longrightarrow>
      au_GetAccount D b (ak_GetModuleAddress (vk_bank D) m) \<noteq> None \<Longrightarrow> au_GetAccount D b' = au_GetAccount D b"
    and BurnCoins_accounts: "bk_BurnCoins (vk_bank D) b m cs = Inr b' \<Longrightarrow>
      au_GetAccount D b (ak_GetModuleAddress (vk_bank D) m) \<noteq> None \<Longrightarrow> au_GetAccount D b' = au_GetAccount D b"
    and ModuleAccount_accounts: "ak_GetModuleAccount (vk_bank D) b m = (r, b') \<Longrightarrow>
      au_GetAccount D b (ak_GetModuleAddress (vk_bank D) m) \<noteq> None \<Longrightarrow> au_GetAccount D b' = au_GetAccount D b"

section \<open>What the bank calls leave alone\<close>

text \<open>A predicate \<open>Q\<close> that every bank call with a recipient in \<open>R\<close> keeps.\<close>

definition bank_frame :: "'b bank \<Rightarrow> ('b \<Rightarrow> bool) \<Rightarrow> AccAddress set \<Rightarrow> bool" where
  "bank_frame B Q R \<longleftrightarrow>
     (\<forall>b f t cs b'. Q b \<longrightarrow> t \<in> R \<longrightarrow> bk_SendCoins B b f t cs = Inr b' \<longrightarrow> Q b') \<and>
     (\<forall>b m cs b'. Q b \<longrightarrow> ak_GetModuleAddress B m \<in> R \<longrightarrow> bk_MintCoins B b m cs = Inr b' \<longrightarrow> Q b') \<and>
     (\<forall>b m cs b'. Q b \<longrightarrow> ak_GetModuleAddress B m \<in> R \<longrightarrow> bk_BurnCoins B b m cs = Inr b' \<longrightarrow> Q b') \<and>
     (\<forall>b m r b'. Q b \<longrightarrow> ak_GetModuleAddress B m \<in> R \<longrightarrow> ak_GetModuleAccount B b m = (r, b') \<longrightarrow> Q b')"

definition keeps :: "('b \<Rightarrow> bool) \<Rightarrow> ('b pbState \<Rightarrow> 'b pbState res) \<Rightarrow> bool" where
  "keeps P f \<longleftrightarrow> (\<forall>s s'. P (pbank s) \<longrightarrow> f s = Inr s' \<longrightarrow> P (pbank s'))"

named_theorems keeps_intros \<open>rules for computations that keep a predicate of the bank\<close>

lemma keepsD: "keeps P f \<Longrightarrow> P (pbank s) \<Longrightarrow> f s = Inr s' \<Longrightarrow> P (pbank s')"
  by (simp add: keeps_def)

lemma keeps_bind [keeps_intros]: "keeps P f \<Longrightarrow> keeps P g \<Longrightarrow> keeps P (\<lambda>s. rbind (f s) g)"
  unfolding keeps_def rbind_eq_Inr by blast

lemma keeps_if [keeps_intros]: "keeps P f \<Longrightarrow> keeps P (\<lambda>s. if c then f s else Inr s)"
  by (auto simp: keeps_def)

lemma keeps_return [keeps_intros]: "keeps P (\<lambda>s. Inr (EmitEventFractionalBalanceChange a x y s))"
  "keeps P (\<lambda>s. Inr (EmitEventFractionalBalanceChange a x y (EmitEventFractionalBalanceChange a' x' y' s)))"
  by (simp_all add: keeps_def)

lemma keeps_store [keeps_intros]: "keeps P (SetFractionalBalance E a v)" "keeps P (SetRemainderAmount E v)"
proof -
  have "SetFractionalBalance E a v s = Inr s' \<Longrightarrow> pbank s' = pbank s"
    "SetRemainderAmount E v s = Inr s' \<Longrightarrow> pbank s' = pbank s" for s s' :: "'a pbState"
    by (auto simp: SetFractionalBalance_def DeleteFractionalBalance_def SetRemainderAmount_def
        DeleteRemainderAmount_def split: if_splits sum.splits)
  then show "keeps P (SetFractionalBalance E a v)" "keeps P (SetRemainderAmount E v)" unfolding keeps_def by metis+
qed

lemma keeps_on_bank:
  assumes "\<And>b b'. P b \<Longrightarrow> f b = Inr b' \<Longrightarrow> P b'"
  shows "keeps P (on_bank f)" "keeps P (on_bank_upd E B a amt f)"
    "keeps P (\<lambda>s. case on_bank f s of Inl _ \<Rightarrow> Inl e | Inr s' \<Rightarrow> Inr s')"
proof -
  show *: "keeps P (on_bank f)"
    using assms unfolding keeps_def on_bank_Inr by fastforce
  then show "keeps P (on_bank_upd E B a amt f)" by (simp add: keeps_def on_bank_upd_Inr)
  have "(case on_bank f s of Inl _ \<Rightarrow> Inl e | Inr s' \<Rightarrow> Inr s') = Inr t \<longleftrightarrow> on_bank f s = Inr t" for s t
    by (cases "on_bank f s") auto
  with * show "keeps P (\<lambda>s. case on_bank f s of Inl _ \<Rightarrow> Inl e | Inr s' \<Rightarrow> Inr s')" by (simp add: keeps_def)
qed

lemma keeps_start:
  assumes "rbind (if c then h s else Inr s) g = Inr s'" "P (pbank s)" "keeps P h" "keeps P g"
  shows "P (pbank s')"
proof -
  obtain t where t: "(if c then h s else Inr s) = Inr t" "g t = Inr s'" using assms(1) by (auto simp: rbind_eq_Inr)
  have "P (pbank t)" using t(1) assms(2) keepsD [OF assms(3)] by (cases c) auto
  then show ?thesis using keepsD [OF assms(4) _ t(2)] by blast
qed

context bank_contract
begin

text \<open>The frame together with the invariant of the bank, as one predicate.\<close>

lemma frame_calls:
  assumes fr: "bank_frame B Q R" and b: "binv b \<and> Q b"
  shows "t \<in> R \<Longrightarrow> bk_SendCoins B b f t cs = Inr b' \<Longrightarrow> binv b' \<and> Q b'"
    "ak_GetModuleAddress B m \<in> R \<Longrightarrow> bk_MintCoins B b m cs = Inr b' \<Longrightarrow> binv b' \<and> Q b'"
    "ak_GetModuleAddress B m \<in> R \<Longrightarrow> bk_BurnCoins B b m cs = Inr b' \<Longrightarrow> binv b' \<and> Q b'"
    "ak_GetModuleAddress B m \<in> R \<Longrightarrow> ak_GetModuleAccount B b m = (r, b') \<Longrightarrow> binv b' \<and> Q b'"
    "ak_GetModuleAddress B m \<in> R \<Longrightarrow> ak_GetModuleAddress B m \<noteq> [] \<Longrightarrow> ak_GetModuleAddress B m' \<noteq> [] \<Longrightarrow>
      bk_SendCoinsFromModuleToModule B b m' m cs = Inr b' \<Longrightarrow> binv b' \<and> Q b'"
    "ak_GetModuleAddress B m \<in> R \<Longrightarrow> ak_GetModuleAddress B m \<noteq> [] \<Longrightarrow>
      bk_SendCoinsFromAccountToModule B b f m cs = Inr b' \<Longrightarrow> binv b' \<and> Q b'"
proof -
  have binv: "binv b" using b by simp
  show send: "t \<in> R \<Longrightarrow> bk_SendCoins B b f t cs = Inr b' \<Longrightarrow> binv b' \<and> Q b'" for f t
    using fr b SendCoins_moves [OF binv, of f t cs b'] unfolding bank_frame_def by blast
  show "ak_GetModuleAddress B m \<in> R \<Longrightarrow> bk_MintCoins B b m cs = Inr b' \<Longrightarrow> binv b' \<and> Q b'"
    using fr b MintCoins_moves [OF binv, of m cs b'] unfolding bank_frame_def by blast
  show "ak_GetModuleAddress B m \<in> R \<Longrightarrow> bk_BurnCoins B b m cs = Inr b' \<Longrightarrow> binv b' \<and> Q b'"
    using fr b BurnCoins_moves [OF binv, of m cs b'] unfolding bank_frame_def by blast
  show "ak_GetModuleAddress B m \<in> R \<Longrightarrow> ak_GetModuleAccount B b m = (r, b') \<Longrightarrow> binv b' \<and> Q b'"
    using fr b GetModuleAccount_keeps [OF binv, of m r b'] unfolding bank_frame_def by blast
  show "ak_GetModuleAddress B m \<in> R \<Longrightarrow> ak_GetModuleAddress B m \<noteq> [] \<Longrightarrow> ak_GetModuleAddress B m' \<noteq> [] \<Longrightarrow>
      bk_SendCoinsFromModuleToModule B b m' m cs = Inr b' \<Longrightarrow> binv b' \<and> Q b'"
    using send ModuleToModule [OF binv] by simp
  show "ak_GetModuleAddress B m \<in> R \<Longrightarrow> ak_GetModuleAddress B m \<noteq> [] \<Longrightarrow>
      bk_SendCoinsFromAccountToModule B b f m cs = Inr b' \<Longrightarrow> binv b' \<and> Q b'"
    using send AccountToModule [OF binv] by simp
qed

lemma keeps_module_calls:
  assumes fr: "bank_frame B Q R" "ak_GetModuleAddress B m \<in> R"
  shows "keeps (\<lambda>b. binv b \<and> Q b) (on_bank (\<lambda>b. bk_MintCoins B b m cs))"
    "keeps (\<lambda>b. binv b \<and> Q b) (on_bank (\<lambda>b. bk_BurnCoins B b m cs))"
    "keeps (\<lambda>b. binv b \<and> Q b) (on_bank_upd E B a amt (\<lambda>b. bk_BurnCoins B b m cs))"
    and "ak_GetModuleAddress B m \<noteq> [] \<Longrightarrow> ak_GetModuleAddress B m' \<noteq> [] \<Longrightarrow>
      keeps (\<lambda>b. binv b \<and> Q b) (on_bank (\<lambda>b. bk_SendCoinsFromModuleToModule B b m' m cs))"
    "ak_GetModuleAddress B m \<noteq> [] \<Longrightarrow> ak_GetModuleAddress B m' \<noteq> [] \<Longrightarrow>
      keeps (\<lambda>b. binv b \<and> Q b) (on_bank_upd E B a amt (\<lambda>b. bk_SendCoinsFromModuleToModule B b m' m cs))"
    "ak_GetModuleAddress B m \<noteq> [] \<Longrightarrow>
      keeps (\<lambda>b. binv b \<and> Q b) (on_bank_upd E B a amt (\<lambda>b. bk_SendCoinsFromAccountToModule B b a m cs))"
  using frame_calls(2,3,5,6) [OF fr(1) _ fr(2)] by (intro keeps_on_bank; blast)+

lemma keeps_sends:
  assumes fr: "bank_frame B Q R" "t \<in> R"
  shows "keeps (\<lambda>b. binv b \<and> Q b) (on_bank (\<lambda>b. bk_SendCoins B b f t cs))"
    "keeps (\<lambda>b. binv b \<and> Q b) (on_bank_upd E B a amt (\<lambda>b. bk_SendCoins B b f t cs))"
    "keeps (\<lambda>b. binv b \<and> Q b) (\<lambda>s. case on_bank (\<lambda>b. bk_SendCoins B b f t cs) s of Inl _ \<Rightarrow> Inl e | Inr s' \<Rightarrow> Inr s')"
  using frame_calls(1) [OF fr(1) _ fr(2)] by (intro keeps_on_bank; blast)+

lemma extended_keeps:
  assumes fr: "bank_frame B Q R" "reserve B \<in> R" and s: "binv (pbank s) \<and> Q (pbank s)"
  shows "m \<noteq> pb_ModuleName \<Longrightarrow> ak_GetModuleAddress B m \<noteq> [] \<Longrightarrow> ak_GetModuleAddress B m \<in> R \<Longrightarrow>
      mintExtendedCoin E B m amt s = Inr s' \<Longrightarrow> binv (pbank s') \<and> Q (pbank s')"
    "m \<noteq> pb_ModuleName \<Longrightarrow> ak_GetModuleAddress B m \<noteq> [] \<Longrightarrow> ak_GetModuleAddress B m \<in> R \<Longrightarrow>
      burnExtendedCoin E B m amt s = Inr s' \<Longrightarrow> binv (pbank s') \<and> Q (pbank s')"
proof -
  let ?P = "\<lambda>b. binv b \<and> Q b"
  note res = keeps_module_calls [OF fr]
  show "binv (pbank s') \<and> Q (pbank s')" if m: "m \<noteq> pb_ModuleName" "ak_GetModuleAddress B m \<noteq> []" "ak_GetModuleAddress B m \<in> R"
    and run: "mintExtendedCoin E B m amt s = Inr s'"
  proof -
    note mod = keeps_module_calls [OF fr(1) m(3)]
    show ?thesis
      using run unfolding mintExtendedCoin_eq [OF m(1) refl refl refl refl refl refl refl refl refl]
      by (rule keeps_start [where P = ?P, OF _ s]) (intro keeps_intros mod res m(2) reserve_address)+
  qed
  show "binv (pbank s') \<and> Q (pbank s')" if m: "m \<noteq> pb_ModuleName" "ak_GetModuleAddress B m \<noteq> []" "ak_GetModuleAddress B m \<in> R"
    and run: "burnExtendedCoin E B m amt s = Inr s'"
  proof -
    note mod = keeps_module_calls [OF fr(1) m(3)]
    show ?thesis
      using run unfolding burnExtendedCoin_eq [OF m(1) refl refl refl refl refl refl refl refl refl]
      by (rule keeps_start [where P = ?P, OF _ s]) (intro keeps_intros mod res m(2) reserve_address)+
  qed
qed

lemma sendExtendedCoins_keeps:
  assumes fr: "bank_frame B Q R" "reserve B \<in> R" "to \<in> R" and s: "binv (pbank s) \<and> Q (pbank s)"
    and acc: "from \<noteq> reserve B" "to \<noteq> reserve B" and run: "sendExtendedCoins E B from to amt s = Inr s'"
  shows "binv (pbank s') \<and> Q (pbank s')"
proof (cases "from = to")
  case True
  with s acc run show ?thesis by (auto simp: sendExtendedCoins_def)
next
  case False
  obtain p q p' q' where frac: "subFromFractionalBalance E (GetFractionalBalance s from) (emod amt (conversion E)) = Inr (p, q)"
    "addToFractionalBalance E (GetFractionalBalance s to) (emod amt (conversion E)) = Inr (p', q')"
    using run False acc unfolding sendExtendedCoins_def Let_def
    by (cases "subFromFractionalBalance E (GetFractionalBalance s from) (emod amt (conversion E))";
        cases "addToFractionalBalance E (GetFractionalBalance s to) (emod amt (conversion E))") auto
  note calls = keeps_sends [OF fr(1,3)] keeps_module_calls(6) [OF fr(1,2)]
  show ?thesis
    using run unfolding sendExtendedCoins_def Let_def
    by (simp only: acc False if_False simp_thms frac rbind_Inr prod.case)
      (rule keeps_start [where P = "\<lambda>b. binv b \<and> Q b", OF _ s], assumption, (intro keeps_intros calls reserve_address)+)
qed

lemma pb_SendCoins_keeps:
  assumes fr: "bank_frame B Q R" "reserve B \<in> R" "to \<in> R" and s: "binv (pbank s) \<and> Q (pbank s)"
    and acc: "from \<noteq> reserve B" "to \<noteq> reserve B" and run: "pb_SendCoins E B from to cs s = Inr s'"
  shows "binv (pbank s') \<and> Q (pbank s')"
proof -
  obtain x ps where ps: "extended_split E B cs = (x, ps)" by fastforce
  obtain s1 where s1: "(if coins_IsAllPositive B ps then on_bank (\<lambda>b. bk_SendCoins B b from to ps) s else Inr s) = Inr s1"
    "(if 0 < x then sendExtendedCoins E B from to x s1 else Inr s1) = Inr s'"
    using run ps by (auto simp: pb_SendCoins_def rbind_eq_Inr split: if_splits)
  have "binv (pbank s1) \<and> Q (pbank s1)"
    by (rule keepsD [OF keeps_if [OF keeps_sends(1) [OF fr(1,3)]] s s1(1)])
  then show ?thesis
    using sendExtendedCoins_keeps [OF fr _ acc, of s1 x s'] s1(2) by (cases "0 < x") simp_all
qed

lemma module_coins_keeps:
  assumes fr: "bank_frame B Q R" "reserve B \<in> R" and s: "binv (pbank s) \<and> Q (pbank s)" and m: "ak_GetModuleAddress B m \<in> R"
  shows "pb_MintCoins E B m cs s = Inr s' \<Longrightarrow> binv (pbank s') \<and> Q (pbank s')"
    "pb_BurnCoins E B m cs s = Inr s' \<Longrightarrow> binv (pbank s') \<and> Q (pbank s')"
proof -
  obtain x ps where ps: "extended_split E B cs = (x, ps)" by fastforce
  have acc: "ak_GetModuleAddress B m \<noteq> [] \<and> binv b \<and> Q b" if "ak_GetModuleAccount B (pbank s) m = (Some ma, b)" for ma b
    using frame_calls(4) [OF fr(1) s m that] GetModuleAccount_keeps [OF _ that] s by auto
  show "binv (pbank s') \<and> Q (pbank s')" if run: "pb_MintCoins E B m cs s = Inr s'"
  proof -
    obtain ma b s1 where c: "m \<noteq> pb_ModuleName" "ak_GetModuleAccount B (pbank s) m = (Some ma, b)"
      "(if ps \<noteq> [] then on_bank (\<lambda>b. bk_MintCoins B b m ps) (s\<lparr>pbank := b\<rparr>) else Inr (s\<lparr>pbank := b\<rparr>)) = Inr s1"
      "(if 0 < x then mintExtendedCoin E B m x s1 else Inr s1) = Inr s'"
      using run ps unfolding pb_MintCoins_def by (auto simp: Let_def rbind_eq_Inr split: if_splits prod.splits option.splits)
    have "binv (pbank s1) \<and> Q (pbank s1)"
      by (rule keepsD [OF keeps_if [OF keeps_module_calls(1) [OF fr(1) m]] _ c(3)]) (use acc [OF c(2)] in simp)
    then show ?thesis using c(1,4) acc [OF c(2)] m extended_keeps(1) [OF fr, of s1 m x s'] by (cases "0 < x") simp_all
  qed
  show "binv (pbank s') \<and> Q (pbank s')" if run: "pb_BurnCoins E B m cs s = Inr s'"
  proof -
    obtain ma b s1 where c: "m \<noteq> pb_ModuleName" "ak_GetModuleAccount B (pbank s) m = (Some ma, b)"
      "(if ps \<noteq> [] then on_bank (\<lambda>b. bk_BurnCoins B b m ps) (s\<lparr>pbank := b\<rparr>) else Inr (s\<lparr>pbank := b\<rparr>)) = Inr s1"
      "(if 0 < x then burnExtendedCoin E B m x s1 else Inr s1) = Inr s'"
      using run ps unfolding pb_BurnCoins_def by (auto simp: Let_def rbind_eq_Inr split: if_splits prod.splits option.splits)
    have "binv (pbank s1) \<and> Q (pbank s1)"
      by (rule keepsD [OF keeps_if [OF keeps_module_calls(2) [OF fr(1) m]] _ c(3)]) (use acc [OF c(2)] in simp)
    then show ?thesis using c(1,4) acc [OF c(2)] m extended_keeps(2) [OF fr, of s1 m x s'] by (cases "0 < x") simp_all
  qed
qed

end

sublocale vm_env \<subseteq> bank_contract "vk_coin D" "vk_bank D" binv
  by (rule bank)

section \<open>Balances\<close>

text \<open>The module accounts exist and the books of \<open>x/precisebank\<close> are in order.\<close>

definition vm_good :: "('b, 'a) vmKeeper \<Rightarrow> ('b \<Rightarrow> bool) \<Rightarrow> 'b vmStore \<Rightarrow> bool" where
  "vm_good D binv c \<longleftrightarrow>
     pb_inv (vk_coin D) (vk_bank D) binv (vm_pb c) \<and>
     au_GetAccount D (vm_bank_state c) (reserve (vk_bank D)) \<noteq> None \<and>
     au_GetAccount D (vm_bank_state c) (ak_GetModuleAddress (vk_bank D) vm_ModuleName) \<noteq> None"

text \<open>The addresses that are not one of the two module accounts.\<close>

definition vm_ok :: "('b, 'a) vmKeeper \<Rightarrow> address \<Rightarrow> bool" where
  "vm_ok D a \<longleftrightarrow> address_Bytes a \<noteq> reserve (vk_bank D) \<and> address_Bytes a \<noteq> ak_GetModuleAddress (vk_bank D) vm_ModuleName"

context vm_env
begin

lemma accounts_frame: "bank_frame (vk_bank D) (\<lambda>b. au_GetAccount D b = G) {x. G x \<noteq> None}"
  unfolding bank_frame_def
  using SendCoins_accounts MintCoins_accounts BurnCoins_accounts ModuleAccount_accounts by fastforce

lemma single_value: "0 < n \<Longrightarrow> ext_value (vk_coin D) (vk_bank D) [(ExtendedDenom (vk_coin D), n)] = n"
  "0 < n \<Longrightarrow> plain_amount (vk_coin D) (vk_bank D) [(ExtendedDenom (vk_coin D), n)] = (\<lambda>_. 0)"
  by (auto simp: ext_value_def SumExtendedCoin_def plain_amount_def AmountOf_single)

lemma evm_not_reserve: "ak_GetModuleAddress (vk_bank D) vm_ModuleName \<noteq> reserve (vk_bank D)"
  using reserve_name [of vm_ModuleName] by (auto simp: vm_ModuleName_def pb_ModuleName_def)

lemma mint_to_account:
  assumes inv: "pb_inv (vk_coin D) (vk_bank D) binv s" and a: "a \<noteq> reserve (vk_bank D)" "a \<noteq> []"
    "a \<noteq> ak_GetModuleAddress (vk_bank D) vm_ModuleName" and amt: "0 < amt"
    and G: "au_GetAccount D (pbank s) a \<noteq> None" "au_GetAccount D (pbank s) (reserve (vk_bank D)) \<noteq> None"
      "au_GetAccount D (pbank s) (ak_GetModuleAddress (vk_bank D) vm_ModuleName) \<noteq> None"
    and run: "bw_MintAmountToAccount D a amt s = Inr s'"
  shows "pb_inv (vk_coin D) (vk_bank D) binv s' \<and> au_GetAccount D (pbank s') = au_GetAccount D (pbank s) \<and>
    ext_moved (vk_coin D) (vk_bank D) s s' (\<lambda>x. if x = a then amt else 0) (\<lambda>_ _. 0) amt"
proof -
  let ?cs = "[(ExtendedDenom (vk_coin D), amt)]" and ?e = "ak_GetModuleAddress (vk_bank D) vm_ModuleName"
  let ?Q = "\<lambda>b. au_GetAccount D b = au_GetAccount D (pbank s)"
  obtain s1 where s1: "pb_MintCoins (vk_coin D) (vk_bank D) vm_ModuleName ?cs s = Inr s1"
    "pb_SendCoins (vk_coin D) (vk_bank D) ?e a ?cs s1 = Inr s'"
    using run by (auto simp: bw_MintAmountToAccount_def ConvertEvmCoinDenomToExtendedDenom_def
        pb_SendCoinsFromModuleToAccount_def rbind_eq_Inr Let_def split: if_splits)
  note fr = accounts_frame [of "au_GetAccount D (pbank s)"]
  have b: "binv (pbank s) \<and> ?Q (pbank s)" using inv by (simp add: pb_inv_def)
  have b1: "binv (pbank s1) \<and> ?Q (pbank s1)" by (rule module_coins_keeps(1) [OF fr _ b _ s1(1)]) (use G in simp_all)
  have b2: "binv (pbank s') \<and> ?Q (pbank s')"
    by (rule pb_SendCoins_keeps [OF fr _ _ b1 evm_not_reserve a(1) s1(2)]) (use G in simp_all)
  note m = pb_MintCoins_spec [OF inv s1(1), unfolded single_value [OF amt]]
  note t = pb_SendCoins_spec [OF m [THEN conjunct1] evm_not_reserve a(1) evm_module a(2) s1(2), unfolded single_value [OF amt]]
  have "ext_moved (vk_coin D) (vk_bank D) s s' (\<lambda>x. if x = a then amt else 0) (\<lambda>_ _. 0) amt"
    using a(3) by (intro ext_moved_cong [OF ext_moved_trans [OF m [THEN conjunct2] t [THEN conjunct2]]])
      (auto simp: credit_def transfer_def)
  with t b2 show ?thesis by blast
qed

lemma burn_from_account:
  assumes inv: "pb_inv (vk_coin D) (vk_bank D) binv s" and a: "a \<noteq> reserve (vk_bank D)" "a \<noteq> []"
    "a \<noteq> ak_GetModuleAddress (vk_bank D) vm_ModuleName" and amt: "0 < amt"
    and G: "au_GetAccount D (pbank s) (reserve (vk_bank D)) \<noteq> None"
      "au_GetAccount D (pbank s) (ak_GetModuleAddress (vk_bank D) vm_ModuleName) \<noteq> None"
    and run: "bw_BurnAmountFromAccount D a amt s = Inr s'"
  shows "pb_inv (vk_coin D) (vk_bank D) binv s' \<and> au_GetAccount D (pbank s') = au_GetAccount D (pbank s) \<and>
    ext_moved (vk_coin D) (vk_bank D) s s' (\<lambda>x. if x = a then - amt else 0) (\<lambda>_ _. 0) (- amt)"
proof -
  let ?cs = "[(ExtendedDenom (vk_coin D), amt)]" and ?e = "ak_GetModuleAddress (vk_bank D) vm_ModuleName"
  let ?Q = "\<lambda>b. au_GetAccount D b = au_GetAccount D (pbank s)"
  obtain ma b0 s1 where s1: "ak_GetModuleAccount (vk_bank D) (pbank s) vm_ModuleName = (Some ma, b0)"
    "pb_SendCoins (vk_coin D) (vk_bank D) a (ma_Address ma) ?cs (s\<lparr>pbank := b0\<rparr>) = Inr s1"
    "pb_BurnCoins (vk_coin D) (vk_bank D) vm_ModuleName ?cs s1 = Inr s'"
    using run by (auto simp: bw_BurnAmountFromAccount_def ConvertEvmCoinDenomToExtendedDenom_def
        pb_SendCoinsFromAccountToModule_def rbind_eq_Inr Let_def split: if_splits prod.splits option.splits)
  note fr = accounts_frame [of "au_GetAccount D (pbank s)"]
  note ma = module_account_inv [OF inv s1(1)]
  have b: "binv (pbank s) \<and> ?Q (pbank s)" using inv by (simp add: pb_inv_def)
  have b0: "binv b0 \<and> ?Q b0" by (rule frame_calls(4) [OF fr b _ s1(1)]) (use G in simp)
  have b1: "binv (pbank s1) \<and> ?Q (pbank s1)"
    by (rule pb_SendCoins_keeps [OF fr _ _ _ a(1) _ s1(2)]) (use G b0 ma(2) evm_not_reserve in simp_all)
  have b2: "binv (pbank s') \<and> ?Q (pbank s')" by (rule module_coins_keeps(2) [OF fr _ b1 _ s1(3)]) (use G in simp_all)
  have z: "ext_moved (vk_coin D) (vk_bank D) s (s\<lparr>pbank := b0\<rparr>) (\<lambda>_. 0) (\<lambda>_ _. 0) 0"
    using passthrough [OF inv _ _, of b0 "\<lambda>_ _. 0" "\<lambda>_. 0"] GetModuleAccount_keeps [OF _ s1(1)] b by auto
  have "ma_Address ma \<noteq> reserve (vk_bank D)" using ma(2) evm_not_reserve by simp
  note t = pb_SendCoins_spec [OF ma(1) a(1) this a(2) ma(3) s1(2), unfolded single_value [OF amt] ma(2)]
  note m = pb_BurnCoins_spec [OF t [THEN conjunct1] s1(3), unfolded single_value [OF amt]]
  have "ext_moved (vk_coin D) (vk_bank D) s s' (\<lambda>x. if x = a then - amt else 0) (\<lambda>_ _. 0) (- amt)"
    using a(3) by (intro ext_moved_cong [OF ext_moved_trans [OF z ext_moved_trans [OF t [THEN conjunct2] m [THEN conjunct2]]]])
      (auto simp: credit_def transfer_def)
  with m b2 show ?thesis by blast
qed

text \<open>
  What a change of balance leaves: the store is good, the address has the amount, everybody else
  the balance and account they had.
\<close>

lemma SetBalance_spec:
  assumes good: "vm_good D binv c" and ok: "vm_ok D a" and acc: "au_GetAccount D (vm_bank_state c) (address_Bytes a) \<noteq> None"
    and run: "vm_SetBalance D c a (Some amt) = Inr c'"
  shows "\<exists>s. c' = c\<lparr>vm_pb := s\<rparr> \<and> vm_good D binv c' \<and> au_GetAccount D (pbank s) = au_GetAccount D (vm_bank_state c) \<and>
    ext_moved (vk_coin D) (vk_bank D) (vm_pb c) s
      (\<lambda>x. if x = address_Bytes a then uint amt - pb_SpendableCoin (vk_coin D) (vk_bank D) (vm_pb c) x (ExtendedDenom (vk_coin D)) else 0)
      (\<lambda>_ _. 0) (uint amt - pb_SpendableCoin (vk_coin D) (vk_bank D) (vm_pb c) (address_Bytes a) (ExtendedDenom (vk_coin D)))"
proof -
  let ?d = "uint amt - pb_SpendableCoin (vk_coin D) (vk_bank D) (vm_pb c) (address_Bytes a) (ExtendedDenom (vk_coin D))"
  have inv: "pb_inv (vk_coin D) (vk_bank D) binv (vm_pb c)" using good by (simp add: vm_good_def)
  have G: "au_GetAccount D (pbank (vm_pb c)) (reserve (vk_bank D)) \<noteq> None"
    "au_GetAccount D (pbank (vm_pb c)) (ak_GetModuleAddress (vk_bank D) vm_ModuleName) \<noteq> None"
    "au_GetAccount D (pbank (vm_pb c)) (address_Bytes a) \<noteq> None"
    using good acc by (simp_all add: vm_good_def vm_bank_state_def)
  have ok': "address_Bytes a \<noteq> reserve (vk_bank D)" "address_Bytes a \<noteq> ak_GetModuleAddress (vk_bank D) vm_ModuleName"
    using ok by (simp_all add: vm_ok_def)
  have run': "(if 0 < ?d then rbind (bw_MintAmountToAccount D (address_Bytes a) ?d (vm_pb c)) (\<lambda>s. Inr (c\<lparr>vm_pb := s\<rparr>))
    else if ?d < 0 then rbind (bw_BurnAmountFromAccount D (address_Bytes a) (- ?d) (vm_pb c)) (\<lambda>s. Inr (c\<lparr>vm_pb := s\<rparr>))
    else Inr c) = Inr c'"
    using run unfolding vm_SetBalance_def bw_SpendableCoin_def Let_def by simp
  consider (mint) "0 < ?d" | (burn) "?d < 0" | (same) "?d = 0" by linarith
  then obtain s where s: "c' = c\<lparr>vm_pb := s\<rparr>" "pb_inv (vk_coin D) (vk_bank D) binv s"
    "au_GetAccount D (pbank s) = au_GetAccount D (pbank (vm_pb c))"
    "ext_moved (vk_coin D) (vk_bank D) (vm_pb c) s (\<lambda>x. if x = address_Bytes a then ?d else 0) (\<lambda>_ _. 0) ?d"
  proof cases
    case mint
    with run' obtain s where s: "bw_MintAmountToAccount D (address_Bytes a) ?d (vm_pb c) = Inr s" "c' = c\<lparr>vm_pb := s\<rparr>"
      by (auto simp: rbind_eq_Inr)
    with that mint_to_account [OF inv ok'(1) address_Bytes_ne ok'(2) mint G(3,1,2) s(1)] show ?thesis by blast
  next
    case burn
    with run' obtain s where s: "bw_BurnAmountFromAccount D (address_Bytes a) (- ?d) (vm_pb c) = Inr s" "c' = c\<lparr>vm_pb := s\<rparr>"
      by (auto simp: rbind_eq_Inr)
    have "0 < - ?d" using burn by simp
    note b = burn_from_account [OF inv ok'(1) address_Bytes_ne ok'(2) this G(1,2) s(1), unfolded minus_minus]
    with that s(2) show ?thesis by blast
  next
    case same
    with run' have "c' = c" by simp
    with that [of "vm_pb c"] inv same show ?thesis by (simp add: ext_moved_def)
  qed
  moreover have "vm_good D binv c'"
    using s(1-3) G by (simp add: vm_good_def vm_bank_state_def)
  moreover have "(\<lambda>x. if x = address_Bytes a then uint amt - pb_SpendableCoin (vk_coin D) (vk_bank D) (vm_pb c) x (ExtendedDenom (vk_coin D)) else 0)
    = (\<lambda>x. if x = address_Bytes a then ?d else 0)" by auto
  ultimately show ?thesis by (simp add: vm_bank_state_def) blast
qed

lemma spendable_after:
  assumes "ext_moved (vk_coin D) (vk_bank D) s s'
      (\<lambda>x. if x = address_Bytes a then uint amt - pb_SpendableCoin (vk_coin D) (vk_bank D) s x (ExtendedDenom (vk_coin D)) else 0) e n"
    and "vm_ok D a"
  shows "pb_SpendableCoin (vk_coin D) (vk_bank D) s' (address_Bytes b) (ExtendedDenom (vk_coin D)) =
    (if b = a then uint amt else pb_SpendableCoin (vk_coin D) (vk_bank D) s (address_Bytes b) (ExtendedDenom (vk_coin D)))"
proof (cases "address_Bytes b = reserve (vk_bank D)")
  case True
  then have "b \<noteq> a" using assms(2) by (auto simp: vm_ok_def)
  with True show ?thesis by (simp add: pb_SpendableCoin_def)
next
  case False
  with assms(1) show ?thesis by (auto simp: ext_moved_def)
qed

lemma SetBalance_view:
  assumes good: "vm_good D binv c" and ok: "vm_ok D a" and acc: "au_GetAccount D (vm_bank_state c) (address_Bytes a) \<noteq> None"
    and run: "vm_SetBalance D c a (Some amt) = Inr c'"
  shows "vm_good D binv c'" "vm_SpendableCoin D c' b = (if b = a then Some amt else vm_SpendableCoin D c b)"
    "au_GetAccount D (vm_bank_state c') = au_GetAccount D (vm_bank_state c)"
    "vm_codeHash c' = vm_codeHash c" "vm_code c' = vm_code c" "vm_storage c' = vm_storage c"
proof -
  obtain s where s: "c' = c\<lparr>vm_pb := s\<rparr>" "vm_good D binv c'" "au_GetAccount D (pbank s) = au_GetAccount D (vm_bank_state c)"
    and mv: "ext_moved (vk_coin D) (vk_bank D) (vm_pb c) s
      (\<lambda>x. if x = address_Bytes a then uint amt - pb_SpendableCoin (vk_coin D) (vk_bank D) (vm_pb c) x (ExtendedDenom (vk_coin D)) else 0)
      (\<lambda>_ _. 0) (uint amt - pb_SpendableCoin (vk_coin D) (vk_bank D) (vm_pb c) (address_Bytes a) (ExtendedDenom (vk_coin D)))"
    using SetBalance_spec [OF assms] by blast
  show "vm_SpendableCoin D c' b = (if b = a then Some amt else vm_SpendableCoin D c b)"
    using spendable_after [OF mv ok, of b] by (simp add: vm_SpendableCoin_def bw_SpendableCoin_def s(1))
  show "vm_good D binv c'" "au_GetAccount D (vm_bank_state c') = au_GetAccount D (vm_bank_state c)"
    "vm_codeHash c' = vm_codeHash c" "vm_code c' = vm_code c" "vm_storage c' = vm_storage c"
    using s by (simp_all add: vm_bank_state_def)
qed

section \<open>Accounts\<close>

text \<open>Replacing the account record of an address changes no book.\<close>

lemma with_bank_good:
  assumes "vm_good D binv c" "binv b" "same_money (vk_bank D) X (vm_bank_state c) b"
    "\<And>y. au_GetAccount D (vm_bank_state c) y \<noteq> None \<Longrightarrow> y \<notin> Z \<Longrightarrow> au_GetAccount D b y \<noteq> None"
    "reserve (vk_bank D) \<notin> Z" "ak_GetModuleAddress (vk_bank D) vm_ModuleName \<notin> Z"
  shows "vm_good D binv (vm_with_bank c b)"
  using assms by (auto simp: vm_good_def vm_with_bank_def vm_bank_state_def pb_inv_def same_money_def GetRemainderAmount_def)

lemma with_bank_spendable:
  assumes "same_money (vk_bank D) X (vm_bank_state c) b" "address_Bytes a \<notin> X"
  shows "vm_SpendableCoin D (vm_with_bank c b) a = vm_SpendableCoin D c a"
  using assms by (simp add: vm_SpendableCoin_def bw_SpendableCoin_def pb_SpendableCoin_def GetFractionalBalance_def
      vm_with_bank_def vm_bank_state_def same_money_def)

lemma code_hash_frame [simp]:
  "vm_good D binv (vm_DeleteCodeHash c a) = vm_good D binv c"
  "vm_good D binv (vm_SetCodeHash c a h) = vm_good D binv c"
  "vm_good D binv (vm_SetState c a k v) = vm_good D binv c"
  "vm_good D binv (vm_DeleteState c a k) = vm_good D binv c"
  "vm_good D binv (vm_SetCode c x code) = vm_good D binv c"
  "vm_good D binv (vm_DeleteCode c x) = vm_good D binv c"
  by (simp_all add: vm_good_def vm_bank_state_def vm_DeleteCodeHash_def vm_SetCodeHash_def vm_SetState_def
      vm_DeleteState_def vm_SetCode_def vm_DeleteCode_def)

lemma SetAccount_prepare:
  assumes good: "vm_good D binv c" and run: "vm_SetAccount D c a x = Inr c'"
  obtains c3 acct where "vm_SetBalance D c3 a (Some (acc_Balance x)) = Inr c'" "vm_good D binv c3"
    "au_GetAccount D (vm_bank_state c3) = (au_GetAccount D (vm_bank_state c))(address_Bytes a \<mapsto> acct)"
    "au_Sequence D acct = acc_Nonce x" "vm_SpendableCoin D c3 = vm_SpendableCoin D c"
    "vm_code c3 = vm_code c" "vm_storage c3 = vm_storage c"
    "vm_codeHash c3 = (if acc_CodeHash x = vm_EmptyCodeHash D then kv_delete a (vm_codeHash c)
       else kv_set a (hash_Bytes (acc_CodeHash x)) (vm_codeHash c))"
    "same_money (vk_bank D) {} (vm_bank_state c) (vm_bank_state c3)" "vm_pb c3 = (vm_pb c)\<lparr>pbank := vm_bank_state c3\<rparr>"
proof -
  let ?b = "vm_bank_state c" and ?a = "address_Bytes a"
  have binv: "binv ?b" using good by (simp add: vm_good_def vm_bank_state_def pb_inv_def)
  obtain acct b1 acct1 where new: "case au_GetAccount D ?b ?a of Some acc \<Rightarrow> acct = acc \<and> b1 = ?b
      | None \<Rightarrow> au_NewAccountWithAddress D ?b ?a = (acct, b1)"
    and seq: "au_SetSequence D acct (acc_Nonce x) = Inr acct1"
    and bal: "vm_SetBalance D (vm_with_bank (if acc_CodeHash x = vm_EmptyCodeHash D then vm_DeleteCodeHash c a
        else vm_SetCodeHash c a (hash_Bytes (acc_CodeHash x))) (au_SetAccount D b1 acct1)) a (Some (acc_Balance x)) = Inr c'"
  proof (cases "au_GetAccount D ?b ?a")
    case None
    obtain acct b1 where n: "au_NewAccountWithAddress D ?b ?a = (acct, b1)" by fastforce
    with run None that [of acct b1] show ?thesis
      by (auto simp: vm_SetAccount_def Let_def rbind_eq_Inr vm_with_bank_def vm_bank_state_def vm_DeleteCodeHash_def
          vm_SetCodeHash_def split: if_splits)
  next
    case (Some acc)
    with run that [of acc ?b] show ?thesis
      by (auto simp: vm_SetAccount_def Let_def rbind_eq_Inr vm_with_bank_def vm_bank_state_def vm_DeleteCodeHash_def
          vm_SetCodeHash_def split: if_splits)
  qed
  have b1: "au_Address D acct = ?a" "au_GetAccount D b1 = au_GetAccount D ?b"
    "binv (au_SetAccount D b1 acct1)" "same_money (vk_bank D) {} ?b (au_SetAccount D b1 acct1)"
  proof -
    show "au_Address D acct = ?a" "au_GetAccount D b1 = au_GetAccount D ?b"
      using new GetAccount_address [OF binv] NewAccount [OF binv] by (auto split: option.splits)
    have "binv (au_SetAccount D b1 acct1) \<and> same_money (vk_bank D) {} ?b (au_SetAccount D b1 acct1)"
    proof (cases "au_GetAccount D ?b ?a")
      case None
      with new have n: "au_NewAccountWithAddress D ?b ?a = (acct, b1)" by simp
      from SetAccount_new [OF binv None n seq] NewAccount [OF binv n] show ?thesis by (auto simp: same_money_def)
    next
      case (Some acc)
      with new SetAccount_old [OF binv Some] seq show ?thesis by simp
    qed
    then show "binv (au_SetAccount D b1 acct1)" "same_money (vk_bank D) {} ?b (au_SetAccount D b1 acct1)" by simp_all
  qed
  have acct1: "au_Address D acct1 = ?a" "au_Sequence D acct1 = acc_Nonce x" using SetSequence [OF seq] b1(1) by simp_all
  define c2 where "c2 = (if acc_CodeHash x = vm_EmptyCodeHash D then vm_DeleteCodeHash c a
        else vm_SetCodeHash c a (hash_Bytes (acc_CodeHash x)))"
  have c2: "vm_good D binv c2" "vm_bank_state c2 = ?b" "vm_pb c2 = vm_pb c" "vm_code c2 = vm_code c" "vm_storage c2 = vm_storage c"
    using good by (simp_all add: c2_def vm_bank_state_def) (simp_all add: vm_DeleteCodeHash_def vm_SetCodeHash_def)
  have au: "au_GetAccount D (au_SetAccount D b1 acct1) = (au_GetAccount D ?b)(?a \<mapsto> acct1)"
    by (auto simp: SetAccount_get acct1(1) b1(2) fun_eq_iff)
  show thesis
  proof (rule that [of "vm_with_bank c2 (au_SetAccount D b1 acct1)" acct1])
    show "vm_good D binv (vm_with_bank c2 (au_SetAccount D b1 acct1))"
      by (rule with_bank_good [where Z = "{}" and X = "{}"]) (use c2 b1(3,4) au in auto)
    show "vm_SpendableCoin D (vm_with_bank c2 (au_SetAccount D b1 acct1)) = vm_SpendableCoin D c"
      using with_bank_spendable [of "{}" c2 "au_SetAccount D b1 acct1"] b1(4) c2(2,3) by (simp add: vm_SpendableCoin_def [abs_def])
    show "vm_codeHash (vm_with_bank c2 (au_SetAccount D b1 acct1)) = (if acc_CodeHash x = vm_EmptyCodeHash D then kv_delete a (vm_codeHash c)
       else kv_set a (hash_Bytes (acc_CodeHash x)) (vm_codeHash c))"
      by (simp add: c2_def vm_with_bank_def vm_DeleteCodeHash_def vm_SetCodeHash_def)
  qed (use bal acct1 au c2 b1(4) in \<open>simp_all add: c2_def [symmetric]\<close>, simp_all add: vm_with_bank_def vm_bank_state_def)
qed

lemma SetAccount_view:
  assumes good: "vm_good D binv c" and ok: "vm_ok D a" and run: "vm_SetAccount D c a x = Inr c'"
  shows "vm_good D binv c'" "vm_GetAccount D c' b = (if b = a then Some (acc_in x) else vm_GetAccount D c b)"
    "vm_GetState c' b key = vm_GetState c b key" "vm_code c' = vm_code c"
proof -
  obtain c3 acct where c3: "vm_SetBalance D c3 a (Some (acc_Balance x)) = Inr c'" "vm_good D binv c3"
    "au_GetAccount D (vm_bank_state c3) = (au_GetAccount D (vm_bank_state c))(address_Bytes a \<mapsto> acct)"
    "au_Sequence D acct = acc_Nonce x" "vm_SpendableCoin D c3 = vm_SpendableCoin D c"
    "vm_code c3 = vm_code c" "vm_storage c3 = vm_storage c"
    "vm_codeHash c3 = (if acc_CodeHash x = vm_EmptyCodeHash D then kv_delete a (vm_codeHash c)
       else kv_set a (hash_Bytes (acc_CodeHash x)) (vm_codeHash c))"
    by (rule SetAccount_prepare [OF good run])
  have "au_GetAccount D (vm_bank_state c3) (address_Bytes a) \<noteq> None" by (simp add: c3(3))
  note v = SetBalance_view [OF c3(2) ok this c3(1)]
  show "vm_good D binv c'" "vm_code c' = vm_code c" using v c3 by simp_all
  show "vm_GetState c' b key = vm_GetState c b key" by (simp add: vm_GetState_def v c3)
  have "vm_GetCodeHash D c' b = (if b = a then acc_CodeHash x else vm_GetCodeHash D c b)"
    by (simp add: vm_GetCodeHash_def v c3(8) kv_simps)
  then show "vm_GetAccount D c' b = (if b = a then Some (acc_in x) else vm_GetAccount D c b)"
    by (simp add: GetAccount_eq v c3(3-5) acc_in_def)
qed

text \<open>A deleted contract has no account, no storage, no code hash and no balance; nobody else is touched.\<close>

lemma DeleteAccount_view:
  assumes good: "vm_good D binv c" and ok: "vm_ok D a" and run: "vm_DeleteAccount D c a = Inr c'"
  shows "vm_good D binv c'" "vm_GetAccount D c' b = (if b = a then None else vm_GetAccount D c b)"
    "b \<noteq> a \<Longrightarrow> vm_GetState c' b key = vm_GetState c b key"
    and "vm_GetAccount D c a \<noteq> None \<Longrightarrow> vm_storage c' a = [] \<and> vm_GetCodeHash D c' a = vm_EmptyCodeHash D \<and>
      pb_GetBalance (vk_coin D) (vk_bank D) (vm_pb c') (address_Bytes a) (ExtendedDenom (vk_coin D)) = 0"
proof -
  let ?b = "vm_bank_state c" and ?a = "address_Bytes a"
  have ok': "?a \<noteq> reserve (vk_bank D)" "?a \<noteq> ak_GetModuleAddress (vk_bank D) vm_ModuleName"
    using ok by (simp_all add: vm_ok_def)
  have "vm_good D binv c' \<and> vm_GetAccount D c' b = (if b = a then None else vm_GetAccount D c b) \<and>
    (b \<noteq> a \<longrightarrow> vm_GetState c' b key = vm_GetState c b key) \<and>
    (vm_GetAccount D c a \<noteq> None \<longrightarrow> vm_storage c' a = [] \<and> vm_GetCodeHash D c' a = vm_EmptyCodeHash D \<and>
      pb_GetBalance (vk_coin D) (vk_bank D) (vm_pb c') ?a (ExtendedDenom (vk_coin D)) = 0)"
  proof (cases "au_GetAccount D ?b ?a")
    case None
    with run have "c' = c" by (simp add: vm_DeleteAccount_def)
    with None good show ?thesis by (simp add: GetAccount_eq)
  next
    case (Some acct)
    define b1 where "b1 = au_SetAccount D ?b (au_BaseAccount D ?a acct)"
    define c1 where "c1 = vm_with_bank c b1"
    have binv: "binv ?b" using good by (simp add: vm_good_def vm_bank_state_def pb_inv_def)
    note base = SetAccount_base [OF binv Some ok'(1), folded b1_def]
    have au1: "au_GetAccount D b1 y = (if y = ?a then Some (au_BaseAccount D ?a acct) else au_GetAccount D ?b y)" for y
      by (simp add: b1_def SetAccount_get BaseAccount_address)
    have g1: "vm_good D binv c1"
      unfolding c1_def using base au1 good by (intro with_bank_good [where X = "{?a}" and Z = "{}"]) auto
    obtain c2 where c2: "vm_SetBalance D c1 a (Some 0) = Inr c2" and c': "c' =
        vm_with_bank (vm_DeleteCodeHash (c2\<lparr>vm_storage := (vm_storage c2)(a := [])\<rparr>) a) (au_RemoveAccount D (vm_bank_state c2) acct)"
      using run Some by (auto simp: vm_DeleteAccount_def Let_def rbind_eq_Inr c1_def b1_def storage_keys delete_all_states
          kv_delete_all vm_bank_state_def vm_DeleteCodeHash_def split: if_splits)
    have "au_GetAccount D (vm_bank_state c1) ?a \<noteq> None" by (simp add: c1_def vm_with_bank_def vm_bank_state_def au1)
    note v = SetBalance_view [OF g1 ok this c2] and sp = SetBalance_spec [OF g1 ok this c2]
    have addr: "au_Address D acct = ?a" using GetAccount_address [OF binv Some] .
    have b2: "binv (vm_bank_state c2)" using v(1) by (simp add: vm_good_def vm_bank_state_def pb_inv_def)
    note rem = RemoveAccount [OF b2, of acct, unfolded addr, OF ok'(1)]
    define c4 where "c4 = vm_DeleteCodeHash (c2\<lparr>vm_storage := (vm_storage c2)(a := [])\<rparr>) a"
    have c4: "vm_good D binv c4" "vm_bank_state c4 = vm_bank_state c2" "vm_pb c4 = vm_pb c2"
      using v(1) by (simp_all add: c4_def vm_good_def vm_bank_state_def) (simp_all add: vm_DeleteCodeHash_def)
    have "vm_good D binv c'" unfolding c' c4_def [symmetric]
      by (rule with_bank_good [where X = "{?a}" and Z = "{?a}"]) (use c4 rem ok' in auto)
    moreover have "vm_SpendableCoin D c' b = vm_SpendableCoin D c b" if "b \<noteq> a"
      using that with_bank_spendable [of "{?a}" c4 _ b] with_bank_spendable [of "{?a}" c b1 b] rem base v(2) [of b]
      by (simp add: c' c4_def [symmetric] c4(2) c1_def) (simp add: vm_SpendableCoin_def c4(3))
    moreover have "au_GetAccount D (vm_bank_state c') y = (if y = ?a then None else au_GetAccount D ?b y)" for y
      using rem v(3) au1 by (simp add: c' vm_with_bank_def vm_bank_state_def c1_def)
    moreover have "vm_codeHash c' = kv_delete a (vm_codeHash c)" "vm_storage c' = (vm_storage c)(a := [])"
      using v(4,6) by (simp_all add: c' vm_with_bank_def vm_DeleteCodeHash_def c1_def)
    moreover have "pb_GetBalance (vk_coin D) (vk_bank D) (vm_pb c') ?a (ExtendedDenom (vk_coin D)) = 0"
    proof -
      have "pb_GetBalance (vk_coin D) (vk_bank D) (vm_pb c') ?a (ExtendedDenom (vk_coin D)) =
          pb_GetBalance (vk_coin D) (vk_bank D) (vm_pb c2) ?a (ExtendedDenom (vk_coin D))"
        using rem by (simp add: c' pb_GetBalance_def GetFractionalBalance_def vm_with_bank_def vm_DeleteCodeHash_def
            vm_bank_state_def same_money_def)
      also have "\<dots> = pb_GetBalance (vk_coin D) (vk_bank D) (vm_pb c1) ?a (ExtendedDenom (vk_coin D)) -
          pb_SpendableCoin (vk_coin D) (vk_bank D) (vm_pb c1) ?a (ExtendedDenom (vk_coin D))"
        using sp ok'(1) by (auto simp: ext_moved_def)
      also have "\<dots> = 0"
        using base ok'(1) by (simp add: c1_def pb_GetBalance_def pb_SpendableCoin_def vm_with_bank_def vm_bank_state_def
            GetFractionalBalance_def same_money_def)
      finally show ?thesis .
    qed
    ultimately show ?thesis
      by (simp add: GetAccount_eq vm_GetState_def vm_GetCodeHash_def kv_simps)
  qed
  then show "vm_good D binv c'" "vm_GetAccount D c' b = (if b = a then None else vm_GetAccount D c b)"
    "b \<noteq> a \<Longrightarrow> vm_GetState c' b key = vm_GetState c b key"
    "vm_GetAccount D c a \<noteq> None \<Longrightarrow> vm_storage c' a = [] \<and> vm_GetCodeHash D c' a = vm_EmptyCodeHash D \<and>
      pb_GetBalance (vk_coin D) (vk_bank D) (vm_pb c') ?a (ExtendedDenom (vk_coin D)) = 0" by blast+
qed

end

section \<open>The contract of \<open>StateDB\<close>\<close>

sublocale vm_env \<subseteq> vk: keeper_contract "vm_statedb_keeper D" "vm_good D binv" "vm_ok D"
proof
  show "\<And>c a x c'. vm_good D binv c \<Longrightarrow> vm_ok D a \<Longrightarrow> k_SetAccount (vm_statedb_keeper D) c a x = Inr c' \<Longrightarrow> vm_good D binv c'"
    using SetAccount_view(1) by (simp add: vm_statedb_keeper_def)
  show "\<And>c a x c' b. vm_good D binv c \<Longrightarrow> vm_ok D a \<Longrightarrow> k_SetAccount (vm_statedb_keeper D) c a x = Inr c' \<Longrightarrow>
      k_GetAccount (vm_statedb_keeper D) c' b = (if b = a then Some (acc_in x) else k_GetAccount (vm_statedb_keeper D) c b)"
    using SetAccount_view(2) by (simp add: vm_statedb_keeper_def)
  show "\<And>c a x c' b key. vm_good D binv c \<Longrightarrow> vm_ok D a \<Longrightarrow> k_SetAccount (vm_statedb_keeper D) c a x = Inr c' \<Longrightarrow>
      k_GetState (vm_statedb_keeper D) c' b key = k_GetState (vm_statedb_keeper D) c b key"
    using SetAccount_view(3) by (simp add: vm_statedb_keeper_def)
  show "\<And>c a c'. vm_good D binv c \<Longrightarrow> vm_ok D a \<Longrightarrow> k_DeleteAccount (vm_statedb_keeper D) c a = Inr c' \<Longrightarrow> vm_good D binv c'"
    using DeleteAccount_view(1) by (simp add: vm_statedb_keeper_def)
  show "\<And>c a c' b. vm_good D binv c \<Longrightarrow> vm_ok D a \<Longrightarrow> k_DeleteAccount (vm_statedb_keeper D) c a = Inr c' \<Longrightarrow>
      k_GetAccount (vm_statedb_keeper D) c' b = (if b = a then None else k_GetAccount (vm_statedb_keeper D) c b)"
    using DeleteAccount_view(2) by (simp add: vm_statedb_keeper_def)
  show "\<And>c a c' b key. vm_good D binv c \<Longrightarrow> vm_ok D a \<Longrightarrow> k_DeleteAccount (vm_statedb_keeper D) c a = Inr c' \<Longrightarrow> b \<noteq> a \<Longrightarrow>
      k_GetState (vm_statedb_keeper D) c' b key = k_GetState (vm_statedb_keeper D) c b key"
    using DeleteAccount_view(3) by (simp add: vm_statedb_keeper_def)
qed (auto simp: vm_statedb_keeper_def vm_GetAccount_def vm_GetAccountWithoutBalance_def vm_SpendableCoin_def vm_GetState_def
    vm_GetCodeHash_def vm_bank_state_def vm_SetState_def vm_SetCode_def vm_DeleteCode_def kv_simps vm_good_def split: option.splits)

section \<open>An instance\<close>

definition l_remove :: "ledger \<Rightarrow> laccount \<Rightarrow> ledger" where
  "l_remove b acc = b\<lparr>l_accounts := (l_accounts b)(la_Address acc := None)\<rparr>"

definition l_base :: "AccAddress \<Rightarrow> laccount \<Rightarrow> laccount" where
  "l_base a acc = \<lparr>la_Address = a, la_Sequence = la_Sequence acc, la_Number = la_Number acc, la_Locked = (\<lambda>_. 0)\<rparr>"

definition ledger_vm :: "(ledger, laccount) vmKeeper" where
  "ledger_vm =
     \<lparr>vk_coin = ex_coin_info, vk_bank = ledger_bank, au_GetAccount = l_accounts, au_NewAccountWithAddress = l_new,
      au_SetAccount = l_set, au_RemoveAccount = l_remove,
      au_Address = la_Address, au_Sequence = la_Sequence, au_SetSequence = (\<lambda>acc n. Inr (acc\<lparr>la_Sequence := n\<rparr>)),
      au_BaseAccount = l_base,
      vk_Keccak256 = (\<lambda>bs. fold (\<lambda>b h. h * 257 + ucast b + 1) bs 7), vk_ParseDelegation = (\<lambda>_. None),
      vk_CacheEvents = (\<lambda>evs. evs)\<rparr>"

lemma l_create_present: "l_accounts b a \<noteq> None \<Longrightarrow> l_create a b = b"
  by (auto simp: l_create_def)

lemma l_accounts_simps [simp]:
  "l_accounts (l_add a n b) = l_accounts b" "l_accounts (l_set b acc) = (l_accounts b)(la_Address acc \<mapsto> acc)"
  "l_accounts (l_remove b acc) = (l_accounts b)(la_Address acc := None)"
  by (simp_all add: l_add_def l_set_def l_remove_def)

lemma l_money_simps [simp]:
  "l_balance (l_set b acc) = l_balance b" "l_supply (l_set b acc) = l_supply b"
  "l_balance (l_remove b acc) = l_balance b" "l_supply (l_remove b acc) = l_supply b"
  "l_locked (b\<lparr>l_next := n\<rparr>) = l_locked b" "l_addressed (b\<lparr>l_next := n\<rparr>) = l_addressed b"
  "ledger_inv (b\<lparr>l_next := n\<rparr>) = ledger_inv b"
  by (simp_all add: l_set_def l_remove_def l_locked_def [abs_def] l_addressed_def ledger_inv_def)

lemma l_locked_change:
  "l_locked (l_set b acc) a x = (if a = la_Address acc then la_Locked acc x else l_locked b a x)"
  "l_locked (l_remove b acc) a x = (if a = la_Address acc then 0 else l_locked b a x)"
  by (simp_all add: l_locked_def)

lemma ledger_inv_set:
  assumes "ledger_inv b" "\<forall>x. la_Locked acc x = 0 \<or> la_Locked acc x = l_locked b (la_Address acc) x"
  shows "ledger_inv (l_set b acc)"
proof -
  have "l_locked (l_set b acc) a x = 0 \<or> l_locked (l_set b acc) a x = l_locked b a x" for a x
    using assms(2) by (auto simp: l_locked_change)
  moreover have "l_addressed (l_set b acc)" using assms(1) by (auto simp: ledger_inv_def l_addressed_def)
  ultimately show ?thesis using assms(1) unfolding ledger_inv_def l_money_simps by (metis order.refl order_trans)
qed

lemma ledger_inv_remove: "ledger_inv b \<Longrightarrow> ledger_inv (l_remove b acc)"
  by (auto simp: ledger_inv_def l_locked_change l_addressed_def intro: order_trans)

lemma same_money_set:
  "\<forall>x. la_Address acc \<in> X \<or> la_Locked acc x = l_locked b (la_Address acc) x \<Longrightarrow> same_money ledger_bank X b (l_set b acc)"
  by (auto simp: same_money_def ledger_bank_def l_spendable_def l_locked_change)

lemma l_locked_account: "ledger_inv b \<Longrightarrow> l_accounts b a = Some acc \<Longrightarrow> la_Locked acc x = l_locked b (la_Address acc) x"
  by (auto simp: ledger_inv_def l_addressed_def l_locked_def)

lemma l_account_address: "ledger_inv b \<Longrightarrow> l_accounts b a = Some acc \<Longrightarrow> la_Address acc = a"
  by (simp add: ledger_inv_def l_addressed_def)

lemmas ledger_vm_simps = ledger_vm_def ledger_inv_set same_money_set l_new_def l_base_def

interpretation lvm: vm_env ledger_vm ledger_inv
proof (rule vm_env.intro)
  show "bank_contract (vk_coin ledger_vm) (vk_bank ledger_vm) ledger_inv"
    using led.bank_contract_axioms by (simp add: ledger_vm_def)
  show "ledger_inv (au_SetAccount ledger_vm b acc') \<and> same_money (vk_bank ledger_vm) {} b (au_SetAccount ledger_vm b acc')"
    if "ledger_inv b" "au_GetAccount ledger_vm b a = Some acc" "au_SetSequence ledger_vm acc sq = Inr acc'" for b a acc sq acc'
    using that l_locked_account [OF that(1)] by (auto simp: ledger_vm_simps)
  show "ledger_inv (au_SetAccount ledger_vm b' acc') \<and> same_money (vk_bank ledger_vm) {} b' (au_SetAccount ledger_vm b' acc')"
    if "ledger_inv b" "au_GetAccount ledger_vm b a = None" "au_NewAccountWithAddress ledger_vm b a = (acc, b')"
      "au_SetSequence ledger_vm acc sq = Inr acc'" for b a acc sq acc' b'
    using that by (auto simp: ledger_vm_simps l_locked_def)
  show "ledger_inv (au_SetAccount ledger_vm b (au_BaseAccount ledger_vm a acc)) \<and>
      same_money (vk_bank ledger_vm) {a} b (au_SetAccount ledger_vm b (au_BaseAccount ledger_vm a acc)) \<and>
      (\<forall>x. bk_SpendableCoin (vk_bank ledger_vm) (au_SetAccount ledger_vm b (au_BaseAccount ledger_vm a acc)) a x =
        bk_GetBalance (vk_bank ledger_vm) b a x)"
    if "ledger_inv b" for b a acc
    using that by (auto simp: ledger_vm_simps) (simp add: ledger_bank_def l_spendable_def l_locked_change)
  show "ledger_inv (au_RemoveAccount ledger_vm b acc) \<and>
      same_money (vk_bank ledger_vm) {au_Address ledger_vm acc} b (au_RemoveAccount ledger_vm b acc) \<and>
      (\<forall>a. au_GetAccount ledger_vm (au_RemoveAccount ledger_vm b acc) a =
        (if a = au_Address ledger_vm acc then None else au_GetAccount ledger_vm b a))"
    if "ledger_inv b" for b acc
    using that by (simp add: ledger_vm_def ledger_inv_remove same_money_def)
      (simp add: ledger_bank_def l_spendable_def l_locked_change)
qed (auto simp: ledger_vm_def ledger_bank_def l_send_def l_mint_def l_burn_def l_account_def l_module_def vm_ModuleName_def
    pb_ModuleName_def l_new_def l_base_def l_spendable_def same_money_def l_create_present ex_coin_info_def
    dest: l_account_address split: if_splits)

end
