(* ===== verification/VmKeeperProps.thy ===== *)
theory VmKeeperProps
  imports VmKeeperBooks
begin

text \<open>
  The properties of the keeper of \<open>x/vm\<close>, with witnesses on the ledger.
\<close>

section \<open>A small chain\<close>

text \<open>
  Address 5 owns 5.3 coins; address 6 is a contract with one byte of code, one slot and 0.6 coins. The reserve
  and the EVM module have their accounts.
\<close>

lemma address_Bytes_5: "address_Bytes 5 = [0, 0, 0, 0, 0, 0, 0, 0, 0, 0, 0, 0, 0, 0, 0, 0, 0, 0, 0, 5]"
  by (simp add: address_Bytes_def upt_conv_Cons)

lemma address_Bytes_6: "address_Bytes 6 = [0, 0, 0, 0, 0, 0, 0, 0, 0, 0, 0, 0, 0, 0, 0, 0, 0, 0, 0, 6]"
  by (simp add: address_Bytes_def upt_conv_Cons)

lemma address_Bytes_facts [simp]:
  "address_Bytes 5 < address_Bytes 6" "\<not> address_Bytes 6 < address_Bytes 5"
  "address_Bytes a \<noteq> [x]" "[x] \<noteq> address_Bytes a" "[] \<noteq> address_Bytes a"
proof -
  have "length (address_Bytes a) \<noteq> length [x]" "length (address_Bytes a) \<noteq> length ([] :: bytes)" by simp_all
  then show "address_Bytes a \<noteq> [x]" "[x] \<noteq> address_Bytes a" "[] \<noteq> address_Bytes a" by metis+
qed (simp_all add: address_Bytes_5 address_Bytes_6)

definition ex_account :: "AccAddress \<Rightarrow> laccount" where
  "ex_account a = \<lparr>la_Address = a, la_Sequence = 0, la_Number = 0, la_Locked = (\<lambda>_. 0)\<rparr>"

definition ex_chain_ledger :: ledger where
  "ex_chain_ledger =
     \<lparr>l_balance = (\<lambda>a x. if x = ''uatom'' then (if a = [1] then 1 else if a = address_Bytes 5 then 5 else 0) else 0),
      l_accounts = (\<lambda>a. if a \<in> {[1], [2], address_Bytes 5, address_Bytes 6} then Some (ex_account a) else None),
      l_next = 4, l_supply = (\<lambda>x. if x = ''uatom'' then 6 else 0)\<rparr>"

definition ex_chain :: "ledger vmStore" where
  "ex_chain =
     \<lparr>vm_pb = \<lparr>pbank = ex_chain_ledger, fractional = [(address_Bytes 5, 300000000000), (address_Bytes 6, 600000000000)],
        remainder = Some 100000000000, pb_events = []\<rparr>,
      vm_codeHash = [(6, hash_Bytes 9)], vm_code = [(9, [1])],
      vm_storage = (\<lambda>a. if a = 6 then [(1, hash_Bytes 7)] else [])\<rparr>"

lemma ex_chain_simps [simp]:
  "l_balance ex_chain_ledger = (\<lambda>a x. if x = ''uatom'' then (if a = [1] then 1 else if a = address_Bytes 5 then 5 else 0) else 0)"
  "l_locked ex_chain_ledger = (\<lambda>_ _. 0)" "l_addressed ex_chain_ledger"
  "l_accounts ex_chain_ledger = (\<lambda>a. if a \<in> {[1], [2], address_Bytes 5, address_Bytes 6} then Some (ex_account a) else None)"
  "l_supply ex_chain_ledger = (\<lambda>x. if x = ''uatom'' then 6 else 0)"
  by (auto simp: ex_chain_ledger_def l_locked_def [abs_def] l_addressed_def ex_account_def fun_eq_iff split: option.splits if_splits)

lemma ex_env_simps [simp]:
  "vk_coin ledger_vm = ex_coin_info" "vk_bank ledger_vm = ledger_bank" "au_GetAccount ledger_vm = l_accounts"
  "ak_GetModuleAddress ledger_bank vm_ModuleName = [2]"
  by (simp_all add: ledger_vm_def ledger_bank_def l_module_def vm_ModuleName_def pb_ModuleName_def)

lemma ex_chain_good: "vm_good ledger_vm ledger_inv ex_chain"
proof -
  have "pb_inv ex_coin_info ledger_bank ledger_inv (vm_pb ex_chain)"
    by (auto simp: pb_inv_def ex_chain_def ledger_inv_def kv_sum_def kv_ok_def GetRemainderAmount_def
        split: if_splits) (simp_all add: ledger_bank_def l_module_def)
  then show ?thesis by (simp add: vm_good_def vm_bank_state_def) (simp add: ex_chain_def)
qed

lemma ex_chain_ok: "vm_ok ledger_vm 5" "vm_ok ledger_vm 6"
  by (simp_all add: vm_ok_def)

lemmas vm_eval = pb_eval vm_SetAccount_def vm_SetBalance_def vm_DeleteAccount_def bw_MintAmountToAccount_def
  bw_BurnAmountFromAccount_def bw_SpendableCoin_def vm_bank_state_def vm_with_bank_def vm_EmptyCodeHash_def
  vm_SetCodeHash_def vm_DeleteCodeHash_def ConvertEvmCoinDenomToExtendedDenom_def vm_IsContract_def vm_GetCode_def
  vm_GetCodeHash_def pb_SendCoinsFromModuleToAccount_def pb_SendCoinsFromAccountToModule_def vm_ModuleName_def
  storage_keys delete_all_states kv_delete_all ledger_vm_def ex_chain_def ex_account_def l_base_def
  l_locked_change

section \<open>Properties\<close>

text \<open>
  C16. \<open>SetAccount\<close> and \<open>GetAccount\<close> agree: after a successful \<open>SetAccount\<close>, \<open>GetAccount\<close> returns exactly the nonce, balance and
  code hash that were set, for every amount up to 256 bits and also when the account did not
  exist before. The account of every other address, its balance included, and all storage is
  unchanged, and the books of \<open>x/precisebank\<close> stay balanced. The address is not one of the two
  module accounts that the mint or burn goes through.
\<close>

theorem SetAccount_GetAccount:
  assumes "vm_env D binv" "vm_good D binv c" "vm_ok D a" "vm_SetAccount D c a x = Inr c'"
  shows "vm_good D binv c' \<and> vm_GetAccount D c' b = (if b = a then Some (acc_in x) else vm_GetAccount D c b) \<and>
    vm_GetState c' b key = vm_GetState c b key"
  using vm_env.SetAccount_view [OF assms] by blast

lemma ex_SetAccount: "\<exists>c'. vm_SetAccount ledger_vm ex_chain 5 \<lparr>acc_Nonce = 4, acc_Balance = 6000000000000, acc_CodeHash = 8\<rparr> = Inr c'"
  by (simp add: vm_eval)

theorem SetAccount_GetAccount_witness:
  "\<exists>c'. vm_SetAccount ledger_vm ex_chain 5 \<lparr>acc_Nonce = 4, acc_Balance = 6000000000000, acc_CodeHash = 8\<rparr> = Inr c' \<and>
     vm_GetAccount ledger_vm c' 5 = Some \<lparr>in_Nonce = 4, in_Balance = Some 6000000000000, in_CodeHash = Some 8\<rparr> \<and>
     vm_GetAccount ledger_vm c' 6 = vm_GetAccount ledger_vm ex_chain 6"
proof -
  obtain c' where run: "vm_SetAccount ledger_vm ex_chain 5 \<lparr>acc_Nonce = 4, acc_Balance = 6000000000000, acc_CodeHash = 8\<rparr> = Inr c'"
    using ex_SetAccount ..
  note set = SetAccount_GetAccount [OF lvm.vm_env_axioms ex_chain_good ex_chain_ok(1) run]
  from set [of 5 0] set [of 6 0] run show ?thesis by (simp add: acc_in_def)
qed

text \<open>
  C17. \<open>SetBalance\<close> is exact: it mints or burns precisely the difference between the new amount and the
  spendable balance, so afterwards the spendable balance is the amount, no other balance has moved, and
  the extended supply has changed by that difference and nothing else.
\<close>

theorem SetBalance_exact:
  assumes "vm_env D binv" "vm_good D binv c" "vm_ok D a"
    "au_GetAccount D (vm_bank_state c) (address_Bytes a) \<noteq> None" "vm_SetBalance D c a (Some amt) = Inr c'"
    "d = uint amt - pb_SpendableCoin (vk_coin D) (vk_bank D) (vm_pb c) (address_Bytes a) (ExtendedDenom (vk_coin D))"
  shows "vm_good D binv c' \<and> vm_SpendableCoin D c' b = (if b = a then Some amt else vm_SpendableCoin D c b) \<and>
    ext_moved (vk_coin D) (vk_bank D) (vm_pb c) (vm_pb c') (\<lambda>x. if x = address_Bytes a then d else 0) (\<lambda>_ _. 0) d"
proof -
  have "(\<lambda>x. if x = address_Bytes a then uint amt - pb_SpendableCoin (vk_coin D) (vk_bank D) (vm_pb c) x (ExtendedDenom (vk_coin D)) else 0)
    = (\<lambda>x. if x = address_Bytes a then d else 0)" using assms(6) by auto
  with vm_env.SetBalance_spec [OF assms(1-5)] vm_env.SetBalance_view(1,2) [OF assms(1-5)] assms(6)
  show ?thesis by auto
qed

theorem SetBalance_exact_witness:
  "\<exists>c'. vm_SetBalance ledger_vm ex_chain 5 (Some 100000000000) = Inr c' \<and>
     vm_SpendableCoin ledger_vm c' 5 = Some 100000000000 \<and>
     vm_SpendableCoin ledger_vm c' 6 = vm_SpendableCoin ledger_vm ex_chain 6"
proof -
  have "\<exists>c'. vm_SetBalance ledger_vm ex_chain 5 (Some 100000000000) = Inr c'" by (simp add: vm_eval)
  then obtain c' where run: "vm_SetBalance ledger_vm ex_chain 5 (Some 100000000000) = Inr c'" ..
  have acc: "au_GetAccount ledger_vm (vm_bank_state ex_chain) (address_Bytes 5) \<noteq> None"
    by (simp add: vm_bank_state_def) (simp add: ex_chain_def)
  note set = SetBalance_exact [OF lvm.vm_env_axioms ex_chain_good ex_chain_ok(1) acc run refl]
  from set [of 5] set [of 6] run show ?thesis by simp
qed

text \<open>
  C18. \<open>DeleteAccount\<close> removes a self-destructed contract completely: the account, its whole
  balance (vesting or not), all its storage and its code hash are gone, and no other account, balance or slot is touched.
  An address without an account is left alone.
\<close>

theorem DeleteAccount_clears:
  assumes "vm_env D binv" "vm_good D binv c" "vm_ok D a" "vm_DeleteAccount D c a = Inr c'"
  shows "vm_good D binv c' \<and> vm_GetAccount D c' b = (if b = a then None else vm_GetAccount D c b) \<and>
    (b \<noteq> a \<longrightarrow> vm_GetState c' b key = vm_GetState c b key) \<and>
    (vm_GetAccount D c a \<noteq> None \<longrightarrow> vm_GetAccountStorage c' a = [] \<and> vm_GetCodeHash D c' a = vm_EmptyCodeHash D \<and>
      pb_GetBalance (vk_coin D) (vk_bank D) (vm_pb c') (address_Bytes a) (ExtendedDenom (vk_coin D)) = 0)"
  using vm_env.DeleteAccount_view [OF assms]
  by (simp add: vm_GetAccountStorage_def vm_ForEachStorage_def vm_storage_list_def)

theorem DeleteAccount_clears_witness:
  "\<exists>c'. vm_DeleteAccount ledger_vm ex_chain 6 = Inr c' \<and> vm_GetAccount ledger_vm c' 6 = None \<and>
     vm_GetAccountStorage c' 6 = [] \<and> vm_GetAccount ledger_vm c' 5 = vm_GetAccount ledger_vm ex_chain 5"
proof -
  have "\<exists>c'. vm_DeleteAccount ledger_vm ex_chain 6 = Inr c'" by (simp add: vm_eval)
  then obtain c' where run: "vm_DeleteAccount ledger_vm ex_chain 6 = Inr c'" ..
  note del = DeleteAccount_clears [OF lvm.vm_env_axioms ex_chain_good ex_chain_ok(2) run]
  have "vm_GetAccount ledger_vm ex_chain 6 \<noteq> None" by (simp add: GetAccount_eq vm_bank_state_def) (simp add: ex_chain_def)
  with del [of 5 0] del [of 6 0] run show ?thesis by simp
qed

end
