(* ===== verification/ChainCommit.thy ===== *)
theory ChainCommit
  imports VmKeeperProps
begin

text \<open>
  Committing a \<open>StateDB\<close> on the keeper of \<open>x/vm\<close>: what the commit does to the total supply. The contract of
  the keeper is extended by a total and the balances it is made of.
\<close>

section \<open>Totals\<close>

locale supply_contract = keeper_contract +
  fixes total :: "'a \<Rightarrow> int" and bal :: "'a \<Rightarrow> address \<Rightarrow> int"
  assumes SetAccount_total: "good c \<Longrightarrow> ok a \<Longrightarrow> k_SetAccount K c a x = Inr c' \<Longrightarrow>
      total c' = total c + (uint (acc_Balance x) - bal c a)"
    and SetAccount_bal: "good c \<Longrightarrow> ok a \<Longrightarrow> k_SetAccount K c a x = Inr c' \<Longrightarrow> b \<noteq> a \<Longrightarrow> bal c' b = bal c b"
    and SetState_total: "total (k_SetState K c a key bs) = total c" "bal (k_SetState K c a key bs) = bal c"
    and code_total: "total (k_SetCode K c h code) = total c" "bal (k_SetCode K c h code) = bal c"
      "total (k_DeleteCode K c h) = total c" "bal (k_DeleteCode K c h) = bal c"
begin

lemma commit_slots_total:
  "commit_slots K keep keys obj c = (obj', c') \<Longrightarrow> total c' = total c \<and> bal c' = bal c"
proof (induction keys arbitrary: obj c)
  case (Cons key keys)
  then show ?case by (cases keep) (auto simp: commit_slots_Cons Let_def SetState_total simp del: commit_slots.simps)
qed simp

lemma commit_code_total: "total (commit_code K obj c) = total c" "bal (commit_code K obj c) = bal c"
  by (simp_all add: commit_code_def code_total split: option.split)

lemma commit_object_total:
  assumes "good c" "ok (so_address obj)" "\<not> selfDestructed obj" "commit_object K keep obj c = Inr (obj', c')"
  shows "total c' = total c + (uint (acc_Balance (so_account obj)) - bal c (so_address obj)) \<and>
    (\<forall>b. b \<noteq> so_address obj \<longrightarrow> bal c' b = bal c b)"
proof -
  let ?c1 = "commit_code K obj c"
  obtain c2 where c2: "k_SetAccount K ?c1 (so_address obj) (so_account obj) = Inr c2"
    "commit_slots K keep (SortedKeys (dirtyStorage obj)) obj c2 = (obj', c')"
    using assms(3,4) by (auto simp: commit_object_def rbind_eq_Inr)
  note c1 = commit_code_spec(1) [OF assms(1), of obj]
  from SetAccount_total [OF c1 assms(2) c2(1)] SetAccount_bal [OF c1 assms(2) c2(1)] commit_slots_total [OF c2(2)]
  show ?thesis by (simp add: commit_code_total)
qed

lemma commit_loop_total_supply:
  assumes "good c" "distinct as" "commit_loop K keep as s c = Inr (s', c')"
    and "\<And>a obj. a \<in> set as \<Longrightarrow> stateObjects s a = Some obj \<Longrightarrow>
      so_address obj = a \<and> kv_ok (dirtyStorage obj) \<and> \<not> selfDestructed obj"
    and "\<And>a. a \<in> set as \<Longrightarrow> ok a"
  shows "total c' = total c + (\<Sum>a\<leftarrow>as. (case stateObjects s a of None \<Rightarrow> 0
    | Some obj \<Rightarrow> uint (acc_Balance (so_account obj)) - bal c a))"
  using assms
proof (induction as arbitrary: s c)
  case (Cons a as)
  then obtain obj obj' c1 where o: "stateObjects s a = Some obj" "commit_object K keep obj c = Inr (obj', c1)"
    "commit_loop K keep as (setStateObject obj' s) c1 = Inr (s', c')"
    by (auto simp: rbind_eq_Inr split: option.splits)
  have a: "so_address obj = a" "kv_ok (dirtyStorage obj)" "\<not> selfDestructed obj" "ok (so_address obj)"
    using Cons.prems(4) [OF _ o(1)] Cons.prems(5) by auto
  note spec = commit_object_spec(1,2) [OF Cons.prems(1) a(2) o(2) a(4)] and sup = commit_object_total [OF Cons.prems(1) a(4,3) o(2)]
  have d: "a \<notin> set as" "distinct as" using Cons.prems(2) by simp_all
  have obj': "so_address obj' = a" using spec(2) a(1) by simp
  have st: "stateObjects (setStateObject obj' s) x = stateObjects s x" if "x \<in> set as" for x
    using that d(1) obj' by auto
  have bal: "bal c1 x = bal c x" if "x \<in> set as" for x using that sup d(1) a(1) by metis
  have "total c' = total c1 + (\<Sum>a\<leftarrow>as. (case stateObjects (setStateObject obj' s) a of None \<Rightarrow> 0
    | Some obj \<Rightarrow> uint (acc_Balance (so_account obj)) - bal c1 a))"
    using spec(1) d(2) o(3) by (rule Cons.IH) (use Cons.prems(4,5) st in auto)
  also have "(\<Sum>a\<leftarrow>as. (case stateObjects (setStateObject obj' s) a of None \<Rightarrow> 0
      | Some obj \<Rightarrow> uint (acc_Balance (so_account obj)) - bal c1 a)) =
    (\<Sum>a\<leftarrow>as. (case stateObjects s a of None \<Rightarrow> 0 | Some obj \<Rightarrow> uint (acc_Balance (so_account obj)) - bal c a))"
    using st bal by (intro arg_cong [where f = sum_list] map_cong refl) (simp split: option.split)
  finally show ?case using sup o(1) a(1) by simp
qed simp

text \<open>The whole commit of a run without self-destructs.\<close>

lemma Commit_total_supply:
  assumes "good c" "run K ps (sdb_New c evs cfg) = Inr s" "clean_run K ps (sdb_New c evs cfg)" "writeCache s = None"
    and "sdb_Commit K s = Inr s'" "\<And>b. kv_get (dirties s) b \<noteq> None \<Longrightarrow> ok b"
    and "\<And>a obj. stateObjects s a = Some obj \<Longrightarrow> \<not> selfDestructed obj"
  shows "total (sdb_ctx s') = total c + (\<Sum>a\<leftarrow>kv_keys (dirties s). (case stateObjects s a of None \<Rightarrow> 0
    | Some obj \<Rightarrow> uint (acc_Balance (so_account obj)) - bal c a))"
proof -
  obtain gs where rec: "recorded K gs s" using run_recorded [OF sdb_inv_New assms(2,3)] by blast
  have j: "journaled K (sdb_New c evs cfg) s" using run_journaled [OF sdb_inv_New journaled_New assms(2,3)] .
  have base: "commit_base s = c" using commit_base_New [OF j assms(4)] by simp
  obtain s1 s2 where l: "commit_loop K False (kv_keys (dirties s)) s1 c = Inr (s2, sdb_ctx s')"
    "stateObjects s1 = stateObjects s" using Commit_loop [OF assms(5)] base by auto
  have inv: "sdb_inv K s" using rec by (simp add: recorded_def)
  then have kv: "distinct (kv_keys (dirties s))" by (intro distinct_kv_keys) (simp add: sdb_inv_def dirties_ok_def)
  have obj: "so_address obj = b \<and> kv_ok (dirtyStorage obj) \<and> \<not> selfDestructed obj" if "stateObjects s1 b = Some obj" for b obj
    using inv_obj [OF inv, of b obj] that l(2) assms(7) by (simp add: obj_at_alt obj_ok_def)
  have "ok b" if "b \<in> set (kv_keys (dirties s))" for b using that assms(6) by (auto simp: set_kv_keys)
  from commit_loop_total_supply [OF assms(1) kv l(1) obj this] l(2) show ?thesis by simp
qed

end

section \<open>The extended supply\<close>

definition vm_supply :: "('b, 'a) vmKeeper \<Rightarrow> 'b vmStore \<Rightarrow> int" where
  "vm_supply D c = bk_GetSupply (vk_bank D) (vm_bank_state c) (Denom (vk_coin D)) * conversion (vk_coin D) - GetRemainderAmount (vm_pb c)"

definition vm_spendable :: "('b, 'a) vmKeeper \<Rightarrow> 'b vmStore \<Rightarrow> address \<Rightarrow> int" where
  "vm_spendable D c a = pb_SpendableCoin (vk_coin D) (vk_bank D) (vm_pb c) (address_Bytes a) (ExtendedDenom (vk_coin D))"

context vm_env
begin

lemma SetAccount_supply:
  assumes good: "vm_good D binv c" and ok: "vm_ok D a" and run: "vm_SetAccount D c a x' = Inr c'"
  shows "vm_supply D c' = vm_supply D c + (uint (acc_Balance x') - vm_spendable D c a) \<and>
    (\<forall>b. b \<noteq> a \<longrightarrow> vm_spendable D c' b = vm_spendable D c b)"
proof -
  obtain c3 acct where c3: "vm_SetBalance D c3 a (Some (acc_Balance x')) = Inr c'" "vm_good D binv c3"
    "au_GetAccount D (vm_bank_state c3) = (au_GetAccount D (vm_bank_state c))(address_Bytes a \<mapsto> acct)"
    "same_money (vk_bank D) {} (vm_bank_state c) (vm_bank_state c3)" "vm_pb c3 = (vm_pb c)\<lparr>pbank := vm_bank_state c3\<rparr>"
    by (rule SetAccount_prepare [OF good run])
  have "au_GetAccount D (vm_bank_state c3) (address_Bytes a) \<noteq> None" by (simp add: c3(3))
  then obtain s where s: "c' = c3\<lparr>vm_pb := s\<rparr>" and mv: "ext_moved (vk_coin D) (vk_bank D) (vm_pb c3) s
      (\<lambda>x. if x = address_Bytes a then uint (acc_Balance x') - pb_SpendableCoin (vk_coin D) (vk_bank D) (vm_pb c3) x (ExtendedDenom (vk_coin D)) else 0)
      (\<lambda>_ _. 0) (uint (acc_Balance x') - pb_SpendableCoin (vk_coin D) (vk_bank D) (vm_pb c3) (address_Bytes a) (ExtendedDenom (vk_coin D)))"
    using SetBalance_spec [OF c3(2) ok _ c3(1)] by blast
  obtain b3 where b3: "vm_pb c3 = (vm_pb c)\<lparr>pbank := b3\<rparr>" using c3(5) by blast
  have old: "vm_supply D c3 = vm_supply D c" "vm_spendable D c3 b = vm_spendable D c b" for b
    using c3(4) b3 unfolding vm_supply_def vm_spendable_def same_money_def
    by (simp_all add: vm_bank_state_def pb_SpendableCoin_def GetFractionalBalance_def GetRemainderAmount_def)
  have "vm_supply D c' = vm_supply D c3 + (uint (acc_Balance x') - vm_spendable D c3 a)"
    using mv unfolding ext_moved_def by (simp add: vm_supply_def vm_spendable_def vm_bank_state_def s)
  moreover have "vm_spendable D c' b = vm_spendable D c3 b" if "b \<noteq> a" for b
    using spendable_after [OF mv ok, of b] that by (simp add: vm_spendable_def s)
  ultimately show ?thesis using old by simp
qed

end

sublocale vm_env \<subseteq> sup: supply_contract "vm_statedb_keeper D" "vm_good D binv" "vm_ok D" "vm_supply D" "vm_spendable D"
proof
  show "vm_supply D c' = vm_supply D c + (uint (acc_Balance x) - vm_spendable D c a)"
    "b \<noteq> a \<Longrightarrow> vm_spendable D c' b = vm_spendable D c b"
    if "vm_good D binv c" "vm_ok D a" "k_SetAccount (vm_statedb_keeper D) c a x = Inr c'" for c a x c' b
    using SetAccount_supply [OF that(1,2), of x c'] that(3) by (simp_all add: vm_statedb_keeper_def)
qed (simp_all add: vm_statedb_keeper_def vm_supply_def vm_spendable_def [abs_def] vm_bank_state_def
      vm_SetState_def vm_SetCode_def vm_DeleteCode_def)

context vm_env
begin

lemmas commit_keeps_good = vk.Commit_good and commit_getters = vk.Commit_getters and commit_supply = sup.Commit_total_supply

end

end
