(* ===== verification/FeeMarket.thy ===== *)
theory FeeMarket
  imports EvmDenom
begin

text \<open>
  \<open>x/feemarket\<close>: the EIP-1559 base fee. A decimal of the SDK (\<open>LegacyDec\<close>) is its number of \<open>10 ^ -18\<close> units;
  the operations on decimals that round, the protobuf encoding of the parameters and two constants of
  go-ethereum are the record \<open>fm_env\<close>. A nil decimal is \<open>None\<close>. Metrics, spans and log lines
  are left out, and so is the panic of a decimal beyond 315 bits.
\<close>

section \<open>The libraries\<close>

type_synonym dec = int

definition dec_one :: dec where
  "dec_one = 10 ^ 18"

definition LegacyNewDec :: "int \<Rightarrow> dec" where
  "LegacyNewDec n = n * dec_one"

record fm_Params =
  NoBaseFee :: bool
  BaseFeeChangeDenominator :: u32
  ElasticityMultiplier :: u32
  EnableHeight :: int
  BaseFee :: "dec option"
  MinGasPrice :: "dec option"
  MinGasMultiplier :: "dec option"

text \<open>\<open>fm_codec\<close> is marshalling followed by unmarshalling.\<close>

record fm_env =
  dec_Mul :: "dec \<Rightarrow> dec \<Rightarrow> dec"
  dec_QuoInt :: "dec \<Rightarrow> int \<Rightarrow> dec"
  dec_TruncateInt :: "dec \<Rightarrow> int"
  fm_codec :: "fm_Params \<Rightarrow> fm_Params res"
  DefaultBaseFeeChangeDenominator :: u32
  DefaultElasticityMultiplier :: u32

section \<open>Parameters\<close>

definition DefaultBaseFee :: dec where
  "DefaultBaseFee = LegacyNewDec 1000000000"

definition DefaultMinGasMultiplier :: dec where
  "DefaultMinGasMultiplier = 50 * 10 ^ 16"

definition fm_DefaultParams :: "fm_env \<Rightarrow> fm_Params" where
  "fm_DefaultParams X =
     \<lparr>NoBaseFee = False, BaseFeeChangeDenominator = DefaultBaseFeeChangeDenominator X,
      ElasticityMultiplier = DefaultElasticityMultiplier X, EnableHeight = 0, BaseFee = Some DefaultBaseFee,
      MinGasPrice = Some 0, MinGasMultiplier = Some DefaultMinGasMultiplier\<rparr>"

definition fm_NewParams :: "bool \<Rightarrow> u32 \<Rightarrow> u32 \<Rightarrow> dec option \<Rightarrow> int \<Rightarrow> dec option \<Rightarrow> dec option \<Rightarrow> fm_Params" where
  "fm_NewParams noBaseFee baseFeeChangeDenom elasticityMultiplier baseFee enableHeight minGasPrice minGasPriceMultiplier =
     \<lparr>NoBaseFee = noBaseFee, BaseFeeChangeDenominator = baseFeeChangeDenom, ElasticityMultiplier = elasticityMultiplier,
      EnableHeight = enableHeight, BaseFee = baseFee, MinGasPrice = minGasPrice, MinGasMultiplier = minGasPriceMultiplier\<rparr>"

definition validateMinGasPrice :: "dec option \<Rightarrow> unit res" where
  "validateMinGasPrice gasPrice =
     (case gasPrice of
        None \<Rightarrow> Inl (Err ''invalid parameter: nil'')
      | Some p \<Rightarrow> if p < 0 then Inl (Err ''value cannot be negative'') else Inr ())"

definition validateMinGasMultiplier :: "dec option \<Rightarrow> unit res" where
  "validateMinGasMultiplier multiplier =
     (case multiplier of
        None \<Rightarrow> Inl (Err ''invalid parameter: nil'')
      | Some m \<Rightarrow>
          if m < 0 then Inl (Err ''value cannot be negative'')
          else if dec_one < m then Inl (Err ''value cannot be greater than 1'')
          else Inr ())"

text \<open>The sign of a nil base fee cannot be taken.\<close>

definition fm_Params_Validate :: "fm_Params \<Rightarrow> unit res" where
  "fm_Params_Validate p =
     (if BaseFeeChangeDenominator p = 0 then Inl (Err ''base fee change denominator cannot be 0'')
      else case BaseFee p of
        None \<Rightarrow> Inl (Panic ''nil pointer dereference'')
      | Some b \<Rightarrow>
          if b < 0 then Inl (Err ''initial base fee cannot be negative'')
          else if EnableHeight p < 0 then Inl (Err ''enable height cannot be negative'')
          else if ElasticityMultiplier p = 0 then Inl (Err ''elasticity multiplier cannot be zero'')
          else rbind (validateMinGasMultiplier (MinGasMultiplier p)) (\<lambda>_. validateMinGasPrice (MinGasPrice p)))"

definition IsBaseFeeEnabled :: "fm_Params \<Rightarrow> int \<Rightarrow> bool" where
  "IsBaseFeeEnabled p height = (\<not> NoBaseFee p \<and> EnableHeight p \<le> height)"

section \<open>The base fee\<close>

definition CalcGasBaseFee :: "fm_env \<Rightarrow> u64 \<Rightarrow> u64 \<Rightarrow> u64 \<Rightarrow> dec \<Rightarrow> dec \<Rightarrow> dec option \<Rightarrow> dec res" where
  "CalcGasBaseFee X gasUsed gasTarget baseFeeChangeDenom baseFee minUnitGas minGasPrice =
     (if gasUsed = gasTarget then Inr baseFee
      else if gasTarget = 0 then Inr 0
      else if baseFeeChangeDenom = 0 then Inl (Panic ''division by zero'')
      else
        let num = LegacyNewDec \<bar>uint gasUsed - uint gasTarget\<bar>;
            num = dec_Mul X num baseFee;
            num = dec_QuoInt X num (uint gasTarget);
            num = dec_QuoInt X num (uint baseFeeChangeDenom)
        in
        if gasTarget < gasUsed then Inr (baseFee + max num minUnitGas)
        else case minGasPrice of
               None \<Rightarrow> Inl (Panic ''nil pointer dereference'')
             | Some m \<Rightarrow> Inr (max (baseFee - num) m))"

section \<open>The keeper\<close>

record fmState =
  fm_params :: "fm_Params option"
  fm_blockGas :: "u64 option"
  fm_events :: "(string \<times> (string \<times> int) list) list"

text \<open>What the module reads of the context; \<open>cx_MaxGas\<close> is \<open>None\<close> where the block parameters are nil.\<close>

record fm_ctx =
  cx_BlockHeight :: int
  cx_MaxGas :: "int option"
  cx_BlockGasMeterNil :: bool
  cx_BlockGasWanted :: u64
  cx_BlockGasUsed :: u64

definition fm_GetParams :: "fm_env \<Rightarrow> fmState \<Rightarrow> fm_Params" where
  "fm_GetParams X s = (case fm_params s of None \<Rightarrow> fm_DefaultParams X | Some p \<Rightarrow> p)"

definition fm_SetParams :: "fm_env \<Rightarrow> fm_Params \<Rightarrow> fmState \<Rightarrow> fmState res" where
  "fm_SetParams X p s = rbind (fm_codec X p) (\<lambda>p'. Inr (s\<lparr>fm_params := Some p'\<rparr>))"

definition fm_GetBaseFee :: "fm_env \<Rightarrow> fmState \<Rightarrow> dec option" where
  "fm_GetBaseFee X s = (let params = fm_GetParams X s in if NoBaseFee params then None else BaseFee params)"

definition fm_SetBaseFee :: "fm_env \<Rightarrow> dec option \<Rightarrow> fmState \<Rightarrow> fmState" where
  "fm_SetBaseFee X baseFee s =
     (case fm_SetParams X ((fm_GetParams X s)\<lparr>BaseFee := baseFee\<rparr>) s of Inl _ \<Rightarrow> s | Inr s' \<Rightarrow> s')"

definition fm_SetBlockGasWanted :: "u64 \<Rightarrow> fmState \<Rightarrow> fmState" where
  "fm_SetBlockGasWanted gas s = s\<lparr>fm_blockGas := Some gas\<rparr>"

definition fm_GetBlockGasWanted :: "fmState \<Rightarrow> u64" where
  "fm_GetBlockGasWanted s = (case fm_blockGas s of None \<Rightarrow> 0 | Some g \<Rightarrow> g)"

text \<open>The factor is that of the configured coin; \<open>None\<close> is the nil decimal.\<close>

definition CalculateBaseFee :: "fm_env \<Rightarrow> EvmCoinInfo \<Rightarrow> fm_ctx \<Rightarrow> fmState \<Rightarrow> dec option res" where
  "CalculateBaseFee X E cx s =
     (let params = fm_GetParams X s in
      if \<not> IsBaseFeeEnabled params (cx_BlockHeight cx) then Inr None
      else if cx_BlockHeight cx = EnableHeight params then Inr (BaseFee params)
      else case BaseFee params of
        None \<Rightarrow> Inr None
      | Some parentBaseFee \<Rightarrow>
          let parentGasUsed = fm_GetBlockGasWanted s;
              gasLimit = (case cx_MaxGas cx of None \<Rightarrow> 2 ^ 64 - 1 | Some g \<Rightarrow> if -1 < g then g else 2 ^ 64 - 1)
          in
          if ElasticityMultiplier params = 0 then Inl (Panic ''division by zero'')
          else
            let parentGasTargetInt = quo gasLimit (uint (ElasticityMultiplier params)) in
            if \<not> (0 \<le> parentGasTargetInt \<and> parentGasTargetInt < 2 ^ 64) then Inr None
            else case Decimals_ConversionFactor (eci_Decimals E) of
              None \<Rightarrow> Inl (Panic ''nil pointer dereference'')
            | Some factor \<Rightarrow>
                rbind (CalcGasBaseFee X parentGasUsed (word_of_int parentGasTargetInt)
                   (ucast (BaseFeeChangeDenominator params)) parentBaseFee
                   (dec_QuoInt X dec_one factor) (MinGasPrice params)) (\<lambda>b. Inr (Some b)))"

definition fm_BeginBlock :: "fm_env \<Rightarrow> EvmCoinInfo \<Rightarrow> fm_ctx \<Rightarrow> fmState \<Rightarrow> fmState res" where
  "fm_BeginBlock X E cx s =
     rbind (CalculateBaseFee X E cx s) (\<lambda>baseFee.
     case baseFee of
       None \<Rightarrow> Inr s
     | Some b \<Rightarrow>
         let s1 = fm_SetBaseFee X (Some b) s in
         Inr (s1\<lparr>fm_events := fm_events s1 @ [(''fee_market'', [(''base_fee'', b)])]\<rparr>))"

definition fm_EndBlock :: "fm_env \<Rightarrow> fm_ctx \<Rightarrow> fmState \<Rightarrow> fmState res" where
  "fm_EndBlock X cx s =
     (if cx_BlockGasMeterNil cx then Inl (Err ''block gas meter is nil when setting block gas wanted'')
      else
        let gasWanted = cx_BlockGasWanted cx; gasUsed = cx_BlockGasUsed cx in
        if 2 ^ 63 \<le> uint gasWanted then Inl (Err ''integer overflow by integer type conversion. Gas wanted > MaxInt64'')
        else if 2 ^ 63 \<le> uint gasUsed then Inl (Err ''integer overflow by integer type conversion. Gas used > MaxInt64'')
        else case MinGasMultiplier (fm_GetParams X s) of
          None \<Rightarrow> Inl (Panic ''nil pointer dereference'')
        | Some minGasMultiplier \<Rightarrow>
            let limitedGasWanted = dec_Mul X (LegacyNewDec (uint gasWanted)) minGasMultiplier;
                updated = dec_TruncateInt X (max limitedGasWanted (LegacyNewDec (uint gasUsed)))
            in
            if \<not> (0 \<le> updated \<and> updated < 2 ^ 64) then Inl (Panic ''Uint64() out of bounds'')
            else
              let s1 = fm_SetBlockGasWanted (word_of_int updated) s in
              Inr (s1\<lparr>fm_events := fm_events s1 @ [(''block_gas'', [(''height'', cx_BlockHeight cx), (''amount'', updated)])]\<rparr>))"

definition fm_UpdateParams :: "fm_env \<Rightarrow> string \<Rightarrow> string \<Rightarrow> fm_Params \<Rightarrow> fmState \<Rightarrow> fmState res" where
  "fm_UpdateParams X authority Authority params s =
     (if authority \<noteq> Authority then Inl (Err ''invalid authority'')
      else fm_SetParams X params s)"

definition fm_MsgUpdateParams_ValidateBasic :: "(string \<Rightarrow> AccAddress res) \<Rightarrow> string \<Rightarrow> fm_Params \<Rightarrow> unit res" where
  "fm_MsgUpdateParams_ValidateBasic FromBech32 Authority params =
     (case FromBech32 Authority of
        Inl _ \<Rightarrow> Inl (Err ''invalid authority address'')
      | Inr _ \<Rightarrow> fm_Params_Validate params)"

section \<open>Genesis and queries\<close>

record fm_GenesisState =
  fg_Params :: fm_Params
  fg_BlockGas :: u64

definition fm_DefaultGenesisState :: "fm_env \<Rightarrow> fm_GenesisState" where
  "fm_DefaultGenesisState X = \<lparr>fg_Params = fm_DefaultParams X, fg_BlockGas = 0\<rparr>"

definition fm_NewGenesisState :: "fm_Params \<Rightarrow> u64 \<Rightarrow> fm_GenesisState" where
  "fm_NewGenesisState params blockGas = \<lparr>fg_Params = params, fg_BlockGas = blockGas\<rparr>"

definition fm_GenesisState_Validate :: "fm_GenesisState \<Rightarrow> unit res" where
  "fm_GenesisState_Validate gs = fm_Params_Validate (fg_Params gs)"

definition fm_InitGenesis :: "fm_env \<Rightarrow> fm_GenesisState \<Rightarrow> fmState \<Rightarrow> fmState res" where
  "fm_InitGenesis X data s =
     (case fm_SetParams X (fg_Params data) s of
        Inl _ \<Rightarrow> Inl (Panic ''could not set parameters at genesis'')
      | Inr s1 \<Rightarrow> Inr (fm_SetBlockGasWanted (fg_BlockGas data) s1))"

definition fm_ExportGenesis :: "fm_env \<Rightarrow> fmState \<Rightarrow> fm_GenesisState" where
  "fm_ExportGenesis X s = \<lparr>fg_Params = fm_GetParams X s, fg_BlockGas = fm_GetBlockGasWanted s\<rparr>"

definition fm_query_Params :: "fm_env \<Rightarrow> fmState \<Rightarrow> fm_Params" where
  "fm_query_Params X s = fm_GetParams X s"

definition fm_query_BaseFee :: "fm_env \<Rightarrow> fmState \<Rightarrow> dec option" where
  "fm_query_BaseFee X s = fm_GetBaseFee X s"

definition fm_query_BlockGas :: "fmState \<Rightarrow> int res" where
  "fm_query_BlockGas s =
     (let gas = uint (fm_GetBlockGasWanted s) in
      if 2 ^ 63 \<le> gas then Inl (Err ''block gas is higher than MaxInt64'') else Inr gas)"

section \<open>The wrapper of \<open>x/vm\<close>\<close>

definition ConvertAmountTo18DecimalsLegacy :: "EvmCoinInfo \<Rightarrow> dec \<Rightarrow> dec res" where
  "ConvertAmountTo18DecimalsLegacy E amt =
     (case Decimals_ConversionFactor (eci_Decimals E) of
        None \<Rightarrow> Inl (Panic ''nil pointer dereference'')
      | Some factor \<Rightarrow> Inr (amt * factor))"

definition ConvertBigIntFrom18DecimalsToLegacyDec :: "fm_env \<Rightarrow> EvmCoinInfo \<Rightarrow> int \<Rightarrow> dec res" where
  "ConvertBigIntFrom18DecimalsToLegacyDec X E amt =
     (case Decimals_ConversionFactor (eci_Decimals E) of
        None \<Rightarrow> Inl (Panic ''nil pointer dereference'')
      | Some factor \<Rightarrow> Inr (dec_QuoInt X (LegacyNewDec amt) factor))"

definition fw_GetBaseFee :: "fm_env \<Rightarrow> u32 \<Rightarrow> fmState \<Rightarrow> int" where
  "fw_GetBaseFee X decimals s =
     (case fm_GetBaseFee X s of
        None \<Rightarrow> 0
      | Some baseFee \<Rightarrow>
         (case Decimals_Validate decimals of
            Inl _ \<Rightarrow> 0
          | Inr _ \<Rightarrow>
             (case Decimals_ConversionFactor decimals of
                None \<Rightarrow> 0
              | Some conv \<Rightarrow> dec_TruncateInt X (baseFee * conv))))"

definition fw_CalculateBaseFee :: "fm_env \<Rightarrow> EvmCoinInfo \<Rightarrow> fm_ctx \<Rightarrow> fmState \<Rightarrow> int option res" where
  "fw_CalculateBaseFee X E cx s =
     rbind (CalculateBaseFee X E cx s) (\<lambda>baseFee.
     case baseFee of
       None \<Rightarrow> Inr None
     | Some b \<Rightarrow>
         rbind (ConvertAmountTo18DecimalsLegacy E b) (\<lambda>c. Inr (Some (dec_TruncateInt X c))))"

text \<open>A nil minimum gas price cannot be multiplied.\<close>

definition fw_GetParams :: "fm_env \<Rightarrow> EvmCoinInfo \<Rightarrow> fmState \<Rightarrow> fm_Params res" where
  "fw_GetParams X E s =
     (let params = fm_GetParams X s in
      rbind (case BaseFee params of
               None \<Rightarrow> Inr params
             | Some b \<Rightarrow> rbind (ConvertAmountTo18DecimalsLegacy E b) (\<lambda>b'. Inr (params\<lparr>BaseFee := Some b'\<rparr>)))
        (\<lambda>params1.
      case MinGasPrice params1 of
        None \<Rightarrow> Inl (Panic ''nil pointer dereference'')
      | Some m \<Rightarrow> rbind (ConvertAmountTo18DecimalsLegacy E m) (\<lambda>m'. Inr (params1\<lparr>MinGasPrice := Some m'\<rparr>))))"

text \<open>\<open>GetBaseFee\<close> of the keeper of \<open>x/vm\<close>; \<open>london\<close> is whether the London rules are active at the height.\<close>

definition vm_GetBaseFee :: "fm_env \<Rightarrow> bool \<Rightarrow> EvmCoinInfo \<Rightarrow> fmState \<Rightarrow> int option" where
  "vm_GetBaseFee X london coinInfo s =
     (if \<not> london then None else Some (fw_GetBaseFee X (eci_Decimals coinInfo) s))"

definition vm_GetMinGasPrice :: "fm_env \<Rightarrow> EvmCoinInfo \<Rightarrow> fmState \<Rightarrow> dec option res" where
  "vm_GetMinGasPrice X E s = rbind (fw_GetParams X E s) (\<lambda>p. Inr (MinGasPrice p))"

end
