(* ===== verification/FeeMarketProps.thy ===== *)
theory FeeMarketProps
  imports FeeMarket
begin

text \<open>
  What the fee market promises: the step of the base fee, the parameters along any run of the module,
  the gas recorded at the end of a block, genesis, and the base fee that \<open>x/vm\<close> reads. The
  laws of the libraries are the locale \<open>fm_laws\<close>.
\<close>

section \<open>The laws\<close>

definition fm_complete :: "fm_Params \<Rightarrow> bool" where
  "fm_complete p \<longleftrightarrow> BaseFee p \<noteq> None \<and> MinGasPrice p \<noteq> None \<and> MinGasMultiplier p \<noteq> None"

locale fm_laws =
  fixes X :: fm_env
  assumes Mul_integer: "dec_Mul X (LegacyNewDec n) d = n * d"
    and QuoInt_truncates: "n \<noteq> 0 \<Longrightarrow> dec_QuoInt X d n = quo d n"
    and TruncateInt_truncates: "dec_TruncateInt X d = quo d dec_one"
    and codec_exact: "fm_complete p \<Longrightarrow> fm_codec X p = Inr p"
    and default_denominator: "DefaultBaseFeeChangeDenominator X \<noteq> 0"
    and default_elasticity: "DefaultElasticityMultiplier X \<noteq> 0"

text \<open>The step of EIP-1559 over the integers.\<close>

definition fee_delta :: "int \<Rightarrow> int \<Rightarrow> int \<Rightarrow> int \<Rightarrow> int" where
  "fee_delta used target denom b = \<bar>used - target\<bar> * b div target div denom"

definition fm_valid :: "fm_Params \<Rightarrow> bool" where
  "fm_valid p \<longleftrightarrow> fm_Params_Validate p = Inr ()"

lemma fm_valid_iff:
  "fm_valid p \<longleftrightarrow> BaseFeeChangeDenominator p \<noteq> 0 \<and> ElasticityMultiplier p \<noteq> 0 \<and> 0 \<le> EnableHeight p \<and>
     (\<exists>b m g. BaseFee p = Some b \<and> 0 \<le> b \<and> MinGasPrice p = Some m \<and> 0 \<le> m \<and>
       MinGasMultiplier p = Some g \<and> 0 \<le> g \<and> g \<le> dec_one)"
  by (auto simp: fm_valid_def fm_Params_Validate_def validateMinGasPrice_def validateMinGasMultiplier_def
      rbind_eq_Inr not_less split: option.splits if_splits)

lemma fm_valid_complete: "fm_valid p \<Longrightarrow> fm_complete p"
  by (auto simp: fm_valid_iff fm_complete_def)

lemma fee_delta_nonneg: "0 \<le> b \<Longrightarrow> 0 < t \<Longrightarrow> 0 < d \<Longrightarrow> 0 \<le> fee_delta u t d b"
  by (simp add: fee_delta_def pos_imp_zdiv_nonneg_iff)

lemma fee_delta_mono:
  assumes "0 \<le> b" "0 < t" "0 < d" "\<bar>u - t\<bar> \<le> \<bar>v - t\<bar>"
  shows "fee_delta u t d b \<le> fee_delta v t d b"
  using assms by (simp add: fee_delta_def zdiv_mono1 mult_right_mono)

lemma fee_delta_zero: "0 < t \<Longrightarrow> fee_delta 0 t d b = b div d"
  by (simp add: fee_delta_def)


lemma valid_conversion: "Decimals_Validate d = Inr () \<Longrightarrow> \<exists>f. Decimals_ConversionFactor d = Some f \<and> 0 < f"
  using conversion_table [of d] by (auto simp: Decimals_Validate_ok)

lemma uint_pos: "w \<noteq> 0 \<Longrightarrow> 0 < uint w"
  by (simp add: order_less_le unsigned_eq_0_iff eq_commute [of 0])

lemma uint_less_iff: "a < b \<longleftrightarrow> uint a < uint b"
  by (rule word_less_def)

definition gas_target :: "fm_ctx \<Rightarrow> fm_Params \<Rightarrow> int" where
  "gas_target cx p =
     quo (case cx_MaxGas cx of None \<Rightarrow> 2 ^ 64 - 1 | Some g \<Rightarrow> if -1 < g then g else 2 ^ 64 - 1) (uint (ElasticityMultiplier p))"

lemma gas_target_nonneg: "ElasticityMultiplier p \<noteq> 0 \<Longrightarrow> 0 \<le> gas_target cx p"
  unfolding gas_target_def by (rule quo_nonneg) (auto simp: uint_pos split: option.split)

lemma denominator_ucast: "d \<noteq> (0 :: u32) \<Longrightarrow> (ucast d :: u64) \<noteq> 0"
  by (simp add: word_uint_eq_iff uint_up_ucast is_up)

section \<open>The step\<close>

context fm_laws
begin

lemma CalcGasBaseFee_eq:
  assumes "0 \<le> b" "denom \<noteq> 0" "target \<noteq> 0"
  shows "CalcGasBaseFee X used target denom b unit (Some m) =
    Inr (if used = target then b
         else if target < used then b + max (fee_delta (uint used) (uint target) (uint denom) b) unit
         else max (b - fee_delta (uint used) (uint target) (uint denom) b) m)"
  using assms uint_pos [OF assms(2)] uint_pos [OF assms(3)]
  by (simp add: CalcGasBaseFee_def Let_def Mul_integer QuoInt_truncates quo_nonneg_eq fee_delta_def
      pos_imp_zdiv_nonneg_iff)

lemma CalcGasBaseFee_total:
  assumes "0 \<le> b" "denom \<noteq> 0" "0 \<le> m" "0 \<le> unit"
  obtains b' where "CalcGasBaseFee X used target denom b unit (Some m) = Inr b'" "0 \<le> b'"
proof (cases "target = 0")
  case True
  then show ?thesis using that assms by (cases "used = 0") (simp_all add: CalcGasBaseFee_def)
next
  case False
  show ?thesis
    by (rule that, rule CalcGasBaseFee_eq [OF assms(1,2) False])
      (use assms in auto)
qed

end

section \<open>The keeper\<close>

text \<open>
  What happens to the module's store: the two hooks of a block, and a parameter change whose message
  passed \<open>ValidateBasic\<close>. A call that fails changes nothing.
\<close>

inductive fm_step :: "fm_env \<Rightarrow> EvmCoinInfo \<Rightarrow> (string \<Rightarrow> AccAddress res) \<Rightarrow> string \<Rightarrow> fmState \<Rightarrow> fmState \<Rightarrow> bool"
  for X E F A where
  Begin: "fm_BeginBlock X E cx s = Inr s' \<Longrightarrow> fm_step X E F A s s'"
| End: "fm_EndBlock X cx s = Inr s' \<Longrightarrow> fm_step X E F A s s'"
| Update: "fm_MsgUpdateParams_ValidateBasic F Auth p = Inr () \<Longrightarrow> fm_UpdateParams X A Auth p s = Inr s' \<Longrightarrow>
    fm_step X E F A s s'"

inductive fm_steps :: "fm_env \<Rightarrow> EvmCoinInfo \<Rightarrow> (string \<Rightarrow> AccAddress res) \<Rightarrow> string \<Rightarrow> fmState \<Rightarrow> fmState \<Rightarrow> bool"
  for X E F A s where
  base: "fm_steps X E F A s s"
| step: "fm_steps X E F A s t \<Longrightarrow> fm_step X E F A t u \<Longrightarrow> fm_steps X E F A s u"

text \<open>A block of the module, and a run of blocks.\<close>

definition fm_block :: "fm_env \<Rightarrow> EvmCoinInfo \<Rightarrow> fm_ctx \<Rightarrow> fmState \<Rightarrow> fmState res" where
  "fm_block X E cx s = rbind (fm_BeginBlock X E cx s) (fm_EndBlock X cx)"

fun fm_run :: "fm_env \<Rightarrow> EvmCoinInfo \<Rightarrow> fm_ctx list \<Rightarrow> fmState \<Rightarrow> fmState res" where
  "fm_run X E [] s = Inr s"
| "fm_run X E (cx # cxs) s = rbind (fm_block X E cx s) (fm_run X E cxs)"

definition fm_idle :: "fm_Params \<Rightarrow> fm_ctx \<Rightarrow> bool" where
  "fm_idle p cx \<longleftrightarrow> \<not> cx_BlockGasMeterNil cx \<and> cx_BlockGasWanted cx = 0 \<and> cx_BlockGasUsed cx = 0 \<and>
     EnableHeight p < cx_BlockHeight cx \<and> 0 < gas_target cx p \<and> gas_target cx p < 2 ^ 64"

context fm_laws
begin

lemma SetBaseFee_eq:
  assumes "fm_valid (fm_GetParams X s)"
  shows "fm_SetBaseFee X (Some b) s = s\<lparr>fm_params := Some ((fm_GetParams X s)\<lparr>BaseFee := Some b\<rparr>)\<rparr>"
  using fm_valid_complete [OF assms] by (simp add: fm_SetBaseFee_def fm_SetParams_def codec_exact fm_complete_def)

lemma valid_DefaultParams: "fm_valid (fm_DefaultParams X)"
  by (simp add: fm_valid_iff fm_DefaultParams_def default_denominator default_elasticity DefaultBaseFee_def
      DefaultMinGasMultiplier_def LegacyNewDec_def dec_one_def)

lemma CalculateBaseFee_disabled:
  "\<not> IsBaseFeeEnabled (fm_GetParams X s) (cx_BlockHeight cx) \<Longrightarrow> CalculateBaseFee X E cx s = Inr None"
  by (simp add: CalculateBaseFee_def Let_def)

lemma CalculateBaseFee_first:
  assumes "IsBaseFeeEnabled (fm_GetParams X s) (cx_BlockHeight cx)" "cx_BlockHeight cx = EnableHeight (fm_GetParams X s)"
  shows "CalculateBaseFee X E cx s = Inr (BaseFee (fm_GetParams X s))"
  using assms by (simp add: CalculateBaseFee_def Let_def)

lemma CalculateBaseFee_later:
  assumes "IsBaseFeeEnabled (fm_GetParams X s) (cx_BlockHeight cx)" "cx_BlockHeight cx \<noteq> EnableHeight (fm_GetParams X s)"
    "fm_valid (fm_GetParams X s)" "BaseFee (fm_GetParams X s) = Some b"
    "Decimals_ConversionFactor (eci_Decimals E) = Some f"
  shows "CalculateBaseFee X E cx s =
    (let t = gas_target cx (fm_GetParams X s) in
     if t < 2 ^ 64
     then rbind (CalcGasBaseFee X (fm_GetBlockGasWanted s) (word_of_int t)
       (ucast (BaseFeeChangeDenominator (fm_GetParams X s))) b (dec_QuoInt X dec_one f)
       (MinGasPrice (fm_GetParams X s))) (\<lambda>b. Inr (Some b))
     else Inr None)"
proof -
  have e: "ElasticityMultiplier (fm_GetParams X s) \<noteq> 0" using assms(3) by (simp add: fm_valid_iff)
  have "0 \<le> gas_target cx (fm_GetParams X s)" by (rule gas_target_nonneg [OF e])
  with e assms show ?thesis by (simp add: CalculateBaseFee_def Let_def gas_target_def)
qed

lemma CalculateBaseFee_total:
  assumes v: "fm_valid (fm_GetParams X s)" and f: "Decimals_ConversionFactor (eci_Decimals E) = Some f" "0 < f"
  shows "\<exists>r. CalculateBaseFee X E cx s = Inr r \<and> (\<forall>b. r = Some b \<longrightarrow> 0 \<le> b)"
proof (cases "IsBaseFeeEnabled (fm_GetParams X s) (cx_BlockHeight cx)")
  case on: True
  obtain b m where p: "BaseFee (fm_GetParams X s) = Some b" "0 \<le> b" "MinGasPrice (fm_GetParams X s) = Some m" "0 \<le> m"
    "BaseFeeChangeDenominator (fm_GetParams X s) \<noteq> 0" using v by (auto simp: fm_valid_iff)
  have u: "0 \<le> dec_QuoInt X dec_one f" using f(2) by (simp add: QuoInt_truncates quo_nonneg dec_one_def)
  show ?thesis
  proof (cases "cx_BlockHeight cx = EnableHeight (fm_GetParams X s)")
    case True
    show ?thesis using p(1,2) by (simp add: CalculateBaseFee_first [OF on True])
  next
    case False
    obtain b' where "CalcGasBaseFee X (fm_GetBlockGasWanted s) (word_of_int (gas_target cx (fm_GetParams X s)))
      (ucast (BaseFeeChangeDenominator (fm_GetParams X s))) b (dec_QuoInt X dec_one f) (Some m) = Inr b'" "0 \<le> b'"
      by (rule CalcGasBaseFee_total [OF p(2) denominator_ucast [OF p(5)] p(4) u])
    then show ?thesis by (simp add: CalculateBaseFee_later [OF on False v p(1) f(1)] p(3) Let_def)
  qed
qed (simp add: CalculateBaseFee_disabled)

lemma BeginBlock_spec:
  assumes "fm_valid (fm_GetParams X s)" "Decimals_ConversionFactor (eci_Decimals E) = Some f" "0 < f"
  obtains r s' where "fm_BeginBlock X E cx s = Inr s'" "CalculateBaseFee X E cx s = Inr r"
    "fm_valid (fm_GetParams X s')" "fm_blockGas s' = fm_blockGas s"
    "fm_GetParams X s' = (case r of None \<Rightarrow> fm_GetParams X s | Some b \<Rightarrow> (fm_GetParams X s)\<lparr>BaseFee := Some b\<rparr>)"
proof -
  obtain r where r: "CalculateBaseFee X E cx s = Inr r" "\<forall>b. r = Some b \<longrightarrow> 0 \<le> b"
    using CalculateBaseFee_total [OF assms] by blast
  show ?thesis
  proof (cases r)
    case None
    with r(1) assms(1) show ?thesis using that [of s r] by (simp add: fm_BeginBlock_def)
  next
    case (Some b)
    then have "fm_valid ((fm_GetParams X s)\<lparr>BaseFee := Some b\<rparr>)" using r(2) assms(1) by (auto simp: fm_valid_iff)
    with Some r(1) show ?thesis
      using that by (simp add: fm_BeginBlock_def SetBaseFee_eq [OF assms(1)] fm_GetParams_def Let_def)
  qed
qed

lemma EndBlock_spec:
  assumes "fm_valid (fm_GetParams X s)" "\<not> cx_BlockGasMeterNil cx"
    "uint (cx_BlockGasWanted cx) < 2 ^ 63" "uint (cx_BlockGasUsed cx) < 2 ^ 63"
  obtains s' where "fm_EndBlock X cx s = Inr s'" "fm_params s' = fm_params s"
    "uint (cx_BlockGasUsed cx) \<le> uint (fm_GetBlockGasWanted s')"
    "uint (fm_GetBlockGasWanted s') \<le> max (uint (cx_BlockGasWanted cx)) (uint (cx_BlockGasUsed cx))"
proof -
  let ?w = "uint (cx_BlockGasWanted cx)" and ?u = "uint (cx_BlockGasUsed cx)"
  obtain g where g: "MinGasMultiplier (fm_GetParams X s) = Some g" "0 \<le> g" "g \<le> dec_one"
    using assms(1) by (auto simp: fm_valid_iff)
  define n where "n = max (?w * g) (?u * dec_one) div dec_one"
  have one: "0 < dec_one" by (simp add: dec_one_def)
  have "?w * g \<le> max ?w ?u * dec_one" using g(2,3) by (intro mult_mono) (simp_all add: max.coboundedI1)
  moreover have "?u * dec_one \<le> max ?w ?u * dec_one" using one by (intro mult_right_mono) simp_all
  ultimately have "n \<le> max ?w ?u * dec_one div dec_one" unfolding n_def by (intro zdiv_mono1 max.boundedI one)
  then have hi: "n \<le> max ?w ?u" using one by simp
  have lo: "?u \<le> n" using zdiv_mono1 [OF max.cobounded2 one, of "?u * dec_one" "?w * g"] one by (simp add: n_def)
  then have n: "0 \<le> n" "n < 2 ^ 63" using hi assms(3,4) by (auto intro: order_trans [of 0 ?u])
  have q: "dec_TruncateInt X (max (dec_Mul X (LegacyNewDec ?w) g) (LegacyNewDec ?u)) = n"
    unfolding TruncateInt_truncates Mul_integer using g(2) one
    by (simp add: LegacyNewDec_def n_def quo_nonneg_eq max.coboundedI2)
  have w: "uint (word_of_int n :: u64) = n" using n by (simp add: uint_word_of_int take_bit_int_eq_self_iff)
  show ?thesis
    using that assms(2-4) n q g(1) lo hi w
    by (simp add: fm_EndBlock_def Let_def not_le fm_SetBlockGasWanted_def fm_GetBlockGasWanted_def)
qed

lemma EndBlock_no_panic:
  assumes "fm_valid (fm_GetParams X s)"
  shows "fm_EndBlock X cx s \<noteq> Inl (Panic e)"
proof (cases "cx_BlockGasMeterNil cx \<or> 2 ^ 63 \<le> uint (cx_BlockGasWanted cx) \<or> 2 ^ 63 \<le> uint (cx_BlockGasUsed cx)")
  case True
  then show ?thesis by (auto simp: fm_EndBlock_def Let_def)
next
  case False
  then obtain s' where "fm_EndBlock X cx s = Inr s'" using EndBlock_spec [OF assms, of cx] by fastforce
  then show ?thesis by simp
qed

lemma EndBlock_params: "fm_EndBlock X cx s = Inr s' \<Longrightarrow> fm_params s' = fm_params s"
  by (auto simp: fm_EndBlock_def Let_def fm_SetBlockGasWanted_def split: if_splits option.splits)

lemma SetParams_valid:
  assumes "fm_valid p" "fm_SetParams X p s = Inr s'"
  shows "fm_GetParams X s' = p"
  using assms by (auto simp: fm_SetParams_def codec_exact [OF fm_valid_complete [OF assms(1)]] fm_GetParams_def)

lemma fm_steps_valid:
  assumes "fm_steps X E F A s s'" "fm_valid (fm_GetParams X s)"
    "Decimals_ConversionFactor (eci_Decimals E) = Some f" "0 < f"
  shows "fm_valid (fm_GetParams X s')"
  using assms(1)
proof induction
  case base
  show ?case by (rule assms(2))
next
  case (step t u)
  from step.hyps(2) show ?case
  proof cases
    case (Begin cx)
    with BeginBlock_spec [OF step.IH assms(3,4), of cx] show ?thesis by (metis sum.inject(2))
  next
    case (End cx)
    with step.IH show ?thesis by (simp add: fm_GetParams_def EndBlock_params)
  next
    case (Update Auth p)
    then have "fm_valid p" by (auto simp: fm_MsgUpdateParams_ValidateBasic_def fm_valid_def split: sum.splits)
    with Update show ?thesis by (auto simp: fm_UpdateParams_def SetParams_valid split: if_splits)
  qed
qed

lemma idle_block:
  assumes v: "fm_valid (fm_GetParams X s)" and f: "Decimals_ConversionFactor (eci_Decimals E) = Some f" "0 < f"
    and on: "\<not> NoBaseFee (fm_GetParams X s)" and z: "fm_GetBlockGasWanted s = 0" and i: "fm_idle (fm_GetParams X s) cx"
    and b: "BaseFee (fm_GetParams X s) = Some b" and m: "MinGasPrice (fm_GetParams X s) = Some m"
  shows "\<exists>s'. fm_block X E cx s = Inr s' \<and> fm_GetBlockGasWanted s' = 0 \<and> fm_valid (fm_GetParams X s') \<and>
    fm_GetParams X s' = (fm_GetParams X s)\<lparr>BaseFee :=
      Some (max (b - b div uint (BaseFeeChangeDenominator (fm_GetParams X s))) m)\<rparr>"
proof -
  let ?p = "fm_GetParams X s"
  have p: "0 \<le> b" "BaseFeeChangeDenominator ?p \<noteq> 0" using v b by (auto simp: fm_valid_iff)
  have t: "uint (word_of_int (gas_target cx ?p) :: u64) = gas_target cx ?p" "0 < gas_target cx ?p" "gas_target cx ?p < 2 ^ 64"
    using i by (simp_all add: fm_idle_def uint_word_of_int take_bit_int_eq_self_iff)
  then have t0: "(word_of_int (gas_target cx ?p) :: u64) \<noteq> 0" by (metis less_irrefl uint_0_eq)
  then have less: "\<not> word_of_int (gas_target cx ?p) < (0 :: u64)" "0 \<noteq> (word_of_int (gas_target cx ?p) :: u64)" by auto
  have u: "uint (ucast (BaseFeeChangeDenominator ?p) :: u64) = uint (BaseFeeChangeDenominator ?p)"
    by (simp add: uint_up_ucast is_up)
  have en: "IsBaseFeeEnabled ?p (cx_BlockHeight cx)" "cx_BlockHeight cx \<noteq> EnableHeight ?p"
    using on i by (auto simp: IsBaseFeeEnabled_def fm_idle_def)
  have c: "CalculateBaseFee X E cx s = Inr (Some (max (b - b div uint (BaseFeeChangeDenominator ?p)) m))"
    using less t by (simp add: CalculateBaseFee_later [OF en v b f(1)] Let_def m z
        CalcGasBaseFee_eq [OF p(1) denominator_ucast [OF p(2)] t0] u fee_delta_zero)
  obtain s1 where s1: "fm_BeginBlock X E cx s = Inr s1" "fm_valid (fm_GetParams X s1)"
    "fm_GetParams X s1 = ?p\<lparr>BaseFee := Some (max (b - b div uint (BaseFeeChangeDenominator ?p)) m)\<rparr>"
    by (rule BeginBlock_spec [OF v f, where cx = cx]) (use c in auto)
  obtain s2 where "fm_EndBlock X cx s1 = Inr s2" "fm_params s2 = fm_params s1" "uint (fm_GetBlockGasWanted s2) \<le> 0"
    using EndBlock_spec [OF s1(2), of cx] i by (auto simp: fm_idle_def)
  then have "fm_block X E cx s = Inr s2" "fm_GetBlockGasWanted s2 = 0" "fm_GetParams X s2 = fm_GetParams X s1"
    using s1(1) by (auto simp: fm_block_def fm_GetParams_def intro: word_uint_eqI antisym)
  with s1(2,3) show ?thesis by metis
qed

lemma idle_run:
  assumes "fm_valid (fm_GetParams X s)" "Decimals_ConversionFactor (eci_Decimals E) = Some f" "0 < f"
    "\<not> NoBaseFee (fm_GetParams X s)" "fm_GetBlockGasWanted s = 0" "\<forall>cx\<in>set cxs. fm_idle (fm_GetParams X s) cx"
    "BaseFee (fm_GetParams X s) = Some b" "MinGasPrice (fm_GetParams X s) = Some m"
    "K = max m (uint (BaseFeeChangeDenominator (fm_GetParams X s)) - 1)"
  shows "\<exists>s' b'. fm_run X E cxs s = Inr s' \<and> BaseFee (fm_GetParams X s') = Some b' \<and> b' \<le> max K (b - int (length cxs))"
  using assms
proof (induction cxs arbitrary: s b)
  case Nil
  then show ?case by simp
next
  case (Cons cx cxs)
  let ?d = "uint (BaseFeeChangeDenominator (fm_GetParams X s))" and ?n = "int (length cxs)"
  define b1 where "b1 = max (b - b div ?d) m"
  obtain s1 where s1: "fm_block X E cx s = Inr s1" "fm_GetBlockGasWanted s1 = 0" "fm_valid (fm_GetParams X s1)"
    "fm_GetParams X s1 = (fm_GetParams X s)\<lparr>BaseFee := Some b1\<rparr>"
    using idle_block [OF Cons.prems(1-5) _ Cons.prems(7,8), of cx] Cons.prems(6) unfolding b1_def by auto
  have idle: "fm_idle (fm_GetParams X s1) c \<longleftrightarrow> fm_idle (fm_GetParams X s) c" for c
    by (simp add: s1(4) fm_idle_def gas_target_def)
  have "\<exists>s' b'. fm_run X E cxs s1 = Inr s' \<and> BaseFee (fm_GetParams X s') = Some b' \<and> b' \<le> max K (b1 - ?n)"
    by (rule Cons.IH) (use Cons.prems s1 idle in simp_all)
  moreover have "b1 - ?n \<le> max K (b - int (length (cx # cxs)))"
  proof -
    have b: "0 \<le> b" "0 < ?d" using Cons.prems(1,7) by (auto simp: fm_valid_iff uint_pos)
    show ?thesis
    proof (cases "b < ?d")
      case True
      then show ?thesis using b Cons.prems(9) by (simp add: b1_def)
    next
      case False
      then have "1 \<le> b div ?d" using b by (simp add: pos_imp_zdiv_pos_iff int_one_le_iff_zero_less)
      then show ?thesis using Cons.prems(9) by (simp add: b1_def)
    qed
  qed
  ultimately show ?case using s1(1) by fastforce
qed

end

section \<open>An instance of the laws\<close>

text \<open>Rounding to even at the last of the 18 digits, as the decimals of the SDK document it.\<close>

definition round_even :: "int \<Rightarrow> int" where
  "round_even n =
     (let q = \<bar>n\<bar> div dec_one; r = \<bar>n\<bar> mod dec_one in
      sgn n * (if 2 * r < dec_one then q
               else if dec_one < 2 * r then q + 1
               else if even q then q else q + 1))"

definition sdk_fm :: fm_env where
  "sdk_fm = \<lparr>dec_Mul = \<lambda>a b. round_even (a * b), dec_QuoInt = quo, dec_TruncateInt = \<lambda>d. quo d dec_one,
     fm_codec = \<lambda>p. Inr (p\<lparr>BaseFee := Some (case BaseFee p of None \<Rightarrow> 0 | Some b \<Rightarrow> b),
       MinGasPrice := Some (case MinGasPrice p of None \<Rightarrow> 0 | Some b \<Rightarrow> b),
       MinGasMultiplier := Some (case MinGasMultiplier p of None \<Rightarrow> 0 | Some b \<Rightarrow> b)\<rparr>),
     DefaultBaseFeeChangeDenominator = 8, DefaultElasticityMultiplier = 2\<rparr>"

lemma round_even_exact: "round_even (n * dec_one * d) = n * d"
proof -
  have e: "\<bar>n * dec_one * d\<bar> = \<bar>n * d\<bar> * dec_one" by (simp add: abs_mult dec_one_def)
  have "sgn (n * dec_one * d) = sgn (n * d)" by (simp add: sgn_mult dec_one_def)
  then show ?thesis unfolding round_even_def Let_def e
    by (simp add: dec_one_def abs_mult_sgn mult.commute)
qed

interpretation sfm: fm_laws sdk_fm
proof
  fix p assume "fm_complete p"
  then show "fm_codec sdk_fm p = Inr p" by (cases p) (auto simp: sdk_fm_def fm_complete_def)
qed (simp_all add: sdk_fm_def LegacyNewDec_def round_even_exact)

definition ex_fm :: fmState where
  "ex_fm = \<lparr>fm_params = Some (fm_DefaultParams sdk_fm), fm_blockGas = Some 0, fm_events = []\<rparr>"

definition ex_fm_ctx :: "u64 \<Rightarrow> u64 \<Rightarrow> fm_ctx" where
  "ex_fm_ctx wanted used = \<lparr>cx_BlockHeight = 5, cx_MaxGas = Some 1000, cx_BlockGasMeterNil = False,
     cx_BlockGasWanted = wanted, cx_BlockGasUsed = used\<rparr>"

lemma sdk_fm_simps [simp]:
  "dec_Mul sdk_fm a b = round_even (a * b)" "dec_QuoInt sdk_fm d n = quo d n" "dec_TruncateInt sdk_fm d = quo d dec_one"
  "DefaultBaseFeeChangeDenominator sdk_fm = 8" "DefaultElasticityMultiplier sdk_fm = 2"
  by (simp_all add: sdk_fm_def)

lemma ex_fm_simps [simp]:
  "fm_GetParams sdk_fm ex_fm = fm_DefaultParams sdk_fm" "fm_GetBlockGasWanted ex_fm = 0"
  "fm_Params_Validate (fm_DefaultParams sdk_fm) = Inr ()" "Decimals_Validate (eci_Decimals ex_coin_info) = Inr ()"
  using sfm.valid_DefaultParams
  by (simp_all add: ex_fm_def fm_GetParams_def fm_GetBlockGasWanted_def fm_valid_def Decimals_Validate_def ex_coin_info_def)

lemma ex_fm_params:
  "\<not> NoBaseFee (fm_DefaultParams sdk_fm)" "MinGasPrice (fm_DefaultParams sdk_fm) = Some 0"
  "BaseFeeChangeDenominator (fm_DefaultParams sdk_fm) = 8" "ElasticityMultiplier (fm_DefaultParams sdk_fm) = 2"
  "EnableHeight (fm_DefaultParams sdk_fm) = 0" "BaseFee (fm_DefaultParams sdk_fm) = Some (10 ^ 27)"
  by (simp_all add: fm_DefaultParams_def DefaultBaseFee_def LegacyNewDec_def dec_one_def)

lemmas fm_eval = ex_fm_ctx_def fm_DefaultParams_def DefaultBaseFee_def DefaultMinGasMultiplier_def
  LegacyNewDec_def dec_one_def quo_def round_even_def Let_def

section \<open>Properties\<close>



text \<open>
  The more gas the parent block used, the higher the next base fee, as long as the fee is
  not under the minimum gas price.
\<close>

theorem CalcGasBaseFee_mono:
  assumes "fm_laws X" "0 \<le> m" "m \<le> b" "denom \<noteq> 0" "target \<noteq> 0" "0 \<le> unit" "used \<le> used'"
  shows "\<exists>x y. CalcGasBaseFee X used target denom b unit (Some m) = Inr x \<and>
    CalcGasBaseFee X used' target denom b unit (Some m) = Inr y \<and> x \<le> y"
proof -
  let ?d = "\<lambda>u. fee_delta (uint u) (uint target) (uint denom) b"
  have b: "0 \<le> b" using assms(2,3) by simp
  have pos: "0 < uint denom" "0 < uint target" using assms(4,5) by (simp_all add: uint_pos)
  have le: "uint used \<le> uint used'" using assms(7) by (simp add: word_le_def)
  have d0: "0 \<le> ?d used" "0 \<le> ?d used'" by (rule fee_delta_nonneg [OF b pos(2,1)])+
  have up: "target < used \<Longrightarrow> ?d used \<le> ?d used'"
    using le by (intro fee_delta_mono b pos) (simp add: uint_less_iff)
  have down: "used' < target \<Longrightarrow> ?d used' \<le> ?d used"
    using le by (intro fee_delta_mono b pos) (simp add: uint_less_iff)
  note eq = fm_laws.CalcGasBaseFee_eq [OF assms(1) b assms(4,5)]
  consider "target < used" | "used \<le> target" "target < used'" | "used' = target" | "used' < target" by fastforce
  then show ?thesis
  proof cases
    case 1
    then have "target < used'" using assms(7) by simp
    with 1 show ?thesis using up [OF 1] by (auto simp: eq)
  next
    case 4
    then have "used < target" using assms(7) by simp
    with 4 show ?thesis using down [OF 4] by (auto simp: eq)
  qed (use assms(3,6,7) d0 in \<open>auto simp: eq max_def\<close>)
qed

theorem CalcGasBaseFee_mono_witness:
  "\<exists>x y. CalcGasBaseFee sdk_fm 4 10 8 800 1 (Some 5) = Inr x \<and> CalcGasBaseFee sdk_fm 15 10 8 800 1 (Some 5) = Inr y \<and> x \<le> y"
  by (rule CalcGasBaseFee_mono [OF sfm.fm_laws_axioms]) simp_all



text \<open>
  \<open>EndBlock\<close> records a gas figure between the gas used and the larger of gas wanted and gas
  used, for amounts that fit an \<open>int64\<close>, and leaves the parameters alone.
\<close>

theorem EndBlock_bounds:
  assumes "fm_laws X" "fm_Params_Validate (fm_GetParams X s) = Inr ()" "\<not> cx_BlockGasMeterNil cx"
    "uint (cx_BlockGasWanted cx) < 2 ^ 63" "uint (cx_BlockGasUsed cx) < 2 ^ 63"
  shows "\<exists>s'. fm_EndBlock X cx s = Inr s' \<and> fm_GetParams X s' = fm_GetParams X s \<and>
    cx_BlockGasUsed cx \<le> fm_GetBlockGasWanted s' \<and>
    fm_GetBlockGasWanted s' \<le> max (cx_BlockGasWanted cx) (cx_BlockGasUsed cx)"
proof -
  have v: "fm_valid (fm_GetParams X s)" using assms(2) by (simp add: fm_valid_def)
  obtain s' where "fm_EndBlock X cx s = Inr s'" "fm_params s' = fm_params s"
    "uint (cx_BlockGasUsed cx) \<le> uint (fm_GetBlockGasWanted s')"
    "uint (fm_GetBlockGasWanted s') \<le> max (uint (cx_BlockGasWanted cx)) (uint (cx_BlockGasUsed cx))"
    by (rule fm_laws.EndBlock_spec [OF assms(1) v assms(3-5)])
  then show ?thesis by (auto simp: fm_GetParams_def word_le_def max_def split: if_splits)
qed

theorem EndBlock_bounds_witness:
  "\<exists>s'. fm_EndBlock sdk_fm (ex_fm_ctx 100 60) ex_fm = Inr s' \<and> 60 \<le> fm_GetBlockGasWanted s' \<and> fm_GetBlockGasWanted s' \<le> 100"
  using EndBlock_bounds [OF sfm.fm_laws_axioms, of ex_fm "ex_fm_ctx 100 60"] by (auto simp: ex_fm_ctx_def)

text \<open>
  A genesis that validates survives the store: what \<open>InitGenesis\<close> writes is what
  \<open>ExportGenesis\<close> reads back.
\<close>

theorem fee_market_genesis_round_trip:
  assumes "fm_laws X" "fm_GenesisState_Validate g = Inr ()"
  shows "\<exists>s. fm_InitGenesis X g s0 = Inr s \<and> fm_ExportGenesis X s = g"
proof -
  have "fm_complete (fg_Params g)"
    using assms(2) by (simp add: fm_GenesisState_Validate_def fm_valid_complete fm_valid_def)
  then show ?thesis
    by (simp add: fm_InitGenesis_def fm_SetParams_def fm_laws.codec_exact [OF assms(1)] fm_ExportGenesis_def
        fm_SetBlockGasWanted_def fm_GetParams_def fm_GetBlockGasWanted_def)
qed

theorem fee_market_genesis_round_trip_witness:
  "\<exists>s. fm_InitGenesis sdk_fm (fm_DefaultGenesisState sdk_fm) ex_fm = Inr s \<and> fm_ExportGenesis sdk_fm s = fm_DefaultGenesisState sdk_fm"
  by (rule fee_market_genesis_round_trip [OF sfm.fm_laws_axioms])
    (simp add: fm_GenesisState_Validate_def fm_DefaultGenesisState_def)

text \<open>
  C22. The base fee that \<open>x/vm\<close> predicts with \<open>CalculateBaseFee\<close> before a block is the one its
  \<open>GetBaseFee\<close> returns after \<open>BeginBlock\<close>, at 18 decimals, wherever the fee market is enabled.
\<close>

theorem predicted_base_fee:
  assumes "fm_laws X" "Decimals_Validate (eci_Decimals E) = Inr ()" "fm_Params_Validate (fm_GetParams X s) = Inr ()"
    "fw_CalculateBaseFee X E cx s = Inr (Some n)"
  shows "\<exists>s'. fm_BeginBlock X E cx s = Inr s' \<and> vm_GetBaseFee X True E s' = Some n"
proof -
  obtain f where f: "Decimals_ConversionFactor (eci_Decimals E) = Some f" "0 < f"
    using valid_conversion [OF assms(2)] by blast
  have v: "fm_valid (fm_GetParams X s)" using assms(3) by (simp add: fm_valid_def)
  obtain b where b: "CalculateBaseFee X E cx s = Inr (Some b)" "n = dec_TruncateInt X (b * f)"
    using assms(4) by (auto simp: fw_CalculateBaseFee_def rbind_eq_Inr ConvertAmountTo18DecimalsLegacy_def f split: option.splits)
  have on: "\<not> NoBaseFee (fm_GetParams X s)"
    using b(1) fm_laws.CalculateBaseFee_disabled [OF assms(1), of s cx E] by (auto simp: IsBaseFeeEnabled_def)
  obtain s' where "fm_BeginBlock X E cx s = Inr s'" "fm_GetParams X s' = (fm_GetParams X s)\<lparr>BaseFee := Some b\<rparr>"
    by (rule fm_laws.BeginBlock_spec [OF assms(1) v f, where cx = cx]) (use b(1) in auto)
  then show ?thesis using on assms(2) f b(2) by (simp add: vm_GetBaseFee_def fw_GetBaseFee_def fm_GetBaseFee_def Let_def)
qed

theorem predicted_base_fee_witness:
  "\<exists>s'. fm_BeginBlock sdk_fm ex_coin_info (ex_fm_ctx 0 0) ex_fm = Inr s' \<and>
    vm_GetBaseFee sdk_fm True ex_coin_info s' = Some (875000000 * 10 ^ 12)"
proof (rule predicted_base_fee [OF sfm.fm_laws_axioms])
  have f: "Decimals_ConversionFactor (eci_Decimals ex_coin_info) = Some (10 ^ 12)"
    by (simp add: ex_coin_info_def Decimals_ConversionFactor_def ConversionFactor_table_def)
  have c: "CalcGasBaseFee sdk_fm 0 500 8 (10 ^ 27) 1000000 (Some 0) = Inr (875 * 10 ^ 24)"
    by (subst sfm.CalcGasBaseFee_eq) (simp_all add: fee_delta_def)
  have "CalculateBaseFee sdk_fm ex_coin_info (ex_fm_ctx 0 0) ex_fm = Inr (Some (875000000 * dec_one))"
    by (subst sfm.CalculateBaseFee_later [where b = "10 ^ 27", OF _ _ _ _ f])
      (use c in \<open>simp_all add: fm_valid_def IsBaseFeeEnabled_def ex_fm_ctx_def ex_fm_params gas_target_def quo_def
        dec_one_def\<close>)
  then show "fw_CalculateBaseFee sdk_fm ex_coin_info (ex_fm_ctx 0 0) ex_fm = Inr (Some (875000000 * 10 ^ 12))"
    by (simp add: fw_CalculateBaseFee_def ConvertAmountTo18DecimalsLegacy_def f quo_def dec_one_def)
qed simp_all

text \<open>
  C21. Empty blocks bring the base fee down: after a block without gas there is a number of further
  empty blocks from which on the fee is at most the minimum gas price, or the few units
  (fewer than \<open>BaseFeeChangeDenominator\<close>, each \<open>10 ^ -18\<close>) that the division no longer moves.
\<close>

theorem empty_blocks_lower_base_fee:
  assumes "fm_laws X" "Decimals_Validate (eci_Decimals E) = Inr ()" "fm_Params_Validate (fm_GetParams X s) = Inr ()"
    "\<not> NoBaseFee (fm_GetParams X s)" "fm_GetBlockGasWanted s = 0" "MinGasPrice (fm_GetParams X s) = Some m"
  shows "\<exists>n. \<forall>cxs. n \<le> length cxs \<longrightarrow> (\<forall>cx\<in>set cxs. fm_idle (fm_GetParams X s) cx) \<longrightarrow>
    (\<exists>s' b. fm_run X E cxs s = Inr s' \<and> BaseFee (fm_GetParams X s') = Some b \<and>
      b \<le> max m (uint (BaseFeeChangeDenominator (fm_GetParams X s)) - 1))"
proof -
  obtain f where f: "Decimals_ConversionFactor (eci_Decimals E) = Some f" "0 < f"
    using valid_conversion [OF assms(2)] by blast
  have v: "fm_valid (fm_GetParams X s)" using assms(3) by (simp add: fm_valid_def)
  then obtain b where b: "BaseFee (fm_GetParams X s) = Some b" by (auto simp: fm_valid_iff)
  have m: "0 \<le> m" using v assms(6) by (auto simp: fm_valid_iff)
  let ?K = "max m (uint (BaseFeeChangeDenominator (fm_GetParams X s)) - 1)"
  have "\<exists>s' b. fm_run X E cxs s = Inr s' \<and> BaseFee (fm_GetParams X s') = Some b \<and> b \<le> ?K"
    if "nat b \<le> length cxs" "\<forall>cx\<in>set cxs. fm_idle (fm_GetParams X s) cx" for cxs
  proof -
    have "b - int (length cxs) \<le> ?K" using that(1) m by linarith
    with fm_laws.idle_run [OF assms(1) v f assms(4,5) that(2) b assms(6) refl] show ?thesis
      by (metis max.absorb1)
  qed
  then show ?thesis by blast
qed

theorem empty_blocks_lower_base_fee_witness:
  "\<exists>n s' b. fm_run sdk_fm ex_coin_info (replicate n (ex_fm_ctx 0 0)) ex_fm = Inr s' \<and>
    BaseFee (fm_GetParams sdk_fm s') = Some b \<and> b \<le> 7"
proof -
  have idle: "fm_idle (fm_DefaultParams sdk_fm) (ex_fm_ctx 0 0)" by (simp add: fm_idle_def gas_target_def fm_eval)
  obtain n where "\<forall>cxs. n \<le> length cxs \<longrightarrow> (\<forall>cx\<in>set cxs. fm_idle (fm_DefaultParams sdk_fm) cx) \<longrightarrow>
    (\<exists>s' b. fm_run sdk_fm ex_coin_info cxs ex_fm = Inr s' \<and> BaseFee (fm_GetParams sdk_fm s') = Some b \<and> b \<le> 7)"
    using empty_blocks_lower_base_fee [OF sfm.fm_laws_axioms ex_fm_simps(4), of ex_fm 0]
    by (auto simp: ex_fm_params)
  from spec [OF this, of "replicate n (ex_fm_ctx 0 0)"] idle show ?thesis by auto
qed

end
