(* ===== verification/Float64.thy ===== *)
theory Float64
  imports Complex_Main "HOL-Library.Log_Nat" Prelude
begin

text \<open>
  The \<open>float64\<close> of Go, as far as the modules compute with it: a finite double is its value, a rational
  number, and an operation is the exact result rounded to 53 significant bits, ties to even, with the
  smallest exponent \<open>-1074\<close>. Values beyond \<open>2 ^ 1024\<close>, infinities and NaN are left out; the
  theories that use doubles stay far below.
\<close>

section \<open>Rounding\<close>

type_synonym f64 = rat

definition round_half_even :: "rat \<Rightarrow> int" where
  "round_half_even x =
     (let n = \<lfloor>x\<rfloor>; d = x - of_int n in
      if d < 1 / 2 then n else if 1 / 2 < d then n + 1 else if even n then n else n + 1)"

definition ilog2 :: "rat \<Rightarrow> int" where
  "ilog2 x =
     (case quotient_of x of (n, d) \<Rightarrow>
      let k = bitlen n - bitlen d in if 2 powi k \<le> x then k else k - 1)"

definition f64_exponent :: "rat \<Rightarrow> int" where
  "f64_exponent x = max (- 1074) (ilog2 \<bar>x\<bar> - 52)"

definition round64 :: "rat \<Rightarrow> f64" where
  "round64 x =
     (if x = 0 then 0
      else let e = f64_exponent x in of_int (round_half_even (x / 2 powi e)) * 2 powi e)"

section \<open>Laws\<close>

lemma round_half_even_bounds: "\<lfloor>x\<rfloor> \<le> round_half_even x" "round_half_even x \<le> \<lfloor>x\<rfloor> + 1"
  by (simp_all add: round_half_even_def Let_def)

lemma round_half_even_of_int [simp]: "round_half_even (of_int n) = n"
  by (simp add: round_half_even_def)

lemma round_half_even_mono:
  assumes "x \<le> y"
  shows "round_half_even x \<le> round_half_even y"
proof (cases "\<lfloor>x\<rfloor> = \<lfloor>y\<rfloor>")
  case True
  with assms show ?thesis by (simp add: round_half_even_def Let_def)
next
  case False
  with floor_mono [OF assms] round_half_even_bounds(2) [of x] round_half_even_bounds(1) [of y] show ?thesis by simp
qed

lemma round_half_even_near: "of_int (round_half_even x) \<le> x + 1 / 2"
proof -
  have "of_int \<lfloor>x\<rfloor> \<le> x" by simp
  then show ?thesis unfolding round_half_even_def Let_def by (auto simp: not_less) linarith+
qed

lemma powi_pos [simp]: "0 < (2 :: rat) powi e"
  by (simp add: zero_less_power_int)

lemma powi_mono: "a \<le> b \<Longrightarrow> (2 :: rat) powi a \<le> 2 powi b"
  by (rule power_int_increasing) simp_all

lemma powi_less_cancel: "(2 :: rat) powi a < 2 powi b \<Longrightarrow> a < b"
  using powi_mono [of b a] by (meson leD not_le_imp_less)

lemma bitlen_powi:
  assumes "0 < n"
  shows "2 powi (bitlen n - 1) \<le> (of_int n :: rat)" "(of_int n :: rat) < 2 powi bitlen n"
proof -
  have b: "0 < bitlen n" using bitlen_bounds [OF assms] assms by (cases "0 < bitlen n") auto
  have "2 ^ nat (bitlen n - 1) \<le> n" "n < 2 ^ nat (bitlen n)" using bitlen_bounds [OF assms] by auto
  then have "(of_int (2 ^ nat (bitlen n - 1)) :: rat) \<le> of_int n" "(of_int n :: rat) < of_int (2 ^ nat (bitlen n))"
    by (simp_all only: of_int_le_iff of_int_less_iff)
  then show "2 powi (bitlen n - 1) \<le> (of_int n :: rat)" "(of_int n :: rat) < 2 powi bitlen n"
    using b by (simp_all add: power_int_def)
qed

lemma ilog2_bounds:
  assumes "0 < x"
  shows "2 powi ilog2 x \<le> x" "x < 2 powi (ilog2 x + 1)"
proof -
  obtain n d where q: "quotient_of x = (n, d)" by fastforce
  have d: "0 < d" by (rule quotient_of_denom_pos [OF q])
  have x: "x = of_int n / of_int d" by (rule quotient_of_div [OF q])
  with assms d have n: "0 < n" by (simp add: zero_less_divide_iff)
  let ?k = "bitlen n - bitlen d"
  have dr: "(0 :: rat) < of_int d" using d by simp
  have "x * 2 powi (bitlen d - 1) \<le> x * of_int d"
    using bitlen_powi(1) [OF d] assms by (intro mult_left_mono) simp_all
  also have "\<dots> = of_int n" using x dr by simp
  also have "\<dots> < 2 powi bitlen n" by (rule bitlen_powi(2) [OF n])
  finally have "x * 2 powi (bitlen d - 1) < 2 powi bitlen n" .
  then have up: "x < 2 powi (?k + 1)"
    by (simp add: power_int_diff power_int_add field_simps)
  have "2 powi (bitlen n - 1) \<le> (of_int n :: rat)" by (rule bitlen_powi(1) [OF n])
  also have "\<dots> = x * of_int d" using x dr by simp
  also have "\<dots> \<le> x * 2 powi bitlen d" using bitlen_powi(2) [OF d] assms by (intro mult_left_mono) simp_all
  finally have lo: "2 powi (?k - 1) \<le> x"
    by (simp add: power_int_diff power_int_add field_simps)
  show "2 powi ilog2 x \<le> x" "x < 2 powi (ilog2 x + 1)"
    using up lo by (simp_all add: ilog2_def q Let_def)
qed

lemma ilog2_mono:
  assumes "0 < x" "x \<le> y"
  shows "ilog2 x \<le> ilog2 y"
proof -
  have "2 powi ilog2 x < (2 :: rat) powi (ilog2 y + 1)"
    using ilog2_bounds(1) [OF assms(1)] ilog2_bounds(2) [of y] assms by linarith
  then show ?thesis using powi_less_cancel by fastforce
qed

lemma round64_0 [simp]: "round64 0 = 0"
  by (simp add: round64_def)

lemma f64_exponent_mono: "0 < x \<Longrightarrow> x \<le> y \<Longrightarrow> f64_exponent x \<le> f64_exponent y"
  using ilog2_mono [of x y] by (simp add: f64_exponent_def)

lemma f64_exponent_less:
  assumes "0 < x"
  shows "x < 2 powi (f64_exponent x + 53)"
proof -
  have "x < 2 powi (ilog2 x + 1)" by (rule ilog2_bounds(2) [OF assms])
  also have "\<dots> \<le> 2 powi (f64_exponent x + 53)" using assms by (intro powi_mono) (simp add: f64_exponent_def)
  finally show ?thesis .
qed

lemma f64_exponent_normal:
  assumes "0 < x" "- 1074 < f64_exponent x \<or> 2 powi (- 1022) \<le> x"
  shows "2 powi (f64_exponent x + 52) \<le> x"
proof (cases "f64_exponent x = - 1074")
  case True
  with assms show ?thesis by simp
next
  case False
  then have "f64_exponent x + 52 = ilog2 x" using assms(1) by (auto simp: f64_exponent_def max_def split: if_splits)
  then show ?thesis using ilog2_bounds(1) [OF assms(1)] by simp
qed

text \<open>A value with a short enough significand is a double, and rounding leaves it alone.\<close>

lemma round64_exact_less:
  assumes "0 \<le> m" "m < 2 ^ 53" "- 1074 \<le> e"
  shows "round64 (of_int m * 2 powi e) = of_int m * 2 powi e"
proof (cases "m = 0")
  case False
  let ?v = "of_int m * 2 powi e :: rat"
  have v: "0 < ?v" using False assms(1) by simp
  have "2 powi ilog2 ?v \<le> ?v" by (rule ilog2_bounds(1) [OF v])
  also have "?v < 2 powi 53 * 2 powi e"
  proof (rule mult_strict_right_mono)
    have "(of_int m :: rat) < of_int (2 ^ 53)" using assms(2) by (simp only: of_int_less_iff)
    then show "(of_int m :: rat) < 2 powi 53" by (simp add: power_int_def)
  qed simp
  finally have "2 powi ilog2 ?v < (2 :: rat) powi (53 + e)" by (simp add: power_int_add)
  then have "ilog2 ?v < 53 + e" by (rule powi_less_cancel)
  then have e: "f64_exponent ?v \<le> e" using v assms(3) by (simp add: f64_exponent_def)
  have "?v / 2 powi f64_exponent ?v = of_int m * 2 powi (e - f64_exponent ?v)" by (simp add: power_int_diff)
  also have "\<dots> = of_int (m * 2 ^ nat (e - f64_exponent ?v))" using e by (simp add: power_int_def)
  finally have i: "?v / 2 powi f64_exponent ?v = of_int (m * 2 ^ nat (e - f64_exponent ?v))" .
  then have "round64 ?v = ?v / 2 powi f64_exponent ?v * 2 powi f64_exponent ?v"
    using v unfolding round64_def Let_def i by (simp only: round_half_even_of_int) simp
  then show ?thesis by simp
qed simp

lemma round64_exact:
  assumes "0 \<le> m" "m \<le> 2 ^ 53" "- 1074 \<le> e"
  shows "round64 (of_int m * 2 powi e) = of_int m * 2 powi e"
proof (cases "m = 2 ^ 53")
  case True
  have "of_int m * 2 powi e = (of_int (2 ^ 52) * 2 powi (e + 1) :: rat)" by (simp add: True power_int_add)
  with round64_exact_less [of "2 ^ 52" "e + 1"] assms(3) show ?thesis by simp
qed (use assms round64_exact_less in simp)

lemma round64_int: "0 \<le> n \<Longrightarrow> n \<le> 2 ^ 53 \<Longrightarrow> round64 (of_int n) = of_int n"
  using round64_exact [of n 0] by simp

lemma round64_significand:
  assumes "0 < x"
  shows "0 \<le> round_half_even (x / 2 powi f64_exponent x)" "round_half_even (x / 2 powi f64_exponent x) \<le> 2 ^ 53"
proof -
  have "x / 2 powi f64_exponent x \<le> of_int (2 ^ 53)"
    using f64_exponent_less [OF assms] by (simp add: power_int_add divide_le_eq)
  then show "round_half_even (x / 2 powi f64_exponent x) \<le> 2 ^ 53"
    using round_half_even_mono round_half_even_of_int by metis
  have "of_int 0 \<le> x / 2 powi f64_exponent x" using assms by simp
  then show "0 \<le> round_half_even (x / 2 powi f64_exponent x)" using round_half_even_mono round_half_even_of_int by metis
qed

lemma round64_nonneg: "0 \<le> x \<Longrightarrow> 0 \<le> round64 x"
  using round64_significand(1) [of x] by (auto simp: round64_def Let_def order_le_less)

lemma round64_nonpos:
  assumes "x \<le> 0"
  shows "round64 x \<le> 0"
proof -
  have "x / 2 powi f64_exponent x \<le> of_int 0" using assms by (simp add: divide_le_0_iff)
  then have "round_half_even (x / 2 powi f64_exponent x) \<le> 0" using round_half_even_mono round_half_even_of_int by metis
  then show ?thesis by (simp add: round64_def Let_def mult_le_0_iff)
qed

lemma round64_idem: "0 \<le> x \<Longrightarrow> round64 (round64 x) = round64 x"
proof (cases "x = 0")
  case False
  assume "0 \<le> x"
  with False have x: "0 < x" by simp
  have "round64 x = of_int (round_half_even (x / 2 powi f64_exponent x)) * 2 powi f64_exponent x"
    using False by (simp add: round64_def Let_def)
  with round64_exact [OF round64_significand [OF x], of "f64_exponent x"] show ?thesis
    by (simp add: f64_exponent_def)
qed simp

lemma round64_mono:
  assumes "0 \<le> x" "x \<le> y"
  shows "round64 x \<le> round64 y"
proof (cases "x = 0")
  case True
  then show ?thesis using assms round64_nonneg by simp
next
  case False
  with assms have x: "0 < x" and y: "0 < y" by simp_all
  let ?e = "f64_exponent x" and ?f = "f64_exponent y"
  have rx: "round64 x = of_int (round_half_even (x / 2 powi ?e)) * 2 powi ?e"
    and ry: "round64 y = of_int (round_half_even (y / 2 powi ?f)) * 2 powi ?f"
    using x y by (simp_all add: round64_def Let_def)
  have "?e \<le> ?f" by (rule f64_exponent_mono [OF x assms(2)])
  then consider "?e = ?f" | "?e < ?f" by linarith
  then show ?thesis
  proof cases
    case 1
    have "x / 2 powi ?f \<le> y / 2 powi ?f" using assms(2) by (simp add: divide_right_mono)
    then show ?thesis unfolding rx ry 1 by (intro mult_right_mono) (simp_all add: round_half_even_mono)
  next
    case 2
    have "(of_int (round_half_even (x / 2 powi ?e)) :: rat) \<le> of_int (2 ^ 53)"
      using round64_significand(2) [OF x] by (simp only: of_int_le_iff)
    then have "round64 x \<le> of_int (2 ^ 53) * 2 powi ?e" unfolding rx by (intro mult_right_mono) simp_all
    also have "\<dots> = 2 powi (?e + 53)" by (simp add: power_int_add)
    also have "\<dots> \<le> 2 powi (?f + 52)" using 2 by (intro powi_mono) simp
    also have "\<dots> = of_int (2 ^ 52) * 2 powi ?f" by (simp add: power_int_add)
    also have "\<dots> \<le> round64 y"
    proof -
      have "- 1074 < ?f" using 2 by (simp add: f64_exponent_def)
      then have "of_int (2 ^ 52) \<le> y / 2 powi ?f"
        using f64_exponent_normal [OF y] by (simp add: power_int_add le_divide_eq)
      then have "2 ^ 52 \<le> round_half_even (y / 2 powi ?f)" using round_half_even_mono round_half_even_of_int by metis
      then have "(of_int (2 ^ 52) :: rat) \<le> of_int (round_half_even (y / 2 powi ?f))" by (simp only: of_int_le_iff)
      then show ?thesis unfolding ry by (intro mult_right_mono) simp_all
    qed
    finally show ?thesis .
  qed
qed

text \<open>In the normal range a result is too large by at most one part in \<open>2 ^ 53\<close>.\<close>

lemma round64_error:
  assumes "2 powi (- 1022) \<le> x"
  shows "round64 x \<le> x * (1 + 1 / 2 ^ 53)"
proof -
  let ?e = "f64_exponent x"
  have x: "0 < x" using assms powi_pos [of "- 1022"] by linarith
  have "round64 x \<le> (x / 2 powi ?e + 1 / 2) * 2 powi ?e"
    using x round_half_even_near [of "x / 2 powi ?e"] by (simp add: round64_def Let_def mult_right_mono del: times_divide_eq_left)
  also have "\<dots> = x + 2 powi ?e / 2" by (simp add: field_simps)
  also have "2 powi ?e / 2 = 2 powi (?e + 52) / (2 ^ 53 :: rat)" by (simp add: power_int_add)
  also have "x + \<dots> \<le> x + x / 2 ^ 53" using f64_exponent_normal [OF x] assms by (simp add: divide_right_mono)
  finally show ?thesis by (simp add: field_simps)
qed

lemma round_half_even_near_below: "x - 1 / 2 \<le> of_int (round_half_even x)"
proof -
  have "x < of_int \<lfloor>x\<rfloor> + 1" by (rule floor_correct [THEN conjunct2, simplified])
  then show ?thesis unfolding round_half_even_def Let_def by (auto simp: not_less)
qed

lemma round64_error_below:
  assumes "2 powi (- 1022) \<le> x"
  shows "x * (1 - 1 / 2 ^ 53) \<le> round64 x"
proof -
  let ?e = "f64_exponent x"
  have x: "0 < x" using assms powi_pos [of "- 1022"] by linarith
  have "x * (1 - 1 / 2 ^ 53) = x - x / 2 ^ 53" by (simp add: field_simps)
  also have "\<dots> \<le> x - 2 powi (?e + 52) / 2 ^ 53" using f64_exponent_normal [OF x] assms by (simp add: divide_right_mono)
  also have "2 powi (?e + 52) / (2 ^ 53 :: rat) = 2 powi ?e / 2" by (simp add: power_int_add)
  also have "x - 2 powi ?e / 2 = (x / 2 powi ?e - 1 / 2) * 2 powi ?e" by (simp add: field_simps)
  also have "\<dots> \<le> round64 x"
    using x round_half_even_near_below [of "x / 2 powi ?e"] by (simp add: round64_def Let_def mult_right_mono del: times_divide_eq_left)
  finally show ?thesis .
qed

end
