(* ===== verification/Svip.thy ===== *)
theory Svip
  imports Float64 PreciseBankProps
begin

text \<open>
  \<open>x/svip\<close>: a pool of coins that is paid out to the fee collector, block by block, at a rate that halves every
  half-life. The bank is \<open>x/precisebank\<close>, as the application wires it. A time is the
  number of nanoseconds since Go's zero time. \<open>math.Log\<close> and \<open>math.Exp\<close>, which have assembly bodies on
  the common platforms, are the record \<open>go_math\<close>. Storing an integer, a flag or a UTC time and
  reading it back is exact.
\<close>

section \<open>Time\<close>

text \<open>\<open>Time.Sub\<close> saturates at the range of a \<open>Duration\<close>.\<close>

definition time_Sub :: "int \<Rightarrow> int \<Rightarrow> int" where
  "time_Sub t u = max (- (2 ^ 63)) (min (2 ^ 63 - 1) (t - u))"

definition dur_Seconds :: "int \<Rightarrow> f64" where
  "dur_Seconds d =
     (let sec = quo d (10 ^ 9); nsec = d - sec * 10 ^ 9 in
      round64 (round64 (of_int sec) + round64 (round64 (of_int nsec) / 10 ^ 9)))"

definition trunc_int64 :: "f64 \<Rightarrow> int" where
  "trunc_int64 x = (if 0 \<le> x then \<lfloor>x\<rfloor> else \<lceil>x\<rceil>)"

text \<open>The sum of two \<open>int64\<close> wraps around.\<close>

definition int64_add :: "int \<Rightarrow> int \<Rightarrow> int" where
  "int64_add a b = (a + b + 2 ^ 63) mod 2 ^ 64 - 2 ^ 63"

section \<open>The reward of a block\<close>

record go_math =
  math_Log :: "f64 \<Rightarrow> f64"
  math_Exp :: "f64 \<Rightarrow> f64"

definition CalculateBlockReward :: "go_math \<Rightarrow> int \<Rightarrow> int \<Rightarrow> f64 \<Rightarrow> f64 \<Rightarrow> int" where
  "CalculateBlockReward M halfLifeSeconds poolAtActivation totalElapsedSec blockDeltaSec =
     (if poolAtActivation = 0 \<or> blockDeltaSec \<le> 0 \<or> totalElapsedSec < 0 then 0
      else
        let halfLifeSec = round64 (of_int halfLifeSeconds) in
        if halfLifeSec \<le> 0 then 0
        else
          let lambda = round64 (math_Log M 2 / halfLifeSec);
              poolFloat = round64 (of_int poolAtActivation);
              initialRate = round64 (lambda * poolFloat);
              currentRate = round64 (initialRate * math_Exp M (round64 (- lambda * totalElapsedSec)));
              blockReward = round64 (currentRate * blockDeltaSec)
          in
          if blockReward \<le> 0 then 0
          else let reward = \<lfloor>blockReward\<rfloor> in if 2 ^ 256 \<le> reward then 0 else reward)"

section \<open>The keeper\<close>

definition sv_ModuleName :: string where
  "sv_ModuleName = ''svip''"

definition FeeCollectorName :: string where
  "FeeCollectorName = ''fee_collector''"

record sv_Params =
  HalfLifeSeconds :: int

definition sv_DefaultParams :: sv_Params where
  "sv_DefaultParams = \<lparr>HalfLifeSeconds = 0\<rparr>"

definition sv_Params_Validate :: "sv_Params \<Rightarrow> unit res" where
  "sv_Params_Validate p =
     (if HalfLifeSeconds p < 0 then Inl (Err ''half_life_seconds cannot be negative'') else Inr ())"

record 'b svState =
  sv_params :: "sv_Params option"
  sv_totalDistributed :: "int option"
  sv_activationTime :: "int option"
  sv_lastBlockTime :: "int option"
  sv_poolAtActivation :: "int option"
  sv_totalPaused :: "int option"
  sv_activated :: bool
  sv_paused :: bool
  sv_pb :: "'b pbState"
  sv_events :: "(string \<times> (string \<times> int) list) list"

definition sv_GetParams :: "'b svState \<Rightarrow> sv_Params" where
  "sv_GetParams s = (case sv_params s of None \<Rightarrow> sv_DefaultParams | Some p \<Rightarrow> p)"

definition sv_SetParams :: "sv_Params \<Rightarrow> 'b svState \<Rightarrow> 'b svState" where
  "sv_SetParams p s = s\<lparr>sv_params := Some p\<rparr>"

definition GetTotalDistributed :: "'b svState \<Rightarrow> int" where
  "GetTotalDistributed s = (case sv_totalDistributed s of None \<Rightarrow> 0 | Some v \<Rightarrow> v)"

definition SetTotalDistributed :: "int \<Rightarrow> 'b svState \<Rightarrow> 'b svState" where
  "SetTotalDistributed v s = s\<lparr>sv_totalDistributed := Some v\<rparr>"

definition AddTotalDistributed :: "int \<Rightarrow> 'b svState \<Rightarrow> 'b svState" where
  "AddTotalDistributed amount s = SetTotalDistributed (GetTotalDistributed s + amount) s"

definition GetActivationTime :: "'b svState \<Rightarrow> int" where
  "GetActivationTime s = (case sv_activationTime s of None \<Rightarrow> 0 | Some t \<Rightarrow> t)"

definition SetActivationTime :: "int \<Rightarrow> 'b svState \<Rightarrow> 'b svState" where
  "SetActivationTime t s = s\<lparr>sv_activationTime := Some t\<rparr>"

definition GetLastBlockTime :: "'b svState \<Rightarrow> int" where
  "GetLastBlockTime s = (case sv_lastBlockTime s of None \<Rightarrow> 0 | Some t \<Rightarrow> t)"

definition SetLastBlockTime :: "int \<Rightarrow> 'b svState \<Rightarrow> 'b svState" where
  "SetLastBlockTime t s = s\<lparr>sv_lastBlockTime := Some t\<rparr>"

definition GetPoolBalanceAtActivation :: "'b svState \<Rightarrow> int" where
  "GetPoolBalanceAtActivation s = (case sv_poolAtActivation s of None \<Rightarrow> 0 | Some v \<Rightarrow> v)"

definition SetPoolBalanceAtActivation :: "int \<Rightarrow> 'b svState \<Rightarrow> 'b svState" where
  "SetPoolBalanceAtActivation v s = s\<lparr>sv_poolAtActivation := Some v\<rparr>"

definition GetTotalPausedSeconds :: "'b svState \<Rightarrow> int" where
  "GetTotalPausedSeconds s = (case sv_totalPaused s of None \<Rightarrow> 0 | Some v \<Rightarrow> v)"

definition SetTotalPausedSeconds :: "int \<Rightarrow> 'b svState \<Rightarrow> 'b svState" where
  "SetTotalPausedSeconds v s = s\<lparr>sv_totalPaused := Some v\<rparr>"

definition SetActivated :: "bool \<Rightarrow> 'b svState \<Rightarrow> 'b svState" where
  "SetActivated b s = s\<lparr>sv_activated := b\<rparr>"

definition SetPaused :: "bool \<Rightarrow> 'b svState \<Rightarrow> 'b svState" where
  "SetPaused b s = s\<lparr>sv_paused := b\<rparr>"

definition getPoolBalance :: "EvmCoinInfo \<Rightarrow> 'b bank \<Rightarrow> 'b svState \<Rightarrow> int" where
  "getPoolBalance E B s = pb_GetBalance E B (sv_pb s) (ak_GetModuleAddress B sv_ModuleName) (Denom E)"

definition sv_emit :: "string \<Rightarrow> (string \<times> int) list \<Rightarrow> 'b svState \<Rightarrow> 'b svState" where
  "sv_emit n attrs s = s\<lparr>sv_events := sv_events s @ [(n, attrs)]\<rparr>"

section \<open>The block hook\<close>

text \<open>A coin of a negative amount cannot be built.\<close>

definition sv_pay :: "EvmCoinInfo \<Rightarrow> 'b bank \<Rightarrow> int \<Rightarrow> 'b svState \<Rightarrow> 'b svState res" where
  "sv_pay E B reward s =
     (if reward < 0 then Inl (Panic ''negative coin amount'')
      else rbind (pb_SendCoinsFromModuleToModule E B sv_ModuleName FeeCollectorName
             (coins_New B [(Denom E, reward)]) (sv_pb s)) (\<lambda>b. Inr (s\<lparr>sv_pb := b\<rparr>)))"

definition sv_BeginBlock :: "go_math \<Rightarrow> EvmCoinInfo \<Rightarrow> 'b bank \<Rightarrow> int \<Rightarrow> 'b svState \<Rightarrow> 'b svState res" where
  "sv_BeginBlock M E B now s =
     (if \<not> sv_activated s \<or> sv_paused s then Inr s
      else
        let params = sv_GetParams s;
            totalPausedSec = round64 (of_int (GetTotalPausedSeconds s));
            totalElapsed = round64 (dur_Seconds (time_Sub now (GetActivationTime s)) - totalPausedSec);
            blockDelta = dur_Seconds (time_Sub now (GetLastBlockTime s))
        in
        if totalElapsed \<le> 0 \<or> blockDelta \<le> 0 then Inr s
        else
          let poolAtActivation = GetPoolBalanceAtActivation s;
              reward = CalculateBlockReward M (HalfLifeSeconds params) poolAtActivation totalElapsed blockDelta
          in
          if reward \<le> 0 then Inr (SetLastBlockTime now s)
          else
            let poolBalance = getPoolBalance E B s;
                reward1 = (if poolBalance < reward then poolBalance else reward)
            in
            if reward1 = 0 then Inr (SetLastBlockTime now s)
            else
              rbind (sv_pay E B reward1 s) (\<lambda>s1.
              let s2 = SetLastBlockTime now (AddTotalDistributed reward1 s1) in
              Inr (sv_emit ''svip_reward'' [(''amount'', reward1), (''pool_remaining'', getPoolBalance E B s2)] s2)))"

section \<open>Messages\<close>

definition sv_UpdateParams :: "string \<Rightarrow> string \<Rightarrow> sv_Params \<Rightarrow> 'b svState \<Rightarrow> 'b svState res" where
  "sv_UpdateParams authority Authority params s =
     (if authority \<noteq> Authority then Inl (Err ''invalid authority'')
      else
        let current = sv_GetParams s in
        if sv_activated s \<and> HalfLifeSeconds params \<le> 0
        then Inl (Err ''half_life_seconds must be > 0 while module is activated'')
        else if sv_activated s \<and> 0 < HalfLifeSeconds current \<and> 0 < HalfLifeSeconds params \<and>
          (let ratio = round64 (round64 (of_int (HalfLifeSeconds params)) / round64 (of_int (HalfLifeSeconds current)))
           in ratio < 1 / 2 \<or> 3 / 2 < ratio)
        then Inl (Err ''half_life_seconds change exceeds 50% limit'')
        else if 0 < HalfLifeSeconds params \<and> HalfLifeSeconds params < 31536000
        then Inl (Err ''half_life_seconds must be >= 1 year (31536000s)'')
        else Inr (sv_SetParams params s))"

definition sv_Activate :: "EvmCoinInfo \<Rightarrow> 'b bank \<Rightarrow> string \<Rightarrow> string \<Rightarrow> int \<Rightarrow> 'b svState \<Rightarrow> 'b svState res" where
  "sv_Activate E B authority Authority now s =
     (if authority \<noteq> Authority then Inl (Err ''invalid authority'')
      else if sv_activated s then Inl (Err ''svip is already activated'')
      else
        let params = sv_GetParams s in
        if HalfLifeSeconds params \<le> 0 then Inl (Err ''half_life_seconds must be set before activation'')
        else
          let poolBalance = getPoolBalance E B s in
          if poolBalance = 0 then Inl (Err ''svip pool has no funds'')
          else
            let s1 = SetPoolBalanceAtActivation poolBalance s;
                s2 = SetTotalPausedSeconds 0 (SetPaused False s1);
                s3 = SetLastBlockTime now (SetActivationTime now (SetActivated True s2))
            in Inr (sv_emit ''svip_activated''
                 [(''pool_balance'', poolBalance), (''half_life_seconds'', HalfLifeSeconds params)] s3))"

definition sv_Reactivate :: "EvmCoinInfo \<Rightarrow> 'b bank \<Rightarrow> string \<Rightarrow> string \<Rightarrow> int \<Rightarrow> 'b svState \<Rightarrow> 'b svState res" where
  "sv_Reactivate E B authority Authority now s =
     (if authority \<noteq> Authority then Inl (Err ''invalid authority'')
      else if \<not> sv_activated s then Inl (Err ''svip has not been activated yet'')
      else
        let params = sv_GetParams s in
        if HalfLifeSeconds params \<le> 0 then Inl (Err ''half_life_seconds must be set before reactivation'')
        else
          let poolBalance = getPoolBalance E B s in
          if poolBalance = 0 then Inl (Err ''svip pool has no funds'')
          else
            let s1 = SetLastBlockTime now (SetActivationTime now (SetPoolBalanceAtActivation poolBalance s));
                s2 = SetTotalPausedSeconds 0 (SetTotalDistributed 0 s1);
                s3 = SetPaused False s2
            in Inr (sv_emit ''svip_reactivated''
                 [(''pool_balance'', poolBalance), (''half_life_seconds'', HalfLifeSeconds params)] s3))"

definition sv_Pause :: "string \<Rightarrow> string \<Rightarrow> bool \<Rightarrow> int \<Rightarrow> 'b svState \<Rightarrow> 'b svState res" where
  "sv_Pause authority Authority Paused now s =
     (if authority \<noteq> Authority then Inl (Err ''invalid authority'')
      else if \<not> sv_activated s then Inl (Err ''svip has not been activated yet'')
      else
        let s1 = SetPaused Paused s in
        if sv_paused s \<and> \<not> Paused then
          let pausedGap = trunc_int64 (dur_Seconds (time_Sub now (GetLastBlockTime s1)));
              s2 = (if 0 < pausedGap
                    then SetTotalPausedSeconds (int64_add (GetTotalPausedSeconds s1) pausedGap) s1 else s1)
          in Inr (SetLastBlockTime now s2)
        else Inr s1)"

definition sv_FundPool :: "EvmCoinInfo \<Rightarrow> 'b bank \<Rightarrow> string \<Rightarrow> coins \<Rightarrow> 'b svState \<Rightarrow> 'b svState res" where
  "sv_FundPool E B Depositor Amount s =
     rbind (acc_FromBech32 B Depositor) (\<lambda>depositor.
     if \<exists>c\<in>set Amount. fst c \<noteq> Denom E then Inl (Err ''invalid denom'')
     else rbind (pb_SendCoinsFromAccountToModule E B depositor sv_ModuleName Amount (sv_pb s)) (\<lambda>b.
       Inr (s\<lparr>sv_pb := b\<rparr>)))"

text \<open>\<open>Activate\<close>, \<open>Reactivate\<close> and \<open>Pause\<close> have the same stateless check.\<close>

definition sv_authority_ValidateBasic :: "'b bank \<Rightarrow> string \<Rightarrow> unit res" where
  "sv_authority_ValidateBasic B Authority =
     (case acc_FromBech32 B Authority of Inl _ \<Rightarrow> Inl (Err ''invalid authority address'') | Inr _ \<Rightarrow> Inr ())"

definition sv_MsgUpdateParams_ValidateBasic :: "'b bank \<Rightarrow> string \<Rightarrow> sv_Params \<Rightarrow> unit res" where
  "sv_MsgUpdateParams_ValidateBasic B Authority params =
     rbind (sv_authority_ValidateBasic B Authority) (\<lambda>_. sv_Params_Validate params)"

definition sv_MsgFundPool_ValidateBasic :: "'b bank \<Rightarrow> string \<Rightarrow> coins \<Rightarrow> unit res" where
  "sv_MsgFundPool_ValidateBasic B Depositor Amount =
     (case acc_FromBech32 B Depositor of
        Inl _ \<Rightarrow> Inl (Err ''invalid depositor address'')
      | Inr _ \<Rightarrow>
          if \<not> coins_IsValid B Amount \<or> (\<forall>c\<in>set Amount. snd c = 0) then Inl (Err ''invalid fund amount'')
          else Inr ())"

section \<open>Genesis and queries\<close>

record sv_GenesisState =
  sg_Params :: sv_Params
  sg_TotalDistributed :: int
  sg_ActivationTime :: int
  sg_PoolBalanceAtActivation :: int
  sg_LastBlockTime :: int
  sg_TotalPausedSeconds :: int
  sg_Activated :: bool
  sg_Paused :: bool

definition sv_DefaultGenesisState :: sv_GenesisState where
  "sv_DefaultGenesisState =
     \<lparr>sg_Params = sv_DefaultParams, sg_TotalDistributed = 0, sg_ActivationTime = 0, sg_PoolBalanceAtActivation = 0,
      sg_LastBlockTime = 0, sg_TotalPausedSeconds = 0, sg_Activated = False, sg_Paused = False\<rparr>"

definition sv_GenesisState_Validate :: "sv_GenesisState \<Rightarrow> unit res" where
  "sv_GenesisState_Validate gs =
     rbind (sv_Params_Validate (sg_Params gs)) (\<lambda>_.
     if sg_TotalDistributed gs < 0 then Inl (Err ''total_distributed cannot be negative'')
     else if sg_TotalPausedSeconds gs < 0 then Inl (Err ''total_paused_seconds cannot be negative'')
     else if sg_Activated gs \<and> HalfLifeSeconds (sg_Params gs) = 0
     then Inl (Err ''half_life_seconds must be set when activated'')
     else Inr ())"

definition sv_InitGenesis :: "sv_GenesisState \<Rightarrow> 'b svState \<Rightarrow> 'b svState" where
  "sv_InitGenesis data s =
     (let s1 = SetPaused (sg_Paused data) (SetActivated (sg_Activated data) (sv_SetParams (sg_Params data) s));
          s2 = (if 0 < sg_TotalDistributed data then SetTotalDistributed (sg_TotalDistributed data) s1 else s1);
          s3 = (if sg_ActivationTime data \<noteq> 0
                then SetLastBlockTime (if sg_LastBlockTime data \<noteq> 0 then sg_LastBlockTime data else sg_ActivationTime data)
                       (SetActivationTime (sg_ActivationTime data) s2)
                else s2);
          s4 = (if 0 < sg_TotalPausedSeconds data then SetTotalPausedSeconds (sg_TotalPausedSeconds data) s3 else s3)
      in if 0 < sg_PoolBalanceAtActivation data
         then SetPoolBalanceAtActivation (sg_PoolBalanceAtActivation data) s4 else s4)"

definition sv_ExportGenesis :: "'b svState \<Rightarrow> sv_GenesisState" where
  "sv_ExportGenesis s =
     \<lparr>sg_Params = sv_GetParams s, sg_TotalDistributed = GetTotalDistributed s, sg_ActivationTime = GetActivationTime s,
      sg_PoolBalanceAtActivation = GetPoolBalanceAtActivation s, sg_LastBlockTime = GetLastBlockTime s,
      sg_TotalPausedSeconds = GetTotalPausedSeconds s, sg_Activated = sv_activated s, sg_Paused = sv_paused s\<rparr>"

text \<open>The current rate of \<open>PoolState\<close>, as a whole number of coins per second.\<close>

definition sv_currentRate :: "go_math \<Rightarrow> int \<Rightarrow> 'b svState \<Rightarrow> int" where
  "sv_currentRate M now s =
     (if sv_activated s \<and> \<not> sv_paused s then
        let totalPausedSec = round64 (of_int (GetTotalPausedSeconds s));
            elapsed = round64 (dur_Seconds (time_Sub now (GetActivationTime s)) - totalPausedSec)
        in CalculateBlockReward M (HalfLifeSeconds (sv_GetParams s)) (GetPoolBalanceAtActivation s) elapsed 1
      else 0)"

record sv_PoolState =
  ps_PoolBalance :: coin
  ps_TotalDistributed :: int
  ps_CurrentRatePerSecond :: int
  ps_Activated :: bool
  ps_Paused :: bool
  ps_ActivationTime :: int

definition sv_query_PoolState :: "go_math \<Rightarrow> EvmCoinInfo \<Rightarrow> 'b bank \<Rightarrow> int \<Rightarrow> 'b svState \<Rightarrow> sv_PoolState" where
  "sv_query_PoolState M E B now s =
     \<lparr>ps_PoolBalance = (Denom E, getPoolBalance E B s), ps_TotalDistributed = GetTotalDistributed s,
      ps_CurrentRatePerSecond = sv_currentRate M now s, ps_Activated = sv_activated s, ps_Paused = sv_paused s,
      ps_ActivationTime = GetActivationTime s\<rparr>"

definition sv_query_Params :: "'b svState \<Rightarrow> sv_Params" where
  "sv_query_Params s = sv_GetParams s"

section \<open>Getters and setters\<close>

lemmas sv_get_simps = sv_GetParams_def GetTotalDistributed_def GetActivationTime_def GetLastBlockTime_def
  GetPoolBalanceAtActivation_def GetTotalPausedSeconds_def

text \<open>What each setter does to each getter.\<close>

lemma set_params [simp]:
  "sv_GetParams (sv_SetParams p s) = p" "GetTotalDistributed (sv_SetParams p s) = GetTotalDistributed s"
  "sv_activationTime (sv_SetParams p s) = sv_activationTime s"
  "GetActivationTime (sv_SetParams p s) = GetActivationTime s"
  "sv_lastBlockTime (sv_SetParams p s) = sv_lastBlockTime s"
  "GetLastBlockTime (sv_SetParams p s) = GetLastBlockTime s"
  "GetPoolBalanceAtActivation (sv_SetParams p s) = GetPoolBalanceAtActivation s"
  "GetTotalPausedSeconds (sv_SetParams p s) = GetTotalPausedSeconds s"
  "sv_activated (sv_SetParams p s) = sv_activated s" "sv_paused (sv_SetParams p s) = sv_paused s"
  "sv_pb (sv_SetParams p s) = sv_pb s"
  by (simp_all add: sv_SetParams_def sv_get_simps)

lemma set_distributed [simp]:
  "sv_GetParams (SetTotalDistributed v s) = sv_GetParams s" "GetTotalDistributed (SetTotalDistributed v s) = v"
  "sv_activationTime (SetTotalDistributed v s) = sv_activationTime s"
  "GetActivationTime (SetTotalDistributed v s) = GetActivationTime s"
  "sv_lastBlockTime (SetTotalDistributed v s) = sv_lastBlockTime s"
  "GetLastBlockTime (SetTotalDistributed v s) = GetLastBlockTime s"
  "GetPoolBalanceAtActivation (SetTotalDistributed v s) = GetPoolBalanceAtActivation s"
  "GetTotalPausedSeconds (SetTotalDistributed v s) = GetTotalPausedSeconds s"
  "sv_activated (SetTotalDistributed v s) = sv_activated s" "sv_paused (SetTotalDistributed v s) = sv_paused s"
  "sv_pb (SetTotalDistributed v s) = sv_pb s"
  by (simp_all add: SetTotalDistributed_def sv_get_simps)

lemma set_activation [simp]:
  "sv_GetParams (SetActivationTime t s) = sv_GetParams s"
  "GetTotalDistributed (SetActivationTime t s) = GetTotalDistributed s"
  "sv_activationTime (SetActivationTime t s) = Some t" "GetActivationTime (SetActivationTime t s) = t"
  "sv_lastBlockTime (SetActivationTime t s) = sv_lastBlockTime s"
  "GetLastBlockTime (SetActivationTime t s) = GetLastBlockTime s"
  "GetPoolBalanceAtActivation (SetActivationTime t s) = GetPoolBalanceAtActivation s"
  "GetTotalPausedSeconds (SetActivationTime t s) = GetTotalPausedSeconds s"
  "sv_activated (SetActivationTime t s) = sv_activated s" "sv_paused (SetActivationTime t s) = sv_paused s"
  "sv_pb (SetActivationTime t s) = sv_pb s"
  by (simp_all add: SetActivationTime_def sv_get_simps)

lemma set_last_block [simp]:
  "sv_GetParams (SetLastBlockTime t s) = sv_GetParams s"
  "GetTotalDistributed (SetLastBlockTime t s) = GetTotalDistributed s"
  "sv_activationTime (SetLastBlockTime t s) = sv_activationTime s"
  "GetActivationTime (SetLastBlockTime t s) = GetActivationTime s"
  "sv_lastBlockTime (SetLastBlockTime t s) = Some t" "GetLastBlockTime (SetLastBlockTime t s) = t"
  "GetPoolBalanceAtActivation (SetLastBlockTime t s) = GetPoolBalanceAtActivation s"
  "GetTotalPausedSeconds (SetLastBlockTime t s) = GetTotalPausedSeconds s"
  "sv_activated (SetLastBlockTime t s) = sv_activated s" "sv_paused (SetLastBlockTime t s) = sv_paused s"
  "sv_pb (SetLastBlockTime t s) = sv_pb s"
  by (simp_all add: SetLastBlockTime_def sv_get_simps)

lemma set_pool_snapshot [simp]:
  "sv_GetParams (SetPoolBalanceAtActivation v s) = sv_GetParams s"
  "GetTotalDistributed (SetPoolBalanceAtActivation v s) = GetTotalDistributed s"
  "sv_activationTime (SetPoolBalanceAtActivation v s) = sv_activationTime s"
  "GetActivationTime (SetPoolBalanceAtActivation v s) = GetActivationTime s"
  "sv_lastBlockTime (SetPoolBalanceAtActivation v s) = sv_lastBlockTime s"
  "GetLastBlockTime (SetPoolBalanceAtActivation v s) = GetLastBlockTime s"
  "GetPoolBalanceAtActivation (SetPoolBalanceAtActivation v s) = v"
  "GetTotalPausedSeconds (SetPoolBalanceAtActivation v s) = GetTotalPausedSeconds s"
  "sv_activated (SetPoolBalanceAtActivation v s) = sv_activated s"
  "sv_paused (SetPoolBalanceAtActivation v s) = sv_paused s" "sv_pb (SetPoolBalanceAtActivation v s) = sv_pb s"
  by (simp_all add: SetPoolBalanceAtActivation_def sv_get_simps)

lemma set_paused_seconds [simp]:
  "sv_GetParams (SetTotalPausedSeconds v s) = sv_GetParams s"
  "GetTotalDistributed (SetTotalPausedSeconds v s) = GetTotalDistributed s"
  "sv_activationTime (SetTotalPausedSeconds v s) = sv_activationTime s"
  "GetActivationTime (SetTotalPausedSeconds v s) = GetActivationTime s"
  "sv_lastBlockTime (SetTotalPausedSeconds v s) = sv_lastBlockTime s"
  "GetLastBlockTime (SetTotalPausedSeconds v s) = GetLastBlockTime s"
  "GetPoolBalanceAtActivation (SetTotalPausedSeconds v s) = GetPoolBalanceAtActivation s"
  "GetTotalPausedSeconds (SetTotalPausedSeconds v s) = v"
  "sv_activated (SetTotalPausedSeconds v s) = sv_activated s"
  "sv_paused (SetTotalPausedSeconds v s) = sv_paused s" "sv_pb (SetTotalPausedSeconds v s) = sv_pb s"
  by (simp_all add: SetTotalPausedSeconds_def sv_get_simps)

lemma set_activated [simp]:
  "sv_GetParams (SetActivated b s) = sv_GetParams s"
  "GetTotalDistributed (SetActivated b s) = GetTotalDistributed s"
  "sv_activationTime (SetActivated b s) = sv_activationTime s"
  "GetActivationTime (SetActivated b s) = GetActivationTime s"
  "sv_lastBlockTime (SetActivated b s) = sv_lastBlockTime s"
  "GetLastBlockTime (SetActivated b s) = GetLastBlockTime s"
  "GetPoolBalanceAtActivation (SetActivated b s) = GetPoolBalanceAtActivation s"
  "GetTotalPausedSeconds (SetActivated b s) = GetTotalPausedSeconds s" "sv_activated (SetActivated b s) = b"
  "sv_paused (SetActivated b s) = sv_paused s" "sv_pb (SetActivated b s) = sv_pb s"
  by (simp_all add: SetActivated_def sv_get_simps)

lemma set_paused [simp]:
  "sv_GetParams (SetPaused b s) = sv_GetParams s" "GetTotalDistributed (SetPaused b s) = GetTotalDistributed s"
  "sv_activationTime (SetPaused b s) = sv_activationTime s"
  "GetActivationTime (SetPaused b s) = GetActivationTime s"
  "sv_lastBlockTime (SetPaused b s) = sv_lastBlockTime s"
  "GetLastBlockTime (SetPaused b s) = GetLastBlockTime s"
  "GetPoolBalanceAtActivation (SetPaused b s) = GetPoolBalanceAtActivation s"
  "GetTotalPausedSeconds (SetPaused b s) = GetTotalPausedSeconds s"
  "sv_activated (SetPaused b s) = sv_activated s" "sv_paused (SetPaused b s) = b"
  "sv_pb (SetPaused b s) = sv_pb s"
  by (simp_all add: SetPaused_def sv_get_simps)

lemma set_emit [simp]:
  "sv_GetParams (sv_emit n attrs s) = sv_GetParams s"
  "GetTotalDistributed (sv_emit n attrs s) = GetTotalDistributed s"
  "sv_activationTime (sv_emit n attrs s) = sv_activationTime s"
  "GetActivationTime (sv_emit n attrs s) = GetActivationTime s"
  "sv_lastBlockTime (sv_emit n attrs s) = sv_lastBlockTime s"
  "GetLastBlockTime (sv_emit n attrs s) = GetLastBlockTime s"
  "GetPoolBalanceAtActivation (sv_emit n attrs s) = GetPoolBalanceAtActivation s"
  "GetTotalPausedSeconds (sv_emit n attrs s) = GetTotalPausedSeconds s"
  "sv_activated (sv_emit n attrs s) = sv_activated s" "sv_paused (sv_emit n attrs s) = sv_paused s"
  "sv_pb (sv_emit n attrs s) = sv_pb s"
  by (simp_all add: sv_emit_def sv_get_simps)

lemma set_bank [simp]:
  "sv_GetParams (s\<lparr>sv_pb := q\<rparr>) = sv_GetParams s"
  "GetTotalDistributed (s\<lparr>sv_pb := q\<rparr>) = GetTotalDistributed s"
  "GetActivationTime (s\<lparr>sv_pb := q\<rparr>) = GetActivationTime s"
  "GetLastBlockTime (s\<lparr>sv_pb := q\<rparr>) = GetLastBlockTime s"
  "GetPoolBalanceAtActivation (s\<lparr>sv_pb := q\<rparr>) = GetPoolBalanceAtActivation s"
  "GetTotalPausedSeconds (s\<lparr>sv_pb := q\<rparr>) = GetTotalPausedSeconds s"
  by (simp_all add: sv_get_simps)

end
