(* ===== verification/SvipReward.thy ===== *)
theory SvipReward
  imports Svip
begin

text \<open>
  The reward of a block in \<open>x/svip\<close>: its bound, through all the roundings of the code. The locale
  \<open>math_laws\<close> holds what is used of the logarithm and the exponential.
\<close>

section \<open>The reward\<close>

locale math_laws =
  fixes M :: go_math
  assumes Log_two: "1 / 2 \<le> math_Log M 2" "math_Log M 2 \<le> 7 / 10"
    and Exp_nonneg: "0 \<le> math_Exp M x"
    and Exp_le_one: "x \<le> 0 \<Longrightarrow> math_Exp M x \<le> 1"

lemma normal_small:
  assumes "1 / 2 ^ k \<le> x" "k \<le> 200"
  shows "2 powi (- 1022) \<le> (x :: rat)"
proof -
  have "(2 :: rat) powi (- 1022) \<le> 2 powi (- int k)" using assms(2) by (intro powi_mono) simp
  also have "\<dots> = 1 / 2 ^ k" by (simp add: power_int_minus divide_inverse)
  finally show ?thesis using assms(1) by (rule order_trans)
qed

lemma small_mult:
  assumes "1 / 2 ^ a \<le> (x :: rat)" "1 / 2 ^ b \<le> y"
  shows "1 / 2 ^ (a + b) \<le> x * y"
proof -
  have "0 \<le> x" using assms(1) by (rule order_trans [rotated]) simp
  then have "1 / 2 ^ a * (1 / 2 ^ b) \<le> x * y" using assms by (intro mult_mono) simp_all
  then show ?thesis by (simp add: power_add)
qed

text \<open>A positive time between blocks is at least a nanosecond.\<close>

lemma dur_Seconds_nonpos:
  assumes "d \<le> 0"
  shows "dur_Seconds d \<le> 0"
proof -
  define sec where "sec = quo d (10 ^ 9)"
  have q: "sec = - (- d div 10 ^ 9)" using assms by (cases "d = 0") (simp_all add: sec_def quo_def)
  have "- d div 10 ^ 9 * 10 ^ 9 + - d mod 10 ^ 9 = - d" by (rule div_mult_mod_eq)
  moreover have "0 \<le> - d mod 10 ^ 9" "0 \<le> - d div 10 ^ 9" using assms by (simp_all add: pos_imp_zdiv_nonneg_iff)
  ultimately have s: "sec \<le> 0" "d \<le> sec * 10 ^ 9" unfolding q by linarith+
  have "round64 (of_int (d - sec * 10 ^ 9)) \<le> 0" by (rule round64_nonpos) (use s(2) in simp)
  then have "round64 (round64 (of_int (d - sec * 10 ^ 9)) / 10 ^ 9) \<le> 0" by (intro round64_nonpos) simp
  moreover have "round64 (of_int sec) \<le> 0" by (rule round64_nonpos) (use s(1) in simp)
  ultimately show ?thesis unfolding dur_Seconds_def Let_def sec_def [symmetric] by (intro round64_nonpos) simp
qed

lemma dur_Seconds_pos:
  assumes "0 < dur_Seconds d"
  shows "1 / 2 ^ 40 \<le> dur_Seconds d"
proof -
  have d: "0 < d" using dur_Seconds_nonpos [of d] assms by linarith
  define sec nsec where "sec = quo d (10 ^ 9)" and "nsec = d - sec * 10 ^ 9"
  have q: "sec = d div 10 ^ 9" unfolding sec_def by (rule quo_nonneg_eq) (use d in simp_all)
  have q': "nsec = d mod 10 ^ 9" unfolding nsec_def q by (rule minus_div_mult_eq_mod)
  have s: "0 \<le> sec" "0 \<le> nsec" "sec * 10 ^ 9 + nsec = d"
    using d unfolding q q' by (simp_all add: pos_imp_zdiv_nonneg_iff)
  have r: "round64 (1 / 2 ^ 30) = 1 / 2 ^ 30"
  proof -
    have "2 powi (- 30) = (1 / 2 ^ 30 :: rat)" by (simp add: power_int_def power_one_over)
    with round64_exact [of 1 "- 30"] show ?thesis by simp
  qed
  have one: "round64 1 = 1" using round64_int [of 1] by simp
  have n0: "0 \<le> round64 (round64 (of_int nsec) / 10 ^ 9)"
    by (rule round64_nonneg, rule divide_nonneg_nonneg, rule round64_nonneg) (use s(2) in simp_all)
  have s0: "0 \<le> round64 (of_int sec)" by (rule round64_nonneg) (use s(1) in simp)
  have "1 / 2 ^ 30 \<le> round64 (of_int sec) + round64 (round64 (of_int nsec) / 10 ^ 9)"
  proof (cases "sec = 0")
    case True
    then have "round64 1 \<le> round64 (of_int nsec)" using d s(3) by (intro round64_mono) simp_all
    then have "1 / 10 ^ 9 \<le> round64 (of_int nsec) / 10 ^ 9" unfolding one by (rule divide_right_mono) simp
    moreover have "1 / 2 ^ 30 \<le> (1 / 10 ^ 9 :: rat)" by simp
    ultimately have "1 / 2 ^ 30 \<le> round64 (of_int nsec) / 10 ^ 9" by (rule order_trans [rotated])
    then have "round64 (1 / 2 ^ 30) \<le> round64 (round64 (of_int nsec) / 10 ^ 9)" by (rule round64_mono [rotated]) simp
    with r s0 show ?thesis by linarith
  next
    case False
    then have "round64 1 \<le> round64 (of_int sec)" using s(1) by (intro round64_mono) simp_all
    moreover have "1 / 2 ^ 30 \<le> (1 :: rat)" by simp
    ultimately show ?thesis using n0 unfolding one by linarith
  qed
  then have "round64 (1 / 2 ^ 30) \<le> dur_Seconds d"
    unfolding dur_Seconds_def Let_def sec_def [symmetric] nsec_def [symmetric] by (rule round64_mono [rotated]) simp
  moreover have "1 / 2 ^ 40 \<le> (1 / 2 ^ 30 :: rat)" by simp
  ultimately show ?thesis unfolding r by (rule order_trans [rotated])
qed

context math_laws
begin

lemma reward_nonneg: "0 \<le> CalculateBlockReward M h p t d"
  by (auto simp: CalculateBlockReward_def Let_def not_le le_floor_iff)

lemma reward_le_rate:
  assumes "0 < h" "0 \<le> p" "0 \<le> t" "0 < d"
  shows "of_int (CalculateBlockReward M h p t d) \<le>
    round64 (round64 (round64 (math_Log M 2 / round64 (of_int h)) * round64 (of_int p)) * d)"
    (is "_ \<le> round64 (?i * d)")
proof -
  let ?l = "round64 (math_Log M 2 / round64 (of_int h))"
  let ?c = "round64 (?i * math_Exp M (round64 (- ?l * t)))"
  have h: "0 \<le> round64 (of_int h)" and p: "0 \<le> round64 (of_int p)"
    using assms by (simp_all add: round64_nonneg)
  have l: "0 \<le> ?l" by (rule round64_nonneg, rule divide_nonneg_nonneg) (use Log_two(1) h in simp_all)
  have i: "0 \<le> ?i" by (rule round64_nonneg, rule mult_nonneg_nonneg) (use l p in simp_all)
  have e: "math_Exp M (round64 (- ?l * t)) \<le> 1"
    using l assms(3) by (intro Exp_le_one round64_nonpos) (simp add: mult_nonneg_nonneg)
  have "?c \<le> round64 ?i"
    by (rule round64_mono, rule mult_nonneg_nonneg [OF i Exp_nonneg]) (rule mult_left_le [OF e i])
  also have "\<dots> = ?i" by (rule round64_idem) (use l p in simp)
  finally have "?c * d \<le> ?i * d" using assms(4) by (simp add: mult_right_mono)
  moreover have c: "0 \<le> ?c" by (rule round64_nonneg [OF mult_nonneg_nonneg [OF i Exp_nonneg]])
  ultimately have le: "round64 (?c * d) \<le> round64 (?i * d)" using assms(4) by (intro round64_mono mult_nonneg_nonneg) simp_all
  have "0 \<le> round64 (?i * d)" by (rule round64_nonneg) (use i assms(4) in simp)
  moreover have "of_int \<lfloor>round64 (?c * d)\<rfloor> \<le> round64 (?i * d)"
    using le of_int_floor_le [of "round64 (?c * d)"] by linarith
  ultimately show ?thesis by (auto simp: CalculateBlockReward_def Let_def)
qed

text \<open>Four roundings up and one down lose less than the gap between \<open>ln 2\<close> and 1.\<close>

lemma reward_bound:
  assumes "0 < h" "h < 2 ^ 63" "0 \<le> p" "0 \<le> t" "1 / 2 ^ 40 \<le> d"
  shows "of_int (CalculateBlockReward M h p t d) * of_int h \<le> of_int p * d"
proof (cases "p = 0")
  case False
  define up dn :: rat where "up = 1 + 1 / 2 ^ 53" and "dn = 1 - 1 / 2 ^ 53"
  have ud: "1 / 2 ^ 1 \<le> dn" "1 \<le> up" "up \<le> 2" "7 / 10 * up ^ 4 \<le> dn" by (simp_all add: up_def dn_def power4_eq_xxxx)
  note near = round64_error [folded up_def, OF normal_small] round64_error_below [folded dn_def, OF normal_small]
  define H P where "H = round64 (of_int h)" and "P = round64 (of_int p)"
  define l where "l = round64 (math_Log M 2 / H)"
  define i where "i = round64 (l * P)"
  have d: "0 < d" using assms(5) by (rule less_le_trans [rotated]) simp
  have h1: "1 \<le> (of_int h :: rat)" "of_int h \<le> (2 ^ 63 :: rat)"
    using assms(1,2) of_int_le_iff [of h "2 ^ 63", where 'a = rat] by simp_all
  have p1: "1 \<le> (of_int p :: rat)" using False assms(3) by simp
  have H: "of_int h * dn \<le> H" "H \<le> of_int h * up" using near [of 0 "of_int h"] h1 by (simp_all add: H_def)
  have P: "of_int p * dn \<le> P" "P \<le> of_int p * up" using near [of 0 "of_int p"] p1 by (simp_all add: P_def)
  have lo: "1 / 2 ^ (0 + 1) \<le> H" "1 / 2 ^ (0 + 1) \<le> P"
    by (rule order_trans [OF small_mult [OF _ ud(1)] H(1)], use h1 in simp)
      (rule order_trans [OF small_mult [OF _ ud(1)] P(1)], use p1 in simp)
  have "H \<le> 2 ^ 63 * 2" using mult_mono [OF h1(2) ud(3)] H(2) ud(2) by simp
  then have q: "1 / 2 ^ 65 \<le> math_Log M 2 / H" using Log_two(1) lo(1) by (simp add: field_simps)
  have hd: "0 < of_int h * dn" using h1(1) ud(1) by simp
  have q': "math_Log M 2 / H \<le> 7 / 10 / (of_int h * dn)" using Log_two H(1) hd by (intro frac_le) simp_all
  have l: "math_Log M 2 / H * dn \<le> l" "l \<le> math_Log M 2 / H * up" unfolding l_def by (rule near(2) [OF q], simp, rule near(1) [OF q], simp)
  note l1 = order_trans [OF small_mult [OF q ud(1)] l(1)]
  note lP = small_mult [OF l1 lo(2)]
  have i: "l * P * dn \<le> i" "i \<le> l * P * up" unfolding i_def by (rule near(2) [OF lP], simp, rule near(1) [OF lP], simp)
  note id = small_mult [OF order_trans [OF small_mult [OF lP ud(1)] i(1)] assms(5)]
  have pos: "0 \<le> l" "0 \<le> P" "0 \<le> math_Log M 2" "0 < H"
    using l1 lo Log_two(1) by (auto elim!: order_trans [rotated] less_le_trans [rotated])
  have "of_int (CalculateBlockReward M h p t d) \<le> round64 (i * d)"
    using reward_le_rate [OF assms(1,3,4) d] by (simp add: i_def l_def H_def P_def)
  also have "\<dots> \<le> i * d * up" by (rule near(1) [OF id]) simp
  also have "\<dots> \<le> (math_Log M 2 / H * up) * (of_int p * up) * up * d * up"
  proof -
    have "l * P \<le> (math_Log M 2 / H * up) * (of_int p * up)" using pos ud by (intro mult_mono l P) simp_all
    then have "i \<le> (math_Log M 2 / H * up) * (of_int p * up) * up" using ud(2) by (intro order_trans [OF i(2)] mult_right_mono) simp_all
    then show ?thesis by (intro mult_right_mono) (use d ud(2) in simp_all)
  qed
  also have "\<dots> = math_Log M 2 / H * (up ^ 4 * of_int p * d)" by (simp add: power4_eq_xxxx algebra_simps)
  also have "\<dots> \<le> 7 / 10 / (of_int h * dn) * (up ^ 4 * of_int p * d)"
    using q' p1 d ud(2) by (intro mult_right_mono) simp_all
  also have "\<dots> = (7 / 10 * up ^ 4 / dn) * (of_int p * d) / of_int h" by (simp add: mult.assoc mult.commute mult.left_commute)
  also have "\<dots> \<le> 1 * (of_int p * d) / of_int h"
    using ud(1,4) p1 d h1(1) by (intro divide_right_mono mult_right_mono) (simp_all add: divide_le_eq)
  finally show ?thesis using h1(1) by (simp add: pos_le_divide_eq)
qed (simp add: CalculateBlockReward_def)

end

end
