(* ===== verification/SvipPool.thy ===== *)
theory SvipPool
  imports SvipReward
begin

text \<open>
  The books of the pool of \<open>x/svip\<close> on top of \<open>x/precisebank\<close>, and the run of the module: the operations as a
  data type, their execution and the sequences of successful operations.
\<close>

section \<open>Operations\<close>

datatype sv_op =
  SvBeginBlock int
| SvUpdateParams string sv_Params
| SvActivate string int
| SvReactivate string int
| SvPause string bool int
| SvFundPool string coins

text \<open>A message passes its stateless check before it is handled.\<close>

fun sv_exec :: "go_math \<Rightarrow> EvmCoinInfo \<Rightarrow> 'b bank \<Rightarrow> string \<Rightarrow> sv_op \<Rightarrow> 'b svState \<Rightarrow> 'b svState res" where
  "sv_exec M E B A (SvBeginBlock now) s = sv_BeginBlock M E B now s"
| "sv_exec M E B A (SvUpdateParams auth p) s =
     rbind (sv_MsgUpdateParams_ValidateBasic B auth p) (\<lambda>_. sv_UpdateParams A auth p s)"
| "sv_exec M E B A (SvActivate auth now) s =
     rbind (sv_authority_ValidateBasic B auth) (\<lambda>_. sv_Activate E B A auth now s)"
| "sv_exec M E B A (SvReactivate auth now) s =
     rbind (sv_authority_ValidateBasic B auth) (\<lambda>_. sv_Reactivate E B A auth now s)"
| "sv_exec M E B A (SvPause auth b now) s =
     rbind (sv_authority_ValidateBasic B auth) (\<lambda>_. sv_Pause A auth b now s)"
| "sv_exec M E B A (SvFundPool dep cs) s =
     rbind (sv_MsgFundPool_ValidateBasic B dep cs) (\<lambda>_. sv_FundPool E B dep cs s)"

fun sv_deposit :: "EvmCoinInfo \<Rightarrow> 'b bank \<Rightarrow> sv_op \<Rightarrow> int" where
  "sv_deposit E B (SvFundPool dep cs) = coins_AmountOf B cs (Denom E)"
| "sv_deposit E B _ = 0"

text \<open>A depositor is none of the module accounts involved; those have no key to sign with.\<close>

fun sv_outsider :: "'b bank \<Rightarrow> sv_op \<Rightarrow> bool" where
  "sv_outsider B (SvFundPool dep cs) =
     (case acc_FromBech32 B dep of
        Inl _ \<Rightarrow> True
      | Inr a \<Rightarrow> a \<notin> {[], reserve B, ak_GetModuleAddress B sv_ModuleName, ak_GetModuleAddress B FeeCollectorName})"
| "sv_outsider B _ = True"

text \<open>The operations that succeed, in order, with the sum of the deposits; \<open>ok\<close> restricts the operations.\<close>

inductive sv_steps :: "go_math \<Rightarrow> EvmCoinInfo \<Rightarrow> 'b bank \<Rightarrow> string \<Rightarrow> (sv_op \<Rightarrow> bool) \<Rightarrow> 'b svState \<Rightarrow> int \<Rightarrow> 'b svState \<Rightarrow> bool"
  for M E B A ok s where
  start: "sv_steps M E B A ok s 0 s"
| exec: "sv_steps M E B A ok s n t \<Longrightarrow> ok op \<Longrightarrow> sv_exec M E B A op t = Inr u \<Longrightarrow>
    sv_steps M E B A ok s (n + sv_deposit E B op) u"

section \<open>Transfers of the bank's own coin\<close>

text \<open>
  The addresses of the pool and of the fee collector are two accounts of their own, the pool has no
  locked coins, and laws of the SDK's coin lists.
\<close>

locale svip_env = bank_contract +
  assumes pool_address: "ak_GetModuleAddress B sv_ModuleName \<noteq> []"
    and fee_address: "ak_GetModuleAddress B FeeCollectorName \<noteq> []"
    and pool_fee: "ak_GetModuleAddress B sv_ModuleName \<noteq> ak_GetModuleAddress B FeeCollectorName"
    and pool_spendable: "binv b \<Longrightarrow>
      bk_SpendableCoin B b (ak_GetModuleAddress B sv_ModuleName) x = bk_GetBalance B b (ak_GetModuleAddress B sv_ModuleName) x"
    and fee_account: "binv b \<Longrightarrow> fst (ak_GetModuleAccount B b FeeCollectorName) \<noteq> None"
    and AmountOf_absent: "x \<notin> fst ` set cs \<Longrightarrow> coins_AmountOf B cs x = 0"
    and New_valid: "0 < n \<Longrightarrow> coins_IsValid B (coins_New B [(Denom E, n)])"
    and Nil_not_positive: "\<not> coins_IsAllPositive B []"
    and valid_empty: "coins_IsValid B cs \<Longrightarrow> \<forall>x. coins_AmountOf B cs x = 0 \<Longrightarrow> cs = []"

abbreviation pool :: "'b bank \<Rightarrow> AccAddress" where
  "pool B \<equiv> ak_GetModuleAddress B sv_ModuleName"

abbreviation fee_collector :: "'b bank \<Rightarrow> AccAddress" where
  "fee_collector B \<equiv> ak_GetModuleAddress B FeeCollectorName"

definition denom_balance :: "EvmCoinInfo \<Rightarrow> 'b bank \<Rightarrow> 'b pbState \<Rightarrow> AccAddress \<Rightarrow> int" where
  "denom_balance E B s a = pb_GetBalance E B s a (Denom E)"

lemmas sv_state_simps = sv_SetParams_def SetTotalDistributed_def SetActivationTime_def SetLastBlockTime_def
  SetPoolBalanceAtActivation_def SetTotalPausedSeconds_def SetActivated_def SetPaused_def sv_emit_def

text \<open>The parts of the block hook.\<close>

definition sv_elapsed :: "int \<Rightarrow> 'b svState \<Rightarrow> f64" where
  "sv_elapsed now s = round64 (dur_Seconds (time_Sub now (GetActivationTime s)) - round64 (of_int (GetTotalPausedSeconds s)))"

definition sv_delta :: "int \<Rightarrow> 'b svState \<Rightarrow> f64" where
  "sv_delta now s = dur_Seconds (time_Sub now (GetLastBlockTime s))"

definition sv_running :: "int \<Rightarrow> 'b svState \<Rightarrow> bool" where
  "sv_running now s \<longleftrightarrow> sv_activated s \<and> \<not> sv_paused s \<and> 0 < sv_elapsed now s \<and> 0 < sv_delta now s"

definition sv_reward :: "go_math \<Rightarrow> int \<Rightarrow> 'b svState \<Rightarrow> int" where
  "sv_reward M now s = CalculateBlockReward M (HalfLifeSeconds (sv_GetParams s)) (GetPoolBalanceAtActivation s) (sv_elapsed now s) (sv_delta now s)"

definition sv_booked :: "EvmCoinInfo \<Rightarrow> 'b bank \<Rightarrow> int \<Rightarrow> int \<Rightarrow> 'b svState \<Rightarrow> 'b svState" where
  "sv_booked E B now n s =
     sv_emit ''svip_reward'' [(''amount'', n), (''pool_remaining'', getPoolBalance E B s)] (SetLastBlockTime now (AddTotalDistributed n s))"

lemma BeginBlock_eq:
  assumes "0 \<le> getPoolBalance E B s"
  shows "sv_BeginBlock M E B now s =
    (if sv_running now s then
       (if 0 < min (sv_reward M now s) (getPoolBalance E B s)
        then rbind (sv_pay E B (min (sv_reward M now s) (getPoolBalance E B s)) s)
          (\<lambda>s1. Inr (sv_booked E B now (min (sv_reward M now s) (getPoolBalance E B s)) s1))
        else Inr (SetLastBlockTime now s))
     else Inr s)"
proof -
  have b: "getPoolBalance E B (SetLastBlockTime now (AddTotalDistributed n t)) = getPoolBalance E B t" for n t
    by (simp add: getPoolBalance_def SetLastBlockTime_def AddTotalDistributed_def SetTotalDistributed_def)
  have m: "(if p < r then p else r) = min r p" for p r :: int by (simp add: min_def)
  show ?thesis using assms
    unfolding sv_BeginBlock_def Let_def m sv_elapsed_def [symmetric] sv_delta_def [symmetric] sv_reward_def [symmetric] b
      sv_booked_def [symmetric]
    by (auto simp: sv_running_def not_le)
qed

text \<open>One operation: the coins of the pool, of the fee collector, and the counter move together.\<close>

definition pool_books :: "EvmCoinInfo \<Rightarrow> 'b bank \<Rightarrow> ('b \<Rightarrow> bool) \<Rightarrow> 'b svState \<Rightarrow> int \<Rightarrow> 'b svState \<Rightarrow> bool" where
  "pool_books E B binv s n s' \<longleftrightarrow> pb_inv E B binv (sv_pb s') \<and> 0 \<le> n \<and>
     GetTotalDistributed s \<le> GetTotalDistributed s' \<and>
     getPoolBalance E B s' + GetTotalDistributed s' = getPoolBalance E B s + GetTotalDistributed s + n \<and>
     denom_balance E B (sv_pb s') (fee_collector B) - GetTotalDistributed s' =
       denom_balance E B (sv_pb s) (fee_collector B) - GetTotalDistributed s"

lemma multiple_diff:
  assumes "0 < (cf :: int)" "0 \<le> f" "f < cf" "0 \<le> g" "g < cf" "y * cf + g = x * cf + f + n * cf"
  shows "y = x + n"
proof -
  have "(y * cf + g) div cf = ((x + n) * cf + f) div cf" using assms(6) by (simp add: algebra_simps)
  then show ?thesis using assms(1-5) by simp
qed

context bank_contract
begin

lemma denom_moved:
  assumes "pb_inv E B binv s" "pb_inv E B binv s'" "a \<noteq> reserve B"
    "ext_moved E B s s' (\<lambda>a. d a * (if Denom E = ExtendedDenom E then 1 else conversion E)) e m"
  shows "denom_balance E B s' a = denom_balance E B s a + d a"
proof (cases "Denom E = ExtendedDenom E")
  case True
  then show ?thesis using assms(3,4) by (simp add: denom_balance_def ext_moved_def)
next
  case False
  note f = pb_inv_frac [OF assms(1) conversion_pos, of a] pb_inv_frac [OF assms(2) conversion_pos, of a]
  have "bk_GetBalance B (pbank s') a (Denom E) * conversion E + kv_int (fractional s') a =
    bk_GetBalance B (pbank s) a (Denom E) * conversion E + kv_int (fractional s) a + d a * conversion E"
    using assms(3,4) False by (simp add: ext_moved_def pb_GetBalance_def GetFractionalBalance_int)
  from multiple_diff [OF conversion_pos f(1-4) this] False show ?thesis
    by (simp add: denom_balance_def pb_GetBalance_def)
qed

lemma denom_balance_nonneg:
  assumes "pb_inv E B binv s" "a \<noteq> reserve B"
  shows "0 \<le> denom_balance E B s a"
proof -
  have "0 \<le> bk_GetBalance B (pbank s) a (Denom E)"
    using spendable_bounds [of "pbank s" a "Denom E"] assms(1) by (simp add: pb_inv_def)
  then show ?thesis using pb_inv_frac(1) [OF assms(1) conversion_pos, of a] conversion_pos assms(2)
    by (simp add: denom_balance_def pb_GetBalance_def GetFractionalBalance_int)
      (metis add_nonneg_nonneg less_imp_le mult_nonneg_nonneg)
qed

lemma send_denom:
  assumes "pb_inv E B binv s" "f \<noteq> reserve B" "t \<noteq> reserve B" "f \<noteq> []" "t \<noteq> []"
    "pb_SendCoins E B f t cs s = Inr s'" "Denom E \<noteq> ExtendedDenom E \<longrightarrow> coins_AmountOf B cs (ExtendedDenom E) = 0"
  shows "pb_inv E B binv s'" "a \<noteq> reserve B \<Longrightarrow> denom_balance E B s' a = denom_balance E B s a +
    ((if a = t then coins_AmountOf B cs (Denom E) else 0) - (if a = f then coins_AmountOf B cs (Denom E) else 0))"
proof -
  note spec = pb_SendCoins_spec [OF assms(1-6)]
  show inv: "pb_inv E B binv s'" using spec by blast
  have v: "ext_value E B cs = coins_AmountOf B cs (Denom E) * (if Denom E = ExtendedDenom E then 1 else conversion E)"
    using assms(7) by (simp add: ext_value_def SumExtendedCoin_def)
  assume a: "a \<noteq> reserve B"
  show "denom_balance E B s' a = denom_balance E B s a +
    ((if a = t then coins_AmountOf B cs (Denom E) else 0) - (if a = f then coins_AmountOf B cs (Denom E) else 0))"
    by (rule denom_moved [OF assms(1) inv a]) (rule ext_moved_cong [OF conjunct2 [OF spec]], auto simp: v)
qed

lemma module_account_balance:
  assumes "pb_inv E B binv s" "ak_GetModuleAccount B (pbank s) m = (Some acc, b)"
  shows "denom_balance E B (s\<lparr>pbank := b\<rparr>) a = denom_balance E B s a"
proof -
  have "moved B (pbank s) b (\<lambda>_ _. 0) (\<lambda>_. 0)"
    using GetModuleAccount_keeps [of "pbank s" m "Some acc" b] assms by (auto simp: pb_inv_def)
  then show ?thesis by (simp add: denom_balance_def pb_GetBalance_def moved_def GetFractionalBalance_def)
qed

end

context svip_env
begin

lemma addresses: "pool B \<noteq> reserve B" "fee_collector B \<noteq> reserve B"
  using reserve_name [of sv_ModuleName] reserve_name [of FeeCollectorName]
  by (auto simp: sv_ModuleName_def FeeCollectorName_def pb_ModuleName_def)

lemma New_extended:
  "0 < n \<Longrightarrow> Denom E \<noteq> ExtendedDenom E \<longrightarrow> coins_AmountOf B (coins_New B [(Denom E, n)]) (ExtendedDenom E) = 0"
  by (simp add: AmountOf_New)

text \<open>A payment that succeeds moves the reward, and nothing else.\<close>

lemma pay_spec:
  assumes "pb_inv E B binv (sv_pb s)" "0 < n" "sv_pay E B n s = Inr s'"
  shows "pb_inv E B binv (sv_pb s')" "s' = s\<lparr>sv_pb := sv_pb s'\<rparr>"
    "a \<noteq> reserve B \<Longrightarrow> denom_balance E B (sv_pb s') a = denom_balance E B (sv_pb s) a +
      ((if a = fee_collector B then n else 0) - (if a = pool B then n else 0))"
proof -
  obtain acc b p where c: "ak_GetModuleAccount B (pbank (sv_pb s)) FeeCollectorName = (Some acc, b)"
    "pb_SendCoins E B (pool B) (ma_Address acc) (coins_New B [(Denom E, n)]) ((sv_pb s)\<lparr>pbank := b\<rparr>) = Inr p" "s' = s\<lparr>sv_pb := p\<rparr>"
    using assms(2,3) by (auto simp: sv_pay_def rbind_eq_Inr pb_SendCoinsFromModuleToModule_def Let_def
        split: prod.splits option.splits if_splits)
  note acc = module_account_inv [OF assms(1) c(1)]
  have send: "pb_SendCoins E B (pool B) (fee_collector B) (coins_New B [(Denom E, n)]) ((sv_pb s)\<lparr>pbank := b\<rparr>) = Inr p"
    using c(2) acc(2) by simp
  note spec = send_denom [OF acc(1) addresses pool_address fee_address send New_extended [OF assms(2)]]
  show "pb_inv E B binv (sv_pb s')" "s' = s\<lparr>sv_pb := sv_pb s'\<rparr>" using spec(1) by (simp_all add: c(3))
  assume "a \<noteq> reserve B"
  from spec(2) [OF this] show "denom_balance E B (sv_pb s') a = denom_balance E B (sv_pb s) a +
      ((if a = fee_collector B then n else 0) - (if a = pool B then n else 0))"
    by (simp add: c(3) AmountOf_New [OF assms(2)] module_account_balance [OF assms(1) c(1)])
qed

text \<open>A payment that the pool covers succeeds.\<close>

lemma pay_succeeds:
  assumes inv: "pb_inv E B binv (sv_pb s)" and n: "0 < n" "n \<le> denom_balance E B (sv_pb s) (pool B)"
  shows "\<exists>s'. sv_pay E B n s = Inr s'"
proof -
  let ?cs = "coins_New B [(Denom E, n)]"
  have binv: "binv (pbank (sv_pb s))" using inv by (simp add: pb_inv_def)
  obtain acc b where c: "ak_GetModuleAccount B (pbank (sv_pb s)) FeeCollectorName = (Some acc, b)"
    using fee_account [OF binv] by (cases "ak_GetModuleAccount B (pbank (sv_pb s)) FeeCollectorName") auto
  define t where "t = (sv_pb s)\<lparr>pbank := b\<rparr>"
  have t: "pb_inv E B binv t" "ma_Address acc = fee_collector B" "binv (pbank t)"
    using module_account_inv [OF inv c] by (simp_all add: t_def pb_inv_def)
  have bal: "n \<le> denom_balance E B t (pool B)" using n(2) module_account_balance [OF inv c] by (simp add: t_def)
  have "\<exists>p. pb_SendCoins E B (pool B) (fee_collector B) ?cs t = Inr p"
  proof (cases "Denom E = ExtendedDenom E")
    case True
    have sp: "n \<le> pb_SpendableCoin E B t (pool B) (ExtendedDenom E)"
      using bal True pool_spendable [OF t(3)] addresses(1) by (simp add: denom_balance_def pb_GetBalance_def pb_SpendableCoin_def)
    have amt: "coins_AmountOf B ?cs x = (if x = ExtendedDenom E then n else 0)" for x
      using AmountOf_New [OF n(1)] True by simp
    have "coins_Sub B ?cs (ExtendedDenom E, n) = []"
      using AmountOf_Sub [OF New_valid [OF n(1)] n(1)] Sub_valid [OF New_valid [OF n(1)] n(1)]
      by (intro valid_empty) (simp_all add: amt)
    then show ?thesis
      using sendExtendedCoins_decides [OF t(1) addresses pool_address fee_address, of n] n(1) sp pool_fee True New_valid [OF n(1)]
      by (auto simp: pb_SendCoins_def extended_split_def amt [unfolded True] Nil_not_positive)
  next
    case False
    have "n \<le> bk_SpendableCoin B (pbank t) (pool B) (Denom E)"
      using bal False pool_spendable [OF t(3)] by (simp add: denom_balance_def pb_GetBalance_def)
    from SendCoins_enough [OF t(3) n(1) this] obtain b' where "bk_SendCoins B (pbank t) (pool B) (fee_collector B) ?cs = Inr b'"
      by blast
    then show ?thesis using False New_valid [OF n(1)]
      by (simp add: pb_SendCoins_def extended_split_def AmountOf_New [OF n(1)] on_bank_def)
  qed
  then show ?thesis using n(1) c t(2) pool_address
    by (auto simp: sv_pay_def pb_SendCoinsFromModuleToModule_def t_def sv_ModuleName_def FeeCollectorName_def pb_ModuleName_def)
qed

lemma fund_spec:
  assumes "pb_inv E B binv (sv_pb s)" "sv_FundPool E B D cs s = Inr s'" "acc_FromBech32 B D = Inr a" "a \<noteq> reserve B" "a \<noteq> []"
  shows "pb_inv E B binv (sv_pb s')" "s' = s\<lparr>sv_pb := sv_pb s'\<rparr>" "0 \<le> coins_AmountOf B cs (Denom E)"
    "x \<noteq> reserve B \<Longrightarrow> denom_balance E B (sv_pb s') x = denom_balance E B (sv_pb s) x +
      ((if x = pool B then coins_AmountOf B cs (Denom E) else 0) - (if x = a then coins_AmountOf B cs (Denom E) else 0))"
proof -
  obtain acc b p where c: "ak_GetModuleAccount B (pbank (sv_pb s)) sv_ModuleName = (Some acc, b)"
    "pb_SendCoins E B a (ma_Address acc) cs ((sv_pb s)\<lparr>pbank := b\<rparr>) = Inr p" "s' = s\<lparr>sv_pb := p\<rparr>" "\<forall>c\<in>set cs. fst c = Denom E"
    using assms(2,3) by (auto simp: sv_FundPool_def rbind_eq_Inr pb_SendCoinsFromAccountToModule_def
        split: prod.splits option.splits if_splits)
  note acc = module_account_inv [OF assms(1) c(1)]
  have send: "pb_SendCoins E B a (pool B) cs ((sv_pb s)\<lparr>pbank := b\<rparr>) = Inr p" using c(2) acc(2) by simp
  have abs: "Denom E \<noteq> ExtendedDenom E \<longrightarrow> coins_AmountOf B cs (ExtendedDenom E) = 0"
    using c(4) by (intro impI AmountOf_absent) auto
  have "coins_IsValid B cs" using send by (simp add: pb_SendCoins_def split: if_splits)
  then show "0 \<le> coins_AmountOf B cs (Denom E)" by (rule AmountOf_nonneg)
  note spec = send_denom [OF acc(1) assms(4) addresses(1) assms(5) pool_address send abs]
  show "pb_inv E B binv (sv_pb s')" "s' = s\<lparr>sv_pb := sv_pb s'\<rparr>" using spec(1) by (simp_all add: c(3))
  assume "x \<noteq> reserve B"
  from spec(2) [OF this] show "denom_balance E B (sv_pb s') x = denom_balance E B (sv_pb s) x +
      ((if x = pool B then coins_AmountOf B cs (Denom E) else 0) - (if x = a then coins_AmountOf B cs (Denom E) else 0))"
    by (simp add: c(3) module_account_balance [OF assms(1) c(1)])
qed

lemma getPoolBalance_eq: "getPoolBalance E B s = denom_balance E B (sv_pb s) (pool B)"
  by (simp add: getPoolBalance_def denom_balance_def)

text \<open>The hook either leaves the coins alone or pays, within the pool, a positive reward.\<close>

lemma BeginBlock_cases:
  assumes "pb_inv E B binv (sv_pb s)"
  obtains (idle) s' where "sv_BeginBlock M E B now s = Inr s'" "s' = s \<or> s' = SetLastBlockTime now s"
  | (paid) n s1 where "sv_activated s" "\<not> sv_paused s" "0 < n" "n \<le> getPoolBalance E B s" "n \<le> sv_reward M now s"
      "sv_pay E B n s = Inr s1" "sv_BeginBlock M E B now s = Inr (sv_booked E B now n s1)" "sv_running now s"
proof -
  have p: "0 \<le> getPoolBalance E B s" using denom_balance_nonneg [OF assms addresses(1)] by (simp add: getPoolBalance_eq)
  define n where "n = min (sv_reward M now s) (getPoolBalance E B s)"
  show thesis
  proof (cases "sv_running now s \<and> 0 < n")
    case True
    then have "0 < n" "n \<le> getPoolBalance E B s" "n \<le> sv_reward M now s" by (simp_all add: n_def)
    moreover from this obtain s1 where "sv_pay E B n s = Inr s1" using pay_succeeds [OF assms] by (auto simp: getPoolBalance_eq)
    ultimately show thesis using True paid [of n s1]
      by (simp add: BeginBlock_eq [OF p, of M now, folded n_def] sv_running_def)
  next
    case False
    show thesis
      by (rule idle [of "if sv_running now s then SetLastBlockTime now s else s"])
        (use False in \<open>auto simp: BeginBlock_eq [OF p, of M now, folded n_def]\<close>)
  qed
qed

lemma booked_simps [simp]:
  "sv_pb (sv_booked E B now n s) = sv_pb s" "sv_pb (SetLastBlockTime now s) = sv_pb s"
  "GetTotalDistributed (sv_booked E B now n s) = GetTotalDistributed s + n"
  "GetTotalDistributed (SetLastBlockTime now s) = GetTotalDistributed s"
  by (simp_all add: sv_booked_def sv_emit_def SetLastBlockTime_def AddTotalDistributed_def SetTotalDistributed_def GetTotalDistributed_def)

lemma exec_books:
  assumes inv: "pb_inv E B binv (sv_pb s)" and ok: "sv_outsider B op" "\<forall>a now. op \<noteq> SvReactivate a now"
    and ex: "sv_exec M E B A op s = Inr s'"
  shows "pool_books E B binv s (sv_deposit E B op) s'"
proof (cases op)
  case (SvBeginBlock now)
  from inv show ?thesis
  proof (cases rule: BeginBlock_cases [where M = M and now = now])
    case (idle t)
    with ex SvBeginBlock inv show ?thesis by (auto simp: pool_books_def getPoolBalance_eq)
  next
    case (paid n s1)
    note pay = pay_spec [OF inv paid(3,6)]
    have "GetTotalDistributed s1 = GetTotalDistributed s" by (subst pay(2)) (simp add: GetTotalDistributed_def)
    with ex SvBeginBlock paid(3,7) pay(1) pay(3) [OF addresses(1)] pay(3) [OF addresses(2)] pool_fee show ?thesis
      by (auto simp: pool_books_def getPoolBalance_eq)
  qed
next
  case (SvFundPool dep cs)
  with ex ok(1) obtain a where a: "acc_FromBech32 B dep = Inr a" "a \<noteq> []" "a \<noteq> reserve B" "a \<noteq> pool B" "a \<noteq> fee_collector B"
    "sv_FundPool E B dep cs s = Inr s'"
    by (auto simp: rbind_eq_Inr sv_MsgFundPool_ValidateBasic_def split: sum.splits)
  note f = fund_spec [OF inv a(6,1,3,2)]
  have "GetTotalDistributed s' = GetTotalDistributed s" by (subst f(2)) (simp add: GetTotalDistributed_def)
  with SvFundPool f(1,3) f(4) [OF addresses(1)] f(4) [OF addresses(2)] a(4,5) pool_fee show ?thesis
    by (auto simp: pool_books_def getPoolBalance_eq)
qed (use ex ok inv in \<open>auto simp: rbind_eq_Inr pool_books_def sv_UpdateParams_def sv_Activate_def sv_Pause_def Let_def
    getPoolBalance_eq GetTotalDistributed_def sv_state_simps split: if_splits\<close>)

lemma steps_books:
  assumes "sv_steps M E B A (\<lambda>op. sv_outsider B op \<and> (\<forall>a now. op \<noteq> SvReactivate a now)) s n s'" "pb_inv E B binv (sv_pb s)"
  shows "pool_books E B binv s n s'"
  using assms(1)
proof induction
  case start
  show ?case using assms(2) by (simp add: pool_books_def)
next
  case (exec n t op u)
  then have "pool_books E B binv t (sv_deposit E B op) u" by (intro exec_books) (auto simp: pool_books_def)
  with exec.IH show ?case by (simp add: pool_books_def)
qed

end

end
