(* ===== verification/SvipProps.thy ===== *)
theory SvipProps
  imports SvipPool
begin

text \<open>
  The properties of \<open>x/svip\<close>: the shape of every reachable state, the books of the pool, and the bound
  on what one block can pay.
\<close>

section \<open>Well-formed states\<close>

definition year :: int where
  "year = 31536000"

text \<open>
  The half-life is unset or at least a year. An activated module has a half-life, a positive snapshot of the
  pool and both times; a module that was never activated is not paused and has paid nothing.
\<close>

definition sv_wf :: "EvmCoinInfo \<Rightarrow> 'b bank \<Rightarrow> ('b \<Rightarrow> bool) \<Rightarrow> 'b svState \<Rightarrow> bool" where
  "sv_wf E B binv s \<longleftrightarrow>
     pb_inv E B binv (sv_pb s) \<and>
     (HalfLifeSeconds (sv_GetParams s) = 0 \<or> year \<le> HalfLifeSeconds (sv_GetParams s)) \<and>
     HalfLifeSeconds (sv_GetParams s) < 2 ^ 63 \<and>
     0 \<le> GetTotalDistributed s \<and> 0 \<le> GetPoolBalanceAtActivation s \<and>
     (sv_activated s \<longrightarrow> 0 < HalfLifeSeconds (sv_GetParams s) \<and> 0 < GetPoolBalanceAtActivation s \<and>
        sv_activationTime s \<noteq> None \<and> sv_lastBlockTime s \<noteq> None) \<and>
     (\<not> sv_activated s \<longrightarrow> \<not> sv_paused s \<and> GetTotalDistributed s = 0)"

text \<open>The half-life in a message is an \<open>int64\<close>.\<close>

fun sv_typed :: "sv_op \<Rightarrow> bool" where
  "sv_typed (SvUpdateParams auth p) = (HalfLifeSeconds p < 2 ^ 63)"
| "sv_typed _ = True"

lemma UpdateParams_ok:
  assumes "sv_UpdateParams A auth p s = Inr s'"
  shows "s' = sv_SetParams p s" "sv_activated s \<Longrightarrow> 0 < HalfLifeSeconds p" "0 < HalfLifeSeconds p \<Longrightarrow> year \<le> HalfLifeSeconds p"
proof -
  have g: "(if a then Inl e else r) = Inr x \<longleftrightarrow> \<not> a \<and> r = Inr x" for a and e :: fault and r and x :: "'a svState" by simp
  note u = assms [unfolded sv_UpdateParams_def Let_def g]
  show "s' = sv_SetParams p s" using u by blast
  show "sv_activated s \<Longrightarrow> 0 < HalfLifeSeconds p" using u by linarith
  show "0 < HalfLifeSeconds p \<Longrightarrow> year \<le> HalfLifeSeconds p" using u unfolding year_def by linarith
qed

context svip_env
begin

lemma pool_positive: "pb_inv E B binv (sv_pb s) \<Longrightarrow> getPoolBalance E B s \<noteq> 0 \<Longrightarrow> 0 < getPoolBalance E B s"
  using denom_balance_nonneg [OF _ addresses(1)] by (fastforce simp: getPoolBalance_eq)

lemma exec_wf:
  assumes wf: "sv_wf E B binv s" and ok: "sv_outsider B op" "sv_typed op" and ex: "sv_exec M E B A op s = Inr s'"
  shows "sv_wf E B binv s'"
proof -
  have inv: "pb_inv E B binv (sv_pb s)" using wf by (simp add: sv_wf_def)
  show ?thesis
  proof (cases op)
    case (SvBeginBlock now)
    from inv show ?thesis
    proof (cases rule: BeginBlock_cases [where M = M and now = now])
      case (idle t)
      with ex SvBeginBlock wf show ?thesis by (auto simp: sv_wf_def)
    next
      case (paid n s1)
      note pay = pay_spec(1,2) [OF inv paid(3,6)]
      have "sv_wf E B binv s1" by (subst pay(2)) (use wf pay(1) in \<open>simp add: sv_wf_def\<close>)
      moreover have "sv_activated s1" by (subst pay(2)) (use paid(1) in simp)
      ultimately show ?thesis using ex SvBeginBlock paid(3,7)
        by (auto simp: sv_wf_def sv_booked_def AddTotalDistributed_def)
    qed
  next
    case (SvFundPool dep cs)
    with ex ok(1) obtain a where a: "acc_FromBech32 B dep = Inr a" "a \<noteq> []" "a \<noteq> reserve B" "sv_FundPool E B dep cs s = Inr s'"
      by (auto simp: rbind_eq_Inr sv_MsgFundPool_ValidateBasic_def split: sum.splits)
    note f = fund_spec(1,2) [OF inv a(4,1,3,2)]
    show ?thesis by (subst f(2)) (use wf f(1) in \<open>simp add: sv_wf_def\<close>)
  next
    case (SvUpdateParams auth p)
    then have u: "sv_UpdateParams A auth p s = Inr s'" "0 \<le> HalfLifeSeconds p" "HalfLifeSeconds p < 2 ^ 63"
      using ex ok(2) by (auto simp: rbind_eq_Inr sv_MsgUpdateParams_ValidateBasic_def sv_Params_Validate_def split: if_splits)
    then have "HalfLifeSeconds p = 0 \<or> year \<le> HalfLifeSeconds p" using UpdateParams_ok(3) [OF u(1)] by linarith
    with u(3) wf UpdateParams_ok(1,2) [OF u(1)] show ?thesis by (simp add: sv_wf_def)
  next
    case (SvActivate auth now)
    with ex wf pool_positive [OF inv] show ?thesis
      by (auto simp: rbind_eq_Inr sv_Activate_def Let_def sv_wf_def split: if_splits)
  next
    case (SvReactivate auth now)
    with ex wf pool_positive [OF inv] show ?thesis
      by (auto simp: rbind_eq_Inr sv_Reactivate_def Let_def sv_wf_def split: if_splits)
  next
    case (SvPause auth b now)
    with ex wf show ?thesis
      by (auto simp: rbind_eq_Inr sv_Pause_def Let_def sv_wf_def split: if_splits)
  qed
qed

lemma pool_nonneg: "sv_wf E B binv s \<Longrightarrow> 0 \<le> getPoolBalance E B s"
  using denom_balance_nonneg [OF _ addresses(1)] by (simp add: sv_wf_def getPoolBalance_eq)

text \<open>What one block pays.\<close>

lemma block_bound:
  assumes M: "math_laws M" and wf: "sv_wf E B binv s" and b: "sv_BeginBlock M E B now s = Inr s'"
  defines "paid \<equiv> GetTotalDistributed s' - GetTotalDistributed s"
  shows "0 \<le> paid \<and> paid \<le> getPoolBalance E B s \<and>
    of_int (paid * HalfLifeSeconds (sv_GetParams s)) \<le> of_int (GetPoolBalanceAtActivation s) * max 0 (sv_delta now s)"
proof -
  have inv: "pb_inv E B binv (sv_pb s)" using wf by (simp add: sv_wf_def)
  from inv show ?thesis
  proof (cases rule: BeginBlock_cases [where M = M and now = now])
    case (idle t)
    then have "paid = 0" using b by (auto simp: paid_def)
    moreover have "0 \<le> of_int (GetPoolBalanceAtActivation s) * max 0 (sv_delta now s)"
      using wf by (simp add: sv_wf_def)
    ultimately show ?thesis using pool_nonneg [OF wf] by simp
  next
    case (paid n s1)
    have "GetTotalDistributed s1 = GetTotalDistributed s" by (subst pay_spec(2) [OF inv paid(3,6)]) simp
    then have n: "paid = n" using b paid(7) by (auto simp: paid_def)
    have h: "0 < HalfLifeSeconds (sv_GetParams s)" "HalfLifeSeconds (sv_GetParams s) < 2 ^ 63" "0 \<le> GetPoolBalanceAtActivation s"
      using wf paid(1) by (auto simp: sv_wf_def)
    have d: "1 / 2 ^ 40 \<le> sv_delta now s" "0 \<le> sv_elapsed now s"
      using paid(8) dur_Seconds_pos by (auto simp: sv_running_def sv_delta_def)
    have "of_int n * of_int (HalfLifeSeconds (sv_GetParams s)) \<le>
      (of_int (sv_reward M now s) * of_int (HalfLifeSeconds (sv_GetParams s)) :: rat)"
      using paid(5) h(1) by (intro mult_right_mono) simp_all
    also have "\<dots> \<le> of_int (GetPoolBalanceAtActivation s) * sv_delta now s"
      unfolding sv_reward_def by (rule math_laws.reward_bound [OF M h d(2,1)])
    also have "\<dots> \<le> of_int (GetPoolBalanceAtActivation s) * max 0 (sv_delta now s)"
      using h(3) by (intro mult_left_mono) simp_all
    finally show ?thesis using paid(3,4) by (simp add: n)
  qed
qed

lemma steps_wf:
  assumes "sv_steps M E B A (\<lambda>op. sv_outsider B op \<and> sv_typed op) s n s'" "sv_wf E B binv s"
  shows "sv_wf E B binv s'"
  using assms by induction (auto intro: exec_wf)

end

section \<open>An instance\<close>

text \<open>
  \<open>math.Log(2)\<close> is the double nearest to \<open>ln 2\<close>; a rational function stands for the exponential.
\<close>

definition exp_poly :: "rat \<Rightarrow> rat" where
  "exp_poly y = 1 + y + y ^ 2 / 2 + y ^ 3 / 6 + y ^ 4 / 24"

definition ex_math :: go_math where
  "ex_math = \<lparr>math_Log = (\<lambda>_. 6243314768165359 / 2 ^ 53),
     math_Exp = (\<lambda>x. if x \<le> 0 then round64 (1 / exp_poly (- x)) else round64 (exp_poly x))\<rparr>"

lemma exp_poly_ge: "0 \<le> y \<Longrightarrow> 1 \<le> exp_poly y"
  by (simp add: exp_poly_def)

interpretation emath: math_laws ex_math
proof
  fix x :: rat
  show "0 \<le> math_Exp ex_math x"
    using exp_poly_ge [of x] exp_poly_ge [of "- x"] by (auto simp: ex_math_def intro!: round64_nonneg)
  assume "x \<le> 0"
  then have "round64 (1 / exp_poly (- x)) \<le> round64 1" using exp_poly_ge [of "- x"] by (intro round64_mono) simp_all
  then show "math_Exp ex_math x \<le> 1" using \<open>x \<le> 0\<close> round64_int [of 1] by (simp add: ex_math_def)
qed (simp_all add: ex_math_def)

lemma l_empty: "l_valid cs \<Longrightarrow> \<forall>x. l_amount cs x = 0 \<Longrightarrow> cs = []"
  using l_amount_in [of cs] by (cases cs) (auto simp: l_valid_Cons)

interpretation lsv: svip_env ex_coin_info ledger_bank ledger_inv
  by unfold_locales (auto simp: ledger_bank_def l_module_def sv_ModuleName_def FeeCollectorName_def pb_ModuleName_def
      l_account_def ledger_inv_def l_spendable_def l_amount_absent l_valid_def intro: l_empty)

section \<open>Properties\<close>

definition sv_fresh :: "'b pbState \<Rightarrow> 'b svState" where
  "sv_fresh q =
     \<lparr>sv_params = None, sv_totalDistributed = None, sv_activationTime = None, sv_lastBlockTime = None,
      sv_poolAtActivation = None, sv_totalPaused = None, sv_activated = False, sv_paused = False, sv_pb = q, sv_events = []\<rparr>"

lemma genesis_wf: "pb_inv E B binv q \<Longrightarrow> sv_wf E B binv (sv_InitGenesis sv_DefaultGenesisState (sv_fresh q))"
  by (simp add: sv_wf_def sv_InitGenesis_def sv_DefaultGenesisState_def sv_DefaultParams_def sv_fresh_def) (simp add: sv_get_simps)

text \<open>An account deposits two coins, the authority sets a half-life of a year and activates the module.\<close>

definition ex_sv :: "ledger svState" where
  "ex_sv = sv_InitGenesis sv_DefaultGenesisState (sv_fresh ex_pb)"

lemma ex_from: "acc_FromBech32 ledger_bank ''ad'' = Inr [3]"
  by code_simp

lemma ex_sv_simps [simp]:
  "sv_pb ex_sv = ex_pb" "\<not> sv_activated ex_sv" "GetTotalDistributed ex_sv = 0"
  by (simp_all add: ex_sv_def sv_InitGenesis_def sv_DefaultGenesisState_def sv_fresh_def) (simp add: sv_get_simps)

lemma ex_pool: "getPoolBalance ex_coin_info ledger_bank ex_sv = 0"
  by (simp add: getPoolBalance_def sv_ModuleName_def) (simp add: pb_eval)

lemma ex_fund: "\<exists>s. sv_exec M ex_coin_info ledger_bank A (SvFundPool ''ad'' [(''uatom'', 2)]) ex_sv = Inr s \<and>
  getPoolBalance ex_coin_info ledger_bank s = 2 \<and> \<not> sv_activated s"
proof -
  have "\<exists>s. sv_FundPool ex_coin_info ledger_bank ''ad'' [(''uatom'', 2)] ex_sv = Inr s"
    by (simp add: sv_FundPool_def ex_from pb_SendCoinsFromAccountToModule_def sv_ModuleName_def) (simp add: pb_eval)
  then obtain s where s: "sv_FundPool ex_coin_info ledger_bank ''ad'' [(''uatom'', 2)] ex_sv = Inr s" ..
  have r: "[3] \<noteq> reserve ledger_bank" "pool ledger_bank \<noteq> [3]" "[3] \<noteq> ([] :: AccAddress)"
    by (simp_all add: ledger_bank_def l_module_def pb_ModuleName_def sv_ModuleName_def)
  have "pb_inv ex_coin_info ledger_bank ledger_inv (sv_pb ex_sv)" by (simp add: ex_pb_inv)
  note f = lsv.fund_spec [OF this s ex_from r(1,3)]
  have "\<not> sv_activated s" by (subst f(2)) simp
  moreover have "getPoolBalance ex_coin_info ledger_bank s = 2"
    using f(4) [OF lsv.addresses(1)] ex_pool r(2) by (simp add: lsv.getPoolBalance_eq) (simp add: ledger_bank_def)
  ultimately show ?thesis using s
    by (simp add: sv_MsgFundPool_ValidateBasic_def ex_from) (simp add: ledger_bank_def l_valid_def)
qed

abbreviation ex_ops :: "sv_op \<Rightarrow> bool" where
  "ex_ops op \<equiv> sv_outsider ledger_bank op \<and> sv_typed op \<and> (\<forall>a now. op \<noteq> SvReactivate a now)"

lemma ex_sv_run:
  "\<exists>s. sv_steps M ex_coin_info ledger_bank ''ad'' ex_ops ex_sv 2 s \<and> sv_activated s"
proof -
  let ?x = "sv_exec M ex_coin_info ledger_bank ''ad''"
  let ?p = "SvUpdateParams ''ad'' \<lparr>HalfLifeSeconds = year\<rparr>"
  obtain s where s: "?x (SvFundPool ''ad'' [(''uatom'', 2)]) ex_sv = Inr s" "getPoolBalance ex_coin_info ledger_bank s = 2"
    "\<not> sv_activated s"
    using ex_fund by blast
  obtain t where t: "?x ?p s = Inr t" "getPoolBalance ex_coin_info ledger_bank t = 2"
    "\<not> sv_activated t" "HalfLifeSeconds (sv_GetParams t) = year"
    using s(2,3) by (simp add: sv_MsgUpdateParams_ValidateBasic_def sv_authority_ValidateBasic_def ex_from sv_Params_Validate_def
        sv_UpdateParams_def year_def getPoolBalance_def Let_def)
  obtain u where u: "?x (SvActivate ''ad'' (10 ^ 9)) t = Inr u" "sv_activated u"
    using t(2-4) by (simp add: sv_authority_ValidateBasic_def ex_from sv_Activate_def Let_def year_def)
  have o: "ex_ops (SvFundPool ''ad'' [(''uatom'', 2)])" "ex_ops ?p" "ex_ops (SvActivate ''ad'' (10 ^ 9))"
    by (simp_all add: ex_from year_def) (simp add: ledger_bank_def l_module_def pb_ModuleName_def sv_ModuleName_def FeeCollectorName_def)
  note step = sv_steps.exec [where ok = ex_ops]
  have "sv_deposit ex_coin_info ledger_bank (SvFundPool ''ad'' [(''uatom'', 2)]) = 2" by (simp add: ledger_bank_def)
  then show ?thesis
    using step [OF step [OF step [OF sv_steps.start o(1) s(1)] o(2) t(1)] o(3) u(1)] u(2) by auto
qed

lemma steps_mono: "sv_steps M E B A ok s n s' \<Longrightarrow> (\<And>op. ok op \<longrightarrow> ok' op) \<Longrightarrow> sv_steps M E B A ok' s n s'"
  by (induction rule: sv_steps.induct) (auto intro: sv_steps.intros)

text \<open>
  C25. From the default genesis, every sequence of blocks and messages leads to a well-formed state: the half-life is unset or
  at least a year, an activated module has a half-life, a positive snapshot of the pool and
  both times, a module that was never activated is not paused and has paid nothing, and the books of the bank balance. In every
  such state the next \<open>BeginBlock\<close> succeeds, so that it cannot halt the chain.
\<close>

theorem svip_well_formed:
  assumes "svip_env E B binv" "pb_inv E B binv q"
    "sv_steps M E B A (\<lambda>op. sv_outsider B op \<and> sv_typed op) (sv_InitGenesis sv_DefaultGenesisState (sv_fresh q)) n s"
  shows "sv_wf E B binv s \<and> (\<exists>s'. sv_BeginBlock M E B now s = Inr s')"
proof -
  have wf: "sv_wf E B binv s" by (rule svip_env.steps_wf [OF assms(1,3) genesis_wf [OF assms(2)]])
  then have "pb_inv E B binv (sv_pb s)" by (simp add: sv_wf_def)
  with wf show ?thesis using svip_env.BeginBlock_cases [OF assms(1)] by metis
qed

theorem svip_well_formed_witness:
  "\<exists>s s'. sv_activated s \<and> sv_wf ex_coin_info ledger_bank ledger_inv s \<and>
     sv_BeginBlock ex_math ex_coin_info ledger_bank (2 * 10 ^ 9) s = Inr s'"
proof -
  obtain s where s: "sv_steps ex_math ex_coin_info ledger_bank ''ad'' ex_ops ex_sv 2 s" "sv_activated s"
    using ex_sv_run by blast
  have "sv_steps ex_math ex_coin_info ledger_bank ''ad'' (\<lambda>op. sv_outsider ledger_bank op \<and> sv_typed op) ex_sv 2 s"
    using s(1) by (rule steps_mono) simp
  from svip_well_formed [OF lsv.svip_env_axioms ex_pb_inv this [unfolded ex_sv_def]] s(2) show ?thesis by blast
qed

text \<open>
  C23. The books of the pool: along every sequence of blocks and messages without a reactivation, what the pool holds
  and what has been distributed add up to what they were, plus the deposits; the fee collector
  has received exactly what was distributed; the counter never falls and the pool is never overdrawn.
\<close>

theorem svip_conservation:
  assumes "svip_env E B binv" "pb_inv E B binv (sv_pb s)"
    "sv_steps M E B A (\<lambda>op. sv_outsider B op \<and> (\<forall>a now. op \<noteq> SvReactivate a now)) s n s'"
  shows "getPoolBalance E B s' + GetTotalDistributed s' = getPoolBalance E B s + GetTotalDistributed s + n \<and>
    denom_balance E B (sv_pb s') (fee_collector B) - denom_balance E B (sv_pb s) (fee_collector B) =
      GetTotalDistributed s' - GetTotalDistributed s \<and>
    GetTotalDistributed s \<le> GetTotalDistributed s' \<and> 0 \<le> getPoolBalance E B s'"
proof -
  have b: "pool_books E B binv s n s'" by (rule svip_env.steps_books [OF assms(1,3,2)])
  then have "0 \<le> getPoolBalance E B s'"
    using bank_contract.denom_balance_nonneg [OF svip_env.axioms(1) [OF assms(1)]] svip_env.addresses(1) [OF assms(1)]
    by (metis pool_books_def svip_env.getPoolBalance_eq [OF assms(1)])
  with b show ?thesis by (simp add: pool_books_def)
qed

theorem svip_conservation_witness:
  "\<exists>s. sv_steps ex_math ex_coin_info ledger_bank ''ad'' ex_ops ex_sv 2 s \<and>
     getPoolBalance ex_coin_info ledger_bank s + GetTotalDistributed s = 2"
proof -
  obtain s where s: "sv_steps ex_math ex_coin_info ledger_bank ''ad'' ex_ops ex_sv 2 s" using ex_sv_run by blast
  have "sv_steps ex_math ex_coin_info ledger_bank ''ad''
      (\<lambda>op. sv_outsider ledger_bank op \<and> (\<forall>a now. op \<noteq> SvReactivate a now)) ex_sv 2 s"
    using s by (rule steps_mono) simp
  from svip_conservation [OF lsv.svip_env_axioms _ this] s show ?thesis using ex_pb_inv ex_pool by auto
qed

text \<open>
  C24. What one block pays, in spite of the rounding of every floating-point step: at most the share
  \<open>blockDelta / half-life\<close> of the pool at activation, and never more than the pool holds.
\<close>

theorem svip_block_bound:
  assumes "math_laws M" "svip_env E B binv" "sv_wf E B binv s" "sv_BeginBlock M E B now s = Inr s'"
    "paid = GetTotalDistributed s' - GetTotalDistributed s"
  shows "0 \<le> paid \<and> paid \<le> getPoolBalance E B s \<and>
    of_int (paid * HalfLifeSeconds (sv_GetParams s)) \<le>
      of_int (GetPoolBalanceAtActivation s) * max 0 (dur_Seconds (time_Sub now (GetLastBlockTime s)))"
  using svip_env.block_bound [OF assms(2,1,3,4)] by (simp add: assms(5) sv_delta_def)

theorem svip_block_bound_witness:
  "\<exists>s s' :: ledger svState. sv_activated s \<and> sv_BeginBlock ex_math ex_coin_info ledger_bank (10 ^ 18) s = Inr s' \<and>
     GetTotalDistributed s' - GetTotalDistributed s \<le> getPoolBalance ex_coin_info ledger_bank s"
proof -
  obtain s where s: "sv_steps ex_math ex_coin_info ledger_bank ''ad'' ex_ops ex_sv 2 s" "sv_activated s"
    using ex_sv_run by blast
  have "sv_steps ex_math ex_coin_info ledger_bank ''ad'' (\<lambda>op. sv_outsider ledger_bank op \<and> sv_typed op) ex_sv 2 s"
    using s(1) by (rule steps_mono) simp
  from lsv.steps_wf [OF this] have wf: "sv_wf ex_coin_info ledger_bank ledger_inv s"
    using genesis_wf [OF ex_pb_inv] by (simp add: ex_sv_def)
  then obtain s' where s': "sv_BeginBlock ex_math ex_coin_info ledger_bank (10 ^ 18) s = Inr s'"
    using lsv.BeginBlock_cases [of s] by (metis sv_wf_def)
  from svip_block_bound [OF emath.math_laws_axioms lsv.svip_env_axioms wf s' refl] s(2) s' show ?thesis by blast
qed

end
