(* ===== verification/VmParams.thy ===== *)
theory VmParams
  imports VmKeeper
begin

text \<open>
  The parameters of \<open>x/vm\<close> (\<open>x/vm/types/params.go\<close>, \<open>x/vm/keeper/params.go\<close>), the permission policy for
  contract creation and calls (\<open>x/vm/types/permissions.go\<close>) and the coin information that the module derives from
  the bank (\<open>x/vm/keeper/coin_info.go\<close>). The validators of go-ethereum and ibc-go, the
  hexadecimal form of an address and the protobuf encoding are the record \<open>vp_env\<close>.
\<close>

section \<open>Parameters\<close>

text \<open>The enumeration is an \<open>int32\<close>, so other values can occur.\<close>

datatype AccessType = AccessTypePermissionless | AccessTypeRestricted | AccessTypePermissioned | AccessTypeOther int

record AccessControlType =
  AccessType_of :: AccessType
  AccessControlList :: "string list"

record AccessControl =
  ac_Create :: AccessControlType
  ac_Call :: AccessControlType

record vm_Params =
  vp_EvmDenom :: denom
  vp_ExtraEIPs :: "int list"
  vp_EVMChannels :: "string list"
  vp_AccessControl :: AccessControl
  vp_ActiveStaticPrecompiles :: "string list"
  vp_HistoryServeWindow :: u64
  vp_ExtendedDenom :: "denom option"

text \<open>\<open>vp_codec\<close> is marshalling followed by unmarshalling.\<close>

record vp_env =
  ValidEip :: "int \<Rightarrow> bool"
  IsHexAddress :: "string \<Rightarrow> bool"
  ChannelIdentifierValidator :: "string \<Rightarrow> bool"
  addr_Hex :: "address \<Rightarrow> string"
  DefaultBondDenom :: denom
  vp_codec :: "vm_Params \<Rightarrow> vm_Params res"

definition DefaultHistoryServeWindow :: u64 where
  "DefaultHistoryServeWindow = 8192"

definition DefaultAccessControl :: AccessControl where
  "DefaultAccessControl =
     \<lparr>ac_Create = \<lparr>AccessType_of = AccessTypePermissionless, AccessControlList = []\<rparr>,
      ac_Call = \<lparr>AccessType_of = AccessTypePermissionless, AccessControlList = []\<rparr>\<rparr>"

definition vm_NewParams :: "int list \<Rightarrow> string list \<Rightarrow> string list \<Rightarrow> AccessControl \<Rightarrow> vm_Params" where
  "vm_NewParams extraEIPs activeStaticPrecompiles evmChannels accessControl =
     \<lparr>vp_EvmDenom = [], vp_ExtraEIPs = extraEIPs, vp_EVMChannels = evmChannels, vp_AccessControl = accessControl,
      vp_ActiveStaticPrecompiles = activeStaticPrecompiles, vp_HistoryServeWindow = 0, vp_ExtendedDenom = None\<rparr>"

definition vm_DefaultParams :: "vp_env \<Rightarrow> vm_Params" where
  "vm_DefaultParams V =
     \<lparr>vp_EvmDenom = DefaultBondDenom V, vp_ExtraEIPs = [], vp_EVMChannels = [], vp_AccessControl = DefaultAccessControl,
      vp_ActiveStaticPrecompiles = [], vp_HistoryServeWindow = DefaultHistoryServeWindow,
      vp_ExtendedDenom = Some (DefaultBondDenom V)\<rparr>"

fun validateChannels :: "vp_env \<Rightarrow> string list \<Rightarrow> unit res" where
  "validateChannels V [] = Inr ()"
| "validateChannels V (c # cs) =
     (if ChannelIdentifierValidator V c then validateChannels V cs else Inl (Err ''invalid channel identifier''))"

definition utils_ValidateAddress :: "vp_env \<Rightarrow> string \<Rightarrow> unit res" where
  "utils_ValidateAddress V a = (if IsHexAddress V a then Inr () else Inl (Err ''not a valid ethereum hex address''))"

definition validateAccessType :: "AccessType \<Rightarrow> unit res" where
  "validateAccessType t = (case t of AccessTypeOther _ \<Rightarrow> Inl (Err ''invalid access type'') | _ \<Rightarrow> Inr ())"

fun validateAllowlistAddresses :: "vp_env \<Rightarrow> string list \<Rightarrow> unit res" where
  "validateAllowlistAddresses V [] = Inr ()"
| "validateAllowlistAddresses V (a # as) =
     (case utils_ValidateAddress V a of
        Inl _ \<Rightarrow> Inl (Err ''invalid whitelist address'') | Inr _ \<Rightarrow> validateAllowlistAddresses V as)"

definition AccessControlType_Validate :: "vp_env \<Rightarrow> AccessControlType \<Rightarrow> unit res" where
  "AccessControlType_Validate V act =
     rbind (validateAccessType (AccessType_of act)) (\<lambda>_. validateAllowlistAddresses V (AccessControlList act))"

definition AccessControl_Validate :: "vp_env \<Rightarrow> AccessControl \<Rightarrow> unit res" where
  "AccessControl_Validate V ac =
     rbind (AccessControlType_Validate V (ac_Create ac)) (\<lambda>_. AccessControlType_Validate V (ac_Call ac))"

text \<open>The loops with their set of values seen so far.\<close>

fun eips_loop :: "vp_env \<Rightarrow> int set \<Rightarrow> int list \<Rightarrow> unit res" where
  "eips_loop V seen [] = Inr ()"
| "eips_loop V seen (eip # eips) =
     (if \<not> ValidEip V eip then Inl (Err ''EIP is not activateable'')
      else if eip \<in> seen then Inl (Err ''found duplicate EIP'')
      else eips_loop V (insert eip seen) eips)"

definition validateEIPs :: "vp_env \<Rightarrow> int list \<Rightarrow> unit res" where
  "validateEIPs V eips = eips_loop V {} eips"

fun precompiles_loop :: "vp_env \<Rightarrow> string set \<Rightarrow> string list \<Rightarrow> unit res" where
  "precompiles_loop V seen [] = Inr ()"
| "precompiles_loop V seen (p # ps) =
     (if p \<in> seen then Inl (Err ''duplicate precompile'')
      else case utils_ValidateAddress V p of
        Inl _ \<Rightarrow> Inl (Err ''invalid precompile'')
      | Inr _ \<Rightarrow> precompiles_loop V (insert p seen) ps)"

definition ValidatePrecompiles :: "vp_env \<Rightarrow> string list \<Rightarrow> unit res" where
  "ValidatePrecompiles V precompiles =
     rbind (precompiles_loop V {} precompiles) (\<lambda>_.
     if sorted precompiles then Inr () else Inl (Err ''precompiles need to be sorted''))"

definition vm_Params_Validate :: "vp_env \<Rightarrow> vm_Params \<Rightarrow> unit res" where
  "vm_Params_Validate V p =
     rbind (validateEIPs V (vp_ExtraEIPs p)) (\<lambda>_.
     rbind (ValidatePrecompiles V (vp_ActiveStaticPrecompiles p)) (\<lambda>_.
     rbind (AccessControl_Validate V (vp_AccessControl p)) (\<lambda>_.
     validateChannels V (vp_EVMChannels p))))"

definition IsEVMChannel :: "vm_Params \<Rightarrow> string \<Rightarrow> bool" where
  "IsEVMChannel p channel = (channel \<in> set (vp_EVMChannels p))"

section \<open>The permission policy\<close>

definition permissionlessCheckFn :: "vp_env \<Rightarrow> string list \<Rightarrow> address \<Rightarrow> address \<Rightarrow> bool" where
  "permissionlessCheckFn V addrs signer =
     (let isSignerBlocked = addr_Hex V signer \<notin> set addrs in
      (\<lambda>caller. isSignerBlocked \<and> addr_Hex V caller \<notin> set addrs))"

definition permissionedCheckFn :: "vp_env \<Rightarrow> string list \<Rightarrow> address \<Rightarrow> address \<Rightarrow> bool" where
  "permissionedCheckFn V addrs signer =
     (let isSignerAllowed = addr_Hex V signer \<in> set addrs in
      (\<lambda>caller. isSignerAllowed \<or> addr_Hex V caller \<in> set addrs))"

definition getCanFn :: "vp_env \<Rightarrow> AccessControlType \<Rightarrow> address \<Rightarrow> address \<Rightarrow> bool" where
  "getCanFn V act signer =
     (case AccessType_of act of
        AccessTypePermissionless \<Rightarrow> permissionlessCheckFn V (AccessControlList act) signer
      | AccessTypeRestricted \<Rightarrow> (\<lambda>_. False)
      | AccessTypePermissioned \<Rightarrow> permissionedCheckFn V (AccessControlList act) signer
      | AccessTypeOther _ \<Rightarrow> (\<lambda>_. False))"

definition getCanCreateFn :: "vp_env \<Rightarrow> AccessControl \<Rightarrow> address \<Rightarrow> address \<Rightarrow> bool" where
  "getCanCreateFn V ac signer = getCanFn V (ac_Create ac) signer"

definition getCanCallFn :: "vp_env \<Rightarrow> AccessControl \<Rightarrow> address \<Rightarrow> address \<Rightarrow> bool" where
  "getCanCallFn V ac signer = getCanFn V (ac_Call ac) signer"

text \<open>The hooks that the interpreter runs before it creates a contract or makes a call.\<close>

definition GetCreateHook :: "vp_env \<Rightarrow> AccessControl \<Rightarrow> address \<Rightarrow> address \<Rightarrow> unit res" where
  "GetCreateHook V ac signer caller =
     (if getCanCreateFn V ac signer caller then Inr ()
      else Inl (Err ''caller address does not have permission to deploy contracts''))"

definition GetCallHook :: "vp_env \<Rightarrow> AccessControl \<Rightarrow> address \<Rightarrow> address \<Rightarrow> address \<Rightarrow> unit res" where
  "GetCallHook V ac signer caller recipient =
     (if getCanCallFn V ac signer caller then Inr ()
      else Inl (Err ''caller address does not have permission to perform a call''))"

section \<open>The keeper\<close>

text \<open>The keys \<open>KeyPrefixParams\<close> and \<open>KeyPrefixEvmCoinInfo\<close> of the store of \<open>x/vm\<close>.\<close>

record vmConfig =
  vc_params :: "vm_Params option"
  vc_coinInfo :: "EvmCoinInfo option"

definition vm_zeroParams :: vm_Params where
  "vm_zeroParams = vm_NewParams [] [] [] DefaultAccessControl"

definition vm_GetParams :: "vmConfig \<Rightarrow> vm_Params" where
  "vm_GetParams s = (case vc_params s of None \<Rightarrow> vm_zeroParams | Some p \<Rightarrow> p)"

definition vm_SetParams :: "vp_env \<Rightarrow> vm_Params \<Rightarrow> vmConfig \<Rightarrow> vmConfig res" where
  "vm_SetParams V params s =
     (let params1 = params\<lparr>vp_ActiveStaticPrecompiles := sort (vp_ActiveStaticPrecompiles params)\<rparr> in
      rbind (vm_Params_Validate V params1) (\<lambda>_.
      rbind (vp_codec V params1) (\<lambda>params2. Inr (s\<lparr>vc_params := Some params2\<rparr>))))"

fun appendPrecompiles_hex :: "vp_env \<Rightarrow> string list \<Rightarrow> address list \<Rightarrow> string list res" where
  "appendPrecompiles_hex V existing [] = Inr []"
| "appendPrecompiles_hex V existing (a # as) =
     (if addr_Hex V a \<in> set existing then Inl (Err ''precompile already registered'')
      else rbind (appendPrecompiles_hex V existing as) (\<lambda>hs. Inr (addr_Hex V a # hs)))"

definition appendPrecompiles :: "vp_env \<Rightarrow> string list \<Rightarrow> address list \<Rightarrow> string list res" where
  "appendPrecompiles V existing addrs =
     rbind (appendPrecompiles_hex V existing addrs) (\<lambda>hs. Inr (sort (existing @ hs)))"

definition EnableStaticPrecompiles :: "vp_env \<Rightarrow> address list \<Rightarrow> vmConfig \<Rightarrow> vmConfig res" where
  "EnableStaticPrecompiles V addrs s =
     (let params = vm_GetParams s in
      rbind (appendPrecompiles V (vp_ActiveStaticPrecompiles params) addrs) (\<lambda>updated.
      vm_SetParams V (params\<lparr>vp_ActiveStaticPrecompiles := updated\<rparr>) s))"

definition EnableEIPs :: "vp_env \<Rightarrow> int list \<Rightarrow> vmConfig \<Rightarrow> vmConfig res" where
  "EnableEIPs V eips s =
     (let params = vm_GetParams s in
      vm_SetParams V (params\<lparr>vp_ExtraEIPs := sort (vp_ExtraEIPs params @ eips)\<rparr>) s)"

definition vm_UpdateParams :: "vp_env \<Rightarrow> string \<Rightarrow> string \<Rightarrow> vm_Params \<Rightarrow> vmConfig \<Rightarrow> vmConfig res" where
  "vm_UpdateParams V authority Authority params s =
     (if authority \<noteq> Authority then Inl (Err ''invalid authority'') else vm_SetParams V params s)"

section \<open>The coin information\<close>

record DenomUnit =
  du_Denom :: denom
  du_Exponent :: u32

record Metadata =
  md_Display :: denom
  md_DenomUnits :: "DenomUnit list"

text \<open>The last unit with the display denomination counts.\<close>

definition display_decimals :: "Metadata \<Rightarrow> u32" where
  "display_decimals md =
     fold (\<lambda>du d. if du_Denom du = md_Display md then du_Exponent du else d) (md_DenomUnits md) 0"

definition LoadEvmCoinInfo :: "(denom \<Rightarrow> Metadata option) \<Rightarrow> vmConfig \<Rightarrow> EvmCoinInfo res" where
  "LoadEvmCoinInfo GetDenomMetaData s =
     (let params = vm_GetParams s in
      case GetDenomMetaData (vp_EvmDenom params) of
        None \<Rightarrow> Inl (Err ''denom metadata could not be found'')
      | Some md \<Rightarrow>
          let decimals = display_decimals md in
          rbind (if decimals = 18 then Inr (vp_EvmDenom params)
                 else case vp_ExtendedDenom params of
                   None \<Rightarrow> Inl (Err ''extended denom options cannot be nil for non-18-decimal chains'')
                 | Some d \<Rightarrow> Inr d) (\<lambda>extendedDenom.
          Inr \<lparr>Denom = vp_EvmDenom params, ExtendedDenom = extendedDenom, DisplayDenom = md_Display md, eci_Decimals = decimals\<rparr>))"

definition GetEvmCoinInfo :: "EvmCoinInfo \<Rightarrow> vmConfig \<Rightarrow> EvmCoinInfo" where
  "GetEvmCoinInfo dflt s = (case vc_coinInfo s of None \<Rightarrow> dflt | Some c \<Rightarrow> c)"

text \<open>The encoding of the coin information is exact.\<close>

definition SetEvmCoinInfo :: "EvmCoinInfo \<Rightarrow> vmConfig \<Rightarrow> vmConfig" where
  "SetEvmCoinInfo c s = s\<lparr>vc_coinInfo := Some c\<rparr>"

definition InitEvmCoinInfo :: "(denom \<Rightarrow> Metadata option) \<Rightarrow> vmConfig \<Rightarrow> vmConfig res" where
  "InitEvmCoinInfo GetDenomMetaData s = rbind (LoadEvmCoinInfo GetDenomMetaData s) (\<lambda>c. Inr (SetEvmCoinInfo c s))"

end
