(* ===== verification/TxMessage.thy ===== *)
theory TxMessage
  imports VmParams FeeMarket Svip
begin

text \<open>
  Ethereum transactions and their gas: the message (\<open>x/vm/types/msg.go\<close>, \<open>tx.go\<close>), prices and the binary search of the gas
  estimation (\<open>x/vm/types/utils.go\<close>), the gas meter of a transaction (\<open>x/vm/types/gasmeter.go\<close>), the fees that
  the keeper checks, deducts and refunds (\<open>x/vm/keeper/fees.go\<close>, \<open>gas.go\<close>) and the gas used so
  far by the messages of a transaction (\<open>x/vm/keeper/keeper.go\<close>). A transaction is what the
  accessors of go-ethereum's type return; a nil \<open>big.Int\<close> is \<open>None\<close>.
\<close>

section \<open>The types of go-ethereum\<close>

record SetCodeAuthorization =
  auth_ChainID :: u256
  auth_Address :: address
  auth_Nonce :: u64
  auth_Signature :: bytes

type_synonym AccessTuples = "(address \<times> hash list) list"

record ethTx =
  tx_Type :: u8
  tx_Nonce :: u64
  tx_Gas :: u64
  tx_GasPrice :: int
  tx_GasTipCap :: int
  tx_GasFeeCap :: int
  tx_To :: "address option"
  tx_Value :: int
  tx_Data :: bytes
  tx_AccessList :: AccessTuples
  tx_SetCodeAuthorizations :: "SetCodeAuthorization list"
  tx_Signature :: bytes

record Message =
  m_From :: address
  m_To :: "address option"
  m_Nonce :: u64
  m_Value :: int
  m_GasLimit :: u64
  m_GasPrice :: int
  m_GasFeeCap :: int
  m_GasTipCap :: int
  m_Data :: bytes
  m_AccessList :: AccessTuples
  m_SetCodeAuthorizations :: "SetCodeAuthorization list"

record eth_rules = Rules +
  IsHomestead :: bool
  IsIstanbul :: bool
  IsLondon :: bool
  IsPrague :: bool

definition SetCodeTxType :: u8 where
  "SetCodeTxType = 4"

definition DynamicFeeTxType :: u8 where
  "DynamicFeeTxType = 2"

text \<open>
  The functions of go-ethereum that the code calls. A signer is made from the block number and the time.
  \<open>eth_EffectiveGasTip\<close> is the value without the error, which the code drops.
\<close>

record eth_env =
  eth_Rules :: "int \<Rightarrow> int \<Rightarrow> eth_rules"
  eth_IsLondon :: "int \<Rightarrow> bool"
  eth_ChainID :: int
  eth_IntrinsicGas :: "bytes \<Rightarrow> AccessTuples \<Rightarrow> SetCodeAuthorization list \<Rightarrow> bool \<Rightarrow> bool \<Rightarrow> bool \<Rightarrow> bool \<Rightarrow> u64 res"
  eth_FloorDataGas :: "bytes \<Rightarrow> u64 res"
  eth_EffectiveGasTip :: "ethTx \<Rightarrow> int option \<Rightarrow> int"
  eth_Cost :: "ethTx \<Rightarrow> int"
  eth_Hash :: "ethTx \<Rightarrow> hash"
  eth_Sender :: "int \<Rightarrow> int \<Rightarrow> ethTx \<Rightarrow> address res"
  eth_TransactionToMessage :: "int \<Rightarrow> int \<Rightarrow> ethTx \<Rightarrow> int option \<Rightarrow> Message res"
  eth_ValidateTransaction :: "int \<Rightarrow> int \<Rightarrow> u64 \<Rightarrow> int option \<Rightarrow> ethTx \<Rightarrow> unit res"
  eth_Authority :: "SetCodeAuthorization \<Rightarrow> address res"
  eth_AddressToDelegation :: "address \<Rightarrow> bytes"
  eth_CreateAddress :: "address \<Rightarrow> u64 \<Rightarrow> address"
  RefundQuotient :: u64
  RefundQuotientEIP3529 :: u64
  CallNewAccountGas :: u64
  TxAuthTupleGas :: u64

text \<open>A wrapped error; a panic passes through.\<close>

definition wrap_err :: "fault \<Rightarrow> 'a res \<Rightarrow> 'a res" where
  "wrap_err e r = (case r of Inl (Panic p) \<Rightarrow> Inl (Panic p) | Inl _ \<Rightarrow> Inl e | Inr x \<Rightarrow> Inr x)"

lemma wrap_err_Inr [simp]: "wrap_err e r = Inr x \<longleftrightarrow> r = Inr x" "wrap_err e (Inr x) = Inr x"
  by (auto simp: wrap_err_def split: sum.splits fault.splits)

section \<open>The message\<close>

definition BytesToAddress :: "bytes \<Rightarrow> address" where
  "BytesToAddress bs = fold (\<lambda>b a. push_bit 8 a OR ucast b) bs 0"

record MsgEthereumTx =
  me_From :: bytes
  me_Raw :: "ethTx option"

text \<open>A bit length above 256.\<close>

definition very_high :: "int \<Rightarrow> bool" where
  "very_high x = (2 ^ 256 \<le> \<bar>x\<bar>)"

definition MsgEthereumTx_ValidateBasic :: "eth_env \<Rightarrow> MsgEthereumTx \<Rightarrow> unit res" where
  "MsgEthereumTx_ValidateBasic G msg =
     (case me_Raw msg of
        None \<Rightarrow> Inl (Err ''raw transaction is required'')
      | Some tx \<Rightarrow>
          if me_From msg = [] then Inl (Err ''sender address is missing'')
          else if tx_Value tx < 0 then Inl (Err ''negative value'')
          else if very_high (tx_GasFeeCap tx) then Inl (Err ''max fee per gas higher than 2^256-1'')
          else if very_high (tx_GasTipCap tx) then Inl (Err ''max priority fee per gas higher than 2^256-1'')
          else if tx_GasTipCap tx < 0 then Inl (Err ''transaction gas price below minimum'')
          else if tx_GasFeeCap tx < tx_GasTipCap tx then Inl (Err ''max priority fee per gas higher than max fee per gas'')
          else
            rbind (eth_IntrinsicGas G (tx_Data tx) (tx_AccessList tx) (tx_SetCodeAuthorizations tx) (tx_To tx = None) True True True) (\<lambda>intrGas.
            if tx_Gas tx < intrGas then Inl (Err ''intrinsic gas too low'')
            else if tx_Type tx = SetCodeTxType \<and> tx_SetCodeAuthorizations tx = []
            then Inl (Err ''set code tx must have at least one authorization tuple'')
            else Inr ()))"

definition GetSender :: "MsgEthereumTx \<Rightarrow> address" where
  "GetSender msg = BytesToAddress (me_From msg)"

text \<open>The four methods below are called on messages whose transaction is present.\<close>

definition VerifySender :: "eth_env \<Rightarrow> int \<Rightarrow> int \<Rightarrow> ethTx \<Rightarrow> MsgEthereumTx \<Rightarrow> unit res" where
  "VerifySender G height time tx msg =
     rbind (eth_Sender G height time tx) (\<lambda>a.
     if me_From msg \<noteq> address_Bytes a then Inl (Err ''sender verification failed'') else Inr ())"

definition GetFee :: "ethTx \<Rightarrow> int" where
  "GetFee tx = uint (tx_Gas tx) * tx_GasPrice tx"

definition GetEffectiveFee :: "eth_env \<Rightarrow> ethTx \<Rightarrow> int option \<Rightarrow> int res" where
  "GetEffectiveFee G tx baseFee =
     (case baseFee of
        None \<Rightarrow> Inl (Panic ''nil pointer dereference'')
      | Some b \<Rightarrow> Inr (uint (tx_Gas tx) * (eth_EffectiveGasTip G tx baseFee + b)))"

definition AsMessage :: "MsgEthereumTx \<Rightarrow> ethTx \<Rightarrow> int option \<Rightarrow> Message" where
  "AsMessage msg tx baseFee =
     (let price = (case baseFee of
            None \<Rightarrow> tx_GasPrice tx
          | Some b \<Rightarrow> (let p = tx_GasTipCap tx + b in if tx_GasFeeCap tx < p then tx_GasFeeCap tx else p))
      in \<lparr>m_From = GetSender msg, m_To = tx_To tx, m_Nonce = tx_Nonce tx, m_Value = tx_Value tx, m_GasLimit = tx_Gas tx,
          m_GasPrice = price, m_GasFeeCap = tx_GasFeeCap tx, m_GasTipCap = tx_GasTipCap tx, m_Data = tx_Data tx,
          m_AccessList = tx_AccessList tx, m_SetCodeAuthorizations = tx_SetCodeAuthorizations tx\<rparr>)"

section \<open>Prices\<close>

definition EffectiveGasPrice :: "int \<Rightarrow> int \<Rightarrow> int \<Rightarrow> int" where
  "EffectiveGasPrice baseFee feeCap tipCap =
     (let calcVal = tipCap + baseFee in if calcVal < feeCap then calcVal else feeCap)"

definition MaxInt64 :: int where
  "MaxInt64 = 2 ^ 63 - 1"

definition IsInt64 :: "int \<Rightarrow> bool" where
  "IsInt64 x = (- (2 ^ 63) \<le> x \<and> x < 2 ^ 63)"

definition DefaultPriorityReduction :: int where
  "DefaultPriorityReduction = 10 ^ 6"

definition GetTxPriority :: "eth_env \<Rightarrow> ethTx \<Rightarrow> int option \<Rightarrow> int" where
  "GetTxPriority G tx baseFee =
     (let priorityBig = quo (eth_EffectiveGasTip G tx baseFee) DefaultPriorityReduction in
      if IsInt64 priorityBig then priorityBig else MaxInt64)"

text \<open>The base fee at 18 decimals, from the parameters of the fee market as they are stored.\<close>

definition GetBaseFee :: "fm_env \<Rightarrow> eth_env \<Rightarrow> EvmCoinInfo \<Rightarrow> int \<Rightarrow> fm_Params \<Rightarrow> int option res" where
  "GetBaseFee X G E height p =
     (if \<not> eth_IsLondon G height then Inr None
      else if NoBaseFee p then Inr (Some 0)
      else case BaseFee p of
        None \<Rightarrow> Inl (Panic ''nil pointer dereference'')
      | Some b \<Rightarrow>
          if b = 0 then Inr (Some 0)
          else rbind (ConvertAmountTo18DecimalsLegacy E b) (\<lambda>c. Inr (Some (dec_TruncateInt X c))))"

section \<open>The gas meter\<close>

record gasMeter =
  gm_consumed :: u64
  gm_limit :: u64

definition NewInfiniteGasMeterWithLimit :: "u64 \<Rightarrow> gasMeter" where
  "NewInfiniteGasMeterWithLimit limit = \<lparr>gm_consumed = 0, gm_limit = limit\<rparr>"

definition addUint64Overflow :: "u64 \<Rightarrow> u64 \<Rightarrow> u64 \<times> bool" where
  "addUint64Overflow a b = (if - 1 - a < b then (0, True) else (a + b, False))"

definition gm_ConsumeGas :: "u64 \<Rightarrow> gasMeter \<Rightarrow> gasMeter res" where
  "gm_ConsumeGas amount g =
     (let (consumed, overflow) = addUint64Overflow (gm_consumed g) amount in
      if overflow then Inl (Panic ''gas overflow'') else Inr (g\<lparr>gm_consumed := consumed\<rparr>))"

definition gm_RefundGas :: "u64 \<Rightarrow> gasMeter \<Rightarrow> gasMeter res" where
  "gm_RefundGas amount g =
     (if gm_consumed g < amount then Inl (Panic ''negative gas consumed'')
      else Inr (g\<lparr>gm_consumed := gm_consumed g - amount\<rparr>))"

definition gm_GasConsumedToLimit :: "gasMeter \<Rightarrow> u64" where
  "gm_GasConsumedToLimit g = gm_consumed g"

definition gm_IsPastLimit :: "gasMeter \<Rightarrow> bool" where
  "gm_IsPastLimit g = False"

definition gm_IsOutOfGas :: "gasMeter \<Rightarrow> bool" where
  "gm_IsOutOfGas g = False"

definition gm_GasRemaining :: "gasMeter \<Rightarrow> u64" where
  "gm_GasRemaining g = (if gm_limit g < gm_consumed g then 0 else gm_limit g - gm_consumed g)"

definition ResetGasMeterAndConsumeGas :: "u64 \<Rightarrow> gasMeter \<Rightarrow> gasMeter res" where
  "ResetGasMeterAndConsumeGas gasUsed g =
     rbind (gm_RefundGas (gm_consumed g) g) (\<lambda>g1. gm_ConsumeGas gasUsed g1)"

definition GasToRefund :: "u64 \<Rightarrow> u64 \<Rightarrow> u64 \<Rightarrow> u64 res" where
  "GasToRefund availableRefund gasConsumed refundQuotient =
     (if refundQuotient = 0 then Inl (Panic ''integer divide by zero'')
      else
        let refund = gasConsumed div refundQuotient in
        Inr (if availableRefund < refund then availableRefund else refund))"

text \<open>The sum wraps around.\<close>

definition calculateCumulativeGasFromEthResponse :: "gasMeter option \<Rightarrow> u64 \<Rightarrow> u64" where
  "calculateCumulativeGasFromEthResponse meter gasUsed =
     (case meter of
        None \<Rightarrow> gasUsed
      | Some g \<Rightarrow>
          let cumulative = gasUsed + gm_consumed g in
          if gm_limit g < cumulative then gm_limit g else cumulative)"

section \<open>The gas used by the messages of a transaction\<close>

definition GetTransientGasUsed :: "nat \<Rightarrow> (nat, u64) kv \<Rightarrow> u64" where
  "GetTransientGasUsed txIndex st = (case kv_get st txIndex of None \<Rightarrow> 0 | Some v \<Rightarrow> v)"

definition SetTransientGasUsed :: "nat \<Rightarrow> u64 \<Rightarrow> (nat, u64) kv \<Rightarrow> (nat, u64) kv" where
  "SetTransientGasUsed txIndex gasUsed st = kv_set txIndex gasUsed st"

definition AddTransientGasUsed :: "nat \<Rightarrow> u64 \<Rightarrow> (nat, u64) kv \<Rightarrow> (u64 \<times> (nat, u64) kv) res" where
  "AddTransientGasUsed txIndex gasUsed st =
     (let result = GetTransientGasUsed txIndex st + gasUsed in
      if result < gasUsed then Inl (Err ''transient gas used'') else Inr (result, SetTransientGasUsed txIndex result st))"

definition ResetTransientGasUsed :: "(nat, u64) kv \<Rightarrow> (nat, u64) kv" where
  "ResetTransientGasUsed st = fold (\<lambda>k st. kv_delete k st) (kv_keys st) st"

section \<open>Fees\<close>

definition CheckSenderBalance :: "eth_env \<Rightarrow> int \<Rightarrow> ethTx \<Rightarrow> unit res" where
  "CheckSenderBalance G balance tx =
     (let cost = eth_Cost G tx in
      if cost < 0 then Inl (Err ''tx cost is negative and invalid'')
      else if balance < 0 \<or> balance < cost then Inl (Err ''sender balance < tx cost'')
      else Inr ())"

text \<open>The last addition dereferences a nil base fee.\<close>

definition VerifyFee :: "eth_env \<Rightarrow> ethTx \<Rightarrow> denom \<Rightarrow> int option \<Rightarrow> bool \<Rightarrow> bool \<Rightarrow> bool \<Rightarrow> bool \<Rightarrow> coins res" where
  "VerifyFee G tx dn baseFee homestead istanbul shanghai isCheckTx =
     rbind (wrap_err (Err ''failed to retrieve intrinsic gas'')
         (eth_IntrinsicGas G (tx_Data tx) (tx_AccessList tx) (tx_SetCodeAuthorizations tx) (tx_To tx = None) homestead istanbul shanghai)) (\<lambda>intrinsicGas.
          if isCheckTx \<and> tx_Gas tx < intrinsicGas then Inl (Err ''gas limit too low'')
          else case baseFee of
            None \<Rightarrow> Inl (Panic ''nil pointer dereference'')
          | Some b \<Rightarrow>
              if tx_GasFeeCap tx < b then Inl (Err ''the tx gasfeecap is lower than the tx baseFee'')
              else
                let feeAmt = uint (tx_Gas tx) * (eth_EffectiveGasTip G tx baseFee + b) in
                if feeAmt = 0 then Inr [] else Inr [(dn, feeAmt)])"

text \<open>
  What the fee code calls of the SDK: \<open>DeductFees\<close> and \<open>GetSignerAcc\<close> of \<open>x/auth/ante\<close>, the virtual transfers of
  the bank, the sort and the zero test of coins, and the metadata of a denomination.
\<close>

record ('b, 'a) fee_env =
  coins_Sort :: "coins \<Rightarrow> coins"
  coins_IsZero :: "coins \<Rightarrow> bool"
  auth_DeductFees :: "(AccAddress \<Rightarrow> string \<Rightarrow> coins \<Rightarrow> 'b pbState \<Rightarrow> 'b pbState res) \<Rightarrow> 'a \<Rightarrow> coins \<Rightarrow> 'b pbState \<Rightarrow> 'b pbState res"
  bank_ToModuleVirtual :: "AccAddress \<Rightarrow> string \<Rightarrow> coins \<Rightarrow> 'b pbState \<Rightarrow> 'b pbState res"
  bank_ToAccountVirtual :: "string \<Rightarrow> AccAddress \<Rightarrow> coins \<Rightarrow> 'b pbState \<Rightarrow> 'b pbState res"
  bank_GetDenomMetaData :: "'b \<Rightarrow> denom \<Rightarrow> Metadata option"
  virtualFeeCollection :: bool

definition vm_DeductFees :: "('b, 'a) fee_env \<Rightarrow> ('b, 'a) vmKeeper \<Rightarrow> EvmCoinInfo \<Rightarrow> 'a \<Rightarrow> coins \<Rightarrow> 'b pbState \<Rightarrow> 'b pbState res" where
  "vm_DeductFees F D evmCoinInfo acc fees s =
     (if \<not> coins_IsValid (vk_bank D) fees then Inl (Err ''invalid fee amount'')
      else if \<exists>coin\<in>set fees. case bank_GetDenomMetaData F (pbank s) (fst coin) of
          None \<Rightarrow> False
        | Some md \<Rightarrow> \<exists>du\<in>set (md_DenomUnits md). du_Denom du = DisplayDenom evmCoinInfo \<and> du_Exponent du \<noteq> 18
      then Inl (Panic ''Cannot use virtual fee collection'')
      else wrap_err (ErrInsufficientFunds None) (bank_ToModuleVirtual F (au_Address D acc) FeeCollectorName fees s))"

definition DeductTxCostsFromUserBalance ::
  "('b, 'a) fee_env \<Rightarrow> ('b, 'a) vmKeeper \<Rightarrow> EvmCoinInfo \<Rightarrow> coins \<Rightarrow> address \<Rightarrow> 'b pbState \<Rightarrow> 'b pbState res" where
  "DeductTxCostsFromUserBalance F D evmCoinInfo fees sender s =
     (case au_GetAccount D (pbank s) (address_Bytes sender) of
        None \<Rightarrow> Inl (Err ''account not found for sender'')
      | Some signerAcc \<Rightarrow>
          if virtualFeeCollection F then vm_DeductFees F D evmCoinInfo signerAcc fees s
          else auth_DeductFees F (bw_SendCoinsFromAccountToModule (coins_Sort F) (coins_IsZero F) D) signerAcc fees s)"

definition RefundGas ::
  "('b, 'a) fee_env \<Rightarrow> ('b, 'a) vmKeeper \<Rightarrow> Message \<Rightarrow> u64 \<Rightarrow> denom \<Rightarrow> 'b pbState \<Rightarrow> 'b pbState res" where
  "RefundGas F D msg leftoverGas dn s =
     (let remaining = uint leftoverGas * m_GasPrice msg in
      if remaining < 0 then Inl (Err ''refunded amount value cannot be negative'')
      else if 0 < remaining then
        let refundedCoins = [(dn, remaining)] in
        wrap_err (ErrInsufficientFunds None)
          (if virtualFeeCollection F
           then bank_ToAccountVirtual F FeeCollectorName (address_Bytes (m_From msg)) refundedCoins s
           else bw_SendCoinsFromModuleToAccount (coins_Sort F) (coins_IsZero F) D FeeCollectorName (address_Bytes (m_From msg)) refundedCoins s)
      else Inr s)"

definition GetEthIntrinsicGas :: "eth_env \<Rightarrow> int \<Rightarrow> int \<Rightarrow> Message \<Rightarrow> bool \<Rightarrow> u64 res" where
  "GetEthIntrinsicGas G height time msg isContractCreation =
     (let rules = eth_Rules G height time in
      eth_IntrinsicGas G (m_Data msg) (m_AccessList msg) (m_SetCodeAuthorizations msg) isContractCreation
        (IsHomestead rules) (IsIstanbul rules) (IsShanghai rules))"

section \<open>The search for a gas limit\<close>

definition errRatio :: f64 where
  "errRatio = round64 (15 / 1000)"

text \<open>\<open>None\<close> is a search that does not end. The execution tells whether the call failed at a limit.\<close>

partial_function (option) BinSearch :: "(u64 \<Rightarrow> bool res) \<Rightarrow> u64 \<Rightarrow> u64 \<Rightarrow> u64 res option" where
  "BinSearch executable lo hi =
     (if \<not> lo + 1 < hi then Some (Inr hi)
      else if round64 (round64 (of_int (uint (hi - lo))) / round64 (of_int (uint hi))) < errRatio then Some (Inr hi)
      else
        let mid0 = lo + (hi - lo) div 2;
            mid = (if lo * 2 < mid0 then lo * 2 else mid0)
        in
        case executable mid of
          Inl e \<Rightarrow> Some (Inl e)
        | Inr failed \<Rightarrow> if failed then BinSearch executable mid hi else BinSearch executable lo mid)"

end
