(* ===== verification/ApplyTx.thy ===== *)
theory ApplyTx
  imports TxMessage
begin

text \<open>
  The execution of Ethereum transactions (\<open>x/vm/keeper/state_transition.go\<close>, \<open>hooks.go\<close>, \<open>config.go\<close>, \<open>block_proposer.go\<close>,
  \<open>call_evm.go\<close>) on the \<open>StateDB\<close> and the keeper. The interpreter of go-ethereum is two functions on a \<open>StateDB\<close>,
  \<open>evm_Create\<close> and \<open>evm_Call\<close>; it gets what \<open>NewEVMWithOverridePrecompiles\<close> puts together.
  Tracers and spans are left out.
\<close>

section \<open>Contexts and configuration\<close>

text \<open>
  What the code reads of an \<open>sdk.Context\<close>. \<open>tc_MaxGas\<close> is \<open>None\<close> where the block parameters are nil; \<open>tc_HeaderHash\<close> is empty outside of
  a block, where the hash is computed from the header: \<open>tc_BlockHeaderHash\<close>, \<open>None\<close> for a header that does not decode.
\<close>

record tx_ctx =
  tc_Height :: int
  tc_Time :: int
  tc_TxIndex :: nat
  tc_MsgIndex :: nat
  tc_IsCheckTx :: bool
  tc_IsReCheckTx :: bool
  tc_MaxGas :: "int option"
  tc_MinGasPrice :: dec
  tc_HeaderHash :: bytes
  tc_BlockHeaderHash :: "bytes option"
  tc_ProposerAddress :: bytes

definition BlockGasLimit :: "tx_ctx \<Rightarrow> u64" where
  "BlockGasLimit ctx =
     (case tc_MaxGas ctx of
        None \<Rightarrow> 0
      | Some maxGas \<Rightarrow> if maxGas = - 1 then - 1 else if 0 < maxGas then word_of_int maxGas else 0)"

record EVMConfig =
  cfg_Params :: vm_Params
  cfg_FeeMarketParams :: fm_Params
  cfg_CoinBase :: address
  cfg_BaseFee :: "int option"

text \<open>\<open>GetOperator\<close> is the bech32 operator address of the validator with a consensus address.\<close>

definition GetProposerAddress :: "tx_ctx \<Rightarrow> bytes \<Rightarrow> bytes" where
  "GetProposerAddress ctx proposerAddress = (if proposerAddress = [] then tc_ProposerAddress ctx else proposerAddress)"

definition GetCoinbaseAddress :: "(bytes \<Rightarrow> string option) \<Rightarrow> (string \<Rightarrow> bytes res) \<Rightarrow> tx_ctx \<Rightarrow> bytes \<Rightarrow> address res" where
  "GetCoinbaseAddress GetOperator ValAddressFromBech32 ctx proposerAddress =
     (let proposer = GetProposerAddress ctx proposerAddress in
      if proposer = [] then Inr 0
      else case GetOperator proposer of
        None \<Rightarrow> Inl (Err ''failed to retrieve validator from block proposer address'')
      | Some op \<Rightarrow> rbind (ValAddressFromBech32 op) (\<lambda>bz. Inr (BytesToAddress bz)))"

section \<open>Hashes of past blocks\<close>

definition HistoryWindow :: "vm_Params \<Rightarrow> u64" where
  "HistoryWindow p = (if 0 < vp_HistoryServeWindow p then vp_HistoryServeWindow p else DefaultHistoryServeWindow)"

text \<open>The key is the ring index as a big-endian number; \<open>hist\<close> is the address of the EIP-2935 contract.\<close>

definition SetHeaderHash :: "('b, 'a) vmKeeper \<Rightarrow> address \<Rightarrow> vm_Params \<Rightarrow> tx_ctx \<Rightarrow> 'b vmStore \<Rightarrow> 'b vmStore" where
  "SetHeaderHash D hist p ctx c =
     (let window = HistoryWindow p in
      if vm_GetAccount D c hist \<noteq> None \<and> vm_IsContract D c hist then
        let ringIndex = (word_of_int (tc_Height ctx) :: u64) mod window in
        vm_SetState c hist (ucast ringIndex) (tc_HeaderHash ctx)
      else c)"

definition GetHeaderHash :: "address \<Rightarrow> vm_Params \<Rightarrow> u64 \<Rightarrow> 'b vmStore \<Rightarrow> hash" where
  "GetHeaderHash hist p height c =
     (let ringIndex = height mod HistoryWindow p in vm_GetState c hist (ucast ringIndex))"

definition SafeInt64 :: "u64 \<Rightarrow> int res" where
  "SafeInt64 v = (if word_of_int MaxInt64 < v then Inl (Err ''uint64 value cannot exceed'') else Inr (sint v))"

definition GetHashFn :: "address \<Rightarrow> vm_Params \<Rightarrow> tx_ctx \<Rightarrow> 'b vmStore \<Rightarrow> u64 \<Rightarrow> hash" where
  "GetHashFn hist p ctx c height =
     (case SafeInt64 height of
        Inl _ \<Rightarrow> 0
      | Inr h \<Rightarrow>
          if tc_Height ctx = h then
            (if tc_HeaderHash ctx \<noteq> [] then BytesToHash (tc_HeaderHash ctx)
             else case tc_BlockHeaderHash ctx of None \<Rightarrow> 0 | Some bz \<Rightarrow> BytesToHash bz)
          else if h < tc_Height ctx then GetHeaderHash hist p height c
          else 0)"

section \<open>The interpreter\<close>

record 'b evm_in =
  ev_ctx :: tx_ctx
  ev_cfg :: EVMConfig
  ev_msg :: Message
  ev_GetHash :: "u64 \<Rightarrow> hash"
  ev_GasLimit :: u64
  ev_NoBaseFee :: bool
  ev_CreateHook :: "address \<Rightarrow> unit res"
  ev_CallHook :: "address \<Rightarrow> address \<Rightarrow> unit res"
  ev_overridePrecompiles :: bool
  ev_precompiles :: "(address \<Rightarrow> address option) option"

record evm_out =
  eo_Ret :: bytes
  eo_LeftoverGas :: u64
  eo_Err :: "string option"
  eo_ReturnData :: bytes

text \<open>\<open>log_Topics\<close> gives the address and the topics of a log; \<open>bloom_Add\<close> is that of go-ethereum.\<close>

record 'b evm_env =
  evm_ActivePrecompiledContracts :: "eth_rules \<Rightarrow> address \<Rightarrow> address option"
  evm_ActivePrecompiles :: "'b evm_in \<Rightarrow> address list"
  evm_Create :: "'b evm_in \<Rightarrow> bytes \<Rightarrow> u64 \<Rightarrow> u256 \<Rightarrow> 'b vmStore StateDB \<Rightarrow> (evm_out \<times> 'b vmStore StateDB) res"
  evm_Call :: "'b evm_in \<Rightarrow> address \<Rightarrow> bytes \<Rightarrow> u64 \<Rightarrow> u256 \<Rightarrow> 'b vmStore StateDB \<Rightarrow> (evm_out \<times> 'b vmStore StateDB) res"
  ErrExecutionReverted :: string
  log_Topics :: "bytes \<Rightarrow> bytes list"
  bloom_Add :: "bytes \<Rightarrow> int \<Rightarrow> int"
  HistoryStorageAddress :: address
  stk_GetOperator :: "bytes \<Rightarrow> string option"
  val_FromBech32 :: "string \<Rightarrow> bytes res"

text \<open>The parts of the keeper.\<close>

record ('b, 'a) tx_env =
  te_G :: eth_env
  te_X :: fm_env
  te_V :: vp_env
  te_F :: "('b, 'a) fee_env"
  te_D :: "('b, 'a) vmKeeper"
  te_M :: "'b evm_env"

definition NewEVMWithOverridePrecompiles ::
  "('b, 'a) tx_env \<Rightarrow> tx_ctx \<Rightarrow> Message \<Rightarrow> EVMConfig \<Rightarrow> 'b vmStore \<Rightarrow> bool \<Rightarrow> 'b evm_in" where
  "NewEVMWithOverridePrecompiles T ctx msg cfg c overridePrecompiles =
     \<lparr>ev_ctx = ctx, ev_cfg = cfg, ev_msg = msg,
      ev_GetHash = GetHashFn (HistoryStorageAddress (te_M T)) (cfg_Params cfg) ctx c,
      ev_GasLimit = BlockGasLimit ctx,
      ev_NoBaseFee = (if eth_IsLondon (te_G T) (tc_Height ctx) then NoBaseFee (cfg_FeeMarketParams cfg) else True),
      ev_CreateHook = GetCreateHook (te_V T) (vp_AccessControl (cfg_Params cfg)) (m_From msg),
      ev_CallHook = GetCallHook (te_V T) (vp_AccessControl (cfg_Params cfg)) (m_From msg),
      ev_overridePrecompiles = overridePrecompiles, ev_precompiles = None\<rparr>"

section \<open>Authorizations\<close>

definition code_bytes :: "bytes option \<Rightarrow> bytes" where
  "code_bytes code = (case code of None \<Rightarrow> [] | Some bz \<Rightarrow> bz)"

text \<open>The authority is warm even if a later check fails.\<close>

definition validateAuthorization ::
  "('b, 'a) tx_env \<Rightarrow> SetCodeAuthorization \<Rightarrow> 'b vmStore StateDB \<Rightarrow> address res \<times> 'b vmStore StateDB" where
  "validateAuthorization T au s =
     (let G = te_G T; K = vm_statedb_keeper (te_D T) in
      if auth_ChainID au \<noteq> 0 \<and> uint (auth_ChainID au) \<noteq> eth_ChainID G then (Inl (Err ''EIP-7702 authorization chain ID mismatch''), s)
      else if auth_Nonce au + 1 < auth_Nonce au then (Inl (Err ''EIP-7702 authorization nonce > 64 bit''), s)
      else case eth_Authority G au of
        Inl _ \<Rightarrow> (Inl (Err ''EIP-7702 authorization has invalid signature''), s)
      | Inr authority \<Rightarrow>
          let s1 = sdb_AddAddressToAccessList authority s;
              (code, s2) = sdb_GetCode K authority s1
          in
          if code_bytes code \<noteq> [] \<and> vk_ParseDelegation (te_D T) (code_bytes code) = None
          then (Inl (Err ''EIP-7702 authorization destination is a contract''), s2)
          else
            let (have, s3) = sdb_GetNonce K authority s2 in
            if have \<noteq> auth_Nonce au then (Inl (Err ''EIP-7702 authorization nonce does not match current account nonce''), s3)
            else (Inr authority, s3))"

definition applyAuthorization ::
  "('b, 'a) tx_env \<Rightarrow> SetCodeAuthorization \<Rightarrow> 'b vmStore StateDB \<Rightarrow> 'b vmStore StateDB" where
  "applyAuthorization T au s =
     (let G = te_G T; K = vm_statedb_keeper (te_D T) in
      case validateAuthorization T au s of
        (Inl _, s1) \<Rightarrow> s1
      | (Inr authority, s1) \<Rightarrow>
          let (ex, s2) = sdb_Exist K authority s1;
              s3 = (if ex then sdb_AddRefund (CallNewAccountGas G - TxAuthTupleGas G) s2 else s2);
              s4 = sdb_SetNonce K authority (auth_Nonce au + 1) s3
          in
          snd (sdb_SetCode K authority (if auth_Address au = 0 then None else Some (eth_AddressToDelegation G (auth_Address au))) s4))"

section \<open>State overrides\<close>

text \<open>The order of the accounts and of the slots is that of Go's map iteration, which is not determined; here it is an argument.\<close>

record OverrideAccount =
  ov_Nonce :: "u64 option"
  ov_Code :: "bytes option"
  ov_Balance :: "int option"
  ov_State :: "Storage option"
  ov_StateDiff :: "(hash \<times> hash) list option"
  ov_MovePrecompileTo :: "address option"

definition override_account :: "'c keeper \<Rightarrow> address \<Rightarrow> OverrideAccount \<Rightarrow> 'c StateDB \<Rightarrow> 'c StateDB res" where
  "override_account K addr account s =
     (let s1 = (case ov_Nonce account of None \<Rightarrow> s | Some n \<Rightarrow> sdb_SetNonce K addr n s);
          s2 = (case ov_Code account of None \<Rightarrow> s1 | Some code \<Rightarrow> snd (sdb_SetCode K addr (Some code) s1));
          s3 = (case ov_Balance account of None \<Rightarrow> s2 | Some b \<Rightarrow> sdb_SetBalance K addr (word_of_int b) s2)
      in
      if ov_State account \<noteq> None \<and> ov_StateDiff account \<noteq> None then Inl (Err ''account has both state and stateDiff'')
      else
        let s4 = (case ov_State account of None \<Rightarrow> s3 | Some st \<Rightarrow> sdb_SetStorage K addr st s3) in
        Inr (case ov_StateDiff account of
               None \<Rightarrow> s4 | Some kvs \<Rightarrow> fold (\<lambda>(key, v) s. sdb_SetStateOverride K addr key v s) kvs s4))"

text \<open>\<open>ps\<close> maps an address to the precompile that runs there.\<close>

fun override_loop ::
  "'c keeper \<Rightarrow> (address \<Rightarrow> bool) \<Rightarrow> (address \<times> OverrideAccount) list \<Rightarrow> address set \<Rightarrow> (address \<Rightarrow> address option) \<Rightarrow> 'c StateDB \<Rightarrow>
    ((address \<Rightarrow> address option) \<times> 'c StateDB) res" where
  "override_loop K has [] dirty ps s = Inr (ps, s)"
| "override_loop K has ((addr, account) # diff) dirty ps s =
     (if addr \<in> dirty then Inl (Err ''account has already been overridden by a precompile'')
      else
        rbind (case ov_MovePrecompileTo account of
                 None \<Rightarrow> Inr (dirty, ps)
               | Some dst \<Rightarrow>
                   if ps addr = None then Inl (Err ''account is not a precompile'')
                   else if has dst then Inl (Err ''account is already overridden'')
                   else Inr (insert dst dirty, ps(dst := ps addr))) (\<lambda>(dirty1, ps1).
        let ps2 = (if ps addr = None then ps1 else ps1(addr := None)) in
        rbind (override_account K addr account s) (\<lambda>s1. override_loop K has diff dirty1 ps2 s1)))"

definition StateOverride_Apply ::
  "'c keeper \<Rightarrow> (address \<times> OverrideAccount) list \<Rightarrow> (address \<Rightarrow> address option) \<Rightarrow> 'c StateDB \<Rightarrow>
    ((address \<Rightarrow> address option) \<times> 'c StateDB) res" where
  "StateOverride_Apply K diff ps s =
     rbind (override_loop K (\<lambda>a. a \<in> fst ` set diff) diff {} ps s) (\<lambda>(ps1, s1). Inr (ps1, sdb_Finalise K False s1))"

section \<open>Applying a message\<close>

record MsgEthereumTxResponse =
  rs_GasUsed :: u64
  rs_MaxUsedGas :: u64
  rs_VmError :: string
  rs_Ret :: bytes
  rs_Logs :: "EthLog list"
  rs_Hash :: hash
  rs_BlockHash :: bytes
  rs_BlockTimestamp :: u64

definition rs_Failed :: "MsgEthereumTxResponse \<Rightarrow> bool" where
  "rs_Failed res = (rs_VmError res \<noteq> [])"

definition IsUint64 :: "int \<Rightarrow> bool" where
  "IsUint64 x = (0 \<le> x \<and> x < 2 ^ 64)"

text \<open>Contract creation: the nonce of the sender is reset before and is one higher afterwards.\<close>

definition run_create ::
  "('b, 'a) tx_env \<Rightarrow> 'b evm_in \<Rightarrow> Message \<Rightarrow> u64 \<Rightarrow> u256 \<Rightarrow> 'b vmStore StateDB \<Rightarrow> (evm_out \<times> 'b vmStore StateDB) res" where
  "run_create T evm msg gas val s =
     (let K = vm_statedb_keeper (te_D T); s1 = sdb_SetNonce K (m_From msg) (m_Nonce msg) s in
      rbind (evm_Create (te_M T) evm (m_Data msg) gas val s1) (\<lambda>(out, s2).
      let (nonce, s3) = sdb_GetNonce K (m_From msg) s2 in
      Inr (out, if nonce = m_Nonce msg then sdb_SetNonce K (m_From msg) (m_Nonce msg + 1) s3 else s3)))"

definition run_call ::
  "('b, 'a) tx_env \<Rightarrow> 'b evm_in \<Rightarrow> Message \<Rightarrow> address \<Rightarrow> u64 \<Rightarrow> u256 \<Rightarrow> 'b vmStore StateDB \<Rightarrow> (evm_out \<times> 'b vmStore StateDB) res" where
  "run_call T evm msg dst gas val s =
     (let K = vm_statedb_keeper (te_D T);
          s1 = fold (applyAuthorization T) (m_SetCodeAuthorizations msg) s;
          (code, s2) = sdb_GetCode K dst s1;
          s3 = (case vk_ParseDelegation (te_D T) (code_bytes code) of None \<Rightarrow> s2 | Some a \<Rightarrow> sdb_AddAddressToAccessList a s2)
      in evm_Call (te_M T) evm dst (m_Data msg) gas val s3)"

text \<open>The gas after the refund and the floor: left over, used, and used at most.\<close>

definition settle_gas :: "bool \<Rightarrow> u64 \<Rightarrow> u64 \<Rightarrow> u64 \<Rightarrow> u64 \<Rightarrow> u64 \<times> u64 \<times> u64" where
  "settle_gas prague gasLimit floorDataGas leftoverGas rf =
     (let maxUsedGas = gasLimit - leftoverGas;
          temporaryGasUsed = maxUsedGas - rf
      in
      if prague then
        ((if temporaryGasUsed < floorDataGas then gasLimit - floorDataGas else leftoverGas + rf),
         (if temporaryGasUsed < floorDataGas then floorDataGas else temporaryGasUsed),
         (if maxUsedGas < floorDataGas then floorDataGas else maxUsedGas))
      else (leftoverGas + rf, temporaryGasUsed, maxUsedGas))"

text \<open>The gas charged: at least the share \<open>MinGasMultiplier\<close> of the limit, except for internal calls.\<close>

definition charge_gas :: "fm_env \<Rightarrow> dec option \<Rightarrow> bool \<Rightarrow> u64 \<Rightarrow> u64 \<Rightarrow> u64 \<Rightarrow> u64 res" where
  "charge_gas X minGasMultiplier internal gasLimit leftoverGas temporaryGasUsed =
     (let minimumGasUsed = dec_Mul X (LegacyNewDec (uint gasLimit)) (case minGasMultiplier of None \<Rightarrow> 0 | Some m \<Rightarrow> m) in
      if \<not> IsUint64 (dec_TruncateInt X minimumGasUsed) then Inl (Err ''minimumGasUsed is not a uint64'')
      else if gasLimit < leftoverGas then Inl (Err ''message gas limit < leftover gas'')
      else
        let gasUsed = LegacyNewDec (sint temporaryGasUsed);
            gasUsed = (if internal then gasUsed else max gasUsed minimumGasUsed);
            n = dec_TruncateInt X gasUsed
        in if IsUint64 n then Inr (word_of_int n) else Inl (Panic ''Uint64() out of bounds''))"

text \<open>The checks and the run, up to the leftover gas.\<close>

definition run_message ::
  "('b, 'a) tx_env \<Rightarrow> tx_ctx \<Rightarrow> Message \<Rightarrow> EVMConfig \<Rightarrow> TxConfig \<Rightarrow> (address \<times> OverrideAccount) list option \<Rightarrow>
    'b vmStore \<Rightarrow> event list \<Rightarrow> (u64 \<times> evm_out \<times> 'b vmStore StateDB) res" where
  "run_message T ctx msg cfg txCfg overrides c evs =
     (let G = te_G T; K = vm_statedb_keeper (te_D T);
          rules = eth_Rules G (tc_Height ctx) (tc_Time ctx);
          evm0 = NewEVMWithOverridePrecompiles T ctx msg cfg c (overrides = None)
      in
      rbind (case overrides of
               None \<Rightarrow> Inr (evm0, sdb_New c evs txCfg)
             | Some diff \<Rightarrow>
                 rbind (wrap_err (Err ''failed to apply state override'')
                          (StateOverride_Apply K diff (evm_ActivePrecompiledContracts (te_M T) rules) (sdb_New c evs txCfg)))
                   (\<lambda>(ps, s). Inr (evm0\<lparr>ev_precompiles := Some ps\<rparr>, s))) (\<lambda>(evm, s0).
      rbind (wrap_err (Err ''intrinsic gas failed'') (GetEthIntrinsicGas G (tc_Height ctx) (tc_Time ctx) msg (m_To msg = None))) (\<lambda>intrinsicGas.
      if m_GasLimit msg < intrinsicGas then Inl (Err ''intrinsic gas too low: apply message'')
      else
        rbind (if IsPrague rules then
                 rbind (eth_FloorDataGas G (m_Data msg)) (\<lambda>fl.
                 if m_GasLimit msg < fl then Inl (Err ''insufficient gas for floor data gas cost'') else Inr fl)
               else Inr 0) (\<lambda>floorDataGas.
        let gas = m_GasLimit msg - intrinsicGas in
        rbind (sdb_Prepare (Rules.truncate rules) (m_From msg) 0 (m_To msg) (evm_ActivePrecompiles (te_M T) evm) (m_AccessList msg) s0) (\<lambda>s1.
        rbind (Uint256FromBigInt (m_Value msg)) (\<lambda>val.
        rbind (case m_To msg of
                 None \<Rightarrow> run_create T evm msg gas val s1
               | Some dst \<Rightarrow> run_call T evm msg dst gas val s1) (\<lambda>(out, s2).
        Inr (floorDataGas, out, s2)))))))) "

definition ApplyMessageWithConfig ::
  "('b, 'a) tx_env \<Rightarrow> tx_ctx \<Rightarrow> Message \<Rightarrow> bool \<Rightarrow> EVMConfig \<Rightarrow> TxConfig \<Rightarrow> bool \<Rightarrow> (address \<times> OverrideAccount) list option \<Rightarrow>
    'b vmStore \<Rightarrow> event list \<Rightarrow> (MsgEthereumTxResponse \<times> 'b vmStore \<times> event list) res" where
  "ApplyMessageWithConfig T ctx msg commit cfg txCfg internal overrides c evs =
     (let G = te_G T; K = vm_statedb_keeper (te_D T); rules = eth_Rules G (tc_Height ctx) (tc_Time ctx) in
      rbind (run_message T ctx msg cfg txCfg overrides c evs) (\<lambda>(floorDataGas, out, s2).
      if m_GasLimit msg < eo_LeftoverGas out then Inl (Err ''gas overflow: apply message'')
      else
        rbind (GasToRefund (sdb_GetRefund s2) (m_GasLimit msg - eo_LeftoverGas out)
                (if eth_IsLondon G (tc_Height ctx) then RefundQuotientEIP3529 G else RefundQuotient G)) (\<lambda>rf.
        let (leftoverGas, temporaryGasUsed, maxUsedGas) =
              settle_gas (IsPrague rules) (m_GasLimit msg) floorDataGas (eo_LeftoverGas out) rf;
            vmError = (case eo_Err out of None \<Rightarrow> [] | Some e \<Rightarrow> e)
        in
        rbind (if commit then wrap_err (Err ''failed to commit stateDB'') (sdb_Commit K s2) else Inr s2) (\<lambda>s3.
        rbind (charge_gas (te_X T) (MinGasMultiplier (cfg_FeeMarketParams cfg)) internal (m_GasLimit msg) leftoverGas temporaryGasUsed) (\<lambda>gasUsed.
        Inr (\<lparr>rs_GasUsed = gasUsed, rs_MaxUsedGas = maxUsedGas, rs_VmError = vmError,
              rs_Ret = (if vmError = ErrExecutionReverted (te_M T) then eo_ReturnData out else eo_Ret out),
              rs_Logs = sdb_Logs s3, rs_Hash = TxHash txCfg, rs_BlockHash = tc_HeaderHash ctx,
              rs_BlockTimestamp = word_of_int (tc_Time ctx)\<rparr>,
             sdb_ctx s3, sdb_ctxEvents s3))))))"

end
