(* ===== verification/ExecTx.thy ===== *)
theory ExecTx
  imports ApplyTx
begin

text \<open>
  The transaction on the chain: \<open>ApplyTransaction\<close> with its branched context, post-processing hooks, refund and gas meter
  (\<open>x/vm/keeper/state_transition.go\<close>, \<open>hooks.go\<close>), the calls of other modules (\<open>call_evm.go\<close>), the message handler
  (\<open>msg_server.go\<close>) and the block hooks of \<open>x/vm\<close> (\<open>abci.go\<close>).
\<close>

section \<open>State\<close>

text \<open>
  The stores of \<open>x/vm\<close> and \<open>x/feemarket\<close>, the object store of the block (blooms by transaction and message
  index, gas by transaction index), the events and the gas meter of the transaction.
\<close>

record 'b txState =
  ts_store :: "'b vmStore"
  ts_config :: vmConfig
  ts_fm :: fmState
  ts_bloom :: "(nat list, int) kv"
  ts_gasUsed :: "(nat, u64) kv"
  ts_events :: "event list"
  ts_meter :: gasMeter

text \<open>\<open>CacheContext\<close> branches the stores and starts with no events; its write function puts both back. The gas meter is shared.\<close>

definition cache_context :: "'b txState \<Rightarrow> 'b txState" where
  "cache_context s = s\<lparr>ts_events := []\<rparr>"

definition commit_context :: "'b txState \<Rightarrow> 'b txState \<Rightarrow> 'b txState" where
  "commit_context s tmp = tmp\<lparr>ts_events := ts_events s @ ts_events tmp\<rparr>"

definition logsBloom :: "'b evm_env \<Rightarrow> EthLog list \<Rightarrow> int" where
  "logsBloom M lgs = fold (\<lambda>lg bin. fold (bloom_Add M) (log_Topics M (log_payload lg)) bin) lgs 0"

definition SetTxBloom :: "tx_ctx \<Rightarrow> int \<Rightarrow> 'b txState \<Rightarrow> 'b txState" where
  "SetTxBloom ctx bloom s = s\<lparr>ts_bloom := kv_set [tc_TxIndex ctx, tc_MsgIndex ctx] bloom (ts_bloom s)\<rparr>"

definition CollectTxBloom :: "'b txState \<Rightarrow> int \<times> 'b txState" where
  "CollectTxBloom s =
     (fold (\<lambda>v bloom. bloom OR v) (map snd (ts_bloom s)) 0,
      s\<lparr>ts_bloom := fold kv_delete (kv_keys (ts_bloom s)) (ts_bloom s), ts_events := ts_events s @ [''block_bloom'']\<rparr>)"

section \<open>The configuration of a run\<close>

text \<open>\<open>dflt\<close> is the keeper's default coin information.\<close>

definition keeper_GetBaseFee :: "('b, 'a) tx_env \<Rightarrow> EvmCoinInfo \<Rightarrow> tx_ctx \<Rightarrow> 'b txState \<Rightarrow> int option" where
  "keeper_GetBaseFee T dflt ctx s =
     vm_GetBaseFee (te_X T) (eth_IsLondon (te_G T) (tc_Height ctx)) (GetEvmCoinInfo dflt (ts_config s)) (ts_fm s)"

definition keeper_EVMConfig :: "('b, 'a) tx_env \<Rightarrow> EvmCoinInfo \<Rightarrow> tx_ctx \<Rightarrow> bytes \<Rightarrow> 'b txState \<Rightarrow> EVMConfig res" where
  "keeper_EVMConfig T dflt ctx proposerAddress s =
     rbind (fw_GetParams (te_X T) (vk_coin (te_D T)) (ts_fm s)) (\<lambda>feemarketParams.
     rbind (wrap_err (Err ''failed to obtain coinbase address'')
              (GetCoinbaseAddress (stk_GetOperator (te_M T)) (val_FromBech32 (te_M T)) ctx proposerAddress)) (\<lambda>coinbase.
     Inr \<lparr>cfg_Params = vm_GetParams (ts_config s), cfg_FeeMarketParams = feemarketParams, cfg_CoinBase = coinbase,
          cfg_BaseFee = keeper_GetBaseFee T dflt ctx s\<rparr>))"

section \<open>Hooks\<close>

record Receipt =
  rc_Type :: u8
  rc_Success :: bool
  rc_CumulativeGasUsed :: u64
  rc_Logs :: "EthLog list"
  rc_TxHash :: hash
  rc_ContractAddress :: address
  rc_GasUsed :: u64
  rc_BlockHash :: hash
  rc_BlockNumber :: int
  rc_TransactionIndex :: nat

text \<open>A hook may change the stores and, through the pointer, the receipt.\<close>

type_synonym 'b hook = "address \<Rightarrow> Message \<Rightarrow> Receipt \<Rightarrow> 'b txState \<Rightarrow> (Receipt \<times> 'b txState) res"

fun MultiEvmHooks_PostTxProcessing :: "'b hook list \<Rightarrow> 'b hook" where
  "MultiEvmHooks_PostTxProcessing [] sender msg receipt s = Inr (receipt, s)"
| "MultiEvmHooks_PostTxProcessing (h # hs) sender msg receipt s =
     rbind (wrap_err (Err ''EVM hook failed'') (h sender msg receipt s)) (\<lambda>(receipt1, s1).
     MultiEvmHooks_PostTxProcessing hs sender msg receipt1 s1)"

definition PostTxProcessing :: "'b hook option \<Rightarrow> 'b hook" where
  "PostTxProcessing H sender msg receipt s =
     (case H of None \<Rightarrow> Inr (receipt, s) | Some h \<Rightarrow> h sender msg receipt s)"

section \<open>Transactions\<close>

text \<open>What happens between the run and the refund: the branch is written or dropped. A panic leaves the function.\<close>

definition post_process ::
  "'b hook option \<Rightarrow> address \<Rightarrow> Message \<Rightarrow> Receipt \<Rightarrow> MsgEthereumTxResponse \<Rightarrow> 'b txState \<Rightarrow> 'b txState \<Rightarrow>
    (MsgEthereumTxResponse \<times> 'b txState) res" where
  "post_process H signerAddr msg receipt res s tmp =
     (if H = None then Inr (res, if rs_Failed res then s else commit_context s tmp)
      else case PostTxProcessing H signerAddr msg receipt tmp of
        Inl (Panic p) \<Rightarrow> Inl (Panic p)
      | Inl _ \<Rightarrow> Inr (res\<lparr>rs_VmError := ''failed to execute post transaction processing'', rs_Logs := []\<rparr>, s)
      | Inr (receipt1, tmp1) \<Rightarrow>
          Inr (res\<lparr>rs_Logs := if rs_Failed res then [] else rc_Logs receipt1\<rparr>, commit_context s tmp1))"

definition tx_receipt :: "('b, 'a) tx_env \<Rightarrow> tx_ctx \<Rightarrow> ethTx \<Rightarrow> Message \<Rightarrow> MsgEthereumTxResponse \<Rightarrow> gasMeter \<Rightarrow> Receipt" where
  "tx_receipt T ctx tx msg res meter =
     \<lparr>rc_Type = tx_Type tx, rc_Success = (\<not> rs_Failed res),
      rc_CumulativeGasUsed = calculateCumulativeGasFromEthResponse (Some meter) (rs_GasUsed res),
      rc_Logs = rs_Logs res, rc_TxHash = rs_Hash res,
      rc_ContractAddress = (case m_To msg of None \<Rightarrow> eth_CreateAddress (te_G T) (m_From msg) (m_Nonce msg) | Some _ \<Rightarrow> 0),
      rc_GasUsed = rs_GasUsed res, rc_BlockHash = BytesToHash (tc_HeaderHash ctx), rc_BlockNumber = tc_Height ctx, rc_TransactionIndex = tc_TxIndex ctx\<rparr>"

text \<open>The refund and the gas meter, the last part of \<open>ApplyTransaction\<close>.\<close>

definition finish_tx ::
  "('b, 'a) tx_env \<Rightarrow> tx_ctx \<Rightarrow> Message \<Rightarrow> MsgEthereumTxResponse \<Rightarrow> 'b txState \<Rightarrow> MsgEthereumTxResponse res \<times> 'b txState" where
  "finish_tx T ctx msg res s =
     (let remainingGas = (if rs_GasUsed res < m_GasLimit msg then m_GasLimit msg - rs_GasUsed res else 0) in
      case wrap_err (Err ''failed to refund leftover gas to sender'')
             (RefundGas (te_F T) (te_D T) msg remainingGas (Denom (vk_coin (te_D T))) (vm_pb (ts_store s))) of
        Inl e \<Rightarrow> (Inl e, s)
      | Inr pb \<Rightarrow>
          let s1 = s\<lparr>ts_store := (ts_store s)\<lparr>vm_pb := pb\<rparr>\<rparr> in
          case AddTransientGasUsed (tc_TxIndex ctx) (rs_GasUsed res) (ts_gasUsed s1) of
            Inl _ \<Rightarrow> (Inl (Err ''failed to add transient gas used''), s1)
          | Inr (totalGasUsed, st) \<Rightarrow>
              let s2 = s1\<lparr>ts_gasUsed := st\<rparr> in
              case ResetGasMeterAndConsumeGas totalGasUsed (ts_meter s2) of
                Inl p \<Rightarrow> (Inl p, s2)
              | Inr meter \<Rightarrow> (Inr res, s2\<lparr>ts_meter := meter\<rparr>))"

definition ApplyTransaction ::
  "('b, 'a) tx_env \<Rightarrow> 'b hook option \<Rightarrow> EvmCoinInfo \<Rightarrow> tx_ctx \<Rightarrow> ethTx \<Rightarrow> 'b txState \<Rightarrow> MsgEthereumTxResponse res \<times> 'b txState" where
  "ApplyTransaction T H dflt ctx tx s =
     (let G = te_G T; txCfg = \<lparr>TxHash = eth_Hash G tx, TxIndex = tc_TxIndex ctx\<rparr> in
      case rbind (wrap_err (Err ''failed to load evm config'') (keeper_EVMConfig T dflt ctx (tc_ProposerAddress ctx) s)) (\<lambda>cfg.
           rbind (wrap_err (Err ''failed to return ethereum transaction as core message'')
                    (eth_TransactionToMessage G (tc_Height ctx) (tc_Time ctx) tx (cfg_BaseFee cfg))) (\<lambda>msg. Inr (cfg, msg))) of
        Inl e \<Rightarrow> (Inl e, s)
      | Inr (cfg, msg) \<Rightarrow>
          (case ApplyMessageWithConfig T ctx msg True cfg txCfg False None (ts_store s) [] of
             Inl (Panic p) \<Rightarrow> (Inl (Panic p), s)
           | Inl _ \<Rightarrow>
               (case ResetGasMeterAndConsumeGas (gm_limit (ts_meter s)) (ts_meter s) of
                  Inl p \<Rightarrow> (Inl p, s)
                | Inr meter \<Rightarrow> (Inl (Err ''failed to apply ethereum core message''), s\<lparr>ts_meter := meter\<rparr>))
           | Inr (res, c, evs) \<Rightarrow>
               let tmp = (cache_context s)\<lparr>ts_store := c, ts_events := evs\<rparr>;
                   tmp = (if rs_Logs res = [] then tmp else SetTxBloom ctx (logsBloom (te_M T) (rs_Logs res)) tmp);
                   tmp = (if rs_Failed res then cache_context s else tmp)
               in
               case wrap_err (Err ''failed to extract sender address from ethereum transaction'') (eth_Sender G (tc_Height ctx) (tc_Time ctx) tx) of
                 Inl e \<Rightarrow> (Inl e, s)
               | Inr signerAddr \<Rightarrow>
                   (case post_process H signerAddr msg (tx_receipt T ctx tx msg res (ts_meter s)) res s tmp of
                      Inl p \<Rightarrow> (Inl p, s)
                    | Inr (res1, s1) \<Rightarrow> finish_tx T ctx msg res1 s1)))"

definition EthereumTx ::
  "('b, 'a) tx_env \<Rightarrow> 'b hook option \<Rightarrow> EvmCoinInfo \<Rightarrow> tx_ctx \<Rightarrow> ethTx \<Rightarrow> 'b txState \<Rightarrow> MsgEthereumTxResponse res \<times> 'b txState" where
  "EthereumTx T H dflt ctx tx s =
     (case ApplyTransaction T H dflt ctx tx s of
        (Inl e, s1) \<Rightarrow> (wrap_err (Err ''failed to apply transaction'') (Inl e), s1)
      | (Inr response, s1) \<Rightarrow> (Inr response, s1\<lparr>ts_events := ts_events s1 @ [''ethereum_tx'', ''message'']\<rparr>))"

section \<open>Calls of other modules\<close>

definition DefaultGasCap :: u64 where
  "DefaultGasCap = 25000000"

definition ApplyMessage ::
  "('b, 'a) tx_env \<Rightarrow> EvmCoinInfo \<Rightarrow> tx_ctx \<Rightarrow> Message \<Rightarrow> bool \<Rightarrow> bool \<Rightarrow> 'b txState \<Rightarrow> (MsgEthereumTxResponse \<times> 'b txState) res" where
  "ApplyMessage T dflt ctx msg commit internal s =
     rbind (wrap_err (Err ''failed to load evm config'') (keeper_EVMConfig T dflt ctx (tc_ProposerAddress ctx) s)) (\<lambda>cfg.
     rbind (ApplyMessageWithConfig T ctx msg commit cfg \<lparr>TxHash = 0, TxIndex = 0\<rparr> internal None (ts_store s) (ts_events s)) (\<lambda>(res, c, evs).
     Inr (res, s\<lparr>ts_store := c, ts_events := evs\<rparr>)))"

text \<open>The gas cap that the caller passes is not used. The response that goes with the error of a failed execution is left out.\<close>

definition CallEVMWithData ::
  "('b, 'a) tx_env \<Rightarrow> EvmCoinInfo \<Rightarrow> tx_ctx \<Rightarrow> address \<Rightarrow> address option \<Rightarrow> bytes \<Rightarrow> bool \<Rightarrow> int option \<Rightarrow> 'b txState \<Rightarrow>
    MsgEthereumTxResponse res \<times> 'b txState" where
  "CallEVMWithData T dflt ctx caller contract input commit gasCap s =
     (case au_GetAccount (te_D T) (vm_bank_state (ts_store s)) (address_Bytes caller) of
        None \<Rightarrow> (Inl (Err ''account does not exist''), s)
      | Some acc \<Rightarrow>
          let msg = \<lparr>m_From = caller, m_To = contract, m_Nonce = au_Sequence (te_D T) acc, m_Value = 0, m_GasLimit = DefaultGasCap,
                     m_GasPrice = 0, m_GasFeeCap = 0, m_GasTipCap = 0, m_Data = input, m_AccessList = [], m_SetCodeAuthorizations = []\<rparr>
          in
          case ApplyMessage T dflt ctx msg commit True s of
            Inl e \<Rightarrow> (Inl e, s)
          | Inr (res, s1) \<Rightarrow>
              if rs_Failed res then
                (case ResetGasMeterAndConsumeGas (gm_limit (ts_meter s1)) (ts_meter s1) of
                   Inl p \<Rightarrow> (Inl p, s1)
                 | Inr meter \<Rightarrow> (Inl (Err ''evm transaction execution failed''), s1\<lparr>ts_meter := meter\<rparr>))
              else
                (case gm_ConsumeGas (rs_GasUsed res) (ts_meter s1) of
                   Inl p \<Rightarrow> (Inl p, s1) | Inr meter \<Rightarrow> (Inr res, s1\<lparr>ts_meter := meter\<rparr>)))"

section \<open>Blocks\<close>

definition vm_BeginBlock :: "('b, 'a) tx_env \<Rightarrow> EvmCoinInfo \<Rightarrow> tx_ctx \<Rightarrow> 'b txState \<Rightarrow> 'b txState" where
  "vm_BeginBlock T dflt ctx s =
     (let s1 = (if keeper_GetBaseFee T dflt ctx s = None then s else s\<lparr>ts_events := ts_events s @ [''fee_market'']\<rparr>) in
      s1\<lparr>ts_store := SetHeaderHash (te_D T) (HistoryStorageAddress (te_M T)) (vm_GetParams (ts_config s1)) ctx (ts_store s1)\<rparr>)"

definition vm_EndBlock :: "'b txState \<Rightarrow> 'b txState" where
  "vm_EndBlock s = (let s1 = snd (CollectTxBloom s) in s1\<lparr>ts_gasUsed := ResetTransientGasUsed (ts_gasUsed s1)\<rparr>)"

end
