(* ===== verification/AnteEvm.thy ===== *)
theory AnteEvm
  imports ExecTx
begin

text \<open>
  The checks before an Ethereum transaction is accepted: the decorator of \<open>ante/evm\<close>, one definition per file
  and \<open>MonoDecorator.AnteHandle\<close> that composes them, and the fee checker for Cosmos transactions
  (\<open>ante/evm/fee_checker.go\<close>). A Cosmos transaction is what the code reads of it.
\<close>

section \<open>Cosmos transactions\<close>

record tx_Fee =
  fee_Amount :: coins
  fee_GasLimit :: u64
  fee_Payer :: string
  fee_Granter :: string

datatype sdk_msg = EthMsg MsgEthereumTx | OtherMsg string

datatype basic_result = BasicOk | BasicNoSignatures | BasicErr string

record cosmosTx =
  ct_ValidateBasic :: "basic_result option"
  ct_IsProtoTx :: bool
  ct_IsGasTx :: bool
  ct_Memo :: string
  ct_TimeoutHeight :: u64
  ct_NonCriticalExtensionOptions :: "string list"
  ct_ExtensionOptions :: "string list"
  ct_SignerInfos :: "bytes list"
  ct_Fee :: "tx_Fee option"
  ct_Tip :: "string option"
  ct_Signatures :: "bytes list"
  ct_Msgs :: "sdk_msg list"

definition UnpackEthMsg :: "sdk_msg \<Rightarrow> (MsgEthereumTx \<times> ethTx option) res" where
  "UnpackEthMsg msg = (case msg of EthMsg m \<Rightarrow> Inr (m, me_Raw m) | OtherMsg _ \<Rightarrow> Inl (Err ''invalid message type''))"

section \<open>The checks\<close>

text \<open>A transaction type without \<open>ValidateBasic\<close> skips that check.\<close>

definition ValidateTx :: "cosmosTx \<Rightarrow> tx_Fee res" where
  "ValidateTx tx =
     (case ct_ValidateBasic tx of
        Some (BasicErr e) \<Rightarrow> Inl (Err ''tx basic validation failed'')
      | _ \<Rightarrow>
          if \<not> ct_IsProtoTx tx then Inl (Err ''invalid tx type'')
          else if ct_Memo tx \<noteq> [] \<or> ct_TimeoutHeight tx \<noteq> 0 \<or> ct_NonCriticalExtensionOptions tx \<noteq> []
          then Inl (Err ''for eth tx body Memo TimeoutHeight NonCriticalExtensionOptions should be empty'')
          else if length (ct_ExtensionOptions tx) \<noteq> 1 then Inl (Err ''for eth tx length of ExtensionOptions should be 1'')
          else if ct_SignerInfos tx \<noteq> [] then Inl (Err ''for eth tx AuthInfo SignerInfos should be empty'')
          else case ct_Fee tx of
            None \<Rightarrow> Inl (Err ''authInfo.Fee should not be nil'')
          | Some fee \<Rightarrow>
              if fee_Payer fee \<noteq> [] \<or> fee_Granter fee \<noteq> []
              then Inl (Err ''for eth tx AuthInfo Fee payer and granter should be empty'')
              else if ct_Tip tx \<noteq> None then Inl (Err ''authInfo.Tip must be nil'')
              else if ct_Signatures tx \<noteq> [] then Inl (Err ''for eth tx Signatures should be empty'')
              else Inr fee)"

definition SetupContextAndResetTransientGas :: "cosmosTx \<Rightarrow> unit res" where
  "SetupContextAndResetTransientGas tx = (if ct_IsGasTx tx then Inr () else Inl (Err ''invalid transaction type''))"

record DecoratorUtils =
  du_EvmParams :: vm_Params
  du_Rules :: eth_rules
  du_BaseFee :: "int option"
  du_MempoolMinGasPrice :: dec
  du_GlobalMinGasPrice :: "dec option"
  du_TxGasLimit :: u64
  du_GasWanted :: u64
  du_MinPriority :: int
  du_TxFee :: int

definition NewMonoDecoratorUtils :: "fm_env \<Rightarrow> eth_env \<Rightarrow> EvmCoinInfo \<Rightarrow> tx_ctx \<Rightarrow> vm_Params \<Rightarrow> fm_Params \<Rightarrow> DecoratorUtils res" where
  "NewMonoDecoratorUtils X G E ctx evmParams feemarketParams =
     (let rules = eth_Rules G (tc_Height ctx) (tc_Time ctx) in
      rbind (GetBaseFee X G E (tc_Height ctx) feemarketParams) (\<lambda>baseFee.
      if IsLondon rules \<and> baseFee = None
      then Inl (Err ''base fee is supported but evm block context value is nil'')
      else
        rbind (ConvertAmountTo18DecimalsLegacy E (tc_MinGasPrice ctx)) (\<lambda>mempoolMinGasPrice.
        Inr \<lparr>du_EvmParams = evmParams, du_Rules = rules, du_BaseFee = baseFee, du_MempoolMinGasPrice = mempoolMinGasPrice,
             du_GlobalMinGasPrice = MinGasPrice feemarketParams, du_TxGasLimit = 0, du_GasWanted = 0, du_MinPriority = MaxInt64,
             du_TxFee = 0\<rparr>)))"

definition CheckMempoolFee :: "fm_env \<Rightarrow> dec \<Rightarrow> dec \<Rightarrow> dec \<Rightarrow> bool \<Rightarrow> unit res" where
  "CheckMempoolFee X fee mempoolMinGasPrice gasLimit isLondon =
     (if isLondon then Inr ()
      else if fee < dec_Mul X mempoolMinGasPrice gasLimit then Inl (Err ''insufficient fee'')
      else Inr ())"

definition CheckGlobalFee :: "fm_env \<Rightarrow> dec \<Rightarrow> dec option \<Rightarrow> dec \<Rightarrow> unit res" where
  "CheckGlobalFee X fee globalMinGasPrice gasLimit =
     (case globalMinGasPrice of
        None \<Rightarrow> Inl (Panic ''nil pointer dereference'')
      | Some p \<Rightarrow>
          if p = 0 then Inr ()
          else if fee < dec_Mul X p gasLimit then Inl (Err ''provided fee < minimum global fee'')
          else Inr ())"

definition checkDisabledCreateCall :: "ethTx \<Rightarrow> AccessControl \<Rightarrow> unit res" where
  "checkDisabledCreateCall tx permissions =
     (let blockCreate = AccessType_of (ac_Create permissions) = AccessTypeRestricted;
          blockCall = AccessType_of (ac_Call permissions) = AccessTypeRestricted
      in
      if blockCreate \<and> tx_To tx = None then Inl (Err ''EVM Create operation is disabled'')
      else if blockCall \<and> tx_To tx \<noteq> None then Inl (Err ''EVM Call operation is disabled'')
      else Inr ())"

definition ValidateMsg :: "vm_Params \<Rightarrow> ethTx option \<Rightarrow> unit res" where
  "ValidateMsg evmParams ethTx =
     (case ethTx of
        None \<Rightarrow> Inl (Err ''transaction is nil'') | Some tx \<Rightarrow> checkDisabledCreateCall tx (vp_AccessControl evmParams))"

definition SignatureVerification :: "eth_env \<Rightarrow> tx_ctx \<Rightarrow> MsgEthereumTx \<Rightarrow> ethTx \<Rightarrow> unit res" where
  "SignatureVerification G ctx msg tx =
     wrap_err (Err ''signature verification failed'') (VerifySender G (tc_Height ctx) (tc_Time ctx) tx msg)"

text \<open>A balance beyond 256 bits is a nil pointer.\<close>

definition VerifyAccountBalance ::
  "eth_env \<Rightarrow> ('b, 'a) vmKeeper \<Rightarrow> AccountIn option \<Rightarrow> address \<Rightarrow> ethTx \<Rightarrow> 'b vmStore \<Rightarrow> 'b vmStore res" where
  "VerifyAccountBalance G D account sender tx c =
     (case account of
        None \<Rightarrow>
          (case au_NewAccountWithAddress D (vm_bank_state c) (address_Bytes sender) of (acc, b) \<Rightarrow>
           let c1 = vm_with_bank c b; c2 = vm_with_bank c1 (au_SetAccount D (vm_bank_state c1) acc) in
           rbind (wrap_err (Err ''failed to check sender balance'') (CheckSenderBalance G 0 tx)) (\<lambda>_. Inr c2))
      | Some a \<Rightarrow>
          let codeHash = (case in_CodeHash a of None \<Rightarrow> 0 | Some h \<Rightarrow> h);
              code = code_bytes (vm_GetCode c codeHash)
          in
          if codeHash \<noteq> vm_EmptyCodeHash D \<and> code \<noteq> [] \<and> vk_ParseDelegation D code = None
          then Inl (Err ''the sender is not EOA'')
          else case in_Balance a of
            None \<Rightarrow> Inl (Panic ''nil pointer dereference'')
          | Some balance \<Rightarrow>
              rbind (wrap_err (Err ''failed to check sender balance'') (CheckSenderBalance G (uint balance) tx)) (\<lambda>_. Inr c))"

definition CanTransfer :: "('b, 'a) vmKeeper \<Rightarrow> Message \<Rightarrow> int option \<Rightarrow> bool \<Rightarrow> 'b vmStore \<Rightarrow> unit res" where
  "CanTransfer D msg baseFee isLondon c =
     rbind (if isLondon then
              (case baseFee of
                 None \<Rightarrow> Inl (Panic ''nil pointer dereference'')
               | Some b \<Rightarrow> if m_GasFeeCap msg < b then Inl (Err ''max fee per gas less than block base fee'') else Inr ())
            else Inr ()) (\<lambda>_.
     rbind (Uint256FromBigInt (m_Value msg)) (\<lambda>convertedValue.
     if 0 < m_Value msg then
       (case vm_GetAccount D c (m_From msg) of
          None \<Rightarrow> Inl (Panic ''nil pointer dereference'')
        | Some a \<Rightarrow>
            (case in_Balance a of
               None \<Rightarrow> Inl (Panic ''nil pointer dereference'')
             | Some balance \<Rightarrow> if balance < convertedValue then Inl (Err ''failed to transfer'') else Inr ()))
     else Inr ()))"

definition ante_deductFees :: "('b, 'a) tx_env \<Rightarrow> EvmCoinInfo \<Rightarrow> coins \<Rightarrow> bytes \<Rightarrow> 'b txState \<Rightarrow> 'b txState res" where
  "ante_deductFees T dflt fees feePayer s =
     (if coins_IsZero (te_F T) fees then Inr s
      else
        rbind (DeductTxCostsFromUserBalance (te_F T) (te_D T) (GetEvmCoinInfo dflt (ts_config s)) fees (BytesToAddress feePayer)
                 (vm_pb (ts_store s))) (\<lambda>pb.
        Inr (s\<lparr>ts_store := (ts_store s)\<lparr>vm_pb := pb\<rparr>\<rparr>)))"

definition ConsumeFeesAndEmitEvent :: "('b, 'a) tx_env \<Rightarrow> EvmCoinInfo \<Rightarrow> coins \<Rightarrow> bytes \<Rightarrow> 'b txState \<Rightarrow> 'b txState res" where
  "ConsumeFeesAndEmitEvent T dflt fees sender s =
     rbind (ante_deductFees T dflt fees sender s) (\<lambda>s1. Inr (s1\<lparr>ts_events := ts_events s1 @ [''tx'']\<rparr>))"

definition UpdateCumulativeGasWanted :: "tx_ctx \<Rightarrow> u64 \<Rightarrow> u64 \<Rightarrow> u64 \<Rightarrow> u64" where
  "UpdateCumulativeGasWanted ctx msgGasWanted maxTxGasWanted cumulativeGasWanted =
     (if tc_IsCheckTx ctx \<and> maxTxGasWanted \<noteq> 0
      then (if maxTxGasWanted < msgGasWanted then cumulativeGasWanted + maxTxGasWanted else cumulativeGasWanted + msgGasWanted)
      else cumulativeGasWanted + msgGasWanted)"

definition GetMsgPriority :: "eth_env \<Rightarrow> ethTx \<Rightarrow> int \<Rightarrow> int option \<Rightarrow> int" where
  "GetMsgPriority G tx minPriority baseFee =
     (let priority = GetTxPriority G tx baseFee in if priority < minPriority then priority else minPriority)"

definition IncrementNonce :: "('b, 'a) vmKeeper \<Rightarrow> 'a \<Rightarrow> u64 \<Rightarrow> 'b vmStore \<Rightarrow> 'b vmStore res" where
  "IncrementNonce D account txNonce c =
     (let accountNonce = au_Sequence D account in
      if accountNonce < txNonce then Inl (Err ''tx nonce is higher than account nonce'')
      else if txNonce < accountNonce then Inl (Err ''tx nonce is lower than account nonce'')
      else if accountNonce = - 1 then Inl (Err ''nonce overflow: increment beyond 2^64-1 violates EIP-2681'')
      else
        rbind (wrap_err (Err ''failed to set sequence'') (au_SetSequence D account (accountNonce + 1))) (\<lambda>account1.
        Inr (vm_with_bank c (au_SetAccount D (vm_bank_state c) account1))))"

definition CheckTxFee :: "'b bank \<Rightarrow> EvmCoinInfo \<Rightarrow> tx_Fee option \<Rightarrow> int \<Rightarrow> u64 \<Rightarrow> unit res" where
  "CheckTxFee B E txFeeInfo txFee txGasLimit =
     (case txFeeInfo of
        None \<Rightarrow> Inr ()
      | Some info \<Rightarrow>
          if coins_AmountOf B (fee_Amount info) (ExtendedDenom E) \<noteq> txFee then Inl (Err ''invalid AuthInfo Fee Amount'')
          else if fee_GasLimit info \<noteq> txGasLimit then Inl (Err ''invalid AuthInfo Fee GasLimit'')
          else Inr ())"

text \<open>The new gas meter and the priority of the context.\<close>

definition CheckBlockGasLimit :: "tx_ctx \<Rightarrow> u64 \<Rightarrow> int \<Rightarrow> (gasMeter \<times> int) res" where
  "CheckBlockGasLimit ctx gasWanted minPriority =
     (if BlockGasLimit ctx < gasWanted then Inl (Err ''tx gas exceeds block gas limit'')
      else Inr (NewInfiniteGasMeterWithLimit gasWanted, minPriority))"

section \<open>The decorator\<close>

definition AnteHandle ::
  "('b, 'a) tx_env \<Rightarrow> EvmCoinInfo \<Rightarrow> u64 \<Rightarrow> vm_Params \<Rightarrow> fm_Params \<Rightarrow> tx_ctx \<Rightarrow> cosmosTx \<Rightarrow> bool \<Rightarrow> 'b txState \<Rightarrow>
    (int \<times> 'b txState) res" where
  "AnteHandle T dflt maxGasWanted evmParams feemarketParams ctx tx simulate s =
     (let G = te_G T; X = te_X T; D = te_D T; E = vk_coin D in
      rbind (if tc_IsReCheckTx ctx then Inr None else rbind (ValidateTx tx) (\<lambda>fee. Inr (Some fee))) (\<lambda>txFeeInfo.
      rbind (SetupContextAndResetTransientGas tx) (\<lambda>_.
      rbind (NewMonoDecoratorUtils X G E ctx evmParams feemarketParams) (\<lambda>decUtils.
      case ct_Msgs tx of
        [sdkMsg] \<Rightarrow>
          rbind (UnpackEthMsg sdkMsg) (\<lambda>(ethMsg, raw).
          case raw of
            None \<Rightarrow> Inl (Panic ''nil pointer dereference'')
          | Some ethTx \<Rightarrow>
              let baseFee = du_BaseFee decUtils; rules = du_Rules decUtils; gas = tx_Gas ethTx;
                  gasLimit = LegacyNewDec (uint gas)
              in
              rbind (eth_ValidateTransaction G (tc_Height ctx) (tc_Time ctx) gas baseFee ethTx) (\<lambda>_.
              rbind (if tc_IsCheckTx ctx \<and> \<not> simulate
                     then CheckMempoolFee X (LegacyNewDec (GetFee ethTx)) (du_MempoolMinGasPrice decUtils) gasLimit (IsLondon rules)
                     else Inr ()) (\<lambda>_.
              rbind (if DynamicFeeTxType \<le> tx_Type ethTx \<and> baseFee \<noteq> None
                     then GetEffectiveFee G ethTx baseFee else Inr (GetFee ethTx)) (\<lambda>feeAmt.
              rbind (CheckGlobalFee X (LegacyNewDec feeAmt) (du_GlobalMinGasPrice decUtils) gasLimit) (\<lambda>_.
              rbind (ValidateMsg (du_EvmParams decUtils) raw) (\<lambda>_.
              rbind (SignatureVerification G ctx ethMsg ethTx) (\<lambda>_.
              let sender = me_From ethMsg; fromAddr = BytesToAddress sender in
              rbind (VerifyAccountBalance G D (vm_GetAccount D (ts_store s) fromAddr) fromAddr ethTx (ts_store s)) (\<lambda>c1.
              rbind (CanTransfer D (AsMessage ethMsg ethTx baseFee) baseFee (IsLondon rules) c1) (\<lambda>_.
              rbind (VerifyFee G ethTx (Denom E) baseFee (IsHomestead rules) (IsIstanbul rules) (IsShanghai rules) (tc_IsCheckTx ctx)) (\<lambda>msgFees.
              rbind (ConsumeFeesAndEmitEvent T dflt msgFees sender (s\<lparr>ts_store := c1\<rparr>)) (\<lambda>s2.
              let gasWanted = UpdateCumulativeGasWanted ctx gas maxGasWanted (du_GasWanted decUtils);
                  minPriority = GetMsgPriority G ethTx (du_MinPriority decUtils) baseFee;
                  txFee = du_TxFee decUtils + GetFee ethTx;
                  txGasLimit = du_TxGasLimit decUtils + gas
              in
              case au_GetAccount D (vm_bank_state (ts_store s2)) sender of
                None \<Rightarrow> Inl (Err ''account does not exist'')
              | Some acc \<Rightarrow>
                  rbind (IncrementNonce D acc (tx_Nonce ethTx) (ts_store s2)) (\<lambda>c3.
                  let s3 = s2\<lparr>ts_store := c3, ts_events := ts_events s2 @ [''ethereum_tx'']\<rparr> in
                  rbind (CheckTxFee (vk_bank D) E txFeeInfo txFee txGasLimit) (\<lambda>_.
                  rbind (CheckBlockGasLimit ctx gasWanted minPriority) (\<lambda>(meter, priority).
                  Inr (priority, s3\<lparr>ts_meter := meter\<rparr>)))))))))))))))
      | _ \<Rightarrow> Inl (Err ''expected 1 message'')))))"

section \<open>Cosmos transactions\<close>

definition effectiveGasPriceLegacyDec :: "dec \<Rightarrow> dec \<Rightarrow> dec \<Rightarrow> dec" where
  "effectiveGasPriceLegacyDec baseFee feeCap tipCap = min (tipCap + baseFee) feeCap"

text \<open>\<open>fee.Amount.QuoRaw(gas)\<close> with a gas of zero panics.\<close>

fun getTxPriority_loop :: "coins \<Rightarrow> int \<Rightarrow> int \<Rightarrow> int" where
  "getTxPriority_loop [] gas priority = priority"
| "getTxPriority_loop ((d, amount) # fees) gas priority =
     (let amt = quo (quo amount gas) DefaultPriorityReduction;
          p = (if IsInt64 amt then amt else MaxInt64)
      in getTxPriority_loop fees gas (if priority = 0 \<or> p < priority then p else priority))"

definition getTxPriority :: "coins \<Rightarrow> int \<Rightarrow> int res" where
  "getTxPriority fees gas =
     (if gas = 0 \<and> fees \<noteq> [] then Inl (Panic ''division by zero'') else Inr (getTxPriority_loop fees gas 0))"

text \<open>Rounding up to a whole number, and the SDK's comparison of coins.\<close>

definition dec_CeilInt :: "dec \<Rightarrow> int" where
  "dec_CeilInt d = - ((- d) div dec_one)"

record feeTx =
  ft_Gas :: u64
  ft_Fee :: coins
  ft_MaxPriorityPrice :: "dec option option"

definition checkTxFeeWithValidatorMinGasPrices ::
  "fm_env \<Rightarrow> (coins \<Rightarrow> coins \<Rightarrow> bool) \<Rightarrow> tx_ctx \<Rightarrow> (denom \<times> dec) list \<Rightarrow> feeTx \<Rightarrow> (coins \<times> int) res" where
  "checkTxFeeWithValidatorMinGasPrices X IsAnyGTE ctx minGasPrices tx =
     (let gas = sint (ft_Gas tx);
          requiredFees = map (\<lambda>(d, p). (d, dec_CeilInt (dec_Mul X p (LegacyNewDec gas)))) minGasPrices
      in
      if tc_IsCheckTx ctx \<and> \<not> (\<forall>(d, p)\<in>set minGasPrices. p = 0) \<and> \<not> IsAnyGTE (ft_Fee tx) requiredFees
      then Inl (Err ''insufficient fees'')
      else rbind (getTxPriority (ft_Fee tx) gas) (\<lambda>priority. Inr (ft_Fee tx, priority)))"

text \<open>
  \<open>ft_MaxPriorityPrice\<close> is \<open>None\<close> without the extension option and \<open>Some None\<close> if the option has a nil price.
\<close>

definition FeeChecker ::
  "fm_env \<Rightarrow> eth_env \<Rightarrow> 'b bank \<Rightarrow> (coins \<Rightarrow> coins \<Rightarrow> bool) \<Rightarrow> tx_ctx \<Rightarrow> (denom \<times> dec) list \<Rightarrow> fm_Params \<Rightarrow> denom \<Rightarrow> feeTx \<Rightarrow> (coins \<times> int) res" where
  "FeeChecker X G B IsAnyGTE ctx minGasPrices feemarketParams dn tx =
     (if \<not> eth_IsLondon G (tc_Height ctx) then checkTxFeeWithValidatorMinGasPrices X IsAnyGTE ctx minGasPrices tx
      else
        let baseFee = (case BaseFee feemarketParams of
                None \<Rightarrow> 0 | Some b \<Rightarrow> if IsBaseFeeEnabled feemarketParams (tc_Height ctx) then b else 0);
            maxPriorityPrice = (case ft_MaxPriorityPrice tx of
                None \<Rightarrow> LegacyNewDec MaxInt64 | Some None \<Rightarrow> 0 | Some (Some p) \<Rightarrow> p)
        in
        if maxPriorityPrice < 0 then Inl (Err ''max priority price cannot be negative'')
        else if ft_Gas tx = 0 then Inl (Err ''gas cannot be zero'')
        else
          let gas = uint (ft_Gas tx);
              feeCap = dec_QuoInt X (LegacyNewDec (coins_AmountOf B (ft_Fee tx) dn)) gas
          in
          if feeCap < baseFee then Inl (Err ''gas prices too low'')
          else
            let effectivePrice = effectiveGasPriceLegacyDec baseFee feeCap maxPriorityPrice;
                priorityInt = dec_TruncateInt X (dec_QuoInt X (effectivePrice - baseFee) DefaultPriorityReduction);
                priority = (if IsInt64 priorityInt then priorityInt else MaxInt64)
            in Inr ([(dn, dec_CeilInt (effectivePrice * gas))], priority))"

definition NewDynamicFeeChecker ::
  "fm_env \<Rightarrow> eth_env \<Rightarrow> 'b bank \<Rightarrow> (coins \<Rightarrow> coins \<Rightarrow> bool) \<Rightarrow> fm_Params \<Rightarrow> tx_ctx \<Rightarrow> (denom \<times> dec) list \<Rightarrow> denom \<Rightarrow> feeTx option \<Rightarrow> (coins \<times> int) res" where
  "NewDynamicFeeChecker X G B IsAnyGTE feemarketParams ctx minGasPrices dn tx =
     (case tx of
        None \<Rightarrow> Inl (Err ''Tx must be a FeeTx'')
      | Some t \<Rightarrow>
          if tc_Height ctx = 0 then checkTxFeeWithValidatorMinGasPrices X IsAnyGTE ctx minGasPrices t
          else FeeChecker X G B IsAnyGTE ctx minGasPrices feemarketParams dn t)"

end
