(* ===== verification/GasSearch.thy ===== *)
theory GasSearch
  imports AnteEvm
begin

text \<open>
  Termination and result of \<open>BinSearch\<close> (\<open>x/vm/types/utils.go\<close>), the search for a gas limit.
\<close>

section \<open>The search for a gas limit\<close>

definition search_ratio :: "u64 \<Rightarrow> u64 \<Rightarrow> f64" where
  "search_ratio lo hi = round64 (round64 (of_int (uint (hi - lo))) / round64 (of_int (uint hi)))"

definition search_mid :: "u64 \<Rightarrow> u64 \<Rightarrow> u64" where
  "search_mid lo hi = (let mid0 = lo + (hi - lo) div 2 in if lo * 2 < mid0 then lo * 2 else mid0)"

lemma BinSearch_eq:
  "BinSearch ex lo hi =
     (if \<not> lo + 1 < hi \<or> search_ratio lo hi < errRatio then Some (Inr hi)
      else case ex (search_mid lo hi) of
          Inl e \<Rightarrow> Some (Inl e)
        | Inr failed \<Rightarrow> if failed then BinSearch ex (search_mid lo hi) hi else BinSearch ex lo (search_mid lo hi))"
  by (subst BinSearch.simps) (auto simp: search_ratio_def search_mid_def Let_def split: sum.split)

lemma search_mid_between:
  assumes "0 < lo" "lo < hi" "hi \<le> 2 ^ 63" "lo + 1 < hi"
  shows "lo < search_mid lo hi" "search_mid lo hi < hi"
proof -
  define l h where lh: "l = uint lo" "h = uint hi"
  have b: "0 < l" "l < h" "h \<le> 2 ^ 63"
    using assms(1-3) by (simp_all add: lh word_less_def word_le_def)
  have u: "uint (lo + 1) = l + 1" using b by (simp add: lh uint_word_ariths)
  have h: "l + 1 < h" using assms(4) by (simp add: word_less_def u lh)
  have d: "uint (hi - lo) = h - l" using b by (simp add: lh uint_word_ariths)
  have d2: "uint ((hi - lo) div 2) = (h - l) div 2" by (simp add: uint_div d)
  have m0: "uint (lo + (hi - lo) div 2) = l + (h - l) div 2" using b by (simp add: uint_word_ariths d2 flip: lh)
  have "uint lo * uint (2 :: u64) < 2 ^ 64" using b by (simp add: lh)
  then have l2: "uint (lo * 2) = l * 2" using uint_mult_lem [of lo 2] by (simp add: lh)
  have "uint (search_mid lo hi) = min (l * 2) (l + (h - l) div 2)"
    by (simp add: search_mid_def Let_def word_less_def m0 l2 min_def)
  moreover have "l < l * 2" "l < l + (h - l) div 2" "l + (h - l) div 2 < h" using b h by presburger+
  ultimately have "l < uint (search_mid lo hi)" "uint (search_mid lo hi) < h" by linarith+
  then show "lo < search_mid lo hi" "search_mid lo hi < hi" unfolding word_less_def lh .
qed

lemma unat_diff_less:
  fixes lo m hi :: u64
  assumes "lo < m" "m < hi"
  shows "unat (hi - m) < unat (hi - lo)" "unat (m - lo) < unat (hi - lo)"
proof -
  have "unat lo < unat m" "unat m < unat hi" using assms by (simp_all add: word_less_nat_alt)
  moreover have "unat (hi - m) = unat hi - unat m" "unat (hi - lo) = unat hi - unat lo" "unat (m - lo) = unat m - unat lo"
    using assms by (auto intro!: unat_sub)
  ultimately show "unat (hi - m) < unat (hi - lo)" "unat (m - lo) < unat (hi - lo)" by simp_all
qed

text \<open>
  The result: an error of the execution, or a limit that is the upper end or succeeds, and that is one above, or in ratio close
  to, a limit that is the lower end or fails.
\<close>

definition search_ok :: "(u64 \<Rightarrow> bool res) \<Rightarrow> u64 \<Rightarrow> u64 \<Rightarrow> u64 res \<Rightarrow> bool" where
  "search_ok ex lo hi r \<longleftrightarrow>
     (case r of
        Inl e \<Rightarrow> \<exists>m. ex m = Inl e
      | Inr g \<Rightarrow> g \<le> hi \<and> (g = hi \<or> ex g = Inr False) \<and>
          (\<exists>l. lo \<le> l \<and> l < g \<and> (l = lo \<or> ex l = Inr True) \<and> (g = l + 1 \<or> search_ratio l g < errRatio)))"

lemma search_ok_lo:
  assumes "search_ok ex m hi r" "lo < m" "ex m = Inr True"
  shows "search_ok ex lo hi r"
proof (cases r)
  case (Inr g)
  with assms(1) obtain l where l: "m \<le> l" "l < g" "l = m \<or> ex l = Inr True" "g = l + 1 \<or> search_ratio l g < errRatio"
    "g \<le> hi" "g = hi \<or> ex g = Inr False" by (auto simp: search_ok_def)
  have "lo \<le> l" "ex l = Inr True" using l(1,3) assms(2,3) by auto
  with l(2,4-6) Inr show ?thesis unfolding search_ok_def by auto
qed (use assms(1) in \<open>simp add: search_ok_def\<close>)

lemma search_ok_hi:
  assumes "search_ok ex lo m r" "m < hi" "ex m = Inr False"
  shows "search_ok ex lo hi r"
proof (cases r)
  case (Inr g)
  with assms have "g \<le> hi" "ex g = Inr False" by (auto simp: search_ok_def)
  with assms(1) Inr show ?thesis unfolding search_ok_def by auto
qed (use assms(1) in \<open>simp add: search_ok_def\<close>)

lemma BinSearch_spec:
  assumes "0 < lo" "lo < hi" "hi \<le> 2 ^ 63"
  shows "\<exists>r. BinSearch ex lo hi = Some r \<and> search_ok ex lo hi r"
  using assms
proof (induction "unat (hi - lo)" arbitrary: lo hi rule: less_induct)
  case less
  let ?m = "search_mid lo hi"
  show ?case
  proof (cases "\<not> lo + 1 < hi \<or> search_ratio lo hi < errRatio")
    case True
    have "hi = lo + 1" if "\<not> lo + 1 < hi"
    proof -
      have "lo + 1 \<le> hi" using less.prems(2) by (simp add: inc_le)
      with that show ?thesis by simp
    qed
    with True less.prems have "search_ok ex lo hi (Inr hi)" unfolding search_ok_def by auto
    with True show ?thesis by (subst BinSearch_eq) simp
  next
    case False
    then have m: "lo < ?m" "?m < hi" using search_mid_between [OF less.prems] by simp_all
    have lt: "unat (hi - ?m) < unat (hi - lo)" "unat (?m - lo) < unat (hi - lo)"
      using unat_diff_less [OF m] by simp_all
    show ?thesis
    proof (cases "ex ?m")
      case (Inl e)
      then have "search_ok ex lo hi (Inl e)" unfolding search_ok_def by auto
      with False Inl show ?thesis by (subst BinSearch_eq) simp
    next
      case (Inr failed)
      show ?thesis
      proof (cases failed)
        case True
        have "0 < ?m" using m(1) less.prems(1) by simp
        from less.hyps [OF lt(1) this m(2) less.prems(3)] obtain r where r: "BinSearch ex ?m hi = Some r"
          "search_ok ex ?m hi r" by (auto simp: search_ok_def)
        have "search_ok ex lo hi r" using search_ok_lo [OF r(2) m(1)] Inr True by simp
        with r(1) show ?thesis using False Inr True by (subst BinSearch_eq) simp
      next
        case f: False
        have "?m \<le> 2 ^ 63" using m(2) less.prems(3) by simp
        from less.hyps [OF lt(2) less.prems(1) m(1) this] obtain r where r: "BinSearch ex lo ?m = Some r"
          "search_ok ex lo ?m r" by (auto simp: search_ok_def)
        have "search_ok ex lo hi r" using search_ok_hi [OF r(2) m(2)] Inr f by simp
        with r(1) show ?thesis using False Inr f by (subst BinSearch_eq) simp
      qed
    qed
  qed
qed

text \<open>With a lower limit of zero the search does not move.\<close>

lemma BinSearch_zero:
  assumes "1 < hi" "ex 0 = Inr True"
  shows "BinSearch ex 0 hi = None"
proof -
  have one: "round64 (round64 (of_int (uint hi)) / round64 (of_int (uint hi))) = (1 :: rat)"
  proof -
    have "(of_int 1 :: rat) \<le> of_int (uint hi)" unfolding of_int_le_iff using assms(1) by (simp add: word_less_def)
    from round64_mono [OF _ this] have "round64 1 \<le> round64 (of_int (uint hi))" by simp
    then show ?thesis using round64_int [of 1] by simp
  qed
  have small: "errRatio < 1"
  proof -
    have "errRatio \<le> round64 (1 / 2)" unfolding errRatio_def by (intro round64_mono) simp_all
    also have "round64 (1 / 2) = 1 / 2" using round64_exact [of 1 "- 1"] by (simp add: power_int_def)
    finally show ?thesis by simp
  qed
  have "lo \<noteq> 0 \<or> h \<noteq> hi \<or> e \<noteq> ex" if run: "BinSearch e lo h = Some r" for e lo h r
    apply (rule BinSearch.raw_induct [where P = "\<lambda>e lo h r. lo \<noteq> 0 \<or> h \<noteq> hi \<or> e \<noteq> ex", OF _ run])
    subgoal premises p for BS e lo h r
    proof (rule ccontr)
      assume "\<not> ?thesis"
      then have "BS ex 0 hi = Some r" using p(2) one small assms by (simp add: Let_def word_greater_zero_iff split: if_splits)
      from p(1) [OF this] show False by simp
    qed
    done
  then show ?thesis by (cases "BinSearch ex 0 hi") auto
qed

end
