(* ===== verification/TxFees.thy ===== *)
theory TxFees
  imports GasSearch ChainCommit FeeMarketProps SvipPool
begin

text \<open>
  The money and the gas of an Ethereum transaction: what the fee deduction and the refund move, that both use the
  same price, and the bounds of the gas that is charged.
\<close>

section \<open>Laws\<close>

text \<open>
  \<open>DeductFees\<close> of the SDK sends the fees from the account to the fee collector; the sort and the zero test of
  coins; the fee collector has an address; storing a new account changes no balance.
\<close>

locale fee_laws = vm_env D binv for D :: "('b, 'a) vmKeeper" and binv :: "'b \<Rightarrow> bool" +
  fixes F :: "('b, 'a) fee_env"
  assumes DeductFees_sends: "auth_DeductFees F send acc fees s = Inr s' \<Longrightarrow> send (au_Address D acc) FeeCollectorName fees s = Inr s'"
    and Sort_single: "coins_Sort F [c] = [c]"
    and IsZero_single: "coins_IsZero F [(d, n)] \<longleftrightarrow> n = 0"
    and IsZero_Nil: "coins_IsZero F []"
    and fee_module: "ak_GetModuleAddress (vk_bank D) FeeCollectorName \<noteq> []"
    and SetAccount_fresh: "binv b \<Longrightarrow> au_GetAccount D b a = None \<Longrightarrow> au_NewAccountWithAddress D b a = (acc, b') \<Longrightarrow>
      binv (au_SetAccount D b' acc) \<and> same_money (vk_bank D) {} b' (au_SetAccount D b' acc)"

text \<open>The effective price of EIP-1559, the conversion of a transaction into a message and what the validation of a transaction checks of the prices.\<close>

locale eth_laws =
  fixes G :: eth_env
  assumes EffectiveGasTip: "eth_EffectiveGasTip G tx (Some b) = min (tx_GasTipCap tx) (tx_GasFeeCap tx - b)"
    and TransactionToMessage: "eth_TransactionToMessage G h t tx (Some b) = Inr msg \<Longrightarrow>
      m_GasLimit msg = tx_Gas tx \<and> m_GasPrice msg = min (tx_GasTipCap tx + b) (tx_GasFeeCap tx) \<and> eth_Sender G h t tx = Inr (m_From msg)"
    and ValidateTransaction: "eth_ValidateTransaction G h t gas (Some b) tx = Inr () \<Longrightarrow> 0 \<le> tx_GasTipCap tx \<and> tx_GasTipCap tx \<le> tx_GasFeeCap tx"

section \<open>Addresses\<close>

lemma fold_address_Bytes:
  "n \<le> 20 \<Longrightarrow>
   fold (\<lambda>b h. push_bit 8 h OR ucast b)
     (map (\<lambda>i. ucast (drop_bit (8 * (19 - i)) (a :: address)) :: 8 word) [0..<n]) (0 :: address)
   = drop_bit (8 * (20 - n)) a"
proof (induction n)
  case 0
  have "drop_bit 160 a = 0" by (rule bit_word_eqI) (simp add: bit_drop_bit_eq bit_imp_le_length)
  then show ?case by simp
next
  case (Suc n)
  have "push_bit 8 (drop_bit (8 * (20 - n)) a) OR ucast (ucast (drop_bit (8 * (19 - n)) a) :: 8 word)
      = drop_bit (8 * (20 - Suc n)) a"
  proof -
    have "8 * (20 - n) = 8 * (19 - n) + 8" "8 * (20 - Suc n) = 8 * (19 - n)" using Suc.prems by simp_all
    then show ?thesis using shift_byte [of "8 * (19 - n)" a] by simp
  qed
  with Suc show ?case by simp
qed

lemma BytesToAddress_address_Bytes [simp]: "BytesToAddress (address_Bytes a) = a"
  using fold_address_Bytes [of 20 a] by (simp add: BytesToAddress_def address_Bytes_def)

section \<open>Deduction and refund\<close>

context fee_laws
begin

abbreviation fc :: AccAddress where
  "fc \<equiv> ak_GetModuleAddress (vk_bank D) FeeCollectorName"

lemma fc_not_reserve: "fc \<noteq> reserve (vk_bank D)"
  using reserve_name [of FeeCollectorName] by (auto simp: FeeCollectorName_def pb_ModuleName_def)

lemma converted: "0 < n \<Longrightarrow> ConvertCoinsDenomToExtendedDenom (coins_Sort F) (vk_coin D) [(Denom (vk_coin D), n)] = [(ExtendedDenom (vk_coin D), n)]"
  by (simp add: ConvertCoinsDenomToExtendedDenom_def ConvertEvmCoinDenomToExtendedDenom_def Sort_single)

lemma deduct_spec:
  assumes inv: "pb_inv (vk_coin D) (vk_bank D) binv s" and a: "address_Bytes a \<noteq> reserve (vk_bank D)"
    and G: "au_GetAccount D (pbank s) (reserve (vk_bank D)) \<noteq> None" "au_GetAccount D (pbank s) fc \<noteq> None"
    and v: "\<not> virtualFeeCollection F" and n: "0 < n"
    and run: "DeductTxCostsFromUserBalance F D ci [(Denom (vk_coin D), n)] a s = Inr s'"
  shows "pb_inv (vk_coin D) (vk_bank D) binv s' \<and> au_GetAccount D (pbank s') = au_GetAccount D (pbank s) \<and>
    ext_moved (vk_coin D) (vk_bank D) s s' (\<lambda>x. (if x = fc then n else 0) - (if x = address_Bytes a then n else 0)) (\<lambda>_ _. 0) 0"
proof -
  let ?cs = "[(ExtendedDenom (vk_coin D), n)]" and ?Q = "\<lambda>b. au_GetAccount D b = au_GetAccount D (pbank s)"
  have binv: "binv (pbank s)" using inv by (simp add: pb_inv_def)
  obtain acc where acc: "au_GetAccount D (pbank s) (address_Bytes a) = Some acc"
    "auth_DeductFees F (bw_SendCoinsFromAccountToModule (coins_Sort F) (coins_IsZero F) D) acc [(Denom (vk_coin D), n)] s = Inr s'"
    using run v by (auto simp: DeductTxCostsFromUserBalance_def split: option.splits)
  have "bw_SendCoinsFromAccountToModule (coins_Sort F) (coins_IsZero F) D (address_Bytes a) FeeCollectorName [(Denom (vk_coin D), n)] s = Inr s'"
    using DeductFees_sends [OF acc(2)] GetAccount_address [OF binv acc(1)] by simp
  then have "pb_SendCoinsFromAccountToModule (vk_coin D) (vk_bank D) (address_Bytes a) FeeCollectorName ?cs s = Inr s'"
    using n by (simp add: bw_SendCoinsFromAccountToModule_def Let_def converted IsZero_single)
  then obtain ma b0 where s1: "ak_GetModuleAccount (vk_bank D) (pbank s) FeeCollectorName = (Some ma, b0)"
    "pb_SendCoins (vk_coin D) (vk_bank D) (address_Bytes a) (ma_Address ma) ?cs (s\<lparr>pbank := b0\<rparr>) = Inr s'"
    by (auto simp: pb_SendCoinsFromAccountToModule_def split: if_splits prod.splits option.splits)
  note fr = accounts_frame [of "au_GetAccount D (pbank s)"] and ma = module_account_inv [OF inv s1(1)]
  have b: "binv (pbank s) \<and> ?Q (pbank s)" using inv by (simp add: pb_inv_def)
  have b0: "binv b0 \<and> ?Q b0" by (rule frame_calls(4) [OF fr b _ s1(1)]) (use G in simp)
  have b1: "binv (pbank s') \<and> ?Q (pbank s')"
    by (rule pb_SendCoins_keeps [OF fr _ _ _ a _ s1(2)]) (use G b0 ma(2) fc_not_reserve in simp_all)
  have z: "ext_moved (vk_coin D) (vk_bank D) s (s\<lparr>pbank := b0\<rparr>) (\<lambda>_. 0) (\<lambda>_ _. 0) 0"
    using passthrough [OF inv _ _, of b0 "\<lambda>_ _. 0" "\<lambda>_. 0"] GetModuleAccount_keeps [OF _ s1(1)] b by auto
  have "ma_Address ma \<noteq> reserve (vk_bank D)" using ma(2) fc_not_reserve by simp
  note t = pb_SendCoins_spec [OF ma(1) a this address_Bytes_ne ma(3) s1(2), unfolded single_value [OF n] ma(2)]
  have "ext_moved (vk_coin D) (vk_bank D) s s' (\<lambda>x. (if x = fc then n else 0) - (if x = address_Bytes a then n else 0)) (\<lambda>_ _. 0) 0"
    by (intro ext_moved_cong [OF ext_moved_trans [OF z t [THEN conjunct2]]]) (auto simp: transfer_def)
  with t b1 show ?thesis by blast
qed

lemma refund_spec:
  assumes inv: "pb_inv (vk_coin D) (vk_bank D) binv s" and a: "address_Bytes (m_From msg) \<noteq> reserve (vk_bank D)"
    and v: "\<not> virtualFeeCollection F" and run: "RefundGas F D msg gas (Denom (vk_coin D)) s = Inr s'"
  shows "pb_inv (vk_coin D) (vk_bank D) binv s' \<and>
    ext_moved (vk_coin D) (vk_bank D) s s'
      (\<lambda>x. (if x = address_Bytes (m_From msg) then uint gas * m_GasPrice msg else 0) - (if x = fc then uint gas * m_GasPrice msg else 0)) (\<lambda>_ _. 0) 0"
proof -
  define n where "n = uint gas * m_GasPrice msg"
  note r = run [unfolded RefundGas_def Let_def, folded n_def]
  have "\<not> n < 0" using r by auto
  then consider (none) "n = 0" | (some) "0 < n" by linarith
  then show ?thesis unfolding n_def [symmetric]
  proof cases
    case none
    then show "pb_inv (vk_coin D) (vk_bank D) binv s' \<and> ext_moved (vk_coin D) (vk_bank D) s s'
        (\<lambda>x. (if x = address_Bytes (m_From msg) then n else 0) - (if x = fc then n else 0)) (\<lambda>_ _. 0) 0"
      using r inv by (simp add: ext_moved_def)
  next
    case some
    then have "bw_SendCoinsFromModuleToAccount (coins_Sort F) (coins_IsZero F) D FeeCollectorName (address_Bytes (m_From msg)) [(Denom (vk_coin D), n)] s = Inr s'"
      using r v by simp
    then have "pb_SendCoins (vk_coin D) (vk_bank D) fc (address_Bytes (m_From msg)) [(ExtendedDenom (vk_coin D), n)] s = Inr s'"
      using some by (auto simp: bw_SendCoinsFromModuleToAccount_def Let_def converted IsZero_single pb_SendCoinsFromModuleToAccount_def split: if_splits)
    note t = pb_SendCoins_spec [OF inv fc_not_reserve a fee_module address_Bytes_ne this, unfolded single_value [OF some]]
    have "ext_moved (vk_coin D) (vk_bank D) s s'
        (\<lambda>x. (if x = address_Bytes (m_From msg) then n else 0) - (if x = fc then n else 0)) (\<lambda>_ _. 0) 0"
      by (rule ext_moved_cong [OF conjunct2 [OF t]]) (auto simp: transfer_def)
    with t show "pb_inv (vk_coin D) (vk_bank D) binv s' \<and> ext_moved (vk_coin D) (vk_bank D) s s'
        (\<lambda>x. (if x = address_Bytes (m_From msg) then n else 0) - (if x = fc then n else 0)) (\<lambda>_ _. 0) 0" by blast
  qed
qed

end

section \<open>The gas that is charged\<close>

lemma quo_pos: "0 \<le> a \<Longrightarrow> 0 < b \<Longrightarrow> quo a b = a div b"
  by (simp add: quo_nonneg_eq)

lemma sint_small: "uint (w :: u64) < 2 ^ 63 \<Longrightarrow> sint w = uint w"
  by (simp add: sint_uint signed_take_bit_eq_if_positive bit_iff_odd take_bit_int_eq_self)

lemma GasToRefund_le:
  assumes "GasToRefund av used q = Inr rf"
  shows "uint rf \<le> uint used div uint q" "uint rf \<le> uint av"
  using assms by (auto simp: GasToRefund_def Let_def word_less_def uint_div split: if_splits)

text \<open>The gas after the refund and the floor, as numbers.\<close>

lemma settle_gas_spec:
  assumes "settle_gas prague gl fl lo rf = (left, used, mx)" "lo \<le> gl" "fl \<le> gl" "uint rf \<le> uint gl - uint lo"
  shows "uint used = (if prague then max (uint gl - uint lo - uint rf) (uint fl) else uint gl - uint lo - uint rf)"
    "uint left = uint gl - uint used" "uint mx = (if prague then max (uint gl - uint lo) (uint fl) else uint gl - uint lo)"
    "uint used \<le> uint gl" "uint used \<le> uint mx" "uint mx \<le> uint gl" "prague \<longrightarrow> uint fl \<le> uint used" "uint mx - uint used \<le> uint rf"
proof -
  have b: "uint lo \<le> uint gl" "uint fl \<le> uint gl" "0 \<le> uint rf" "0 \<le> uint lo" "0 \<le> uint fl" "uint gl < 2 ^ 64"
    using assms(2,3) uint_lt2p [of gl] by (simp_all add: word_le_def)
  have d: "uint (gl - lo) = uint gl - uint lo" "uint (gl - fl) = uint gl - uint fl"
    using assms(2,3) by (simp_all add: uint_minus_simple_alt)
  have "rf \<le> gl - lo" using assms(4) d by (simp add: word_le_def)
  then have t: "uint (gl - lo - rf) = uint gl - uint lo - uint rf" using d by (simp add: uint_minus_simple_alt)
  have "uint lo + uint rf < 2 ^ 64" using b assms(4) by linarith
  then have l: "uint (lo + rf) = uint lo + uint rf" using uint_add_lem [of lo rf] by simp
  note s = assms(1) [unfolded settle_gas_def Let_def word_less_def t d]
  show u: "uint used = (if prague then max (uint gl - uint lo - uint rf) (uint fl) else uint gl - uint lo - uint rf)"
    using s t by (auto simp: max_def split: if_splits)
  show m: "uint mx = (if prague then max (uint gl - uint lo) (uint fl) else uint gl - uint lo)"
    using s d by (auto simp: max_def split: if_splits)
  show "uint left = uint gl - uint used" using s t d l by (auto split: if_splits)
  show "uint used \<le> uint gl" "uint used \<le> uint mx" "uint mx \<le> uint gl" "prague \<longrightarrow> uint fl \<le> uint used" "uint mx - uint used \<le> uint rf"
    using u m b by (cases prague; simp only: if_True if_False simp_thms; linarith)+
qed

context fm_laws
begin

lemma charge_gas_spec:
  assumes "charge_gas X m internal gl left used = Inr g" "uint used \<le> uint gl" "uint gl < 2 ^ 63"
    and mult: "\<forall>d. m = Some d \<longrightarrow> 0 \<le> d \<and> d \<le> dec_one"
  shows "uint g = (if internal then uint used else max (uint used) (uint gl * (case m of None \<Rightarrow> 0 | Some d \<Rightarrow> d) div dec_one))"
    "uint used \<le> uint g" "uint g \<le> uint gl"
proof -
  define d where "d = (case m of None \<Rightarrow> 0 | Some d \<Rightarrow> d)"
  have d: "0 \<le> d" "d \<le> dec_one" using mult by (auto simp: d_def dec_one_def split: option.splits)
  have one: "0 < dec_one" by (simp add: dec_one_def)
  have mul: "dec_Mul X (uint gl * dec_one) d = uint gl * d" using Mul_integer [of "uint gl" d] by (simp add: LegacyNewDec_def)
  have "sint used = uint used" using assms(2,3) by (intro sint_small) linarith
  then have n: "g = word_of_int (quo (if internal then uint used * dec_one else max (uint used * dec_one) (uint gl * d)) dec_one)"
    using assms(1) unfolding charge_gas_def Let_def d_def [symmetric]
    by (auto simp: mul TruncateInt_truncates LegacyNewDec_def split: if_splits)
  have "uint gl * d \<le> uint gl * dec_one" using d(2) by (intro mult_left_mono) simp_all
  then have le: "uint gl * d div dec_one \<le> uint gl" using zdiv_mono1 [of "uint gl * d" "uint gl * dec_one" dec_one] one by simp
  have q: "quo (max (uint used * dec_one) (uint gl * d)) dec_one = max (uint used) (uint gl * d div dec_one)"
  proof -
    have "max (uint used * dec_one) (uint gl * d) div dec_one = max (uint used * dec_one div dec_one) (uint gl * d div dec_one)"
      by (rule max_of_mono [symmetric, OF monoI]) (use one in \<open>simp add: zdiv_mono1\<close>)
    moreover have "0 \<le> max (uint used * dec_one) (uint gl * d)" using one by (simp add: le_max_iff_disj)
    ultimately show ?thesis using one by (simp add: quo_pos)
  qed
  have "uint used * dec_one div dec_one = uint used" using one by simp
  then have "g = word_of_int (if internal then uint used else max (uint used) (uint gl * d div dec_one))"
    using n q one by (simp add: quo_pos split: if_splits)
  moreover have "0 \<le> (if internal then uint used else max (uint used) (uint gl * d div dec_one))"
    "(if internal then uint used else max (uint used) (uint gl * d div dec_one)) \<le> uint gl" using assms(2) le by (simp_all add: le_max_iff_disj)
  ultimately have g: "uint g = (if internal then uint used else max (uint used) (uint gl * d div dec_one))"
    using uint_lt2p [of gl] by (simp only: uint_word_of_int) (rule mod_pos_pos_trivial, simp_all)
  from g show "uint g = (if internal then uint used else max (uint used) (uint gl * (case m of None \<Rightarrow> 0 | Some d \<Rightarrow> d) div dec_one))"
    by (simp add: d_def)
  show "uint used \<le> uint g" "uint g \<le> uint gl" using g assms(2) le by simp_all
qed

end

end
