(* ===== verification/TxAnte.thy ===== *)
theory TxAnte
  imports TxFees
begin

text \<open>
  What the ante handler does to the state: the fee at the effective price goes to the fee collector and the sequence
  of the sender is one higher.
\<close>

section \<open>Laws\<close>

text \<open>The parts of the keeper behave as documented, and no signature is by the reserve.\<close>

locale tx_laws = fee_laws "te_D T" binv "te_F T" + eth_laws "te_G T" + fm_laws "te_X T"
  for T :: "('b, 'a) tx_env" and binv :: "'b \<Rightarrow> bool" +
  assumes signer: "eth_Sender (te_G T) h t tx = Inr a \<Longrightarrow> address_Bytes a \<noteq> reserve (vk_bank (te_D T))"

definition tx_price :: "int \<Rightarrow> ethTx \<Rightarrow> int" where
  "tx_price b tx = min (tx_GasTipCap tx + b) (tx_GasFeeCap tx)"

abbreviation tx_collector :: "('b, 'a) tx_env \<Rightarrow> AccAddress" where
  "tx_collector T \<equiv> ak_GetModuleAddress (vk_bank (te_D T)) FeeCollectorName"

text \<open>The books are in order and the module accounts of the fees exist.\<close>

definition tx_good :: "('b, 'a) tx_env \<Rightarrow> ('b \<Rightarrow> bool) \<Rightarrow> 'b txState \<Rightarrow> bool" where
  "tx_good T binv s \<longleftrightarrow>
     pb_inv (vk_coin (te_D T)) (vk_bank (te_D T)) binv (vm_pb (ts_store s)) \<and>
     au_GetAccount (te_D T) (vm_bank_state (ts_store s)) (reserve (vk_bank (te_D T))) \<noteq> None \<and>
     au_GetAccount (te_D T) (vm_bank_state (ts_store s)) (tx_collector T) \<noteq> None"

text \<open>An amount goes from one account to another; no other balance, no code and no storage changes.\<close>

definition paid :: "('b, 'a) tx_env \<Rightarrow> 'b txState \<Rightarrow> 'b txState \<Rightarrow> AccAddress \<Rightarrow> AccAddress \<Rightarrow> int \<Rightarrow> bool" where
  "paid T s s' from to n \<longleftrightarrow>
     ext_moved (vk_coin (te_D T)) (vk_bank (te_D T)) (vm_pb (ts_store s)) (vm_pb (ts_store s'))
       (\<lambda>x. (if x = to then n else 0) - (if x = from then n else 0)) (\<lambda>_ _. 0) 0 \<and>
     ts_store s' = (ts_store s)\<lparr>vm_pb := vm_pb (ts_store s')\<rparr>"

lemma paid_trans: "paid T s t a b m \<Longrightarrow> paid T t u a b n \<Longrightarrow> paid T s u a b (m + n)"
  by (auto simp: paid_def ext_moved_def) (metis vmStore.surjective vmStore.update_convs(1) vmStore.cases)

lemma paid_back: "paid T s t a b n \<Longrightarrow> paid T s t b a (- n)"
  by (auto simp: paid_def ext_moved_def)

lemma paid_same: "ts_store t = ts_store s \<Longrightarrow> paid T s t a b 0"
  by (simp add: paid_def ext_moved_def)

section \<open>The checks that an accepted transaction has passed\<close>

lemma AnteHandle_inv:
  assumes run: "AnteHandle T dflt mg ep fp ctx tx sim s = Inr (prio, s')"
  obtains m etx a b c1 fees s2 acc c3 where
    "ct_Msgs tx = [EthMsg m]" "me_Raw m = Some etx" "eth_Sender (te_G T) (tc_Height ctx) (tc_Time ctx) etx = Inr a"
    "me_From m = address_Bytes a" "GetBaseFee (te_X T) (te_G T) (vk_coin (te_D T)) (tc_Height ctx) fp = Inr (Some b)"
    "eth_ValidateTransaction (te_G T) (tc_Height ctx) (tc_Time ctx) (tx_Gas etx) (Some b) etx = Inr ()"
    "VerifyAccountBalance (te_G T) (te_D T) (vm_GetAccount (te_D T) (ts_store s) a) a etx (ts_store s) = Inr c1"
    "fees = (let n = uint (tx_Gas etx) * (eth_EffectiveGasTip (te_G T) etx (Some b) + b) in if n = 0 then [] else [(Denom (vk_coin (te_D T)), n)])"
    "ConsumeFeesAndEmitEvent T dflt fees (address_Bytes a) (s\<lparr>ts_store := c1\<rparr>) = Inr s2"
    "au_GetAccount (te_D T) (vm_bank_state (ts_store s2)) (address_Bytes a) = Some acc"
    "IncrementNonce (te_D T) acc (tx_Nonce etx) (ts_store s2) = Inr c3"
    "ts_store s' = c3" "ts_config s' = ts_config s2" "ts_fm s' = ts_fm s2" "b \<le> tx_GasFeeCap etx"
proof -
  obtain m etx where m: "ct_Msgs tx = [EthMsg m]" "me_Raw m = Some etx"
  proof (cases "ct_Msgs tx")
    case Nil
    with run show ?thesis by (auto simp: AnteHandle_def rbind_eq_Inr)
  next
    case (Cons x xs)
    then have "xs = []" using run by (cases xs) (auto simp: AnteHandle_def rbind_eq_Inr)
    moreover obtain m where "x = EthMsg m" using run Cons calculation
      by (cases x) (auto simp: AnteHandle_def rbind_eq_Inr UnpackEthMsg_def)
    moreover obtain etx where "me_Raw m = Some etx" using run Cons calculation
      by (cases "me_Raw m") (auto simp: AnteHandle_def rbind_eq_Inr UnpackEthMsg_def)
    ultimately show ?thesis using that Cons by simp
  qed
  note r = run [unfolded AnteHandle_def Let_def m list.case UnpackEthMsg_def sdk_msg.case, simplified rbind_Inr prod.case,
      unfolded m option.case]
  from r show thesis unfolding rbind_eq_Inr
    apply (elim exE conjE)
    subgoal premises p for fi u du v u1 fa u2 u3 u4 c1 u5 fees s2
    proof -
      have bf: "GetBaseFee (te_X T) (te_G T) (vk_coin (te_D T)) (tc_Height ctx) fp = Inr (du_BaseFee du)"
        using p(3) by (auto simp: NewMonoDecoratorUtils_def rbind_eq_Inr Let_def split: if_splits)
      obtain b where b: "du_BaseFee du = Some b" "b \<le> tx_GasFeeCap etx"
        "fees = (let n = uint (tx_Gas etx) * (eth_EffectiveGasTip (te_G T) etx (Some b) + b) in if n = 0 then [] else [(Denom (vk_coin (te_D T)), n)])"
        using p(12) by (auto simp: VerifyFee_def rbind_eq_Inr Let_def split: option.splits if_splits)
      obtain a where a: "eth_Sender (te_G T) (tc_Height ctx) (tc_Time ctx) etx = Inr a" "me_From m = address_Bytes a"
        using p(9) by (auto simp: SignatureVerification_def VerifySender_def rbind_eq_Inr split: if_splits)
      obtain acc c3 where acc: "au_GetAccount (te_D T) (vm_bank_state (ts_store s2)) (address_Bytes a) = Some acc"
        "IncrementNonce (te_D T) acc (tx_Nonce etx) (ts_store s2) = Inr c3"
        "ts_store s' = c3" "ts_config s' = ts_config s2" "ts_fm s' = ts_fm s2"
        using p(14) a(2) by (auto simp: rbind_eq_Inr split: option.splits prod.splits)
      show thesis
        by (rule that [OF m a _ _ _ b(3) _ acc b(2)]) (use p(4,10,13) bf b(1) a(2) in simp_all)
    qed
    done
qed

section \<open>The effect of the ante handler\<close>

lemma factor_pos: "Decimals_ConversionFactor d = Some f \<Longrightarrow> 0 < f"
  unfolding Decimals_ConversionFactor_def
  by (drule map_of_SomeD) (auto simp: ConversionFactor_table_def)

lemma kept_money:
  assumes "pb_inv E B binv s" "binv b" "same_money B {} (pbank s) b"
  shows "pb_inv E B binv (s\<lparr>pbank := b\<rparr>) \<and> ext_moved E B s (s\<lparr>pbank := b\<rparr>) (\<lambda>_. 0) (\<lambda>_ _. 0) 0"
  using assms by (auto simp: pb_inv_def ext_moved_def same_money_def pb_GetBalance_def pb_SpendableCoin_def
      GetFractionalBalance_def GetRemainderAmount_def)

context tx_laws
begin

abbreviation "the_reserve \<equiv> reserve (vk_bank (te_D T))"

lemma tip_price: "eth_EffectiveGasTip (te_G T) tx (Some b) + b = tx_price b tx"
  by (simp add: EffectiveGasTip tx_price_def)

lemma tx_good_with_account:
  assumes g: "tx_good T binv s" and b: "binv b" "same_money (vk_bank (te_D T)) {} (vm_bank_state (ts_store s)) b"
    "au_GetAccount (te_D T) b = (au_GetAccount (te_D T) (vm_bank_state (ts_store s)))(x \<mapsto> acc)"
    and t: "ts_store t = vm_with_bank (ts_store s) b"
  shows "tx_good T binv t \<and> paid T s t u v 0"
  using kept_money [of "vk_coin (te_D T)" "vk_bank (te_D T)" binv "vm_pb (ts_store s)" b] g b t
  by (auto simp: tx_good_def paid_def vm_bank_state_def vm_with_bank_def)

lemma VerifyAccountBalance_spec:
  assumes g: "tx_good T binv s"
    and run: "VerifyAccountBalance G (te_D T) (vm_GetAccount (te_D T) (ts_store s) a) a etx (ts_store s) = Inr c1"
  shows "tx_good T binv (s\<lparr>ts_store := c1\<rparr>) \<and> paid T s (s\<lparr>ts_store := c1\<rparr>) u v 0 \<and>
    (\<forall>x. x \<noteq> address_Bytes a \<or> au_GetAccount (te_D T) (vm_bank_state (ts_store s)) x \<noteq> None \<longrightarrow>
       au_GetAccount (te_D T) (vm_bank_state c1) x = au_GetAccount (te_D T) (vm_bank_state (ts_store s)) x)"
proof (cases "au_GetAccount (te_D T) (vm_bank_state (ts_store s)) (address_Bytes a)")
  case (Some acc)
  then have "c1 = ts_store s" using run
    by (auto simp: VerifyAccountBalance_def vm_GetAccount_def vm_GetAccountWithoutBalance_def Let_def rbind_eq_Inr split: option.splits if_splits)
  with g show ?thesis by (simp add: paid_same)
next
  case None
  let ?b = "vm_bank_state (ts_store s)"
  have binv: "binv ?b" using g by (simp add: tx_good_def pb_inv_def vm_bank_state_def)
  obtain acc b1 where n: "au_NewAccountWithAddress (te_D T) ?b (address_Bytes a) = (acc, b1)" by fastforce
  have c1: "c1 = vm_with_bank (ts_store s) (au_SetAccount (te_D T) b1 acc)" using run None n
    by (simp add: VerifyAccountBalance_def vm_GetAccount_def vm_GetAccountWithoutBalance_def Let_def rbind_eq_Inr vm_with_bank_def vm_bank_state_def)
  note new = NewAccount [OF binv n] SetAccount_fresh [OF binv None n]
  then have au: "au_GetAccount (te_D T) (au_SetAccount (te_D T) b1 acc) = (au_GetAccount (te_D T) ?b)(address_Bytes a \<mapsto> acc)"
    by (auto simp: SetAccount_get fun_eq_iff)
  moreover have "same_money (vk_bank (te_D T)) {} ?b (au_SetAccount (te_D T) b1 acc)" using new by (auto simp: same_money_def)
  ultimately show ?thesis using tx_good_with_account [OF g _ _ au, of "s\<lparr>ts_store := c1\<rparr>" u v] new c1 None
    by (simp add: vm_with_bank_def vm_bank_state_def)
qed

lemma ConsumeFees_spec:
  assumes g: "tx_good T binv s" and a: "address_Bytes a \<noteq> the_reserve" and v: "\<not> virtualFeeCollection (te_F T)" and n: "0 \<le> n"
    and run: "ConsumeFeesAndEmitEvent T dflt (if n = 0 then [] else [(Denom (vk_coin (te_D T)), n)]) (address_Bytes a) s = Inr s'"
  shows "tx_good T binv s' \<and> paid T s s' (address_Bytes a) (tx_collector T) n \<and>
    au_GetAccount (te_D T) (vm_bank_state (ts_store s')) = au_GetAccount (te_D T) (vm_bank_state (ts_store s)) \<and>
    ts_config s' = ts_config s \<and> ts_fm s' = ts_fm s"
proof (cases "n = 0")
  case True
  then show ?thesis using run g IsZero_Nil by (auto simp: ConsumeFeesAndEmitEvent_def ante_deductFees_def tx_good_def paid_def ext_moved_def)
next
  case False
  obtain pb where pb: "DeductTxCostsFromUserBalance (te_F T) (te_D T) (GetEvmCoinInfo dflt (ts_config s)) [(Denom (vk_coin (te_D T)), n)] a
      (vm_pb (ts_store s)) = Inr pb" "s' = s\<lparr>ts_store := (ts_store s)\<lparr>vm_pb := pb\<rparr>, ts_events := ts_events s @ [''tx'']\<rparr>"
    using run False by (auto simp: ConsumeFeesAndEmitEvent_def ante_deductFees_def IsZero_single rbind_eq_Inr)
  from deduct_spec [OF _ a _ _ v _ pb(1)] g n False show ?thesis
    by (auto simp: tx_good_def paid_def vm_bank_state_def pb(2))
qed

lemma IncrementNonce_spec:
  assumes g: "tx_good T binv s" and acc: "au_GetAccount (te_D T) (vm_bank_state (ts_store s)) x = Some acc"
    and run: "IncrementNonce (te_D T) acc nonce (ts_store s) = Inr c"
  shows "au_Sequence (te_D T) acc = nonce \<and> nonce \<noteq> - 1 \<and> tx_good T binv (s\<lparr>ts_store := c\<rparr>) \<and> paid T s (s\<lparr>ts_store := c\<rparr>) u v 0 \<and>
    (\<exists>acc'. au_GetAccount (te_D T) (vm_bank_state c) = (au_GetAccount (te_D T) (vm_bank_state (ts_store s)))(x \<mapsto> acc') \<and>
      au_Sequence (te_D T) acc' = nonce + 1)"
proof -
  let ?b = "vm_bank_state (ts_store s)"
  have binv: "binv ?b" using g by (simp add: tx_good_def pb_inv_def vm_bank_state_def)
  obtain acc' where r: "au_Sequence (te_D T) acc = nonce" "nonce \<noteq> - 1" "au_SetSequence (te_D T) acc (nonce + 1) = Inr acc'"
    "c = vm_with_bank (ts_store s) (au_SetAccount (te_D T) ?b acc')"
    using run by (auto simp: IncrementNonce_def Let_def rbind_eq_Inr split: if_splits)
  have au: "au_GetAccount (te_D T) (au_SetAccount (te_D T) ?b acc') = (au_GetAccount (te_D T) ?b)(x \<mapsto> acc')"
    using SetSequence [OF r(3)] GetAccount_address [OF binv acc] by (auto simp: SetAccount_get fun_eq_iff)
  from tx_good_with_account [OF g _ _ au, of "s\<lparr>ts_store := c\<rparr>" u v] SetAccount_old [OF binv acc r(3)] r au SetSequence [OF r(3)] show ?thesis
    by (auto simp: vm_with_bank_def vm_bank_state_def)
qed

lemma GetBaseFee_nonneg:
  assumes "GetBaseFee (te_X T) G E h p = Inr (Some b)" "fm_valid p"
  shows "0 \<le> b"
proof -
  have "0 \<le> quo (c * f) dec_one" if "0 \<le> c" "Decimals_ConversionFactor d = Some f" for c f d
    using that factor_pos [of d f] by (intro quo_nonneg) (auto simp: dec_one_def)
  with assms show ?thesis
    by (auto simp: GetBaseFee_def fm_valid_iff rbind_eq_Inr ConvertAmountTo18DecimalsLegacy_def TruncateInt_truncates
        split: if_splits option.splits)
qed

lemma ante_spec:
  assumes g: "tx_good T binv s" and v: "\<not> virtualFeeCollection (te_F T)" and fp: "fm_valid fp"
    and run: "AnteHandle T dflt mg ep fp ctx tx sim s = Inr (prio, s')"
  obtains m etx a b acc' where
    "ct_Msgs tx = [EthMsg m]" "me_Raw m = Some etx" "eth_Sender (te_G T) (tc_Height ctx) (tc_Time ctx) etx = Inr a"
    "me_From m = address_Bytes a" "GetBaseFee (te_X T) (te_G T) (vk_coin (te_D T)) (tc_Height ctx) fp = Inr (Some b)"
    "0 \<le> b" "b \<le> tx_price b etx" "tx_price b etx \<le> tx_GasFeeCap etx"
    "tx_good T binv s'" "paid T s s' (address_Bytes a) (tx_collector T) (uint (tx_Gas etx) * tx_price b etx)"
    "au_GetAccount (te_D T) (vm_bank_state (ts_store s')) = (au_GetAccount (te_D T) (vm_bank_state (ts_store s)))(address_Bytes a \<mapsto> acc')"
    "au_Sequence (te_D T) acc' = tx_Nonce etx + 1" "tx_Nonce etx \<noteq> - 1"
    "\<forall>acc. au_GetAccount (te_D T) (vm_bank_state (ts_store s)) (address_Bytes a) = Some acc \<longrightarrow> au_Sequence (te_D T) acc = tx_Nonce etx"
    "ts_config s' = ts_config s" "ts_fm s' = ts_fm s"
proof -
  obtain m etx a b c1 fees s2 acc c3 where i:
    "ct_Msgs tx = [EthMsg m]" "me_Raw m = Some etx" "eth_Sender (te_G T) (tc_Height ctx) (tc_Time ctx) etx = Inr a"
    "me_From m = address_Bytes a" "GetBaseFee (te_X T) (te_G T) (vk_coin (te_D T)) (tc_Height ctx) fp = Inr (Some b)"
    "eth_ValidateTransaction (te_G T) (tc_Height ctx) (tc_Time ctx) (tx_Gas etx) (Some b) etx = Inr ()"
    "VerifyAccountBalance (te_G T) (te_D T) (vm_GetAccount (te_D T) (ts_store s) a) a etx (ts_store s) = Inr c1"
    "fees = (let n = uint (tx_Gas etx) * (eth_EffectiveGasTip (te_G T) etx (Some b) + b) in if n = 0 then [] else [(Denom (vk_coin (te_D T)), n)])"
    "ConsumeFeesAndEmitEvent T dflt fees (address_Bytes a) (s\<lparr>ts_store := c1\<rparr>) = Inr s2"
    "au_GetAccount (te_D T) (vm_bank_state (ts_store s2)) (address_Bytes a) = Some acc"
    "IncrementNonce (te_D T) acc (tx_Nonce etx) (ts_store s2) = Inr c3"
    "ts_store s' = c3" "ts_config s' = ts_config s2" "ts_fm s' = ts_fm s2" "b \<le> tx_GasFeeCap etx"
    by (rule AnteHandle_inv [OF run])
  let ?n = "uint (tx_Gas etx) * tx_price b etx" and ?A = "\<lambda>c. au_GetAccount (te_D T) (vm_bank_state c)"
  have b: "0 \<le> b" by (rule GetBaseFee_nonneg [OF i(5) fp])
  have pr: "b \<le> tx_price b etx" "tx_price b etx \<le> tx_GasFeeCap etx" using ValidateTransaction [OF i(6)] i(15) by (simp_all add: tx_price_def)
  then have n: "0 \<le> ?n" using b by simp
  note e1 = VerifyAccountBalance_spec [OF g i(7), of "address_Bytes a" "tx_collector T"]
  have e2: "tx_good T binv s2 \<and> paid T (s\<lparr>ts_store := c1\<rparr>) s2 (address_Bytes a) (tx_collector T) ?n \<and> ?A (ts_store s2) = ?A c1 \<and>
      ts_config s2 = ts_config s \<and> ts_fm s2 = ts_fm s"
    using ConsumeFees_spec [OF _ signer [OF i(3)] v n, of "s\<lparr>ts_store := c1\<rparr>" dflt s2] e1 i(9) by (simp add: i(8) Let_def tip_price)
  from IncrementNonce_spec [OF conjunct1 [OF e2] i(10,11), of "address_Bytes a" "tx_collector T"] obtain acc' where
    e3: "au_Sequence (te_D T) acc = tx_Nonce etx" "tx_Nonce etx \<noteq> - 1" "tx_good T binv (s2\<lparr>ts_store := c3\<rparr>)"
    "paid T s2 (s2\<lparr>ts_store := c3\<rparr>) (address_Bytes a) (tx_collector T) 0" "?A c3 = (?A (ts_store s2))(address_Bytes a \<mapsto> acc')"
    "au_Sequence (te_D T) acc' = tx_Nonce etx + 1" by auto
  have "paid T s (s2\<lparr>ts_store := c3\<rparr>) (address_Bytes a) (tx_collector T) (0 + ?n + 0)"
    using paid_trans [OF paid_trans [OF _ _] e3(4)] e1 e2 by blast
  then have "paid T s s' (address_Bytes a) (tx_collector T) ?n" "tx_good T binv s'" using e3(3) i(12) by (simp_all add: paid_def tx_good_def)
  moreover have "?A (ts_store s') = (?A (ts_store s))(address_Bytes a \<mapsto> acc')" using e1 e2 e3(5) i(12) by (auto simp: fun_eq_iff)
  moreover have "\<forall>acc0. ?A (ts_store s) (address_Bytes a) = Some acc0 \<longrightarrow> au_Sequence (te_D T) acc0 = tx_Nonce etx"
    using e1 e2 e3(1) i(10) by auto
  ultimately show thesis using that [OF i(1-5) b pr _ _ _ e3(6) e3(2)] e2 i(13,14) by simp
qed

end

end
