(* ===== verification/TxRun.thy ===== *)
theory TxRun
  imports TxAnte
begin

text \<open>
  What an executed transaction does to the gas and, where it fails, to the balances.
\<close>

section \<open>The gas of a message\<close>

lemma run_message_floor:
  assumes "run_message T ctx msg cfg txCfg ov c evs = Inr (fl, out, s2)"
  shows "fl \<le> m_GasLimit msg" "IsPrague (eth_Rules (te_G T) (tc_Height ctx) (tc_Time ctx)) \<Longrightarrow> eth_FloorDataGas (te_G T) (m_Data msg) = Inr fl"
  using assms by (auto simp: run_message_def Let_def rbind_eq_Inr not_less split: if_splits prod.splits)

definition min_gas :: "EVMConfig \<Rightarrow> Message \<Rightarrow> int" where
  "min_gas cfg msg = uint (m_GasLimit msg) * (case MinGasMultiplier (cfg_FeeMarketParams cfg) of None \<Rightarrow> 0 | Some d \<Rightarrow> d) div dec_one"

lemma div_le_dividend_int: "0 \<le> (a :: int) \<Longrightarrow> 0 \<le> b \<Longrightarrow> a div b \<le> a"
  by (cases "b = 0") (auto simp: int_div_less_self intro: order.trans [OF zdiv_mono2 [of a 1 b]])

context fm_laws
begin

lemma apply_message_gas:
  assumes X: "te_X T = X" and run: "ApplyMessageWithConfig T ctx msg commit cfg txCfg internal ov c evs = Inr (res, c', evs')"
    and gl: "uint (m_GasLimit msg) < 2 ^ 63"
    and mult: "\<forall>d. MinGasMultiplier (cfg_FeeMarketParams cfg) = Some d \<longrightarrow> 0 \<le> d \<and> d \<le> dec_one"
  shows "uint (rs_GasUsed res) \<le> uint (m_GasLimit msg)" "uint (rs_MaxUsedGas res) \<le> uint (m_GasLimit msg)"
    "\<not> internal \<Longrightarrow> min_gas cfg msg \<le> uint (rs_GasUsed res)"
    "uint (rs_GasUsed res) \<le> max (uint (rs_MaxUsedGas res)) (min_gas cfg msg)"
    "IsPrague (eth_Rules (te_G T) (tc_Height ctx) (tc_Time ctx)) \<Longrightarrow>
       \<exists>fl. eth_FloorDataGas (te_G T) (m_Data msg) = Inr fl \<and> uint fl \<le> uint (rs_GasUsed res)"
    "uint (rs_MaxUsedGas res) - uint (rs_GasUsed res) \<le>
       uint (rs_MaxUsedGas res) div uint (if eth_IsLondon (te_G T) (tc_Height ctx) then RefundQuotientEIP3529 (te_G T) else RefundQuotient (te_G T))"
proof -
  let ?P = "IsPrague (eth_Rules (te_G T) (tc_Height ctx) (tc_Time ctx))" and ?gl = "m_GasLimit msg"
  let ?q = "if eth_IsLondon (te_G T) (tc_Height ctx) then RefundQuotientEIP3529 (te_G T) else RefundQuotient (te_G T)"
  obtain fl out s2 where r1: "run_message T ctx msg cfg txCfg ov c evs = Inr (fl, out, s2)"
    using run by (auto simp: ApplyMessageWithConfig_def Let_def rbind_eq_Inr)
  obtain rf where rf: "GasToRefund (sdb_GetRefund s2) (?gl - eo_LeftoverGas out) ?q = Inr rf"
    using run by (auto simp: ApplyMessageWithConfig_def Let_def rbind_eq_Inr r1 simp del: if_split split: if_split_asm)
  obtain left used mx where "settle_gas ?P ?gl fl (eo_LeftoverGas out) rf = (left, used, mx)" by (rule prod_cases3)
  with run r1 rf have r: "run_message T ctx msg cfg txCfg ov c evs = Inr (fl, out, s2)"
    "\<not> ?gl < eo_LeftoverGas out" "GasToRefund (sdb_GetRefund s2) (?gl - eo_LeftoverGas out) ?q = Inr rf"
    "settle_gas ?P ?gl fl (eo_LeftoverGas out) rf = (left, used, rs_MaxUsedGas res)"
    "charge_gas X (MinGasMultiplier (cfg_FeeMarketParams cfg)) internal ?gl left used = Inr (rs_GasUsed res)"
    by (auto simp: ApplyMessageWithConfig_def Let_def rbind_eq_Inr X simp del: if_split split: if_split_asm)
  have lo: "eo_LeftoverGas out \<le> ?gl" using r(2) by simp
  have d: "uint (?gl - eo_LeftoverGas out) = uint ?gl - uint (eo_LeftoverGas out)" using lo by (simp add: uint_minus_simple_alt)
  have rf: "uint rf \<le> (uint ?gl - uint (eo_LeftoverGas out)) div uint ?q" using GasToRefund_le(1) [OF r(3)] d by simp
  then have "uint rf \<le> uint ?gl - uint (eo_LeftoverGas out)" using lo
    by (intro order.trans [OF rf] div_le_dividend_int) (simp_all add: word_le_def)
  note st = settle_gas_spec [OF r(4) lo run_message_floor(1) [OF r(1)] this] and ch = charge_gas_spec [OF r(5) _ gl mult]
  have ch': "uint used \<le> uint (rs_GasUsed res)" using ch(2) st(4) by simp
  show "uint (rs_GasUsed res) \<le> uint ?gl" using ch(3) st(4) by simp
  show "uint (rs_MaxUsedGas res) \<le> uint ?gl" by (rule st(6))
  show "\<not> internal \<Longrightarrow> min_gas cfg msg \<le> uint (rs_GasUsed res)" using ch(1) st(4) by (simp add: min_gas_def)
  show "uint (rs_GasUsed res) \<le> max (uint (rs_MaxUsedGas res)) (min_gas cfg msg)"
    using ch(1) [OF st(4)] st(5) unfolding min_gas_def by (cases internal) auto
  show "\<exists>fl. eth_FloorDataGas (te_G T) (m_Data msg) = Inr fl \<and> uint fl \<le> uint (rs_GasUsed res)" if ?P
    using run_message_floor(2) [OF r(1) that] st(7) that ch' by auto
  have "(uint ?gl - uint (eo_LeftoverGas out)) div uint ?q \<le> uint (rs_MaxUsedGas res) div uint ?q"
    using st(3) by (cases "uint ?q = 0") (auto intro!: zdiv_mono1 simp: order_less_le)
  with st(8) rf ch' show "uint (rs_MaxUsedGas res) - uint (rs_GasUsed res) \<le> uint (rs_MaxUsedGas res) div uint ?q" by linarith
qed

end

section \<open>A failed transaction\<close>

lemma ApplyTransaction_failed:
  assumes run: "ApplyTransaction T None dflt ctx etx s = (Inr res, s')" and f: "rs_Failed res"
  obtains cfg msg c evs where "keeper_EVMConfig T dflt ctx (tc_ProposerAddress ctx) s = Inr cfg"
    "eth_TransactionToMessage (te_G T) (tc_Height ctx) (tc_Time ctx) etx (cfg_BaseFee cfg) = Inr msg"
    "ApplyMessageWithConfig T ctx msg True cfg \<lparr>TxHash = eth_Hash (te_G T) etx, TxIndex = tc_TxIndex ctx\<rparr> False None (ts_store s) [] = Inr (res, c, evs)"
    "finish_tx T ctx msg res s = (Inr res, s')"
proof -
  obtain cfg msg where cm: "keeper_EVMConfig T dflt ctx (tc_ProposerAddress ctx) s = Inr cfg"
    "eth_TransactionToMessage (te_G T) (tc_Height ctx) (tc_Time ctx) etx (cfg_BaseFee cfg) = Inr msg"
    using run by (auto simp: ApplyTransaction_def Let_def rbind_eq_Inr split: sum.splits)
  have fin: "finish_tx T ctx msg r s0 = (Inr res, s') \<Longrightarrow> r = res" for r s0
    by (auto simp: finish_tx_def Let_def split: sum.splits prod.splits)
  obtain r c evs where ap: "ApplyMessageWithConfig T ctx msg True cfg \<lparr>TxHash = eth_Hash (te_G T) etx, TxIndex = tc_TxIndex ctx\<rparr> False None (ts_store s) [] = Inr (r, c, evs)"
    using run cm by (auto simp: ApplyTransaction_def Let_def split: sum.splits fault.splits)
  obtain sg where sg: "eth_Sender (te_G T) (tc_Height ctx) (tc_Time ctx) etx = Inr sg"
    using run cm ap by (auto simp: ApplyTransaction_def Let_def split: sum.splits)
  have "finish_tx T ctx msg r (if rs_Failed r then s else commit_context s (if rs_Logs r = [] then (cache_context s)\<lparr>ts_store := c, ts_events := evs\<rparr>
      else SetTxBloom ctx (logsBloom (te_M T) (rs_Logs r)) ((cache_context s)\<lparr>ts_store := c, ts_events := evs\<rparr>))) = (Inr res, s')"
    using run cm ap sg by (simp add: ApplyTransaction_def Let_def post_process_def split: if_splits)
  moreover from fin [OF this] have "r = res" .
  ultimately have "r = res" "finish_tx T ctx msg res s = (Inr res, s')" using f by simp_all
  with that cm ap show thesis by blast
qed

context tx_laws
begin

lemma base_fees_agree:
  assumes b: "GetBaseFee (te_X T) (te_G T) (vk_coin (te_D T)) (tc_Height ctx) (fm_GetParams (te_X T) (ts_fm s)) = Inr (Some b)"
    and ci: "GetEvmCoinInfo dflt (ts_config s) = vk_coin (te_D T)"
  shows "keeper_GetBaseFee T dflt ctx s = Some b"
proof -
  have "Decimals_Validate d = Inr ()" if "Decimals_ConversionFactor d = Some f" for d f
    using map_of_SomeD [OF that [unfolded Decimals_ConversionFactor_def]]
    by (auto simp: ConversionFactor_table_def Decimals_Validate_ok)
  with b ci show ?thesis
    by (auto simp: GetBaseFee_def keeper_GetBaseFee_def vm_GetBaseFee_def fw_GetBaseFee_def fm_GetBaseFee_def Let_def rbind_eq_Inr
        ConvertAmountTo18DecimalsLegacy_def TruncateInt_truncates quo_def split: if_splits option.splits sum.splits)
qed

lemma EVMConfig_facts:
  assumes "keeper_EVMConfig T dflt ctx p s = Inr cfg"
  shows "cfg_BaseFee cfg = keeper_GetBaseFee T dflt ctx s"
    "MinGasMultiplier (cfg_FeeMarketParams cfg) = MinGasMultiplier (fm_GetParams (te_X T) (ts_fm s))"
  using assms by (auto simp: keeper_EVMConfig_def rbind_eq_Inr fw_GetParams_def Let_def split: option.splits)

lemma finish_tx_spec:
  assumes g: "tx_good T binv s" and a: "address_Bytes (m_From msg) \<noteq> the_reserve" and v: "\<not> virtualFeeCollection (te_F T)"
    and u: "uint (rs_GasUsed res) \<le> uint (m_GasLimit msg)" and run: "finish_tx T ctx msg res s = (Inr r, s')"
  shows "pb_inv (vk_coin (te_D T)) (vk_bank (te_D T)) binv (vm_pb (ts_store s')) \<and>
    paid T s s' (address_Bytes (m_From msg)) (tx_collector T) (- ((uint (m_GasLimit msg) - uint (rs_GasUsed res)) * m_GasPrice msg))"
proof -
  let ?rem = "if rs_GasUsed res < m_GasLimit msg then m_GasLimit msg - rs_GasUsed res else 0"
  have rem: "uint ?rem = uint (m_GasLimit msg) - uint (rs_GasUsed res)"
    using u uint_minus_simple_alt [of "rs_GasUsed res" "m_GasLimit msg"] by (auto simp: word_less_def word_le_def)
  obtain pb where pb: "RefundGas (te_F T) (te_D T) msg ?rem (Denom (vk_coin (te_D T))) (vm_pb (ts_store s)) = Inr pb"
    "ts_store s' = (ts_store s)\<lparr>vm_pb := pb\<rparr>"
    using run by (auto simp: finish_tx_def Let_def simp del: if_split split: sum.splits prod.splits)
  from refund_spec [OF _ a v pb(1)] g show ?thesis unfolding rem
    by (auto simp: tx_good_def paid_def pb(2) ext_moved_def)
qed

end

end
