(* ===== verification/TxExample.thy ===== *)
theory TxExample
  imports TxRun
begin

text \<open>
  A small chain for transactions: the ledger with accounts 5 and 6, the fee collector, an Ethereum library that knows one signer
  and an interpreter whose calls are reverted after a third of their gas.
\<close>

section \<open>The environment\<close>

definition ex_rules :: eth_rules where
  "ex_rules = \<lparr>IsEIP2929 = True, IsEIP4762 = False, IsShanghai = True, IsHomestead = True, IsIstanbul = True, IsLondon = True, IsPrague = True\<rparr>"

definition ex_eth :: eth_env where
  "ex_eth = \<lparr>eth_Rules = (\<lambda>_ _. ex_rules), eth_IsLondon = (\<lambda>_. True), eth_ChainID = 1,
     eth_IntrinsicGas = (\<lambda>_ _ _ _ _ _ _. Inr 21000), eth_FloorDataGas = (\<lambda>_. Inr 21000),
     eth_EffectiveGasTip = (\<lambda>tx b. case b of None \<Rightarrow> tx_GasTipCap tx | Some b \<Rightarrow> min (tx_GasTipCap tx) (tx_GasFeeCap tx - b)),
     eth_Cost = (\<lambda>tx. uint (tx_Gas tx) * tx_GasPrice tx + tx_Value tx), eth_Hash = (\<lambda>tx. 11),
     eth_Sender = (\<lambda>_ _ tx. if tx_Signature tx = [] then Inl (Err ''invalid signature'') else Inr 5),
     eth_TransactionToMessage = (\<lambda>_ _ tx b.
       if tx_Signature tx = [] then Inl (Err ''invalid signature'')
       else Inr \<lparr>m_From = 5, m_To = tx_To tx, m_Nonce = tx_Nonce tx, m_Value = tx_Value tx, m_GasLimit = tx_Gas tx,
         m_GasPrice = (case b of None \<Rightarrow> tx_GasPrice tx | Some b \<Rightarrow> min (tx_GasTipCap tx + b) (tx_GasFeeCap tx)),
         m_GasFeeCap = tx_GasFeeCap tx, m_GasTipCap = tx_GasTipCap tx, m_Data = tx_Data tx,
         m_AccessList = tx_AccessList tx, m_SetCodeAuthorizations = tx_SetCodeAuthorizations tx\<rparr>),
     eth_ValidateTransaction = (\<lambda>_ _ _ _ tx.
       if 0 \<le> tx_GasTipCap tx \<and> tx_GasTipCap tx \<le> tx_GasFeeCap tx then Inr () else Inl (Err ''invalid prices'')),
     eth_Authority = (\<lambda>_. Inl (Err ''invalid signature'')), eth_AddressToDelegation = address_Bytes, eth_CreateAddress = (\<lambda>a n. a + ucast n),
     RefundQuotient = 2, RefundQuotientEIP3529 = 5, CallNewAccountGas = 25000, TxAuthTupleGas = 12500\<rparr>"

definition ex_fees :: "(ledger, laccount) fee_env" where
  "ex_fees = \<lparr>coins_Sort = sort_key fst, coins_IsZero = list_all (\<lambda>c. snd c = 0),
     auth_DeductFees = (\<lambda>send acc fees s. if l_valid fees then send (la_Address acc) FeeCollectorName fees s else Inl (Err ''invalid fee amount'')),
     bank_ToModuleVirtual = (\<lambda>_ _ _ _. Inl (Err ''not supported'')), bank_ToAccountVirtual = (\<lambda>_ _ _ _. Inl (Err ''not supported'')),
     bank_GetDenomMetaData = (\<lambda>_ _. None), virtualFeeCollection = False\<rparr>"

definition ex_evm :: "ledger evm_env" where
  "ex_evm = \<lparr>evm_ActivePrecompiledContracts = (\<lambda>_ _. None), evm_ActivePrecompiles = (\<lambda>_. [1]),
     evm_Create = (\<lambda>_ _ _ _ _. Inl (Err ''not supported'')),
     evm_Call = (\<lambda>_ _ _ gas _ s. Inr (\<lparr>eo_Ret = [], eo_LeftoverGas = gas - gas div 3, eo_Err = Some ''execution reverted'', eo_ReturnData = [1]\<rparr>, s)),
     ErrExecutionReverted = ''execution reverted'', log_Topics = (\<lambda>d. [d]), bloom_Add = (\<lambda>_ b. b), HistoryStorageAddress = 6,
     stk_GetOperator = (\<lambda>_. Some ''validator''), val_FromBech32 = (\<lambda>_. Inr [3])\<rparr>"

definition ex_vp :: vp_env where
  "ex_vp = \<lparr>ValidEip = (\<lambda>n. 0 < n), IsHexAddress = (\<lambda>_. True), ChannelIdentifierValidator = (\<lambda>_. True), addr_Hex = (\<lambda>_. ''0x''),
     DefaultBondDenom = ''aatom'', vp_codec = Inr\<rparr>"

definition ex_T :: "(ledger, laccount) tx_env" where
  "ex_T = \<lparr>te_G = ex_eth, te_X = sdk_fm, te_V = ex_vp, te_F = ex_fees, te_D = ledger_vm, te_M = ex_evm\<rparr>"

lemma ex_T_simps [simp]:
  "te_G ex_T = ex_eth" "te_X ex_T = sdk_fm" "te_V ex_T = ex_vp" "te_F ex_T = ex_fees" "te_D ex_T = ledger_vm" "te_M ex_T = ex_evm"
  by (simp_all add: ex_T_def)

lemma ex_module: "ak_GetModuleAddress ledger_bank FeeCollectorName = [9]"
  by (simp add: ledger_bank_def l_module_def FeeCollectorName_def pb_ModuleName_def)

interpretation lfee: fee_laws ledger_vm ledger_inv ex_fees
proof (intro fee_laws.intro fee_laws_axioms.intro)
  show "vm_env ledger_vm ledger_inv" by (rule lvm.vm_env_axioms)
  show "ledger_inv (au_SetAccount ledger_vm b' acc) \<and> same_money (vk_bank ledger_vm) {} b' (au_SetAccount ledger_vm b' acc)"
    if "ledger_inv b" "au_GetAccount ledger_vm b a = None" "au_NewAccountWithAddress ledger_vm b a = (acc, b')" for b a acc b'
    using that by (auto simp: ledger_vm_simps l_locked_def)
qed (auto simp: ex_fees_def ex_module ledger_vm_def split: if_splits)

interpretation leth: eth_laws ex_eth
  by unfold_locales (auto simp: ex_eth_def split: if_splits)

interpretation ltx: tx_laws ex_T ledger_inv
  using lfee.fee_laws_axioms leth.eth_laws_axioms sfm.fm_laws_axioms
  by (intro tx_laws.intro tx_laws_axioms.intro) (auto simp: ex_eth_def split: if_splits)

section \<open>A chain and a transaction\<close>

definition ex_params :: fm_Params where
  "ex_params = (fm_DefaultParams sdk_fm)\<lparr>BaseFee := Some 7000000\<rparr>"

text \<open>The sequence of address 5 is \<open>n\<close>, and it has paid \<open>y\<close> of its fraction of a coin to the fee collector.\<close>

definition ex_led :: "u64 \<Rightarrow> ledger" where
  "ex_led n = l_set (l_create [9] ex_chain_ledger) ((ex_account (address_Bytes 5))\<lparr>la_Sequence := n\<rparr>)"

definition ex_pbs :: "u64 \<Rightarrow> int \<Rightarrow> (AccAddress \<times> int) list \<Rightarrow> ledger pbState" where
  "ex_pbs n y evs = \<lparr>pbank = ex_led n, fractional = [(address_Bytes 5, 300000000000 - y), (address_Bytes 6, 600000000000), ([9], y)],
     remainder = Some 100000000000, pb_events = evs\<rparr>"

definition ex_ts :: "u64 \<Rightarrow> int \<Rightarrow> (AccAddress \<times> int) list \<Rightarrow> ledger txState" where
  "ex_ts n y evs = \<lparr>ts_store = ex_chain\<lparr>vm_pb := ex_pbs n y evs\<rparr>,
     ts_config = \<lparr>vc_params = Some (vm_DefaultParams ex_vp), vc_coinInfo = Some ex_coin_info\<rparr>,
     ts_fm = \<lparr>fm_params = Some ex_params, fm_blockGas = Some 0, fm_events = []\<rparr>, ts_bloom = [], ts_gasUsed = [], ts_events = [],
     ts_meter = NewInfiniteGasMeterWithLimit 0\<rparr>"

definition ex_tx :: "u64 \<Rightarrow> ethTx" where
  "ex_tx n = \<lparr>tx_Type = 2, tx_Nonce = n, tx_Gas = 30000, tx_GasPrice = 10, tx_GasTipCap = 2, tx_GasFeeCap = 10, tx_To = Some 6, tx_Value = 0,
     tx_Data = [], tx_AccessList = [], tx_SetCodeAuthorizations = [], tx_Signature = [1]\<rparr>"

definition ex_msg :: "u64 \<Rightarrow> MsgEthereumTx" where
  "ex_msg n = \<lparr>me_From = address_Bytes 5, me_Raw = Some (ex_tx n)\<rparr>"

definition ex_cosmos_tx :: "u64 \<Rightarrow> cosmosTx" where
  "ex_cosmos_tx n = \<lparr>ct_ValidateBasic = Some BasicNoSignatures, ct_IsProtoTx = True, ct_IsGasTx = True, ct_Memo = [], ct_TimeoutHeight = 0,
     ct_NonCriticalExtensionOptions = [], ct_ExtensionOptions = [''eth''], ct_SignerInfos = [],
     ct_Fee = Some \<lparr>fee_Amount = [(''aatom'', 300000)], fee_GasLimit = 30000, fee_Payer = [], fee_Granter = []\<rparr>, ct_Tip = None,
     ct_Signatures = [], ct_Msgs = [EthMsg (ex_msg n)]\<rparr>"

definition ex_ctx :: tx_ctx where
  "ex_ctx = \<lparr>tc_Height = 5, tc_Time = 100, tc_TxIndex = 0, tc_MsgIndex = 0, tc_IsCheckTx = False, tc_IsReCheckTx = False, tc_MaxGas = Some 100000,
     tc_MinGasPrice = 0, tc_HeaderHash = [5], tc_BlockHeaderHash = None, tc_ProposerAddress = []\<rparr>"

lemma ex_ts_simps [simp]:
  "ts_config (ex_ts n y evs) = \<lparr>vc_params = Some (vm_DefaultParams ex_vp), vc_coinInfo = Some ex_coin_info\<rparr>"
  "vm_pb (ts_store (ex_ts n y evs)) = ex_pbs n y evs" "vm_bank_state (ts_store (ex_ts n y evs)) = ex_led n"
  "fm_GetParams sdk_fm (ts_fm (ex_ts n y evs)) = ex_params" "GetEvmCoinInfo dflt (ts_config (ex_ts n y evs)) = ex_coin_info"
  "fm_valid ex_params" "\<not> virtualFeeCollection ex_fees" "ct_Msgs (ex_cosmos_tx k) = [EthMsg (ex_msg k)]" "me_Raw (ex_msg k) = Some (ex_tx k)"
  "me_From (ex_msg k) = address_Bytes 5"
  by (simp_all add: ex_ts_def fm_GetParams_def GetEvmCoinInfo_def ex_params_def fm_valid_iff fm_DefaultParams_def DefaultMinGasMultiplier_def
      dec_one_def LegacyNewDec_def ex_fees_def ex_cosmos_tx_def ex_msg_def vm_bank_state_def ex_pbs_def)

lemma ex_led_simps [simp]:
  "l_balance (ex_led n) = l_balance ex_chain_ledger" "l_supply (ex_led n) = l_supply ex_chain_ledger" "l_locked (ex_led n) = (\<lambda>_ _. 0)"
  "l_accounts (ex_led n) = (\<lambda>a. if a = address_Bytes 5 then Some ((ex_account (address_Bytes 5))\<lparr>la_Sequence := n\<rparr>)
     else if a = [9] then Some \<lparr>la_Address = [9], la_Sequence = 0, la_Number = 4, la_Locked = (\<lambda>_. 0)\<rparr> else l_accounts ex_chain_ledger a)"
  "l_addressed (ex_led n)" "l_create [9] (ex_led n) = ex_led n" "l_set (ex_led n) (ex_account (address_Bytes 5)\<lparr>la_Sequence := m\<rparr>) = ex_led m"
  by (auto simp: ex_led_def l_locked_def l_create_def l_new_def ex_chain_ledger_def ex_account_def fun_eq_iff l_addressed_def l_set_def)

lemma ex_tx_good:
  assumes "0 < y" "y < 300000000000"
  shows "tx_good ex_T ledger_inv (ex_ts n y evs)"
proof -
  have 9: "address_Bytes 5 < [9]" "address_Bytes 6 < [9]" by (simp_all add: address_Bytes_5 address_Bytes_6)
  have "pb_inv ex_coin_info ledger_bank ledger_inv (ex_pbs n y evs)"
    using assms 9 by (auto simp: pb_inv_def ex_pbs_def ledger_inv_def kv_sum_def kv_ok_def GetRemainderAmount_def
        split: if_splits) (simp_all add: ledger_bank_def l_module_def)
  then show ?thesis by (simp add: tx_good_def ex_module)
qed

section \<open>Evaluation\<close>

lemma ex_eth_simps [simp]:
  "eth_Rules ex_eth h t = ex_rules" "eth_IsLondon ex_eth h" "eth_IntrinsicGas ex_eth d al au c x y z = Inr 21000" "eth_FloorDataGas ex_eth d = Inr 21000"
  "eth_EffectiveGasTip ex_eth tx (Some b) = min (tx_GasTipCap tx) (tx_GasFeeCap tx - b)" "eth_Cost ex_eth tx = uint (tx_Gas tx) * tx_GasPrice tx + tx_Value tx"
  "RefundQuotientEIP3529 ex_eth = 5"
  by (simp_all add: ex_eth_def)

lemma ex_rules_simps [simp]: "IsLondon ex_rules" "IsPrague ex_rules" "IsHomestead ex_rules" "IsIstanbul ex_rules" "IsShanghai ex_rules"
  by (simp_all add: ex_rules_def)

lemma ex_tx_simps [simp]:
  "tx_Type (ex_tx n) = 2" "tx_Nonce (ex_tx n) = n" "tx_Gas (ex_tx n) = 30000" "tx_GasPrice (ex_tx n) = 10" "tx_GasTipCap (ex_tx n) = 2"
  "tx_GasFeeCap (ex_tx n) = 10" "tx_To (ex_tx n) = Some 6" "tx_Value (ex_tx n) = 0" "tx_Data (ex_tx n) = []" "tx_AccessList (ex_tx n) = []"
  "tx_SetCodeAuthorizations (ex_tx n) = []"
  "eth_Sender ex_eth h t (ex_tx n) = Inr 5" "eth_ValidateTransaction ex_eth h t g b (ex_tx n) = Inr ()"
  by (simp_all add: ex_tx_def ex_eth_def)

lemma ex_ctx_simps [simp]:
  "tc_Height ex_ctx = 5" "tc_IsCheckTx ex_ctx = False" "tc_IsReCheckTx ex_ctx = False" "tc_MinGasPrice ex_ctx = 0" "BlockGasLimit ex_ctx = 100000"
  by (simp_all add: ex_ctx_def BlockGasLimit_def)

lemma ex_factor: "Decimals_ConversionFactor (eci_Decimals ex_coin_info) = Some 1000000000000"
  by (simp add: ex_coin_info_def Decimals_ConversionFactor_def ConversionFactor_table_def)

definition ex_utils :: DecoratorUtils where
  "ex_utils = \<lparr>du_EvmParams = vm_DefaultParams ex_vp, du_Rules = ex_rules, du_BaseFee = Some 7, du_MempoolMinGasPrice = 0,
     du_GlobalMinGasPrice = Some 0, du_TxGasLimit = 0, du_GasWanted = 0, du_MinPriority = MaxInt64, du_TxFee = 0\<rparr>"

lemma ex_NewUtils: "NewMonoDecoratorUtils sdk_fm ex_eth ex_coin_info ex_ctx (vm_DefaultParams ex_vp) ex_params = Inr ex_utils"
  by (simp add: NewMonoDecoratorUtils_def GetBaseFee_def ConvertAmountTo18DecimalsLegacy_def ex_factor ex_params_def ex_utils_def
      fm_DefaultParams_def quo_def dec_one_def Let_def ex_ctx_def)

lemma nine: "address_Bytes 5 < [9]" "address_Bytes 6 < [9]" "\<not> [9] < address_Bytes 5" "\<not> [9] < address_Bytes 6"
  by (simp_all add: address_Bytes_5 address_Bytes_6)

lemma ex_deduct:
  assumes "0 < y" "y + 270000 < 300000000000"
  shows "DeductTxCostsFromUserBalance ex_fees ledger_vm ex_coin_info [(Denom ex_coin_info, 270000)] 5 (ex_pbs n y evs) =
    Inr (ex_pbs n (y + 270000) (evs @ [(address_Bytes 5, - 270000), ([9], 270000)]))"
  using assms nine
  apply (simp add: DeductTxCostsFromUserBalance_def ex_fees_def ex_pbs_def bw_SendCoinsFromAccountToModule_def ConvertCoinsDenomToExtendedDenom_def FeeCollectorName_def)
  by (simp add: vm_eval)

lemma ex_view: "vm_GetAccount ledger_vm (ts_store (ex_ts n y evs)) 5 = Some \<lparr>in_Nonce = n, in_Balance = Some (word_of_int (5300000000000 - y)), in_CodeHash = Some (vm_EmptyCodeHash ledger_vm)\<rparr>"
  if "0 < y" "y < 300000000000"
proof -
  have "Uint256FromBigInt (5300000000000 - y) = Inr (word_of_int (5300000000000 - y))" using that by (simp add: Uint256FromBigInt_def)
  then show ?thesis by (simp add: GetAccount_eq vm_SpendableCoin_def) (simp add: vm_eval ex_ts_def ex_pbs_def)
qed

lemma ex_Verify:
  assumes "0 < y" "y < 300000000000"
  shows "VerifyAccountBalance ex_eth ledger_vm (vm_GetAccount ledger_vm (ts_store (ex_ts n y evs)) 5) 5 (ex_tx k) (ts_store (ex_ts n y evs)) = Inr (ts_store (ex_ts n y evs))"
proof -
  have "uint (word_of_int (5300000000000 - y) :: u256) = 5300000000000 - y"
    using assms by (simp only: uint_word_of_int) (rule mod_pos_pos_trivial, simp_all)
  then show ?thesis using assms by (simp add: VerifyAccountBalance_def ex_view CheckSenderBalance_def Let_def del: of_int_diff)
qed

lemma ex_Increment:
  assumes "n \<noteq> - 1"
  shows "IncrementNonce ledger_vm (ex_account (address_Bytes 5)\<lparr>la_Sequence := n\<rparr>) n (ts_store (ex_ts n y evs)) = Inr (ts_store (ex_ts (n + 1) y evs))"
  using assms by (simp add: IncrementNonce_def Let_def) (simp add: ledger_vm_def vm_with_bank_def ex_ts_def ex_pbs_def)

lemma ex_consume:
  assumes "0 < y" "y + 270000 < 300000000000"
  shows "ConsumeFeesAndEmitEvent ex_T ex_coin_info [(''uatom'', 270000)] (address_Bytes 5) (ex_ts n y evs) =
    Inr ((ex_ts n (y + 270000) (evs @ [(address_Bytes 5, - 270000), ([9], 270000)]))\<lparr>ts_events := [''tx'']\<rparr>)"
proof -
  have "\<not> coins_IsZero ex_fees [(''uatom'', 270000)]" by (simp add: ex_fees_def)
  moreover have "GetEvmCoinInfo ex_coin_info (ts_config (ex_ts n y evs)) = ex_coin_info" by (rule ex_ts_simps)
  moreover have "Denom ex_coin_info = ''uatom''" by (simp add: ex_coin_info_def)
  ultimately show ?thesis using ex_deduct [OF assms, of n evs]
    by (simp only: ConsumeFeesAndEmitEvent_def ante_deductFees_def ex_T_simps if_False ex_ts_simps BytesToAddress_address_Bytes rbind_Inr) (simp add: ex_ts_def)
qed

definition ex_accepted :: "u64 \<Rightarrow> int \<Rightarrow> (AccAddress \<times> int) list \<Rightarrow> ledger txState" where
  "ex_accepted n y evs = (ex_ts n y evs)\<lparr>ts_events := [''tx'', ''ethereum_tx''], ts_meter := NewInfiniteGasMeterWithLimit 30000\<rparr>"

lemma ex_ante:
  assumes "0 < y" "y + 270000 < 300000000000" "n \<noteq> - 1"
  shows "\<exists>prio. AnteHandle ex_T ex_coin_info 0 (vm_DefaultParams ex_vp) ex_params ex_ctx (ex_cosmos_tx n) False (ex_ts n y evs) =
    Inr (prio, ex_accepted (n + 1) (y + 270000) (evs @ [(address_Bytes 5, - 270000), ([9], 270000)]))"
proof -
  have V: "ValidateTx (ex_cosmos_tx n) = Inr \<lparr>fee_Amount = [(''aatom'', 300000)], fee_GasLimit = 30000, fee_Payer = [], fee_Granter = []\<rparr>"
    "SetupContextAndResetTransientGas (ex_cosmos_tx n) = Inr ()"
    by (simp_all add: ValidateTx_def SetupContextAndResetTransientGas_def ex_cosmos_tx_def)
  have F: "CheckTxFee ledger_bank ex_coin_info (Some \<lparr>fee_Amount = [(''aatom'', 300000)], fee_GasLimit = 30000, fee_Payer = [], fee_Granter = []\<rparr>) 300000 30000 = Inr ()"
    by (simp add: CheckTxFee_def ledger_bank_def l_amount_def ex_coin_info_def)
  have M: "ValidateMsg (vm_DefaultParams ex_vp) (Some (ex_tx n)) = Inr ()"
    by (simp add: ValidateMsg_def checkDisabledCreateCall_def vm_DefaultParams_def DefaultAccessControl_def)
  show ?thesis using assms
    apply (simp add: AnteHandle_def Let_def V ex_NewUtils UnpackEthMsg_def ex_utils_def GetFee_def GetEffectiveFee_def CheckGlobalFee_def M
     SignatureVerification_def VerifySender_def ex_Verify CanTransfer_def AsMessage_def Uint256FromBigInt_def VerifyFee_def
     F CheckBlockGasLimit_def UpdateCumulativeGasWanted_def ex_consume ex_Increment)
    by (simp add: ex_accepted_def ex_ts_def)
qed

lemma ex_view6: "vm_GetAccount ledger_vm (ts_store (ex_ts n y evs)) 6 = Some \<lparr>in_Nonce = 0, in_Balance = Some 600000000000, in_CodeHash = Some 9\<rparr>"
  by (simp add: GetAccount_eq vm_SpendableCoin_def Uint256FromBigInt_def) (simp add: vm_eval ex_ts_def ex_pbs_def Uint256FromBigInt_def)

definition ex_cfg :: EVMConfig where
  "ex_cfg = \<lparr>cfg_Params = vm_DefaultParams ex_vp, cfg_FeeMarketParams = ex_params\<lparr>BaseFee := Some 7000000000000000000, MinGasPrice := Some 0\<rparr>,
     cfg_CoinBase = 0, cfg_BaseFee = Some 7\<rparr>"

lemma ex_config: "keeper_EVMConfig ex_T ex_coin_info ex_ctx [] (ex_accepted n y evs) = Inr ex_cfg"
  by (simp add: keeper_EVMConfig_def fw_GetParams_def ex_accepted_def ex_factor ex_params_def fm_DefaultParams_def ConvertAmountTo18DecimalsLegacy_def
   GetCoinbaseAddress_def GetProposerAddress_def ex_ctx_def ex_cfg_def vm_GetParams_def keeper_GetBaseFee_def vm_GetBaseFee_def GetEvmCoinInfo_def
   fw_GetBaseFee_def fm_GetBaseFee_def Let_def dec_one_def quo_def)

lemma keeper_fields:
  "k_GetAccount (vm_statedb_keeper D) = vm_GetAccount D" "k_GetState (vm_statedb_keeper D) = vm_GetState" "k_GetCode (vm_statedb_keeper D) = vm_GetCode"
  "k_Keccak256 (vm_statedb_keeper D) = vk_Keccak256 D"
  by (simp_all add: vm_statedb_keeper_def)

definition ex_message :: "u64 \<Rightarrow> Message" where
  "ex_message n = \<lparr>m_From = 5, m_To = Some 6, m_Nonce = n, m_Value = 0, m_GasLimit = 30000, m_GasPrice = 9, m_GasFeeCap = 10, m_GasTipCap = 2,
     m_Data = [], m_AccessList = [], m_SetCodeAuthorizations = []\<rparr>"

lemma ex_to_message: "eth_TransactionToMessage ex_eth h t (ex_tx n) (Some 7) = Inr (ex_message n)"
  by (simp add: ex_eth_def ex_tx_def ex_message_def)

lemma ex_code: "vm_GetCode (ts_store (ex_ts n y evs)) 9 = Some [1]"
  by (simp add: vm_GetCode_def ex_ts_def ex_chain_def)

definition ex_res :: MsgEthereumTxResponse where
  "ex_res = \<lparr>rs_GasUsed = 24000, rs_MaxUsedGas = 24000, rs_VmError = ''execution reverted'', rs_Ret = [1], rs_Logs = [], rs_Hash = 11, rs_BlockHash = [5], rs_BlockTimestamp = 100\<rparr>"

lemma ex_message_simps [simp]:
  "m_From (ex_message k) = 5" "m_To (ex_message k) = Some 6" "m_GasLimit (ex_message k) = 30000" "m_GasPrice (ex_message k) = 9" "m_Value (ex_message k) = 0"
  "m_Data (ex_message k) = []" "m_AccessList (ex_message k) = []" "m_SetCodeAuthorizations (ex_message k) = []"
  by (simp_all add: ex_message_def)

lemma ex_evm_simps [simp]:
  "evm_ActivePrecompiles ex_evm e = [1]" "ErrExecutionReverted ex_evm = ''execution reverted''"
  "evm_Call ex_evm e a d g v s = Inr (\<lparr>eo_Ret = [], eo_LeftoverGas = g - g div 3, eo_Err = Some ''execution reverted'', eo_ReturnData = [1]\<rparr>, s)"
  by (simp_all add: ex_evm_def)

lemma ex_truncate [simp]: "Rules.truncate ex_rules = \<lparr>IsEIP2929 = True, IsEIP4762 = False, IsShanghai = True\<rparr>"
  by (simp add: ex_rules_def Rules.truncate_def)

lemma ex_charge: "charge_gas sdk_fm (MinGasMultiplier (cfg_FeeMarketParams ex_cfg)) False 30000 6000 24000 = Inr 24000"
  by (simp add: charge_gas_def ex_cfg_def ex_params_def fm_DefaultParams_def DefaultMinGasMultiplier_def LegacyNewDec_def dec_one_def round_even_def
      quo_def IsUint64_def Let_def)

lemma ex_vm_simps [simp]: "vk_Keccak256 ledger_vm [] = 7" "vk_ParseDelegation ledger_vm c = None"
  by (simp_all add: ledger_vm_def)

lemma ex_apply:
  "\<exists>evs'. ApplyMessageWithConfig ex_T ex_ctx (ex_message k) True ex_cfg \<lparr>TxHash = 11, TxIndex = 0\<rparr> False None (ts_store (ex_ts n y evs)) [] =
    Inr (ex_res, ts_store (ex_ts n y evs), evs')"
  apply (simp add: ApplyMessageWithConfig_def run_message_def run_call_def Let_def GetEthIntrinsicGas_def sdb_Prepare_def
     Uint256FromBigInt_def sdb_eval keeper_fields ex_view6 ex_code GasToRefund_def settle_gas_def ex_charge)
  apply (simp add: ex_res_def ex_ctx_def)
  done

lemma ex_refund:
  assumes "54000 < y" "y < 300000000000"
  shows "RefundGas ex_fees ledger_vm (ex_message k) 6000 (Denom ex_coin_info) (ex_pbs n y evs) =
    Inr (ex_pbs n (y - 54000) (evs @ [([9], - 54000), (address_Bytes 5, 54000)]))"
  using assms nine
  apply (simp add: RefundGas_def ex_fees_def ex_pbs_def bw_SendCoinsFromModuleToAccount_def ConvertCoinsDenomToExtendedDenom_def FeeCollectorName_def Let_def)
  by (simp add: vm_eval)

lemma ex_ApplyTransaction:
  assumes "54000 < y" "y < 300000000000"
  shows "\<exists>s'. ApplyTransaction ex_T None ex_coin_info ex_ctx (ex_tx k) (ex_accepted n y evs) = (Inr ex_res, s')"
proof -
  obtain e where e: "ApplyMessageWithConfig ex_T ex_ctx (ex_message k) True ex_cfg \<lparr>TxHash = 11, TxIndex = 0\<rparr> False None (ts_store (ex_ts n y evs)) [] =
    Inr (ex_res, ts_store (ex_ts n y evs), e)" using ex_apply by blast
  have c: "tc_ProposerAddress ex_ctx = []" "tc_TxIndex ex_ctx = 0" "eth_Hash ex_eth tx = 11" "cfg_BaseFee ex_cfg = Some 7"
    "ts_store (ex_accepted n y evs) = ts_store (ex_ts n y evs)" "rs_Failed ex_res" "rs_GasUsed ex_res = 24000" "ts_gasUsed (ex_accepted n y evs) = []"
    "ts_meter (ex_accepted n y evs) = NewInfiniteGasMeterWithLimit 30000" for tx
    by (simp_all add: ex_ctx_def ex_eth_def ex_cfg_def ex_accepted_def rs_Failed_def ex_res_def ex_ts_def)
  have r: "RefundGas ex_fees ledger_vm (ex_message k) 6000 ''uatom'' (ex_pbs n y evs) =
    Inr (ex_pbs n (y - 54000) (evs @ [([9], - 54000), (address_Bytes 5, 54000)]))" using ex_refund [OF assms, of k n evs] by (simp add: ex_coin_info_def)
  show ?thesis
    by (simp add: ApplyTransaction_def c ex_config ex_to_message e post_process_def finish_tx_def r AddTransientGasUsed_def
        GetTransientGasUsed_def ResetGasMeterAndConsumeGas_def gm_RefundGas_def gm_ConsumeGas_def NewInfiniteGasMeterWithLimit_def addUint64Overflow_def Let_def)
qed

end
