(* ===== verification/TxProps.thy ===== *)
theory TxProps
  imports TxExample
begin

text \<open>
  Properties of transactions: no replay, the gas that is charged, the fee of Cosmos transactions, the ring of block
  hashes and the search for a gas limit.
\<close>

section \<open>The cost of a failed transaction\<close>

text \<open>
  C5. A transaction that the ante handler accepted and that fails in the virtual machine costs its sender exactly the gas
  used at the effective price of EIP-1559, which is at least the base fee and at most the fee cap: the amount that the ante handler
  took in advance less the refund is in the fee collector, no other balance and neither code nor storage
  has changed, and the gas used is at most the limit.
\<close>

theorem failed_tx_costs_gas_used:
  assumes "tx_laws T binv" "\<not> virtualFeeCollection (te_F T)" "tx_good T binv s" "fm_valid (fm_GetParams (te_X T) (ts_fm s))"
    "GetEvmCoinInfo dflt (ts_config s) = vk_coin (te_D T)"
    "AnteHandle T dflt mg ep (fm_GetParams (te_X T) (ts_fm s)) ctx tx sim s = Inr (prio, s1)"
    "ct_Msgs tx = [EthMsg m]" "me_Raw m = Some etx" "uint (tx_Gas etx) < 2 ^ 63"
    "ApplyTransaction T None dflt ctx etx s1 = (Inr res, s2)" "rs_Failed res"
  shows "\<exists>b. GetBaseFee (te_X T) (te_G T) (vk_coin (te_D T)) (tc_Height ctx) (fm_GetParams (te_X T) (ts_fm s)) = Inr (Some b) \<and>
    b \<le> tx_price b etx \<and> tx_price b etx \<le> tx_GasFeeCap etx \<and> uint (rs_GasUsed res) \<le> uint (tx_Gas etx) \<and>
    paid T s s2 (me_From m) (tx_collector T) (uint (rs_GasUsed res) * tx_price b etx)"
proof -
  from assms(1) have laws: "tx_laws T binv" .
  note fml = tx_laws.axioms(3) [OF laws]
  obtain a b where an: "eth_Sender (te_G T) (tc_Height ctx) (tc_Time ctx) etx = Inr a" "me_From m = address_Bytes a"
    "GetBaseFee (te_X T) (te_G T) (vk_coin (te_D T)) (tc_Height ctx) (fm_GetParams (te_X T) (ts_fm s)) = Inr (Some b)"
    "b \<le> tx_price b etx" "tx_price b etx \<le> tx_GasFeeCap etx" "tx_good T binv s1"
    "paid T s s1 (address_Bytes a) (tx_collector T) (uint (tx_Gas etx) * tx_price b etx)" "ts_config s1 = ts_config s" "ts_fm s1 = ts_fm s"
    by (rule tx_laws.ante_spec [OF laws assms(3,2,4,6)]) (use assms(7,8) in auto)
  obtain cfg msg c evs where r: "keeper_EVMConfig T dflt ctx (tc_ProposerAddress ctx) s1 = Inr cfg"
    "eth_TransactionToMessage (te_G T) (tc_Height ctx) (tc_Time ctx) etx (cfg_BaseFee cfg) = Inr msg"
    "ApplyMessageWithConfig T ctx msg True cfg \<lparr>TxHash = eth_Hash (te_G T) etx, TxIndex = tc_TxIndex ctx\<rparr> False None (ts_store s1) [] = Inr (res, c, evs)"
    "finish_tx T ctx msg res s1 = (Inr res, s2)"
    by (rule ApplyTransaction_failed [OF assms(10,11)])
  note cf = tx_laws.EVMConfig_facts [OF laws r(1), unfolded an(9)]
  have "cfg_BaseFee cfg = Some b" using tx_laws.base_fees_agree [OF laws, of ctx s1 b dflt] an(3,8,9) assms(5) cf(1) by simp
  then have msg: "m_GasLimit msg = tx_Gas etx" "m_GasPrice msg = tx_price b etx" "m_From msg = a"
    using eth_laws.TransactionToMessage [OF tx_laws.axioms(2) [OF laws]] r(2) an(1) by (auto simp: tx_price_def)
  have gas: "uint (rs_GasUsed res) \<le> uint (tx_Gas etx)"
    using fm_laws.apply_message_gas(1) [OF fml refl r(3)] assms(4,9) cf(2) msg(1) by (auto simp: fm_valid_iff)
  have "paid T s1 s2 (address_Bytes a) (tx_collector T) (- ((uint (tx_Gas etx) - uint (rs_GasUsed res)) * tx_price b etx))"
    using tx_laws.finish_tx_spec [OF laws an(6) _ assms(2) _ r(4)] tx_laws.signer [OF laws an(1)] gas msg by simp
  from paid_trans [OF an(7) this] have "paid T s s2 (address_Bytes a) (tx_collector T) (uint (rs_GasUsed res) * tx_price b etx)"
    by (simp add: algebra_simps)
  with an gas show ?thesis by auto
qed

theorem failed_tx_costs_gas_used_witness:
  "\<exists>prio s1 s2. AnteHandle ex_T ex_coin_info 0 (vm_DefaultParams ex_vp) ex_params ex_ctx (ex_cosmos_tx 0) False (ex_ts 0 1000 []) = Inr (prio, s1) \<and>
     ApplyTransaction ex_T None ex_coin_info ex_ctx (ex_tx 0) s1 = (Inr ex_res, s2) \<and> rs_Failed ex_res \<and>
     paid ex_T (ex_ts 0 1000 []) s2 (address_Bytes 5) (tx_collector ex_T) 216000"
proof -
  obtain prio where a: "AnteHandle ex_T ex_coin_info 0 (vm_DefaultParams ex_vp) ex_params ex_ctx (ex_cosmos_tx 0) False (ex_ts 0 1000 []) =
    Inr (prio, ex_accepted 1 271000 [(address_Bytes 5, - 270000), ([9], 270000)])" using ex_ante [of 1000 0 "[]"] by auto
  obtain s2 where r: "ApplyTransaction ex_T None ex_coin_info ex_ctx (ex_tx 0) (ex_accepted 1 271000 [(address_Bytes 5, - 270000), ([9], 270000)]) = (Inr ex_res, s2)"
    using ex_ApplyTransaction [of 271000 0 1 "[(address_Bytes 5, - 270000), ([9], 270000)]"] by auto
  have f: "rs_Failed ex_res" by (simp add: rs_Failed_def ex_res_def)
  have g: "tx_good ex_T ledger_inv (ex_ts 0 1000 [])" by (rule ex_tx_good) simp_all
  have "GetBaseFee sdk_fm ex_eth ex_coin_info 5 ex_params = Inr (Some 7)"
    by (simp add: GetBaseFee_def ConvertAmountTo18DecimalsLegacy_def ex_factor ex_params_def fm_DefaultParams_def quo_def dec_one_def)
  moreover have "rs_GasUsed ex_res = 24000" by (simp add: ex_res_def)
  ultimately show ?thesis
    using failed_tx_costs_gas_used [OF ltx.tx_laws_axioms _ g _ _ _ _ _ _ r f, of 0 "vm_DefaultParams ex_vp" "ex_cosmos_tx 0" False prio "ex_msg 0"] a r f
    by (auto simp: tx_price_def GetEvmCoinInfo_def)
qed

section \<open>No replay\<close>

text \<open>The accounts in \<open>A\<close> are there and have not gone back to an earlier sequence.\<close>

definition nonces_kept :: "('b, 'a) tx_env \<Rightarrow> address set \<Rightarrow> 'b txState \<Rightarrow> 'b txState \<Rightarrow> bool" where
  "nonces_kept T A s s' \<longleftrightarrow>
     (\<forall>a\<in>A. \<forall>acc. au_GetAccount (te_D T) (vm_bank_state (ts_store s)) (address_Bytes a) = Some acc \<longrightarrow>
        (\<exists>acc'. au_GetAccount (te_D T) (vm_bank_state (ts_store s')) (address_Bytes a) = Some acc' \<and>
           au_Sequence (te_D T) acc \<le> au_Sequence (te_D T) acc'))"

text \<open>
  A chain of accepted transactions, with the sender and the nonce of each. In between anything may happen to the state
  that keeps the books in order and the nonces of the senders so far.
\<close>

inductive ante_trace :: "('b, 'a) tx_env \<Rightarrow> ('b \<Rightarrow> bool) \<Rightarrow> 'b txState \<Rightarrow> (address \<times> u64) list \<Rightarrow> 'b txState \<Rightarrow> bool"
  for T binv s where
  start: "ante_trace T binv s [] s"
| accept: "ante_trace T binv s lg s1 \<Longrightarrow> fm_valid fp \<Longrightarrow> AnteHandle T dflt mg ep fp ctx tx sim s1 = Inr (prio, s2) \<Longrightarrow>
    ct_Msgs tx = [EthMsg m] \<Longrightarrow> me_Raw m = Some etx \<Longrightarrow> ante_trace T binv s ((GetSender m, tx_Nonce etx) # lg) s2"
| execute: "ante_trace T binv s lg s1 \<Longrightarrow> tx_good T binv s2 \<Longrightarrow> nonces_kept T (fst ` set lg) s1 s2 \<Longrightarrow> ante_trace T binv s lg s2"

definition nonce_above :: "('b, 'a) tx_env \<Rightarrow> 'b txState \<Rightarrow> address \<times> u64 \<Rightarrow> bool" where
  "nonce_above T s e \<longleftrightarrow>
     (\<exists>acc. au_GetAccount (te_D T) (vm_bank_state (ts_store s)) (address_Bytes (fst e)) = Some acc \<and> snd e < au_Sequence (te_D T) acc)"

lemma less_plus_one:
  assumes "(x :: u64) \<noteq> - 1"
  shows "x < x + 1"
proof -
  have "uint x \<noteq> uint (- 1 :: u64)" using assms by (simp only: word_uint_eq_iff not_False_eq_True)
  then have "uint x + 1 < 2 ^ 64" using uint_lt2p [of x] by (simp add: unsigned_minus_1_eq_mask mask_eq_exp_minus_1)
  then have "uint (x + 1) = uint x + 1" using uint_add_lem [of x 1] by simp
  then show ?thesis by (simp add: word_less_def)
qed

context tx_laws
begin

lemma trace_invariant:
  assumes "ante_trace T binv s lg s'" "tx_good T binv s" "\<not> virtualFeeCollection (te_F T)"
  shows "tx_good T binv s' \<and> (\<forall>e\<in>set lg. nonce_above T s' e) \<and> distinct lg"
  using assms(1)
proof induction
  case start
  then show ?case using assms(2) by simp
next
  case (execute lg s1 s2)
  then show ?case by (fastforce simp: nonces_kept_def nonce_above_def intro: less_le_trans)
next
  case (accept lg s1 fp dflt mg ep ctx tx sim prio s2 m etx)
  then have g: "tx_good T binv s1" by simp
  obtain a acc' where a: "me_From m = address_Bytes a" "tx_good T binv s2"
    "au_GetAccount (te_D T) (vm_bank_state (ts_store s2)) = (au_GetAccount (te_D T) (vm_bank_state (ts_store s1)))(address_Bytes a \<mapsto> acc')"
    "au_Sequence (te_D T) acc' = tx_Nonce etx + 1" "tx_Nonce etx \<noteq> - 1"
    "\<forall>acc. au_GetAccount (te_D T) (vm_bank_state (ts_store s1)) (address_Bytes a) = Some acc \<longrightarrow> au_Sequence (te_D T) acc = tx_Nonce etx"
    by (rule ante_spec [OF g assms(3) accept.hyps(2,3)]) (use accept.hyps(4,5) in auto)
  have new: "nonce_above T s2 (a, tx_Nonce etx)" using less_plus_one [OF a(5)] a(3,4) by (simp add: nonce_above_def)
  have old: "nonce_above T s2 e \<and> e \<noteq> (a, tx_Nonce etx)" if "nonce_above T s1 e" for e
  proof (cases "address_Bytes (fst e) = address_Bytes a")
    case True
    then have "snd e < tx_Nonce etx" using that a(6) by (auto simp: nonce_above_def)
    with less_plus_one [OF a(5)] show ?thesis using True a(3,4) by (cases e) (auto simp: nonce_above_def)
  next
    case False
    with that a(3) show ?thesis by (auto simp: nonce_above_def)
  qed
  from accept.IH new old a(1,2) show ?case by (auto simp: GetSender_def)
qed

end



section \<open>Gas\<close>

text \<open>
  C7. The gas of a message that runs: what is charged is at most the gas limit, at least the minimum share of the limit where
  the call is not internal, at least the floor of EIP-7623 under Prague, no more than the larger of the peak and the minimum share, and the refund
  is at most the peak divided by the refund quotient.
\<close>

theorem message_gas_bounds:
  assumes "fm_laws (te_X T)" "ApplyMessageWithConfig T ctx msg commit cfg txCfg internal ov c evs = Inr (res, c', evs')"
    "uint (m_GasLimit msg) < 2 ^ 63" "fm_valid (cfg_FeeMarketParams cfg)"
  shows "uint (rs_GasUsed res) \<le> uint (m_GasLimit msg) \<and> uint (rs_MaxUsedGas res) \<le> uint (m_GasLimit msg) \<and>
    (\<not> internal \<longrightarrow> min_gas cfg msg \<le> uint (rs_GasUsed res)) \<and>
    uint (rs_GasUsed res) \<le> max (uint (rs_MaxUsedGas res)) (min_gas cfg msg) \<and>
    (IsPrague (eth_Rules (te_G T) (tc_Height ctx) (tc_Time ctx)) \<longrightarrow>
       (\<exists>fl. eth_FloorDataGas (te_G T) (m_Data msg) = Inr fl \<and> uint fl \<le> uint (rs_GasUsed res))) \<and>
    uint (rs_MaxUsedGas res) - uint (rs_GasUsed res) \<le>
      uint (rs_MaxUsedGas res) div uint (if eth_IsLondon (te_G T) (tc_Height ctx) then RefundQuotientEIP3529 (te_G T) else RefundQuotient (te_G T))"
proof -
  have "\<forall>d. MinGasMultiplier (cfg_FeeMarketParams cfg) = Some d \<longrightarrow> 0 \<le> d \<and> d \<le> dec_one" using assms(4) by (auto simp: fm_valid_iff)
  note g = fm_laws.apply_message_gas [OF assms(1) refl assms(2,3) this]
  show ?thesis by (intro conjI impI g)
qed

theorem message_gas_bounds_witness:
  "\<exists>evs. ApplyMessageWithConfig ex_T ex_ctx (ex_message 0) True ex_cfg \<lparr>TxHash = 11, TxIndex = 0\<rparr> False None (ts_store (ex_ts 0 1000 [])) [] =
     Inr (ex_res, ts_store (ex_ts 0 1000 []), evs) \<and> 15000 \<le> uint (rs_GasUsed ex_res) \<and> uint (rs_GasUsed ex_res) \<le> 30000"
proof -
  obtain evs where r: "ApplyMessageWithConfig ex_T ex_ctx (ex_message 0) True ex_cfg \<lparr>TxHash = 11, TxIndex = 0\<rparr> False None (ts_store (ex_ts 0 1000 [])) [] =
     Inr (ex_res, ts_store (ex_ts 0 1000 []), evs)" using ex_apply by blast
  have "fm_valid (cfg_FeeMarketParams ex_cfg)" using ex_ts_simps(6) by (auto simp: ex_cfg_def fm_valid_iff)
  moreover have "min_gas ex_cfg (ex_message 0) = 15000"
    by (simp add: min_gas_def ex_cfg_def ex_params_def fm_DefaultParams_def DefaultMinGasMultiplier_def dec_one_def LegacyNewDec_def)
  ultimately show ?thesis using message_gas_bounds [OF _ r] sfm.fm_laws_axioms r by simp
qed



section \<open>Block hashes\<close>

definition history_contract :: "('b, 'a) tx_env \<Rightarrow> 'b vmStore \<Rightarrow> bool" where
  "history_contract T c \<longleftrightarrow> vm_GetAccount (te_D T) c (HistoryStorageAddress (te_M T)) \<noteq> None \<and> vm_IsContract (te_D T) c (HistoryStorageAddress (te_M T))"

lemma history_SetState [simp]: "history_contract T (vm_SetState c a k v) = history_contract T c"
  by (simp add: history_contract_def vm_SetState_def vm_GetAccount_def vm_GetAccountWithoutBalance_def vm_IsContract_def vm_SpendableCoin_def
      vm_GetCode_def vm_GetCodeHash_def vm_bank_state_def split: option.splits)

lemma BeginBlock_store:
  assumes "history_contract T (ts_store s)"
  shows "ts_store (vm_BeginBlock T dflt ctx s) = vm_SetState (ts_store s) (HistoryStorageAddress (te_M T))
      (ucast ((word_of_int (tc_Height ctx) :: u64) mod HistoryWindow (vm_GetParams (ts_config s)))) (tc_HeaderHash ctx)"
    "ts_config (vm_BeginBlock T dflt ctx s) = ts_config s"
  using assms by (auto simp: vm_BeginBlock_def SetHeaderHash_def history_contract_def Let_def)

lemma GetState_SetState: "vm_GetState (vm_SetState c a k v) a k' = (if k = k' then BytesToHash v else vm_GetState c a k')"
  by (simp add: vm_GetState_def vm_SetState_def kv_simps BytesToHash_def)

lemma ring_key:
  assumes "j < 2 ^ 64" "k < 2 ^ 64"
  shows "(ucast ((of_nat j :: u64) mod w) :: hash) = ucast ((of_nat k :: u64) mod w) \<longleftrightarrow> j mod unat w = k mod unat w"
proof -
  have u: "unat ((of_nat i :: u64) mod w) = i mod unat w" if "i < 2 ^ 64" for i
    using that by (simp add: unat_mod unat_of_nat)
  have "uint (ucast (x :: u64) :: hash) = uint x" for x
    using uint_lt2p [of x] by (simp add: unsigned_ucast_eq take_bit_int_eq_self)
  then have "(ucast (x :: u64) :: hash) = ucast y \<longleftrightarrow> x = y" for x y by (simp add: word_uint_eq_iff)
  then show ?thesis using u [OF assms(1)] u [OF assms(2)] by (simp add: word_unat_eq_iff)
qed

lemma ring_step:
  fixes n i w :: nat
  assumes "i < n" "(h + i) mod w \<noteq> (h + n) mod w"
  shows "n - 1 - (n - 1 - i) mod w = n - (n - i) mod w"
proof -
  have "(n - i) mod w \<noteq> 0"
  proof
    assume "(n - i) mod w = 0"
    then have "(h + i + (n - i)) mod w = (h + i) mod w" by (metis add.right_neutral mod_add_right_eq)
    with assms show False by simp
  qed
  moreover have "n - i = Suc (n - 1 - i)" using assms(1) by simp
  ultimately show ?thesis by (auto simp: mod_Suc split: if_splits)
qed

text \<open>
  C34. The ring of block hashes: after the begin of consecutive blocks the hash that is served for a height is that of
  the latest block whose height agrees with it modulo the window, which is the block itself for the last blocks of
  the window.
\<close>

theorem block_hash_ring:
  assumes "history_contract T (ts_store s)" "\<forall>j<length cs. tc_Height (cs ! j) = int (h + j)" "h + length cs < 2 ^ 63" "i < length cs"
  shows "let w = unat (HistoryWindow (vm_GetParams (ts_config s))); j = length cs - 1 - (length cs - 1 - i) mod w in
    GetHeaderHash (HistoryStorageAddress (te_M T)) (vm_GetParams (ts_config s)) (of_nat (h + i)) (ts_store (fold (vm_BeginBlock T dflt) cs s)) =
      BytesToHash (tc_HeaderHash (cs ! j)) \<and> (length cs - i \<le> w \<longrightarrow> j = i)"
proof -
  define w where "w = HistoryWindow (vm_GetParams (ts_config s))"
  define key where "key i = (ucast ((of_nat i :: u64) mod w) :: hash)" for i
  define S where "S cs = fold (vm_BeginBlock T dflt) cs s" for cs
  let ?H = "HistoryStorageAddress (te_M T)"
  have "history_contract T (ts_store (S cs)) \<and> ts_config (S cs) = ts_config s \<and>
    (\<forall>i<length cs. vm_GetState (ts_store (S cs)) ?H (key (h + i)) =
       BytesToHash (tc_HeaderHash (cs ! (length cs - 1 - (length cs - 1 - i) mod unat w))))"
    using assms(2,3)
  proof (induction cs rule: rev_induct)
    case Nil
    then show ?case using assms(1) by (simp add: S_def)
  next
    case (snoc c cs)
    let ?n = "length cs"
    have hs: "\<forall>j<?n. tc_Height (cs ! j) = int (h + j)" "tc_Height c = int (h + ?n)" "h + ?n < 2 ^ 63"
      using snoc.prems by (auto simp: nth_append split: if_splits)
    note IH = snoc.IH [OF hs(1,3)]
    have st: "ts_store (S (cs @ [c])) = vm_SetState (ts_store (S cs)) ?H (key (h + ?n)) (tc_HeaderHash c)" "ts_config (S (cs @ [c])) = ts_config s"
      using BeginBlock_store [of T "S cs" dflt c] IH hs(2) by (simp_all add: S_def key_def w_def)
    have "vm_GetState (ts_store (S (cs @ [c]))) ?H (key (h + i)) =
        BytesToHash (tc_HeaderHash ((cs @ [c]) ! (?n - (?n - i) mod unat w)))" if i: "i < Suc ?n" for i
    proof -
      have key: "key (h + ?n) = key (h + i) \<longleftrightarrow> (h + ?n) mod unat w = (h + i) mod unat w"
        unfolding key_def by (rule ring_key) (use hs(3) i in simp_all)
      show ?thesis
      proof (cases "(h + i) mod unat w = (h + ?n) mod unat w")
        case True
        then have "(?n - i) mod unat w = 0" using i mod_eq_dvd_iff_nat [of "h + i" "h + ?n" "unat w"] by auto
        with True key show ?thesis by (simp add: st GetState_SetState)
      next
        case False
        then have lt: "i < ?n" using i by (cases "i = ?n") auto
        note eq = ring_step [OF lt False]
        from eq lt have "?n - (?n - i) mod unat w < ?n" by linarith
        with lt eq IH False key show ?thesis by (simp add: st GetState_SetState nth_append)
      qed
    qed
    then show ?case using st IH by simp
  qed
  moreover have "(length cs - 1 - i) mod unat w = length cs - 1 - i" if "length cs - i \<le> unat w" using that assms(4) by simp
  ultimately show ?thesis using assms(4) by (simp add: GetHeaderHash_def Let_def S_def key_def w_def)
qed

theorem block_hash_ring_witness:
  "GetHeaderHash 6 (vm_DefaultParams ex_vp) 6
     (ts_store (fold (vm_BeginBlock ex_T ex_coin_info) [ex_ctx\<lparr>tc_HeaderHash := [3]\<rparr>, ex_ctx\<lparr>tc_Height := 6, tc_HeaderHash := [4]\<rparr>] (ex_ts 0 1000 []))) = 4"
proof -
  have "vm_GetCodeHash ledger_vm (ts_store (ex_ts 0 1000 [])) 6 = 9"
    by (simp add: vm_GetCodeHash_def ex_ts_def ex_chain_def)
  then have "history_contract ex_T (ts_store (ex_ts 0 1000 []))"
    by (simp add: history_contract_def ex_view6 vm_IsContract_def ex_code) (simp add: ex_evm_def ex_view6 vm_IsContract_def ex_code)
  moreover have "HistoryStorageAddress ex_evm = 6" by (simp add: ex_evm_def)
  moreover have "HistoryWindow (vm_DefaultParams ex_vp) = 8192" by (simp add: HistoryWindow_def vm_DefaultParams_def DefaultHistoryServeWindow_def)
  ultimately show ?thesis
    using block_hash_ring [of ex_T "ex_ts 0 1000 []" "[ex_ctx\<lparr>tc_HeaderHash := [3]\<rparr>, ex_ctx\<lparr>tc_Height := 6, tc_HeaderHash := [4]\<rparr>]" 5 1 ex_coin_info]
    by (simp add: less_Suc_eq vm_GetParams_def BytesToHash_def)
qed

section \<open>Cosmos transactions\<close>

lemma dec_CeilInt_bounds: "d \<le> dec_CeilInt d * dec_one" "dec_CeilInt d * dec_one < d + dec_one"
proof -
  have "0 < dec_one" by (simp add: dec_one_def)
  then have "0 \<le> (- d) mod dec_one" "(- d) mod dec_one < dec_one" by simp_all
  moreover have "(- d) div dec_one * dec_one = - d - (- d) mod dec_one" by (simp add: minus_mod_eq_div_mult)
  ultimately show "d \<le> dec_CeilInt d * dec_one" "dec_CeilInt d * dec_one < d + dec_one" by (simp_all add: dec_CeilInt_def)
qed

text \<open>
  C33. The fee of a Cosmos transaction after London: it is paid in one coin, at most the amount that was signed, at least the base fee for all of
  the gas, and it stays within one unit of base fee and priority price for the gas; the priority is a non-negative 64-bit number.
\<close>

theorem FeeChecker_bounds:
  assumes "fm_laws X" "eth_IsLondon G (tc_Height ctx)" "fm_valid p" "0 \<le> coins_AmountOf B (ft_Fee tx) dn"
    "FeeChecker X G B gte ctx mgp p dn tx = Inr (fee, prio)"
  shows "\<exists>f. fee = [(dn, f)] \<and> f \<le> coins_AmountOf B (ft_Fee tx) dn \<and>
    (\<forall>b. IsBaseFeeEnabled p (tc_Height ctx) \<and> BaseFee p = Some b \<longrightarrow> b * uint (ft_Gas tx) \<le> f * dec_one \<and>
       (\<forall>t. ft_MaxPriorityPrice tx = Some (Some t) \<longrightarrow> f * dec_one < (b + t) * uint (ft_Gas tx) + dec_one)) \<and>
    0 \<le> prio \<and> prio < 2 ^ 63"
proof -
  let ?A = "coins_AmountOf B (ft_Fee tx) dn" and ?g = "uint (ft_Gas tx)"
  define b where "b = (case BaseFee p of None \<Rightarrow> 0 | Some b \<Rightarrow> if IsBaseFeeEnabled p (tc_Height ctx) then b else 0)"
  define t where "t = (case ft_MaxPriorityPrice tx of None \<Rightarrow> LegacyNewDec MaxInt64 | Some None \<Rightarrow> 0 | Some (Some p) \<Rightarrow> p)"
  define cap where "cap = ?A * dec_one div ?g"
  define e where "e = min (t + b) cap"
  have b: "0 \<le> b" using assms(3) by (auto simp: b_def fm_valid_iff)
  have one: "0 < dec_one" by (simp add: dec_one_def)
  have g: "0 < ?g" using assms(2,5) by (auto simp: FeeChecker_def Let_def uint_pos split: if_splits)
  have cap: "dec_QuoInt X (LegacyNewDec ?A) ?g = cap"
    using g one assms(4) by (simp add: fm_laws.QuoInt_truncates [OF assms(1)] LegacyNewDec_def cap_def quo_pos)
  note r = assms(5) [unfolded FeeChecker_def Let_def cap effectiveGasPriceLegacyDec_def, folded b_def t_def, folded e_def]
  have t: "0 \<le> t" "b \<le> cap" using r assms(2) by (auto split: if_splits)
  then have e: "b \<le> e" "e \<le> cap" "e \<le> b + t" by (simp_all add: e_def)
  define f where "f = dec_CeilInt (e * ?g)"
  have fee: "fee = [(dn, f)]" using r assms(2) by (auto simp: f_def split: if_splits)
  have "cap * ?g \<le> ?A * dec_one" unfolding cap_def minus_mod_eq_div_mult [symmetric] using g by simp
  then have eg: "e * ?g \<le> ?A * dec_one" using mult_right_mono [OF e(2), of ?g] by simp
  have "f * dec_one < ?A * dec_one + dec_one" using dec_CeilInt_bounds(2) [of "e * ?g"] eg by (simp add: f_def)
  then have "f * dec_one < (?A + 1) * dec_one" by (simp add: algebra_simps)
  then have fA: "f \<le> ?A" using one by (simp only: mult_less_cancel_right_pos [OF one])
  have fb: "b * ?g \<le> f * dec_one" using mult_right_mono [OF e(1), of ?g] dec_CeilInt_bounds(1) [of "e * ?g"] by (simp add: f_def)
  have ft: "f * dec_one < (b + t) * ?g + dec_one" using mult_right_mono [OF e(3), of ?g] dec_CeilInt_bounds(2) [of "e * ?g"] by (simp add: f_def)
  have "0 \<le> dec_TruncateInt X (dec_QuoInt X (e - b) DefaultPriorityReduction)"
    using e(1) by (simp add: fm_laws.TruncateInt_truncates [OF assms(1)] fm_laws.QuoInt_truncates [OF assms(1)] DefaultPriorityReduction_def quo_nonneg dec_one_def)
  then have "0 \<le> prio \<and> prio < 2 ^ 63" using r assms(2) by (auto simp: IsInt64_def MaxInt64_def split: if_splits)
  with fee fA fb ft show ?thesis by (auto simp: b_def t_def)
qed

definition ex_fee_tx :: feeTx where
  "ex_fee_tx = \<lparr>ft_Gas = 100, ft_Fee = [(''uatom'', 1000)], ft_MaxPriorityPrice = Some (Some (2 * dec_one))\<rparr>"

theorem FeeChecker_bounds_witness:
  "\<exists>prio. FeeChecker sdk_fm ex_eth ledger_bank (\<lambda>_ _. True) ex_ctx [] (ex_params\<lparr>BaseFee := Some (3 * dec_one)\<rparr>) ''uatom'' ex_fee_tx = Inr ([(''uatom'', 500)], prio) \<and>
     500 * dec_one < (3 * dec_one + 2 * dec_one) * 100 + dec_one \<and> 0 \<le> prio"
proof -
  have "fm_valid (ex_params\<lparr>BaseFee := Some (3 * dec_one)\<rparr>)" using ex_ts_simps(6) by (auto simp: fm_valid_iff dec_one_def)
  moreover obtain prio where r: "FeeChecker sdk_fm ex_eth ledger_bank (\<lambda>_ _. True) ex_ctx [] (ex_params\<lparr>BaseFee := Some (3 * dec_one)\<rparr>) ''uatom'' ex_fee_tx = Inr ([(''uatom'', 500)], prio)"
    by (simp add: FeeChecker_def ex_fee_tx_def ledger_bank_def l_amount_def IsBaseFeeEnabled_def ex_params_def fm_DefaultParams_def Let_def LegacyNewDec_def
        quo_def dec_one_def effectiveGasPriceLegacyDec_def dec_CeilInt_def)
  moreover have "coins_AmountOf ledger_bank (ft_Fee ex_fee_tx) ''uatom'' = 1000" by (simp add: ledger_bank_def l_amount_def ex_fee_tx_def)
  moreover have "IsBaseFeeEnabled (ex_params\<lparr>BaseFee := Some (3 * dec_one)\<rparr>) 5" by (simp add: IsBaseFeeEnabled_def ex_params_def fm_DefaultParams_def)
  ultimately show ?thesis using FeeChecker_bounds [OF sfm.fm_laws_axioms _ _ _ r] by (auto simp: ex_fee_tx_def)
qed

end
