(* ===== verification/GoHeap.thy ===== *)
theory GoHeap
  imports Prelude "HOL-Library.Multiset"
begin

text \<open>
  The binary heap of Go's \<open>container/heap\<close>, on which the transaction pool and the block builder rest: a
  slice in which the parent of index \<open>j\<close> is \<open>(j - 1) div 2\<close>. The functions are those of the standard
  library with \<open>Less\<close> as a parameter, since every \<open>Less\<close> of the pool compares the two elements and not their
  positions. The locale \<open>heap_order\<close> asks of \<open>Less\<close> what \<open>sort.Interface\<close> asks: a strict weak order.
  Shown are that each function keeps the heap property and the multiset of the elements, and that \<open>Pop\<close> returns
  a least element.
\<close>

section \<open>The functions of container/heap\<close>

definition swap_at :: "nat \<Rightarrow> nat \<Rightarrow> 'a list \<Rightarrow> 'a list" where
  "swap_at i j h = h[i := h ! j, j := h ! i]"

definition parent :: "nat \<Rightarrow> nat" where
  "parent j = (j - 1) div 2"

lemma parent_less: "0 < j \<Longrightarrow> parent j < j"
  by (simp add: parent_def)

lemma parent_le: "parent j \<le> j"
  by (simp add: parent_def)

lemma parent_eq_self [simp]: "parent j = j \<longleftrightarrow> j = 0"
  by (auto simp: parent_def)

lemma parent_iff: "0 < c \<Longrightarrow> parent c = i \<longleftrightarrow> c = 2 * i + 1 \<or> c = 2 * i + 2"
  by (auto simp: parent_def)

function heap_up :: "('a \<Rightarrow> 'a \<Rightarrow> bool) \<Rightarrow> nat \<Rightarrow> 'a list \<Rightarrow> 'a list" where
  "heap_up lss j h =
     (let i = parent j in
      if i = j \<or> \<not> lss (h ! j) (h ! i) then h else heap_up lss i (swap_at i j h))"
  by pat_completeness auto
termination
  by (relation "measure (\<lambda>(lss, j, h). j)") (auto simp: parent_less)

text \<open>The child of \<open>i\<close> that \<open>down\<close> compares with: the right one if it is there and smaller.\<close>

definition heap_child :: "('a \<Rightarrow> 'a \<Rightarrow> bool) \<Rightarrow> nat \<Rightarrow> nat \<Rightarrow> 'a list \<Rightarrow> nat" where
  "heap_child lss i n h =
     (let j1 = 2 * i + 1; j2 = j1 + 1 in if j2 < n \<and> lss (h ! j2) (h ! j1) then j2 else j1)"

lemma heap_child_range: "i < heap_child lss i n h"
  by (simp add: heap_child_def Let_def)

text \<open>The slice and the index at which the element stops.\<close>

function heap_down :: "('a \<Rightarrow> 'a \<Rightarrow> bool) \<Rightarrow> nat \<Rightarrow> nat \<Rightarrow> 'a list \<Rightarrow> 'a list \<times> nat" where
  "heap_down lss i n h =
     (if n \<le> 2 * i + 1 then (h, i)
      else let j = heap_child lss i n h in
        if \<not> lss (h ! j) (h ! i) then (h, i) else heap_down lss j n (swap_at i j h))"
  by pat_completeness auto
termination
  by (relation "measure (\<lambda>(lss, i, n, h). n - i)") (auto simp: heap_child_def Let_def split: if_splits)

declare heap_up.simps [simp del] heap_down.simps [simp del]

primrec heap_init_loop :: "('a \<Rightarrow> 'a \<Rightarrow> bool) \<Rightarrow> nat \<Rightarrow> nat \<Rightarrow> 'a list \<Rightarrow> 'a list" where
  "heap_init_loop lss n 0 h = h"
| "heap_init_loop lss n (Suc i) h = heap_init_loop lss n i (fst (heap_down lss i n h))"

definition heap_Init :: "('a \<Rightarrow> 'a \<Rightarrow> bool) \<Rightarrow> 'a list \<Rightarrow> 'a list" where
  "heap_Init lss h = heap_init_loop lss (length h) (length h div 2) h"

definition heap_Push :: "('a \<Rightarrow> 'a \<Rightarrow> bool) \<Rightarrow> 'a \<Rightarrow> 'a list \<Rightarrow> 'a list" where
  "heap_Push lss x h = heap_up lss (length h) (h @ [x])"

text \<open>\<open>Pop\<close> of an empty heap indexes out of range and panics: no result.\<close>

definition heap_Pop :: "('a \<Rightarrow> 'a \<Rightarrow> bool) \<Rightarrow> 'a list \<Rightarrow> ('a \<times> 'a list) option" where
  "heap_Pop lss h =
     (if h = [] then None
      else let n = length h - 1; h' = fst (heap_down lss 0 n (swap_at 0 n h)) in
        Some (last h', butlast h'))"

definition heap_fix :: "('a \<Rightarrow> 'a \<Rightarrow> bool) \<Rightarrow> nat \<Rightarrow> nat \<Rightarrow> 'a list \<Rightarrow> 'a list" where
  "heap_fix lss i n h =
     (let (h', i') = heap_down lss i n h in if i < i' then h' else heap_up lss i h')"

definition heap_Remove :: "('a \<Rightarrow> 'a \<Rightarrow> bool) \<Rightarrow> nat \<Rightarrow> 'a list \<Rightarrow> ('a \<times> 'a list) option" where
  "heap_Remove lss i h =
     (if length h \<le> i then None
      else let n = length h - 1; h' = (if n = i then h else heap_fix lss i n (swap_at i n h)) in
        Some (last h', butlast h'))"

definition heap_Fix :: "('a \<Rightarrow> 'a \<Rightarrow> bool) \<Rightarrow> nat \<Rightarrow> 'a list \<Rightarrow> 'a list" where
  "heap_Fix lss i h = heap_fix lss i (length h) h"

section \<open>Swapping\<close>

lemma length_swap_at [simp]: "length (swap_at i j h) = length h"
  by (simp add: swap_at_def)

lemma nth_swap_at:
  "i < length h \<Longrightarrow> j < length h \<Longrightarrow> k < length h \<Longrightarrow>
   swap_at i j h ! k = (if k = i then h ! j else if k = j then h ! i else h ! k)"
  by (auto simp: swap_at_def nth_list_update)

lemma mset_swap_at [simp]: "i < length h \<Longrightarrow> j < length h \<Longrightarrow> mset (swap_at i j h) = mset h"
  by (simp add: swap_at_def mset_swap)

lemma swap_at_outside:
  "i < length h \<Longrightarrow> j < length h \<Longrightarrow> k < length h \<Longrightarrow> k \<noteq> i \<Longrightarrow> k \<noteq> j \<Longrightarrow> swap_at i j h ! k = h ! k"
  by (simp add: nth_swap_at)

lemma heap_child_bound: "2 * i + 1 < n \<Longrightarrow> heap_child lss i n h < n"
  by (simp add: heap_child_def Let_def)

lemma parent_heap_child [simp]: "parent (heap_child lss i n h) = i"
  by (simp add: heap_child_def Let_def parent_def)

text \<open>One round of the loops.\<close>

lemma heap_down_stop:
  "n \<le> 2 * i + 1 \<or> \<not> lss (h ! heap_child lss i n h) (h ! i) \<Longrightarrow> heap_down lss i n h = (h, i)"
  by (subst heap_down.simps) (auto simp: Let_def)

lemma heap_down_step:
  "\<not> n \<le> 2 * i + 1 \<Longrightarrow> lss (h ! heap_child lss i n h) (h ! i) \<Longrightarrow>
   heap_down lss i n h = heap_down lss (heap_child lss i n h) n (swap_at i (heap_child lss i n h) h)"
  by (subst heap_down.simps) (auto simp: Let_def)

lemma heap_up_stop: "j = 0 \<or> \<not> lss (h ! j) (h ! parent j) \<Longrightarrow> heap_up lss j h = h"
  by (subst heap_up.simps) (auto simp: Let_def)

lemma heap_up_step:
  "0 < j \<Longrightarrow> lss (h ! j) (h ! parent j) \<Longrightarrow> heap_up lss j h = heap_up lss (parent j) (swap_at (parent j) j h)"
  by (subst heap_up.simps) (auto simp: Let_def)

lemma heap_down_perm:
  "n \<le> length h \<Longrightarrow> i < n \<Longrightarrow>
   length (fst (heap_down lss i n h)) = length h \<and> mset (fst (heap_down lss i n h)) = mset h \<and>
   (\<forall>k. n \<le> k \<and> k < length h \<longrightarrow> fst (heap_down lss i n h) ! k = h ! k) \<and>
   i \<le> snd (heap_down lss i n h)"
proof (induction lss i n h rule: heap_down.induct)
  case (1 lss i n h)
  let ?j = "heap_child lss i n h"
  show ?case
  proof (cases "n \<le> 2 * i + 1 \<or> \<not> lss (h ! ?j) (h ! i)")
    case True
    then show ?thesis by (simp add: heap_down_stop)
  next
    case False
    then have f: "\<not> n \<le> 2 * i + 1" "\<not> \<not> lss (h ! ?j) (h ! i)" by auto
    then have j: "?j < n" "i < ?j" by (auto simp: heap_child_bound heap_child_range)
    have eq: "heap_down lss i n h = heap_down lss ?j n (swap_at i ?j h)"
      using f by (simp add: heap_down_step)
    from 1(1) [OF f(1) refl f(2)] j "1.prems" show ?thesis
      unfolding eq by (auto simp: nth_swap_at)
  qed
qed

lemma heap_up_perm:
  "j < length h \<Longrightarrow> length (heap_up lss j h) = length h \<and> mset (heap_up lss j h) = mset h \<and>
   (\<forall>k. j < k \<and> k < length h \<longrightarrow> heap_up lss j h ! k = h ! k)"
proof (induction lss j h rule: heap_up.induct)
  case (1 lss j h)
  show ?case
  proof (cases "parent j = j \<or> \<not> lss (h ! j) (h ! parent j)")
    case True
    then show ?thesis by (auto simp: heap_up_stop)
  next
    case False
    then have "parent j < j" by (simp add: parent_less)
    moreover have eq: "heap_up lss j h = heap_up lss (parent j) (swap_at (parent j) j h)"
      using False by (simp add: heap_up_step)
    ultimately show ?thesis
      using 1(1) [OF refl False] "1.prems" unfolding eq by (auto simp: nth_swap_at)
  qed
qed

lemma heap_fix_perm:
  assumes "n \<le> length h" "i < n"
  shows "length (heap_fix lss i n h) = length h \<and> mset (heap_fix lss i n h) = mset h \<and>
    (\<forall>k. n \<le> k \<and> k < length h \<longrightarrow> heap_fix lss i n h ! k = h ! k)"
  using heap_down_perm [OF assms, of lss] heap_up_perm [of i "fst (heap_down lss i n h)" lss] assms
  by (auto simp: heap_fix_def split: prod.splits)

section \<open>The heap property\<close>

locale heap_order =
  fixes lss :: "'a \<Rightarrow> 'a \<Rightarrow> bool"
  assumes asym: "lss x y \<Longrightarrow> \<not> lss y x"
    and negtrans: "\<not> lss y x \<Longrightarrow> \<not> lss z y \<Longrightarrow> \<not> lss z x"
begin

text \<open>The edges of the first \<open>n\<close> elements whose upper end is at \<open>k\<close> or below are in order.\<close>

definition heap_from :: "nat \<Rightarrow> nat \<Rightarrow> 'a list \<Rightarrow> bool" where
  "heap_from k n h \<longleftrightarrow> (\<forall>j. 0 < j \<and> j < n \<and> k \<le> parent j \<longrightarrow> \<not> lss (h ! j) (h ! parent j))"

abbreviation is_heap :: "'a list \<Rightarrow> bool" where
  "is_heap h \<equiv> heap_from 0 (length h) h"

definition skip_ok :: "nat \<Rightarrow> nat \<Rightarrow> 'a list \<Rightarrow> nat \<Rightarrow> bool" where
  "skip_ok k n h i \<longleftrightarrow>
     (\<forall>j. 0 < j \<and> j < n \<and> parent j = i \<and> 0 < i \<and> k \<le> parent i \<longrightarrow> \<not> lss (h ! j) (h ! parent i))"

text \<open>In order except out of \<open>i\<close>, respectively except into \<open>i\<close>, respectively except at \<open>i\<close>.\<close>

definition sinking :: "nat \<Rightarrow> nat \<Rightarrow> 'a list \<Rightarrow> nat \<Rightarrow> bool" where
  "sinking k n h i \<longleftrightarrow> skip_ok k n h i \<and>
     (\<forall>j. 0 < j \<and> j < n \<and> k \<le> parent j \<and> parent j \<noteq> i \<longrightarrow> \<not> lss (h ! j) (h ! parent j))"

definition rising :: "nat \<Rightarrow> 'a list \<Rightarrow> nat \<Rightarrow> bool" where
  "rising n h i \<longleftrightarrow> skip_ok 0 n h i \<and>
     (\<forall>j. 0 < j \<and> j < n \<and> j \<noteq> i \<longrightarrow> \<not> lss (h ! j) (h ! parent j))"

definition broken :: "nat \<Rightarrow> 'a list \<Rightarrow> nat \<Rightarrow> bool" where
  "broken n h i \<longleftrightarrow> skip_ok 0 n h i \<and>
     (\<forall>j. 0 < j \<and> j < n \<and> parent j \<noteq> i \<and> j \<noteq> i \<longrightarrow> \<not> lss (h ! j) (h ! parent j))"

lemma irrefl: "\<not> lss x x"
  using asym by blast

lemma child_least:
  assumes "0 < c" "c < n" "parent c = i"
  shows "\<not> lss (h ! c) (h ! heap_child lss i n h)"
proof -
  have "c = 2 * i + 1 \<or> c = 2 * i + 2" using assms parent_iff by blast
  then show ?thesis
    using assms(2) irrefl asym by (auto simp: heap_child_def Let_def)
qed

lemma step_sinking:
  assumes "n \<le> length h" "2 * i + 1 < n" "k \<le> i"
    and lt: "lss (h ! heap_child lss i n h) (h ! i)"
    and out: "\<And>c. 0 < c \<Longrightarrow> c < n \<Longrightarrow> k \<le> parent c \<Longrightarrow> parent c \<noteq> i \<Longrightarrow> c \<noteq> i \<Longrightarrow>
      \<not> lss (h ! c) (h ! parent c)"
    and skip: "skip_ok k n h i"
  shows "sinking k n (swap_at i (heap_child lss i n h) h) (heap_child lss i n h)"
proof -
  let ?j = "heap_child lss i n h"
  let ?h = "swap_at i ?j h"
  have j: "?j < n" "i < ?j" "parent ?j = i"
    using assms(2) by (simp_all add: heap_child_bound heap_child_range)
  have nth: "c < n \<Longrightarrow> ?h ! c = (if c = i then h ! ?j else if c = ?j then h ! i else h ! c)" for c
    using assms(1) j by (simp add: nth_swap_at)
  have pn: "c < n \<Longrightarrow> parent c < n" for c using parent_le le_less_trans by blast
  have "skip_ok k n ?h ?j"
    unfolding skip_ok_def
  proof (intro allI impI, elim conjE)
    fix c
    assume c: "0 < c" "c < n" "parent c = ?j"
    then have "c \<noteq> i" "c \<noteq> ?j" "i < n" using j parent_less [of c] by auto
    moreover have "\<not> lss (h ! c) (h ! ?j)"
      using out [of c] c j assms(3) \<open>c \<noteq> i\<close> by auto
    ultimately show "\<not> lss (?h ! c) (?h ! parent ?j)"
      using nth c j by simp
  qed
  moreover have "\<not> lss (?h ! c) (?h ! parent c)"
    if c: "0 < c" "c < n" "k \<le> parent c" "parent c \<noteq> ?j" for c
  proof (cases "parent c = i")
    case True
    then have "?h ! parent c = h ! ?j" "c \<noteq> i"
      using nth [OF pn [OF c(2)]] c(1) parent_less [of c] by auto
    moreover have "?h ! c = (if c = ?j then h ! i else h ! c)" using nth [OF c(2)] \<open>c \<noteq> i\<close> by simp
    ultimately show ?thesis
      using child_least [OF c(1,2) True, of h] asym [OF lt] by (simp split: if_splits)
  next
    case False
    then have hp: "?h ! parent c = h ! parent c" using nth [OF pn [OF c(2)]] c(4) by simp
    show ?thesis
    proof (cases "c = i")
      case True
      then have "\<not> lss (h ! ?j) (h ! parent c)"
        using skip [unfolded skip_ok_def, rule_format, of ?j] j c by simp
      then show ?thesis using True hp nth [OF c(2)] by simp
    next
      case ne: False
      have "c \<noteq> ?j" using False j by auto
      then show ?thesis using out [OF c(1-3) False ne] hp nth [OF c(2)] ne by simp
    qed
  qed
  ultimately show ?thesis unfolding sinking_def by blast
qed

lemma sinking_stop:
  assumes "sinking k n h i" "n \<le> 2 * i + 1 \<or> \<not> lss (h ! heap_child lss i n h) (h ! i)"
  shows "heap_from k n h"
  unfolding heap_from_def
proof (intro allI impI, elim conjE)
  fix c
  assume c: "0 < c" "c < n" "k \<le> parent c"
  show "\<not> lss (h ! c) (h ! parent c)"
  proof (cases "parent c = i")
    case True
    then have "\<not> n \<le> 2 * i + 1" using c parent_iff [of c i] by auto
    then have "\<not> lss (h ! heap_child lss i n h) (h ! i)" using assms(2) by blast
    then show ?thesis using child_least [OF c(1,2) True, of h] True negtrans by blast
  next
    case False
    then show ?thesis using assms(1) c unfolding sinking_def by blast
  qed
qed

lemma heap_down_sinking:
  "n \<le> length h \<Longrightarrow> k \<le> i \<Longrightarrow> sinking k n h i \<Longrightarrow> heap_from k n (fst (heap_down lss i n h))"
proof (induction lss \<equiv> lss i n h rule: heap_down.induct)
  case (1 i n h)
  let ?j = "heap_child lss i n h"
  show ?case
  proof (cases "n \<le> 2 * i + 1 \<or> \<not> lss (h ! ?j) (h ! i)")
    case True
    then have "fst (heap_down lss i n h) = h" by (simp add: heap_down_stop)
    then show ?thesis using sinking_stop [OF "1.prems"(3) True] by simp
  next
    case False
    then have f: "\<not> n \<le> 2 * i + 1" "\<not> \<not> lss (h ! ?j) (h ! i)" by auto
    have s: "sinking k n (swap_at i ?j h) ?j"
      by (rule step_sinking) (use f "1.prems" in \<open>auto simp: sinking_def\<close>)
    have "k \<le> ?j" using "1.prems"(2) heap_child_range [of i lss n h] by simp
    with 1(1) [OF f(1) refl f(2) _ this s] f "1.prems" show ?thesis
      by (simp add: heap_down_step)
  qed
qed

lemma heap_up_rising:
  "j < n \<Longrightarrow> n \<le> length h \<Longrightarrow> rising n h j \<Longrightarrow> heap_from 0 n (heap_up lss j h)"
proof (induction lss \<equiv> lss j h rule: heap_up.induct)
  case (1 j h)
  let ?i = "parent j"
  show ?case
  proof (cases "?i = j \<or> \<not> lss (h ! j) (h ! ?i)")
    case True
    then have "heap_up lss j h = h" by (auto simp: heap_up_stop)
    moreover have "heap_from 0 n h"
      using "1.prems"(3) True unfolding heap_from_def rising_def by (metis parent_eq_self less_irrefl)
    ultimately show ?thesis by simp
  next
    case False
    let ?h = "swap_at ?i j h"
    have ij: "?i < j" "0 < j" using False parent_less [of j] by auto
    have nth: "c < n \<Longrightarrow> ?h ! c = (if c = ?i then h ! j else if c = j then h ! ?i else h ! c)" for c
      using "1.prems" ij by (simp add: nth_swap_at)
    have edge: "0 < c \<Longrightarrow> c < n \<Longrightarrow> c \<noteq> j \<Longrightarrow> \<not> lss (h ! c) (h ! parent c)" for c
      using "1.prems"(3) unfolding rising_def by blast
    have skip: "0 < c \<Longrightarrow> c < n \<Longrightarrow> parent c = j \<Longrightarrow> \<not> lss (h ! c) (h ! ?i)" for c
      using "1.prems"(3) ij unfolding rising_def skip_ok_def by blast
    have lt: "lss (h ! j) (h ! ?i)" using False by simp
    have "\<not> lss (?h ! c) (?h ! parent c)" if c: "0 < c" "c < n" "c \<noteq> ?i" for c
    proof -
      have pc: "parent c < n" "parent c < c" using c parent_less [of c] by auto
      consider "c = j" | "c \<noteq> j" "parent c = j" | "c \<noteq> j" "parent c = ?i" | "c \<noteq> j" "parent c \<noteq> j" "parent c \<noteq> ?i"
        by blast
      then show ?thesis
      proof cases
        case 1
        then show ?thesis using nth [of c] nth [of ?i] c ij asym [OF lt] by simp
      next
        case 2
        then show ?thesis using nth [of c] nth [of j] c ij pc skip [of c] by simp
      next
        case 3
        then have "\<not> lss (h ! c) (h ! ?i)" using edge [of c] c by simp
        then have "\<not> lss (h ! c) (h ! j)" using asym [OF lt] negtrans by blast
        then show ?thesis using nth [of c] nth [of ?i] c ij pc 3 by simp
      next
        case 4
        then show ?thesis using nth [of c] nth [of "parent c"] c pc edge [of c] by simp
      qed
    qed
    moreover have "\<not> lss (?h ! c) (?h ! parent ?i)" if c: "0 < c" "c < n" "parent c = ?i" "0 < ?i" for c
    proof -
      have pi: "parent ?i < ?i" "parent ?i < n" "?i < n" using parent_less [OF c(4)] ij "1.prems"(1) by auto
      have e: "\<not> lss (h ! ?i) (h ! parent ?i)" using edge [of ?i] pi ij c by simp
      have "\<not> lss (h ! c) (h ! parent ?i)" if "c \<noteq> j"
        using edge [of c] c that e negtrans by auto
      then show ?thesis
        using nth [of c] nth [of "parent ?i"] c pi ij e by auto
    qed
    ultimately have "rising n ?h ?i"
      unfolding rising_def skip_ok_def by blast
    then show ?thesis
      using 1(1) [OF refl False] "1.prems" ij False by (simp add: heap_up_step)
  qed
qed

lemma heap_fix_heap:
  assumes "n \<le> length h" "i < n" "broken n h i"
  shows "heap_from 0 n (heap_fix lss i n h)"
proof (cases "n \<le> 2 * i + 1 \<or> \<not> lss (h ! heap_child lss i n h) (h ! i)")
  case True
  then have "heap_down lss i n h = (h, i)" by (rule heap_down_stop)
  then have eq: "heap_fix lss i n h = heap_up lss i h" by (simp add: heap_fix_def)
  have "rising n h i"
    unfolding rising_def
  proof (intro conjI allI impI, goal_cases)
    case 1
    show ?case using assms(3) by (simp add: broken_def)
  next
    case (2 c)
    show ?case
    proof (cases "parent c = i")
      case p: True
      have "\<not> n \<le> 2 * i + 1" using 2 p parent_iff [of c i] by auto
      then have "\<not> lss (h ! heap_child lss i n h) (h ! i)" using True by blast
      then show ?thesis using child_least [of c n i h] 2 p negtrans by blast
    next
      case False
      then show ?thesis using assms(3) 2 by (simp add: broken_def)
    qed
  qed
  then show ?thesis unfolding eq using heap_up_rising assms(1,2) by blast
next
  case False
  let ?j = "heap_child lss i n h"
  have eq: "heap_down lss i n h = heap_down lss ?j n (swap_at i ?j h)"
    using False by (simp add: heap_down_step)
  have j: "?j < n" "i < ?j" using False by (auto simp: heap_child_bound heap_child_range)
  have s: "sinking 0 n (swap_at i ?j h) ?j"
    by (rule step_sinking) (use False assms in \<open>auto simp: broken_def\<close>)
  have "i < snd (heap_down lss i n h)"
    unfolding eq using heap_down_perm [of n "swap_at i ?j h" ?j lss] assms j by simp
  then have "heap_fix lss i n h = fst (heap_down lss i n h)"
    by (auto simp: heap_fix_def split: prod.splits)
  then show ?thesis
    unfolding eq using heap_down_sinking [OF _ _ s] assms by simp
qed

section \<open>The contract of the heap\<close>

lemma is_heap_Nil: "is_heap []"
  by (simp add: heap_from_def)

lemma root_least: "is_heap h \<Longrightarrow> i < length h \<Longrightarrow> \<not> lss (h ! i) (h ! 0)"
proof (induction i rule: less_induct)
  case (less i)
  show ?case
  proof (cases "i = 0")
    case True
    then show ?thesis by (simp add: irrefl)
  next
    case False
    then have "\<not> lss (h ! parent i) (h ! 0)" using less.IH [of "parent i"] less.prems parent_less [of i] by simp
    moreover have "\<not> lss (h ! i) (h ! parent i)"
      using less.prems False unfolding heap_from_def by simp
    ultimately show ?thesis using negtrans by blast
  qed
qed

lemma root_least_set: "is_heap h \<Longrightarrow> y \<in> set h \<Longrightarrow> \<not> lss y (h ! 0)"
  by (metis in_set_conv_nth root_least)

lemma init_loop_heap:
  "i \<le> length h \<Longrightarrow> n = length h \<Longrightarrow> heap_from i n h \<Longrightarrow>
   heap_from 0 n (heap_init_loop lss n i h) \<and> mset (heap_init_loop lss n i h) = mset h"
proof (induction i arbitrary: h)
  case (Suc i)
  let ?h = "fst (heap_down lss i n h)"
  have p: "length ?h = length h" "mset ?h = mset h"
    using heap_down_perm [of n h i lss] Suc.prems by auto
  have "sinking i n h i"
    unfolding sinking_def skip_ok_def
  proof (intro conjI allI impI, goal_cases)
    case (1 c)
    then show ?case using parent_less [of i] by simp
  next
    case (2 c)
    then show ?case using Suc.prems(3) unfolding heap_from_def by simp
  qed
  then have "heap_from i n ?h" using heap_down_sinking Suc.prems by simp
  then show ?case using Suc.IH [of ?h] p Suc.prems by simp
qed simp

lemma Init_heap: "is_heap (heap_Init lss h)" and Init_mset: "mset (heap_Init lss h) = mset h"
proof -
  have "heap_from (length h div 2) (length h) h" unfolding heap_from_def parent_def by auto
  then have *: "heap_from 0 (length h) (heap_Init lss h)" "mset (heap_Init lss h) = mset h"
    using init_loop_heap [of "length h div 2" h "length h"] by (auto simp: heap_Init_def)
  moreover have "length (heap_Init lss h) = length h" using *(2) by (metis size_mset)
  ultimately show "is_heap (heap_Init lss h)" "mset (heap_Init lss h) = mset h" by auto
qed

lemma Push_mset: "mset (heap_Push lss x h) = add_mset x (mset h)"
  using heap_up_perm [of "length h" "h @ [x]" lss] by (simp add: heap_Push_def)

lemma Push_heap: "is_heap h \<Longrightarrow> is_heap (heap_Push lss x h)"
proof -
  assume h: "is_heap h"
  have "rising (Suc (length h)) (h @ [x]) (length h)"
    unfolding rising_def skip_ok_def
  proof (intro conjI allI impI, goal_cases)
    case (1 c)
    then show ?case using parent_less [of c] by auto
  next
    case (2 c)
    then have "c < length h" "parent c < length h" using parent_less [of c] by auto
    then show ?case using h 2 by (simp add: heap_from_def nth_append)
  qed
  then have "heap_from 0 (Suc (length h)) (heap_Push lss x h)"
    unfolding heap_Push_def by (intro heap_up_rising) auto
  moreover have "length (heap_Push lss x h) = Suc (length h)"
    by (metis Push_mset size_add_mset size_mset)
  ultimately show "is_heap (heap_Push lss x h)" by simp
qed

lemma heap_from_cong: "(\<And>j. j < n \<Longrightarrow> h ! j = h' ! j) \<Longrightarrow> heap_from k n h = heap_from k n h'"
  unfolding heap_from_def by (metis parent_le le_less_trans)

text \<open>Cutting off the last element, where the element to remove has been moved.\<close>

lemma cut_last:
  assumes "h' \<noteq> []" "mset h' = mset h" "heap_from 0 (length h' - 1) h'" "last h' = x"
  shows "is_heap (butlast h')" "mset h = add_mset x (mset (butlast h'))"
proof -
  have "heap_from 0 (length h' - 1) (butlast h') = heap_from 0 (length h' - 1) h'"
    by (rule heap_from_cong) (simp add: nth_butlast)
  then show "is_heap (butlast h')" using assms by simp
  show "mset h = add_mset x (mset (butlast h'))"
    using assms by (metis append_butlast_last_id mset_append mset.simps union_mset_add_mset_right add_0_right
      empty_neutral(2))
qed

lemma Pop_ok:
  assumes "is_heap h" "h \<noteq> []"
  obtains h' where "heap_Pop lss h = Some (h ! 0, h')" "is_heap h'" "mset h = add_mset (h ! 0) (mset h')"
proof -
  define n where "n = length h - 1"
  define s where "s = swap_at 0 n h"
  define d where "d = fst (heap_down lss 0 n s)"
  have l: "n < length h" "length s = length h" "mset s = mset h" "s ! n = h ! 0" "length h = Suc n"
    using assms(2) by (auto simp: n_def s_def nth_swap_at simp del: length_0_conv)
  have d: "length d = length h" "mset d = mset h" "d ! n = h ! 0 \<and> heap_from 0 n d"
  proof (atomize (full), cases "n = 0")
    case True
    then have "d = s" by (simp add: d_def heap_down_stop)
    then show "length d = length h \<and> mset d = mset h \<and> d ! n = h ! 0 \<and> heap_from 0 n d"
      using l True by (simp add: heap_from_def)
  next
    case False
    have nth: "c < n \<Longrightarrow> s ! c = (if c = 0 then h ! n else h ! c)" for c
      using l by (simp add: s_def nth_swap_at)
    have "sinking 0 n s 0"
      unfolding sinking_def skip_ok_def
    proof (intro conjI allI impI, goal_cases)
      case (2 c)
      then have "s ! c = h ! c" "s ! parent c = h ! parent c"
        using nth [of c] nth [of "parent c"] parent_le [of c] by auto
      then show ?case using assms(1) 2 l(5) by (simp add: heap_from_def)
    qed simp
    then have "heap_from 0 n d" unfolding d_def using heap_down_sinking l by simp
    then show "length d = length h \<and> mset d = mset h \<and> d ! n = h ! 0 \<and> heap_from 0 n d"
      using heap_down_perm [of n s 0 lss] l False by (auto simp: d_def)
  qed
  then have "d \<noteq> []" using l by auto
  then have "last d = h ! 0" using l d by (simp add: last_conv_nth)
  have "heap_Pop lss h = Some (h ! 0, butlast d)"
    using assms(2) \<open>last d = h ! 0\<close> by (simp add: heap_Pop_def Let_def d_def s_def n_def)
  moreover have "is_heap (butlast d)" "mset h = add_mset (h ! 0) (mset (butlast d))"
    using cut_last [of d h "h ! 0"] \<open>d \<noteq> []\<close> \<open>last d = h ! 0\<close> d l by auto
  ultimately show thesis by (rule that)
qed

lemma Remove_ok:
  assumes "is_heap h" "i < length h"
  obtains h' where "heap_Remove lss i h = Some (h ! i, h')" "is_heap h'" "mset h = add_mset (h ! i) (mset h')"
proof -
  define n where "n = length h - 1"
  define d where "d = (if n = i then h else heap_fix lss i n (swap_at i n h))"
  have l: "n < length h" "length h = Suc n" using assms(2) by (auto simp: n_def)
  have d: "length d = length h" "mset d = mset h" "d ! n = h ! i \<and> heap_from 0 n d"
  proof (atomize (full), cases "n = i")
    case True
    then have "d = h" by (simp add: d_def)
    then show "length d = length h \<and> mset d = mset h \<and> d ! n = h ! i \<and> heap_from 0 n d"
      using assms(1) l True by (simp add: heap_from_def)
  next
    case False
    let ?s = "swap_at i n h"
    have lt: "i < n" using False assms(2) l by simp
    have nth: "c < n \<Longrightarrow> ?s ! c = (if c = i then h ! n else h ! c)" for c
      using l assms(2) by (simp add: nth_swap_at)
    have edge: "0 < c \<Longrightarrow> c < n \<Longrightarrow> \<not> lss (h ! c) (h ! parent c)" for c
      using assms(1) l by (simp add: heap_from_def)
    have "broken n ?s i"
      unfolding broken_def skip_ok_def
    proof (intro conjI allI impI, goal_cases)
      case (1 c)
      then have "?s ! c = h ! c" "?s ! parent i = h ! parent i"
        using nth [of c] nth [of "parent i"] parent_less [of c] parent_less [of i] lt by auto
      then show ?case using edge [of c] edge [of i] 1 lt negtrans by metis
    next
      case (2 c)
      then have "?s ! c = h ! c" "?s ! parent c = h ! parent c"
        using nth [of c] nth [of "parent c"] parent_le [of c] by auto
      then show ?case using edge [of c] 2 by simp
    qed
    then have "heap_from 0 n d" using False heap_fix_heap [of n ?s i] lt l by (simp add: d_def)
    moreover have "?s ! n = h ! i" using l assms(2) by (simp add: nth_swap_at)
    ultimately show "length d = length h \<and> mset d = mset h \<and> d ! n = h ! i \<and> heap_from 0 n d"
      using heap_fix_perm [of n ?s i lss] lt l False assms(2) by (simp add: d_def)
  qed
  then have "d \<noteq> []" using l by auto
  then have "last d = h ! i" using l d by (simp add: last_conv_nth)
  have "heap_Remove lss i h = Some (h ! i, butlast d)"
    using assms(2) \<open>last d = h ! i\<close> by (auto simp: heap_Remove_def Let_def d_def n_def)
  moreover have "is_heap (butlast d)" "mset h = add_mset (h ! i) (mset (butlast d))"
    using cut_last [of d h "h ! i"] \<open>d \<noteq> []\<close> \<open>last d = h ! i\<close> d l by auto
  ultimately show thesis by (rule that)
qed

text \<open>\<open>Fix\<close> after the element at \<open>i\<close> has been replaced.\<close>

lemma Fix_ok:
  assumes "is_heap h" "i < length h"
  shows "is_heap (heap_Fix lss i (h[i := x]))" "mset (heap_Fix lss i (h[i := x])) = mset (h[i := x])"
proof -
  let ?s = "h[i := x]"
  have edge: "0 < c \<Longrightarrow> c < length h \<Longrightarrow> \<not> lss (h ! c) (h ! parent c)" for c
    using assms(1) by (simp add: heap_from_def)
  have "broken (length h) ?s i"
    unfolding broken_def skip_ok_def
  proof (intro conjI allI impI, goal_cases)
    case (1 c)
    then have "?s ! c = h ! c" "?s ! parent i = h ! parent i"
      using parent_less [of c] parent_less [of i] by auto
    then show ?case using edge [of c] edge [of i] 1 assms negtrans by metis
  next
    case (2 c)
    then have "?s ! c = h ! c" "?s ! parent c = h ! parent c" by auto
    then show ?case using edge [of c] 2 by simp
  qed
  then show "is_heap (heap_Fix lss i ?s)" "mset (heap_Fix lss i ?s) = mset ?s"
    using heap_fix_heap [of "length h" ?s i] heap_fix_perm [of "length h" ?s i lss] assms
    by (simp_all add: heap_Fix_def)
qed

text \<open>A sorted slice is a heap, and so is every prefix.\<close>

lemma sorted_heap:
  assumes "\<And>i j. i < j \<Longrightarrow> j < length h \<Longrightarrow> \<not> lss (h ! j) (h ! i)"
  shows "is_heap h"
  unfolding heap_from_def using assms parent_less by blast

end

end
