(* ===== verification/TxSortedMap.thy ===== *)
theory TxSortedMap
  imports GoHeap TxMessage
begin

text \<open>
  The nonce-sorted map of the transaction pool (\<open>SortedMap\<close> in
  \<open>src/mempool/txpool/legacypool/list.go\<close>): a hash map from nonces to transactions, a heap of the nonces and a
  cached sorted slice. One definition per method. The map is an ordered list, whose order the code never sees:
  every \<open>range\<close> over it takes its order from the parameter \<open>R\<close>, which stands for the choice of the Go
  runtime, the first argument counting the \<open>range\<close> statements of a call. A slice of transaction pointers
  is a list of options.

  The refinement at the end says that heap and cache are invisible: any sequence of operations returns what
  the sorted list of the entries returns.
\<close>


section \<open>The heap of nonces\<close>

definition nonceHeap_Less :: "u64 \<Rightarrow> u64 \<Rightarrow> bool" where
  "nonceHeap_Less a b = (a < b)"

interpretation nh: heap_order nonceHeap_Less
  by unfold_locales (auto simp: nonceHeap_Less_def)

section \<open>The operations\<close>

type_synonym range_order = "nat \<Rightarrow> u64 list \<Rightarrow> u64 list"
type_synonym txptrs = "ethTx option list"

record SortedMap =
  sm_items :: "(u64, ethTx) kv"
  sm_index :: "u64 list"
  sm_cache :: "ethTx list option"

definition NewSortedMap :: SortedMap where
  "NewSortedMap = \<lparr>sm_items = [], sm_index = [], sm_cache = None\<rparr>"

definition sm_Get :: "u64 \<Rightarrow> SortedMap \<Rightarrow> ethTx option" where
  "sm_Get nonce m = kv_get (sm_items m) nonce"

definition sm_Put :: "ethTx \<Rightarrow> SortedMap \<Rightarrow> SortedMap" where
  "sm_Put tx m =
     (let nonce = tx_Nonce tx;
          index = (if kv_get (sm_items m) nonce = None then heap_Push nonceHeap_Less nonce (sm_index m) else sm_index m)
      in m\<lparr>sm_index := index, sm_items := kv_set nonce tx (sm_items m), sm_cache := None\<rparr>)"

lemma length_heap_Pop: "heap_Pop lss h = Some (x, h') \<Longrightarrow> length h' < length h"
proof -
  assume p: "heap_Pop lss h = Some (x, h')"
  then have ne: "h \<noteq> []" by (auto simp: heap_Pop_def)
  let ?n = "length h - 1"
  have "length (fst (heap_down lss 0 ?n (swap_at 0 ?n h))) = length h"
    using heap_down_perm [of ?n "swap_at 0 ?n h" 0 lss] heap_down_stop [of ?n 0 lss "swap_at 0 ?n h"]
    by (cases "?n = 0") auto
  then show ?thesis using p ne by (auto simp: heap_Pop_def Let_def)
qed

function sm_forward_loop :: "u64 \<Rightarrow> SortedMap \<Rightarrow> txptrs \<Rightarrow> SortedMap \<times> txptrs" where
  "sm_forward_loop threshold m removed =
     (if sm_index m \<noteq> [] \<and> sm_index m ! 0 < threshold then
        case heap_Pop nonceHeap_Less (sm_index m) of
          None \<Rightarrow> (m, removed)
        | Some (nonce, index) \<Rightarrow>
            sm_forward_loop threshold (m\<lparr>sm_index := index, sm_items := kv_delete nonce (sm_items m)\<rparr>)
              (removed @ [kv_get (sm_items m) nonce])
      else (m, removed))"
  by pat_completeness auto
termination
  by (relation "measure (\<lambda>(threshold, m, removed). length (sm_index m))") (auto dest: length_heap_Pop)

declare sm_forward_loop.simps [simp del]

text \<open>Slicing beyond the length of the cache panics.\<close>

definition slice_bounds :: fault where
  "slice_bounds = Panic ''slice bounds out of range''"

definition sm_Forward :: "u64 \<Rightarrow> SortedMap \<Rightarrow> (SortedMap \<times> txptrs) res" where
  "sm_Forward threshold m =
     (let (m', removed) = sm_forward_loop threshold m [] in
      case sm_cache m' of
        None \<Rightarrow> Inr (m', removed)
      | Some c \<Rightarrow>
          if length c < length removed then Inl slice_bounds
          else Inr (m'\<lparr>sm_cache := Some (drop (length removed) c)\<rparr>, removed))"

definition sm_reheap :: "(u64 list \<Rightarrow> u64 list) \<Rightarrow> SortedMap \<Rightarrow> SortedMap" where
  "sm_reheap rng m =
     m\<lparr>sm_index := heap_Init nonceHeap_Less (rng (kv_keys (sm_items m))), sm_cache := None\<rparr>"

fun sm_filter_loop :: "(ethTx \<Rightarrow> bool) \<Rightarrow> u64 list \<Rightarrow> (u64, ethTx) kv \<Rightarrow> ethTx list \<Rightarrow> (u64, ethTx) kv \<times> ethTx list" where
  "sm_filter_loop f [] items removed = (items, removed)"
| "sm_filter_loop f (nonce # ns) items removed =
     (case kv_get items nonce of
        None \<Rightarrow> sm_filter_loop f ns items removed
      | Some tx \<Rightarrow>
          if f tx then sm_filter_loop f ns (kv_delete nonce items) (removed @ [tx])
          else sm_filter_loop f ns items removed)"

definition sm_filter :: "(u64 list \<Rightarrow> u64 list) \<Rightarrow> (ethTx \<Rightarrow> bool) \<Rightarrow> SortedMap \<Rightarrow> SortedMap \<times> ethTx list" where
  "sm_filter rng f m =
     (let (items, removed) = sm_filter_loop f (rng (kv_keys (sm_items m))) (sm_items m) [];
          m' = m\<lparr>sm_items := items\<rparr>
      in (if removed \<noteq> [] then m'\<lparr>sm_cache := None\<rparr> else m', removed))"

definition sm_Filter :: "range_order \<Rightarrow> (ethTx \<Rightarrow> bool) \<Rightarrow> SortedMap \<Rightarrow> SortedMap \<times> ethTx list" where
  "sm_Filter R f m =
     (let (m', removed) = sm_filter (R 0) f m in
      (if removed \<noteq> [] then sm_reheap (R 1) m' else m', removed))"

fun sm_cap_loop :: "nat \<Rightarrow> nat \<Rightarrow> u64 list \<Rightarrow> (u64, ethTx) kv \<Rightarrow> txptrs \<Rightarrow> (u64, ethTx) kv \<times> txptrs" where
  "sm_cap_loop threshold 0 index items drops = (items, drops)"
| "sm_cap_loop threshold (Suc sz) index items drops =
     (if threshold < Suc sz then
        sm_cap_loop threshold sz index (kv_delete (index ! sz) items) (drops @ [kv_get items (index ! sz)])
      else (items, drops))"

definition sm_Cap :: "int \<Rightarrow> SortedMap \<Rightarrow> (SortedMap \<times> txptrs) res" where
  "sm_Cap threshold m =
     (if int (length (sm_items m)) \<le> threshold then Inr (m, [])
      else if threshold < 0 \<or> length (sm_index m) < length (sm_items m) then Inl (Panic ''index out of range'')
      else
        let index = sort (sm_index m);
            (items, drops) = sm_cap_loop (nat threshold) (length (sm_items m)) index (sm_items m) [];
            m' = m\<lparr>sm_items := items, sm_index := take (nat threshold) index\<rparr>
        in case sm_cache m' of
             None \<Rightarrow> Inr (m', drops)
           | Some c \<Rightarrow>
               if length c < length drops then Inl slice_bounds
               else Inr (m'\<lparr>sm_cache := Some (take (length c - length drops) c)\<rparr>, drops))"

text \<open>The index of the first occurrence, as the scan in \<open>Remove\<close> finds it.\<close>

fun scan_index :: "nat \<Rightarrow> 'a \<Rightarrow> 'a list \<Rightarrow> nat option" where
  "scan_index i x [] = None"
| "scan_index i x (y # ys) = (if y = x then Some i else scan_index (Suc i) x ys)"

definition sm_Remove :: "u64 \<Rightarrow> SortedMap \<Rightarrow> SortedMap \<times> bool" where
  "sm_Remove nonce m =
     (if kv_get (sm_items m) nonce = None then (m, False)
      else
        let index = (case scan_index 0 nonce (sm_index m) of
            None \<Rightarrow> sm_index m
          | Some i \<Rightarrow> (case heap_Remove nonceHeap_Less i (sm_index m) of None \<Rightarrow> sm_index m | Some (x, h) \<Rightarrow> h))
        in (m\<lparr>sm_index := index, sm_items := kv_delete nonce (sm_items m), sm_cache := None\<rparr>, True))"

function sm_ready_loop :: "u64 \<Rightarrow> SortedMap \<Rightarrow> txptrs \<Rightarrow> SortedMap \<times> txptrs" where
  "sm_ready_loop next m ready =
     (if sm_index m \<noteq> [] \<and> sm_index m ! 0 = next then
        case heap_Pop nonceHeap_Less (sm_index m) of
          None \<Rightarrow> (m, ready)
        | Some (nonce, index) \<Rightarrow>
            sm_ready_loop (next + 1) (m\<lparr>sm_items := kv_delete next (sm_items m), sm_index := index\<rparr>)
              (ready @ [kv_get (sm_items m) next])
      else (m, ready))"
  by pat_completeness auto
termination
  by (relation "measure (\<lambda>(next, m, ready). length (sm_index m))") (auto dest: length_heap_Pop)

declare sm_ready_loop.simps [simp del]

definition sm_Ready :: "u64 \<Rightarrow> SortedMap \<Rightarrow> SortedMap \<times> txptrs" where
  "sm_Ready start m =
     (if sm_index m = [] \<or> start < sm_index m ! 0 then (m, [])
      else let (m', ready) = sm_ready_loop (sm_index m ! 0) m [] in (m'\<lparr>sm_cache := None\<rparr>, ready))"

definition sm_Len :: "SortedMap \<Rightarrow> nat" where
  "sm_Len m = length (sm_items m)"

text \<open>\<open>sort.Sort\<close> with \<open>TxByNonce\<close>; nonces in the map are distinct, so every sorting algorithm agrees.\<close>

definition sm_flatten :: "(u64 list \<Rightarrow> u64 list) \<Rightarrow> SortedMap \<Rightarrow> SortedMap \<times> ethTx list" where
  "sm_flatten rng m =
     (case sm_cache m of
        Some c \<Rightarrow> (m, c)
      | None \<Rightarrow>
          let c = sort_key tx_Nonce (List.map_filter (kv_get (sm_items m)) (rng (kv_keys (sm_items m))))
          in (m\<lparr>sm_cache := Some c\<rparr>, c))"

definition sm_Flatten :: "range_order \<Rightarrow> SortedMap \<Rightarrow> SortedMap \<times> ethTx list" where
  "sm_Flatten R m = sm_flatten (R 0) m"

definition sm_LastElement :: "range_order \<Rightarrow> SortedMap \<Rightarrow> (SortedMap \<times> ethTx) res" where
  "sm_LastElement R m =
     (let (m', c) = sm_flatten (R 0) m in
      if c = [] then Inl (Panic ''index out of range'') else Inr (m', last c))"

section \<open>The invariant\<close>

definition range_ok :: "range_order \<Rightarrow> bool" where
  "range_ok R \<longleftrightarrow> (\<forall>i ks. mset (R i ks) = mset ks)"

definition sm_core :: "(u64, ethTx) kv \<Rightarrow> u64 list \<Rightarrow> bool" where
  "sm_core items index \<longleftrightarrow>
     kv_ok items \<and> (\<forall>(n, tx) \<in> set items. tx_Nonce tx = n) \<and>
     nh.is_heap index \<and> mset index = mset (kv_keys items)"

definition sm_inv :: "SortedMap \<Rightarrow> bool" where
  "sm_inv m \<longleftrightarrow> sm_core (sm_items m) (sm_index m) \<and>
     (case sm_cache m of None \<Rightarrow> True | Some c \<Rightarrow> c = map snd (sm_items m))"

lemma sm_inv_core: "sm_inv m \<Longrightarrow> sm_core (sm_items m) (sm_index m)"
  by (simp add: sm_inv_def)

lemma sm_inv_None: "sm_cache m = None \<Longrightarrow> sm_inv m \<longleftrightarrow> sm_core (sm_items m) (sm_index m)"
  by (simp add: sm_inv_def)

lemma sm_inv_New [simp]: "sm_inv NewSortedMap"
  by (simp add: sm_inv_def sm_core_def NewSortedMap_def kv_keys_def nh.heap_from_def)

lemma core_length: "sm_core items index \<Longrightarrow> length index = length items"
  unfolding sm_core_def kv_keys_def by (metis length_map size_mset)

lemma core_empty: "sm_core items index \<Longrightarrow> index = [] \<longleftrightarrow> items = []"
  using core_length by fastforce

lemma core_set: "sm_core items index \<Longrightarrow> set index = fst ` set items"
  unfolding sm_core_def kv_keys_def by (metis list.set_map set_mset_mset)

lemma core_pop:
  assumes "sm_core ((n, tx) # items) index"
  obtains index' where "heap_Pop nonceHeap_Less index = Some (n, index')" "sm_core items index'"
    "index \<noteq> []" "index ! 0 = n"
proof -
  have h: "nh.is_heap index" "mset index = add_mset n (mset (kv_keys items))"
      and k: "\<forall>k \<in> fst ` set items. n < k" "kv_ok items" "\<forall>(n, tx) \<in> set items. tx_Nonce tx = n"
    using assms by (auto simp: sm_core_def kv_keys_def kv_ok_Cons)
  have ne: "index \<noteq> []" using h(2) by auto
  have "n \<in> set index" "index ! 0 \<in> insert n (fst ` set items)"
    using core_set [OF assms] ne by (auto intro!: nth_mem)
  moreover have "\<not> n < index ! 0" using nh.root_least_set [OF h(1) \<open>n \<in> set index\<close>] by (simp add: nonceHeap_Less_def)
  ultimately have n: "index ! 0 = n" using k(1) by auto
  from nh.Pop_ok [OF h(1) ne] obtain index' where i:
      "heap_Pop nonceHeap_Less index = Some (n, index')" "nh.is_heap index'" "mset index = add_mset n (mset index')"
    unfolding n by blast
  have "sm_core items index'"
    using i(2,3) h(2) k(2,3) by (simp add: sm_core_def)
  then show thesis using that i(1) ne n by blast
qed

section \<open>Each operation on the sorted list of entries\<close>

lemma core_tl_absent: "sm_core ((n, tx) # items) index \<Longrightarrow> kv_get items n = None"
  by (auto simp: sm_core_def kv_ok_Cons kv_get_None)

lemma kv_delete_hd: "sm_core ((n, tx) # items) index \<Longrightarrow> kv_delete n ((n, tx) # items) = items"
  using core_tl_absent by (simp add: kv_delete_absent)

lemma forward_loop_spec:
  "sm_core items index \<Longrightarrow> \<exists>index'. sm_core (dropWhile (\<lambda>(n, tx). n < threshold) items) index' \<and>
   sm_forward_loop threshold \<lparr>sm_items = items, sm_index = index, sm_cache = c\<rparr> removed =
   (\<lparr>sm_items = dropWhile (\<lambda>(n, tx). n < threshold) items, sm_index = index', sm_cache = c\<rparr>,
    removed @ map (Some \<circ> snd) (takeWhile (\<lambda>(n, tx). n < threshold) items))"
proof (induction items arbitrary: index removed)
  case Nil
  then have "index = []" using core_empty by blast
  with Nil show ?case by (subst sm_forward_loop.simps) auto
next
  case (Cons x items)
  obtain n tx where x: "x = (n, tx)" by (cases x)
  from core_pop [OF Cons.prems [unfolded x]] obtain index' where i:
    "heap_Pop nonceHeap_Less index = Some (n, index')" "sm_core items index'" "index \<noteq> []" "index ! 0 = n" .
  show ?case
  proof (cases "n < threshold")
    case True
    with Cons.IH [OF i(2), of "removed @ [Some tx]"] i x kv_delete_hd [OF Cons.prems [unfolded x]] show ?thesis
      by (subst sm_forward_loop.simps) (auto simp del: kv_delete.simps)
  next
    case False
    with i x Cons.prems show ?thesis by (subst sm_forward_loop.simps) auto
  qed
qed

text \<open>The longest run of consecutive nonces from \<open>next\<close> on.\<close>

fun nonce_run :: "u64 \<Rightarrow> (u64, ethTx) kv \<Rightarrow> (u64, ethTx) kv" where
  "nonce_run next [] = []"
| "nonce_run next ((n, tx) # items) = (if n = next then (n, tx) # nonce_run (next + 1) items else [])"

lemma ready_loop_spec:
  "sm_core items index \<Longrightarrow> \<exists>index'. sm_core (drop (length (nonce_run next items)) items) index' \<and>
   sm_ready_loop next \<lparr>sm_items = items, sm_index = index, sm_cache = c\<rparr> ready =
   (\<lparr>sm_items = drop (length (nonce_run next items)) items, sm_index = index', sm_cache = c\<rparr>,
    ready @ map (Some \<circ> snd) (nonce_run next items))"
proof (induction items arbitrary: index "next" ready)
  case Nil
  then have "index = []" using core_empty by blast
  with Nil show ?case by (subst sm_ready_loop.simps) auto
next
  case (Cons x items)
  obtain n tx where x: "x = (n, tx)" by (cases x)
  from core_pop [OF Cons.prems [unfolded x]] obtain index' where i:
    "heap_Pop nonceHeap_Less index = Some (n, index')" "sm_core items index'" "index \<noteq> []" "index ! 0 = n" .
  show ?case
  proof (cases "n = next")
    case True
    with Cons.IH [OF i(2), of "next + 1" "ready @ [Some tx]"] i x kv_delete_hd [OF Cons.prems [unfolded x]]
    show ?thesis by (subst sm_ready_loop.simps) (auto simp del: kv_delete.simps)
  next
    case False
    with i x Cons.prems show ?thesis by (subst sm_ready_loop.simps) auto
  qed
qed

lemma nonce_run_prefix: "nonce_run next items = take (length (nonce_run next items)) items"
  by (induction "next" items rule: nonce_run.induct) auto

lemma nonce_run_nonces:
  "i < length (nonce_run next items) \<Longrightarrow> fst (nonce_run next items ! i) = next + of_nat i"
  by (induction "next" items arbitrary: i rule: nonce_run.induct)
    (auto simp: nth_Cons algebra_simps split: nat.splits)

lemma nonce_run_maximal:
  "drop (length (nonce_run next items)) items = (n, tx) # rest \<Longrightarrow>
   n \<noteq> next + of_nat (length (nonce_run next items))"
  by (induction "next" items rule: nonce_run.induct) (auto simp: algebra_simps split: if_splits)

section \<open>Filtering\<close>

lemma map_filter_cong:
  "(\<And>x. x \<in> set xs \<Longrightarrow> f x = g x) \<Longrightarrow> List.map_filter f xs = List.map_filter g xs"
  by (induction xs) (simp_all split: option.split)

lemma kv_delete_filter: "kv_delete n items = filter (\<lambda>(k, tx). k \<noteq> n) items"
  by (induction items) auto

lemma filter_loop_spec:
  "distinct ns \<Longrightarrow>
   sm_filter_loop f ns items removed =
   (filter (\<lambda>(n, tx). n \<notin> set ns \<or> (case kv_get items n of None \<Rightarrow> True | Some t \<Rightarrow> \<not> f t)) items,
    removed @ filter f (List.map_filter (kv_get items) ns))"
proof (induction ns arbitrary: items removed)
  case (Cons n ns)
  show ?case
  proof (cases "kv_get items n")
    case None
    then have "n \<notin> fst ` set items" by (simp add: kv_get_None)
    with None Cons show ?thesis
      by (auto simp: List.map_filter_simps intro!: filter_cong)
  next
    case (Some t)
    have mf: "List.map_filter (kv_get (kv_delete n items)) ns = List.map_filter (kv_get items) ns"
      by (rule map_filter_cong) (use Cons.prems in \<open>auto simp: kv_simps\<close>)
    show ?thesis
    proof (cases "f t")
      case True
      have "filter (\<lambda>(k, tx). k \<notin> set ns \<or> (case kv_get (kv_delete n items) k of None \<Rightarrow> True | Some t \<Rightarrow> \<not> f t))
          (kv_delete n items) =
        filter (\<lambda>(k, tx). k \<notin> set (n # ns) \<or> (case kv_get items k of None \<Rightarrow> True | Some t \<Rightarrow> \<not> f t)) items"
        unfolding kv_delete_filter [of n items] filter_filter
        by (rule filter_cong) (use Some True in \<open>auto simp: kv_simps kv_delete_filter [symmetric]\<close>)
      with Some True Cons mf show ?thesis by simp
    next
      case False
      have "filter (\<lambda>(k, tx). k \<notin> set ns \<or> (case kv_get items k of None \<Rightarrow> True | Some t \<Rightarrow> \<not> f t)) items =
        filter (\<lambda>(k, tx). k \<notin> set (n # ns) \<or> (case kv_get items k of None \<Rightarrow> True | Some t \<Rightarrow> \<not> f t)) items"
        by (rule filter_cong) (use Some False in auto)
      with Some False Cons show ?thesis by simp
    qed
  qed
qed simp

lemma mset_map_filter_cong: "mset xs = mset ys \<Longrightarrow> mset (List.map_filter g xs) = mset (List.map_filter g ys)"
  unfolding List.map_filter_def by (metis mset_filter mset_map)

lemma map_filter_keys: "kv_ok items \<Longrightarrow> List.map_filter (kv_get items) (kv_keys items) = map snd items"
proof (induction items)
  case (Cons x items)
  have "List.map_filter (kv_get (x # items)) (kv_keys items) = List.map_filter (kv_get items) (kv_keys items)"
    by (rule map_filter_cong) (use Cons.prems in \<open>cases x; force simp: kv_ok_Cons kv_keys_def\<close>)
  moreover have "kv_get (x # items) (fst x) = Some (snd x)" "kv_ok items"
    using Cons.prems by (cases x; simp add: kv_ok_Cons)+
  ultimately show ?case using Cons.IH by (simp add: kv_keys_def del: kv_get_Cons)
qed (simp add: kv_keys_def)

lemma range_txs:
  "kv_ok items \<Longrightarrow> mset (rng (kv_keys items)) = mset (kv_keys items) \<Longrightarrow>
   mset (List.map_filter (kv_get items) (rng (kv_keys items))) = mset (map snd items)"
  using mset_map_filter_cong map_filter_keys by metis

text \<open>The transactions that a \<open>range\<close> with the filter \<open>f\<close> removes, in its order.\<close>

definition range_removed :: "(u64 list \<Rightarrow> u64 list) \<Rightarrow> (ethTx \<Rightarrow> bool) \<Rightarrow> (u64, ethTx) kv \<Rightarrow> ethTx list" where
  "range_removed rng f items = filter f (List.map_filter (kv_get items) (rng (kv_keys items)))"

lemma mset_range_removed:
  "kv_ok items \<Longrightarrow> mset (rng (kv_keys items)) = mset (kv_keys items) \<Longrightarrow>
   mset (range_removed rng f items) = mset (filter f (map snd items))"
  using range_txs unfolding range_removed_def by (metis mset_filter)

abbreviation keep :: "(ethTx \<Rightarrow> bool) \<Rightarrow> (u64, ethTx) kv \<Rightarrow> (u64, ethTx) kv" where
  "keep f items \<equiv> filter (\<lambda>(n, tx). \<not> f tx) items"

lemma filter_loop_range:
  assumes "kv_ok items" "mset (rng (kv_keys items)) = mset (kv_keys items)"
  shows "sm_filter_loop f (rng (kv_keys items)) items [] = (keep f items, range_removed rng f items)"
proof -
  have "distinct (rng (kv_keys items))" using distinct_kv_keys assms mset_eq_imp_distinct_iff by blast
  moreover have "set (rng (kv_keys items)) = fst ` set items"
    using assms(2) by (metis kv_keys_def list.set_map set_mset_mset)
  moreover have "kv_get items n = Some tx" if "(n, tx) \<in> set items" for n tx
    using kv_get_in [OF assms(1)] that by blast
  ultimately show ?thesis
    by (auto simp: filter_loop_spec range_removed_def intro!: filter_cong) (force intro: rev_image_eqI)
qed

lemma kv_ok_filter: "kv_ok s \<Longrightarrow> kv_ok (filter P s)"
  unfolding kv_ok_def by (induction s) auto

lemma keep_id: "filter f (map snd items) = [] \<Longrightarrow> keep f items = items"
  by (induction items) (auto split: if_splits)

section \<open>Preservation and effect\<close>

lemma core_keys:
  "kv_ok items \<Longrightarrow> mset index = mset (kv_keys items) \<longleftrightarrow> distinct index \<and> set index = fst ` set items"
  using distinct_kv_keys [of items] set_eq_iff_mset_eq_distinct [of index "kv_keys items"]
    mset_eq_imp_distinct_iff [of index "kv_keys items"]
  by (auto simp: kv_keys_def simp flip: set_mset_mset)

lemma sort_index: "sm_core items index \<Longrightarrow> sort index = kv_keys items"
  using sorted_kv_keys [of items] strict_sorted_iff
  by (intro properties_for_sort) (auto simp: sm_core_def)

lemma reheap_core:
  assumes "kv_ok items" "\<forall>(n, tx) \<in> set items. tx_Nonce tx = n" "mset ks = mset (kv_keys items)"
  shows "sm_core items (heap_Init nonceHeap_Less ks)"
  using assms nh.Init_heap nh.Init_mset by (simp add: sm_core_def)

lemma set_kv_set: "set (kv_set k v s) \<subseteq> insert (k, v) (set s)"
  by (induction k v s rule: kv_set.induct) auto

lemma Put_inv: "sm_inv m \<Longrightarrow> sm_inv (sm_Put tx m)"
proof -
  assume "sm_inv m"
  then have c: "sm_core (sm_items m) (sm_index m)" by (rule sm_inv_core)
  let ?items = "kv_set (tx_Nonce tx) tx (sm_items m)"
  let ?index = "sm_index (sm_Put tx m)"
  have ok: "kv_ok (sm_items m)" "kv_ok ?items" using c by (auto simp: sm_core_def)
  have "\<forall>(n, t) \<in> set ?items. tx_Nonce t = n"
    using c set_kv_set [of "tx_Nonce tx" tx "sm_items m"] by (fastforce simp: sm_core_def)
  moreover have "nh.is_heap ?index"
    using c nh.Push_heap by (simp add: sm_Put_def Let_def sm_core_def)
  moreover have "mset ?index = mset (kv_keys ?items)"
  proof (cases "kv_get (sm_items m) (tx_Nonce tx)")
    case None
    then have new: "tx_Nonce tx \<notin> set (sm_index m)" using core_set [OF c] by (simp add: kv_get_None)
    have i: "mset ?index = add_mset (tx_Nonce tx) (mset (sm_index m))"
      using None nh.Push_mset by (simp add: sm_Put_def Let_def)
    have "mset ?index = mset (tx_Nonce tx # sm_index m)" using i by simp
    then have "distinct ?index = distinct (tx_Nonce tx # sm_index m)" "set ?index = set (tx_Nonce tx # sm_index m)"
      by (rule mset_eq_imp_distinct_iff, rule mset_eq_setD)
    moreover have "distinct (sm_index m)" using c core_keys [OF ok(1)] by (simp add: sm_core_def)
    ultimately have "distinct ?index" "set ?index = insert (tx_Nonce tx) (set (sm_index m))"
      using new by auto
    then show ?thesis using core_keys [OF ok(2)] core_set [OF c] by (simp add: keys_kv_set)
  next
    case (Some t)
    then have "tx_Nonce tx \<in> fst ` set (sm_items m)" using kv_get_None by (metis option.distinct(1))
    with Some c show ?thesis
      using core_keys [OF ok(2)] core_keys [OF ok(1)]
      by (simp add: sm_Put_def Let_def sm_core_def keys_kv_set insert_absorb)
  qed
  ultimately show ?thesis
    using ok(2) by (simp add: sm_inv_def sm_core_def) (simp add: sm_Put_def Let_def)
qed

lemma Forward_spec:
  assumes "sm_inv m"
  obtains m' where "sm_Forward threshold m = Inr (m', map (Some \<circ> snd) (takeWhile (\<lambda>(n, tx). n < threshold) (sm_items m)))"
    "sm_inv m'" "sm_items m' = dropWhile (\<lambda>(n, tx). n < threshold) (sm_items m)"
proof -
  let ?P = "\<lambda>(n, tx). n < threshold"
  obtain items index c where m: "m = \<lparr>sm_items = items, sm_index = index, sm_cache = c\<rparr>" by (cases m)
  from forward_loop_spec [of items index threshold c "[]"] assms obtain index' where f:
      "sm_core (dropWhile ?P items) index'" "sm_forward_loop threshold m [] =
      (\<lparr>sm_items = dropWhile ?P items, sm_index = index', sm_cache = c\<rparr>, map (Some \<circ> snd) (takeWhile ?P items))"
    by (auto simp: m sm_inv_def)
  show thesis
  proof (cases c)
    case None
    then show thesis using that [of "\<lparr>sm_items = dropWhile ?P items, sm_index = index', sm_cache = c\<rparr>"] f
      by (auto simp: sm_Forward_def sm_inv_def m)
  next
    case (Some l)
    then have l: "l = map snd items" using assms by (simp add: sm_inv_def m)
    have "length (takeWhile ?P items) \<le> length items" by (rule length_takeWhile_le)
    moreover have "drop (length (takeWhile ?P items)) items = dropWhile ?P items"
      by (simp add: dropWhile_eq_drop)
    ultimately show thesis
      using that [of "\<lparr>sm_items = dropWhile ?P items, sm_index = index', sm_cache = Some (map snd (dropWhile ?P items))\<rparr>"]
        f Some l by (auto simp: sm_Forward_def sm_inv_def m drop_map)
  qed
qed

text \<open>What \<open>Ready\<close> returns: the run from the lowest nonce, if that is not beyond \<open>start\<close>.\<close>

definition ready_run :: "u64 \<Rightarrow> (u64, ethTx) kv \<Rightarrow> (u64, ethTx) kv" where
  "ready_run start items =
     (if items = [] \<or> start < fst (hd items) then [] else nonce_run (fst (hd items)) items)"

lemma Ready_spec:
  assumes "sm_inv m"
  obtains m' where "sm_Ready start m = (m', map (Some \<circ> snd) (ready_run start (sm_items m)))" "sm_inv m'"
    "sm_items m' = drop (length (ready_run start (sm_items m))) (sm_items m)"
proof -
  obtain items index c where m: "m = \<lparr>sm_items = items, sm_index = index, sm_cache = c\<rparr>" by (cases m)
  have core: "sm_core items index" using assms by (simp add: sm_inv_def m)
  have hd: "items \<noteq> [] \<Longrightarrow> index \<noteq> [] \<and> index ! 0 = fst (hd items)"
    using core_pop core by (metis list.collapse prod.collapse)
  show thesis
  proof (cases "items = [] \<or> start < fst (hd items)")
    case True
    then have "index = [] \<or> start < index ! 0" using hd core_empty [OF core] by auto
    then show thesis using that [of m] True assms(1) by (simp add: sm_Ready_def ready_run_def m)
  next
    case False
    from ready_loop_spec [OF core, of "index ! 0" c "[]"] obtain index' where r:
        "sm_core (drop (length (nonce_run (index ! 0) items)) items) index'"
        "sm_ready_loop (index ! 0) m [] =
         (\<lparr>sm_items = drop (length (nonce_run (index ! 0) items)) items, sm_index = index', sm_cache = c\<rparr>,
          map (Some \<circ> snd) (nonce_run (index ! 0) items))"
      by (auto simp: m)
    show thesis
      using that [of "\<lparr>sm_items = drop (length (ready_run start items)) items, sm_index = index', sm_cache = None\<rparr>"] r False hd
      by (auto simp: sm_Ready_def ready_run_def m sm_inv_def)
  qed
qed

lemma filter_spec:
  assumes "sm_inv m" "\<And>ks. mset (rng ks) = mset ks"
  shows "sm_items (fst (sm_filter rng f m)) = keep f (sm_items m)"
    "snd (sm_filter rng f m) = range_removed rng f (sm_items m)"
    "snd (sm_filter rng f m) = [] \<Longrightarrow> fst (sm_filter rng f m) = m"
proof -
  have ok: "kv_ok (sm_items m)" using assms by (simp add: sm_inv_def sm_core_def)
  note l = filter_loop_range [where rng = rng, OF ok assms(2), of f]
  show "sm_items (fst (sm_filter rng f m)) = keep f (sm_items m)"
    "snd (sm_filter rng f m) = range_removed rng f (sm_items m)"
    by (simp_all add: sm_filter_def l Let_def)
  assume "snd (sm_filter rng f m) = []"
  then have "range_removed rng f (sm_items m) = []" by (simp add: sm_filter_def l Let_def)
  then have "filter f (map snd (sm_items m)) = []"
    using mset_range_removed [where rng = rng, OF ok assms(2), of f] by (metis mset_zero_iff)
  then show "fst (sm_filter rng f m) = m"
    using keep_id \<open>range_removed rng f (sm_items m) = []\<close> by (simp add: sm_filter_def l Let_def)
qed

lemma core_filter_nonces:
  "sm_core items index \<Longrightarrow> kv_ok (filter P items) \<and> (\<forall>(n, tx) \<in> set (filter P items). tx_Nonce tx = n)"
  by (auto simp: sm_core_def kv_ok_filter)

lemma reheap_inv:
  assumes "kv_ok (sm_items m)" "\<forall>(n, tx) \<in> set (sm_items m). tx_Nonce tx = n" "\<And>ks. mset (rng ks) = mset ks"
  shows "sm_inv (sm_reheap rng m)" "sm_items (sm_reheap rng m) = sm_items m"
  using reheap_core [OF assms(1,2), of "rng (kv_keys (sm_items m))"] assms(3)
  by (simp_all add: sm_inv_def sm_reheap_def)

lemma Filter_spec:
  assumes "sm_inv m" "range_ok R"
  obtains m' where "sm_Filter R f m = (m', range_removed (R 0) f (sm_items m))" "sm_inv m'"
    "sm_items m' = keep f (sm_items m)"
proof -
  have R: "\<And>i ks. mset (R i ks) = mset ks" using assms(2) by (simp add: range_ok_def)
  note f = filter_spec [where rng = "R 0", OF assms(1) R, of f]
  obtain m1 removed where m1: "sm_filter (R 0) f m = (m1, removed)" by (cases "sm_filter (R 0) f m")
  have "kv_ok (sm_items m1) \<and> (\<forall>(n, tx) \<in> set (sm_items m1). tx_Nonce tx = n)"
    using f(1) core_filter_nonces [OF sm_inv_core [OF assms(1)]] by (simp add: m1)
  then have "sm_inv (sm_reheap (R 1) m1)" "sm_items (sm_reheap (R 1) m1) = sm_items m1"
    using reheap_inv R by auto
  moreover have "sm_inv m1" if "removed = []" using f(3) assms(1) that by (simp add: m1)
  moreover have "sm_items m1 = keep f (sm_items m)" "removed = range_removed (R 0) f (sm_items m)"
    using f(1,2) by (simp_all add: m1)
  ultimately show thesis
    using that [of "if removed \<noteq> [] then sm_reheap (R 1) m1 else m1"]
    by (cases "removed = []") (simp_all add: sm_Filter_def m1)
qed

lemma kv_delete_last:
  "kv_ok items \<Longrightarrow> k < length items \<Longrightarrow> kv_delete (kv_keys items ! k) (take (Suc k) items) = take k items \<and>
   kv_get (take (Suc k) items) (kv_keys items ! k) = Some (snd (items ! k))"
proof -
  assume a: "kv_ok items" "k < length items"
  have s: "take (Suc k) items = take k items @ [items ! k]" using a(2) by (simp add: take_Suc_conv_app_nth)
  have "\<forall>x \<in> set (take k items). fst x \<noteq> kv_keys items ! k"
    using sorted_wrt_nth_less [OF sorted_kv_keys [OF a(1)]] a(2)
    by (force simp: in_set_conv_nth kv_keys_def)
  moreover have "kv_keys items ! k = fst (items ! k)" using a(2) by (simp add: kv_keys_def)
  moreover from calculation have "kv_get (take k items @ [items ! k]) (kv_keys items ! k) = Some (snd (items ! k))"
    by (auto simp: kv_get_def map_add_def map_of_eq_None_iff split: option.splits)
      (metis image_iff map_of_SomeD fst_conv)
  ultimately show ?thesis
    unfolding s kv_delete_filter by (auto simp: filter_id_conv)
qed

lemma cap_loop_spec:
  "kv_ok items \<Longrightarrow> t \<le> k \<Longrightarrow> k \<le> length items \<Longrightarrow>
   sm_cap_loop t k (kv_keys items) (take k items) drops =
   (take t items, drops @ map (Some \<circ> snd) (rev (drop t (take k items))))"
proof (induction k arbitrary: drops)
  case (Suc k)
  show ?case
  proof (cases "t < Suc k")
    case True
    then have "drop t (take (Suc k) items) = drop t (take k items) @ [items ! k]"
      using Suc.prems by (simp add: take_Suc_conv_app_nth)
    with True Suc kv_delete_last [of items k] show ?thesis by simp
  next
    case False
    with Suc.prems have "t = Suc k" by simp
    then show ?thesis by simp
  qed
qed simp

lemma Cap_spec:
  assumes "sm_inv m" "0 \<le> t"
  obtains m' where
    "sm_Cap t m = Inr (m', map (Some \<circ> snd) (rev (drop (nat t) (sm_items m))))"
    "sm_inv m'" "sm_items m' = take (nat t) (sm_items m)"
proof (cases "int (length (sm_items m)) \<le> t")
  case True
  then show thesis using that [of m] assms by (simp add: sm_Cap_def)
next
  case False
  have core: "sm_core (sm_items m) (sm_index m)" using assms by (simp add: sm_inv_def)
  have ok: "kv_ok (sm_items m)" using core by (simp add: sm_core_def)
  have t: "nat t \<le> length (sm_items m)" using False by simp
  define m1 where "m1 = m\<lparr>sm_items := take (nat t) (sm_items m), sm_index := take (nat t) (kv_keys (sm_items m))\<rparr>"
  have loop: "sm_cap_loop (nat t) (length (sm_items m)) (sort (sm_index m)) (sm_items m) [] =
      (take (nat t) (sm_items m), map (Some \<circ> snd) (rev (drop (nat t) (sm_items m))))"
    using cap_loop_spec [OF ok t order_refl, of "[]"] sort_index [OF core] by simp
  have ok': "kv_ok (take (nat t) (sm_items m))"
    using ok by (simp add: kv_ok_def sorted_wrt_take flip: take_map)
  have "nh.is_heap (take (nat t) (kv_keys (sm_items m)))"
    using sorted_wrt_nth_less [OF sorted_kv_keys [OF ok']]
    by (intro nh.sorted_heap) (force simp: nonceHeap_Less_def kv_keys_def take_map)
  then have core1: "sm_core (sm_items m1) (sm_index m1)"
    using core ok' by (auto simp: sm_core_def m1_def kv_keys_def take_map dest: in_set_takeD)
  show thesis
  proof (cases "sm_cache m")
    case None
    then show thesis using that [of m1] False core1 loop assms(2) core_length [OF core] sort_index [OF core]
      by (simp add: sm_Cap_def m1_def Let_def sm_inv_def)
  next
    case (Some c)
    then have c: "c = map snd (sm_items m)" using assms by (simp add: sm_inv_def)
    show thesis
      using that [of "m1\<lparr>sm_cache := Some (map snd (take (nat t) (sm_items m)))\<rparr>"] False core1 loop assms(2)
        core_length [OF core] sort_index [OF core] Some c t
      by (simp add: sm_Cap_def m1_def Let_def sm_inv_def take_map)
  qed
qed

lemma scan_index_found: "x \<in> set xs \<Longrightarrow> \<exists>j. scan_index i x xs = Some (i + j) \<and> j < length xs \<and> xs ! j = x"
proof (induction xs arbitrary: i)
  case (Cons y ys)
  show ?case
  proof (cases "y = x")
    case False
    with Cons.IH [of "Suc i"] Cons.prems obtain j where
      "scan_index (Suc i) x ys = Some (Suc i + j)" "j < length ys" "ys ! j = x" by auto
    then show ?thesis using False by (intro exI [of _ "Suc j"]) simp
  qed simp
qed simp

lemma Remove_spec:
  assumes "sm_inv m"
  obtains m' where "sm_Remove nonce m = (m', kv_get (sm_items m) nonce \<noteq> None)" "sm_inv m'"
    "sm_items m' = kv_delete nonce (sm_items m)"
proof (cases "kv_get (sm_items m) nonce")
  case None
  then show thesis using that [of m] assms by (simp add: sm_Remove_def kv_delete_absent)
next
  case (Some tx)
  have core: "sm_core (sm_items m) (sm_index m)" using assms by (simp add: sm_inv_def)
  then have ok: "kv_ok (sm_items m)" "nh.is_heap (sm_index m)" by (auto simp: sm_core_def)
  have "nonce \<in> set (sm_index m)" using Some core_set [OF core] kv_get_None by (metis option.distinct(1))
  from scan_index_found [OF this, of 0] obtain i where i:
    "scan_index 0 nonce (sm_index m) = Some i" "i < length (sm_index m)" "sm_index m ! i = nonce" by auto
  from nh.Remove_ok [OF ok(2) i(2)] obtain h where h:
      "heap_Remove nonceHeap_Less i (sm_index m) = Some (nonce, h)" "nh.is_heap h" "mset (sm_index m) = add_mset nonce (mset h)"
    unfolding i(3) by blast
  have "mset (sm_index m) = mset (nonce # h)" using h(3) by simp
  moreover have "distinct (sm_index m)" using core core_keys [OF ok(1)] by (simp add: sm_core_def)
  ultimately have "distinct (nonce # h)" "set (sm_index m) = insert nonce (set h)"
    using mset_eq_imp_distinct_iff mset_eq_setD by (metis, metis list.simps(15))
  then have "mset h = mset (kv_keys (kv_delete nonce (sm_items m)))"
    using core_keys [of "kv_delete nonce (sm_items m)" h] ok core_set [OF core] by (auto simp: keys_kv_delete)
  moreover have "\<forall>(n, tx) \<in> set (kv_delete nonce (sm_items m)). tx_Nonce tx = n"
    using core by (auto simp: kv_delete_filter sm_core_def)
  ultimately have "sm_core (kv_delete nonce (sm_items m)) h"
    using h(2) ok(1) by (simp add: sm_core_def)
  then show thesis
    using that [of "m\<lparr>sm_index := h, sm_items := kv_delete nonce (sm_items m), sm_cache := None\<rparr>"] Some i h
    by (simp add: sm_Remove_def sm_inv_def)
qed

lemma flatten_spec:
  assumes "sm_inv m" "\<And>ks. mset (rng ks) = mset ks"
  obtains m' where "sm_flatten rng m = (m', map snd (sm_items m))" "sm_inv m'" "sm_items m' = sm_items m"
proof (cases "sm_cache m")
  case None
  have core: "sm_core (sm_items m) (sm_index m)" using assms by (simp add: sm_inv_def)
  then have ok: "kv_ok (sm_items m)" and nonces: "\<forall>(n, tx) \<in> set (sm_items m). tx_Nonce tx = n"
    by (auto simp: sm_core_def)
  let ?c = "List.map_filter (kv_get (sm_items m)) (rng (kv_keys (sm_items m)))"
  have ms: "mset ?c = mset (map snd (sm_items m))"
    using range_txs [where rng = rng, OF ok assms(2)] .
  have k: "map tx_Nonce (map snd (sm_items m)) = kv_keys (sm_items m)"
    using nonces by (auto simp: kv_keys_def)
  have "inj_on tx_Nonce (set (map snd (sm_items m)))"
    using distinct_kv_keys [OF ok] k by (metis distinct_map)
  then have "inj_on tx_Nonce (set ?c)" using mset_eq_setD [OF ms] by simp
  moreover have "sorted (map tx_Nonce (map snd (sm_items m)))"
    unfolding k using sorted_kv_keys [OF ok] strict_sorted_iff by blast
  ultimately have "sort_key tx_Nonce ?c = map snd (sm_items m)"
    using ms by (intro sort_key_inj_key_eq)
  then show thesis
    using that [of "m\<lparr>sm_cache := Some (map snd (sm_items m))\<rparr>"] None core
    by (simp add: sm_flatten_def sm_inv_def Let_def)
next
  case (Some c)
  then show thesis using that [of m] assms by (simp add: sm_flatten_def sm_inv_def)
qed

section \<open>Refinement of the sorted list\<close>

text \<open>An operation with its arguments, what it returns, and what the sorted list of entries returns.\<close>

datatype sm_op =
    OpGet u64 | OpPut ethTx | OpForward u64 | OpFilter range_order "ethTx \<Rightarrow> bool" | OpCap nat | OpRemove u64
  | OpReady u64 | OpLen | OpFlatten range_order | OpLast range_order

datatype sm_out = OutTx "ethTx option" | OutTxs txptrs | OutBool bool | OutLen nat | OutNone

fun sm_exec :: "sm_op \<Rightarrow> SortedMap \<Rightarrow> (SortedMap \<times> sm_out) res" where
  "sm_exec (OpGet n) m = Inr (m, OutTx (sm_Get n m))"
| "sm_exec (OpPut tx) m = Inr (sm_Put tx m, OutNone)"
| "sm_exec (OpForward n) m = rbind (sm_Forward n m) (\<lambda>(m', txs). Inr (m', OutTxs txs))"
| "sm_exec (OpFilter R f) m = (let (m', txs) = sm_Filter R f m in Inr (m', OutTxs (map Some txs)))"
| "sm_exec (OpCap t) m = rbind (sm_Cap (int t) m) (\<lambda>(m', txs). Inr (m', OutTxs txs))"
| "sm_exec (OpRemove n) m = (let (m', b) = sm_Remove n m in Inr (m', OutBool b))"
| "sm_exec (OpReady n) m = (let (m', txs) = sm_Ready n m in Inr (m', OutTxs txs))"
| "sm_exec OpLen m = Inr (m, OutLen (sm_Len m))"
| "sm_exec (OpFlatten R) m = (let (m', txs) = sm_Flatten R m in Inr (m', OutTxs (map Some txs)))"
| "sm_exec (OpLast R) m = rbind (sm_LastElement R m) (\<lambda>(m', tx). Inr (m', OutTx (Some tx)))"

fun spec_exec :: "sm_op \<Rightarrow> (u64, ethTx) kv \<Rightarrow> ((u64, ethTx) kv \<times> sm_out) res" where
  "spec_exec (OpGet n) s = Inr (s, OutTx (kv_get s n))"
| "spec_exec (OpPut tx) s = Inr (kv_set (tx_Nonce tx) tx s, OutNone)"
| "spec_exec (OpForward t) s =
     Inr (dropWhile (\<lambda>(n, tx). n < t) s, OutTxs (map (Some \<circ> snd) (takeWhile (\<lambda>(n, tx). n < t) s)))"
| "spec_exec (OpFilter R f) s = Inr (keep f s, OutTxs (map Some (range_removed (R 0) f s)))"
| "spec_exec (OpCap t) s = Inr (take t s, OutTxs (map (Some \<circ> snd) (rev (drop t s))))"
| "spec_exec (OpRemove n) s = Inr (kv_delete n s, OutBool (kv_get s n \<noteq> None))"
| "spec_exec (OpReady n) s =
     Inr (drop (length (ready_run n s)) s, OutTxs (map (Some \<circ> snd) (ready_run n s)))"
| "spec_exec OpLen s = Inr (s, OutLen (length s))"
| "spec_exec (OpFlatten R) s = Inr (s, OutTxs (map (Some \<circ> snd) s))"
| "spec_exec (OpLast R) s =
     (if s = [] then Inl (Panic ''index out of range'') else Inr (s, OutTx (Some (snd (last s)))))"

fun op_range_ok :: "sm_op \<Rightarrow> bool" where
  "op_range_ok (OpFilter R f) = range_ok R"
| "op_range_ok (OpFlatten R) = range_ok R"
| "op_range_ok (OpLast R) = range_ok R"
| "op_range_ok _ = True"

fun ops_run :: "('o \<Rightarrow> 's \<Rightarrow> ('s \<times> 'r) res) \<Rightarrow> 'o list \<Rightarrow> 's \<Rightarrow> ('s \<times> 'r list) res" where
  "ops_run ex [] s = Inr (s, [])"
| "ops_run ex (p # ps) s =
     rbind (ex p s) (\<lambda>(s', r). rbind (ops_run ex ps s') (\<lambda>(s'', rs). Inr (s'', r # rs)))"

text \<open>The two results agree, and the concrete state keeps the invariant.\<close>

definition sm_refines :: "(SortedMap \<times> 'r) res \<Rightarrow> ((u64, ethTx) kv \<times> 'r) res \<Rightarrow> bool" where
  "sm_refines c a \<longleftrightarrow>
     (case c of Inl e \<Rightarrow> a = Inl e | Inr (m, r) \<Rightarrow> sm_inv m \<and> a = Inr (sm_items m, r))"

lemma exec_refines:
  assumes "sm_inv m" "op_range_ok p"
  shows "sm_refines (sm_exec p m) (spec_exec p (sm_items m))"
proof (cases p)
  case (OpPut tx)
  then show ?thesis using Put_inv assms(1) by (simp add: sm_refines_def sm_Put_def Let_def)
next
  case (OpForward n)
  from Forward_spec [OF assms(1), of n] obtain m' where
    "sm_Forward n m = Inr (m', map (Some \<circ> snd) (takeWhile (\<lambda>(k, tx). k < n) (sm_items m)))"
    "sm_inv m'" "sm_items m' = dropWhile (\<lambda>(k, tx). k < n) (sm_items m)" .
  with OpForward show ?thesis by (simp add: sm_refines_def)
next
  case (OpFilter R f)
  then obtain m' where "sm_Filter R f m = (m', range_removed (R 0) f (sm_items m))" "sm_inv m'"
    "sm_items m' = keep f (sm_items m)" using Filter_spec assms by (metis op_range_ok.simps(1))
  with OpFilter show ?thesis by (simp add: sm_refines_def)
next
  case (OpCap t)
  from Cap_spec [OF assms(1), of "int t"] obtain m' where
    "sm_Cap (int t) m = Inr (m', map (Some \<circ> snd) (rev (drop t (sm_items m))))" "sm_inv m'"
    "sm_items m' = take t (sm_items m)" by auto
  with OpCap show ?thesis by (simp add: sm_refines_def)
next
  case (OpRemove n)
  from Remove_spec [OF assms(1), of n] obtain m' where "sm_Remove n m = (m', kv_get (sm_items m) n \<noteq> None)"
    "sm_inv m'" "sm_items m' = kv_delete n (sm_items m)" .
  with OpRemove show ?thesis by (simp add: sm_refines_def)
next
  case (OpReady n)
  from Ready_spec [OF assms(1), of n] obtain m' where
    "sm_Ready n m = (m', map (Some \<circ> snd) (ready_run n (sm_items m)))" "sm_inv m'"
    "sm_items m' = drop (length (ready_run n (sm_items m))) (sm_items m)" .
  with OpReady show ?thesis by (simp add: sm_refines_def)
next
  case (OpFlatten R)
  then have "\<And>ks. mset (R 0 ks) = mset ks" using assms(2) by (simp add: range_ok_def)
  from flatten_spec [OF assms(1) this] obtain m' where
    "sm_flatten (R 0) m = (m', map snd (sm_items m))" "sm_inv m'" "sm_items m' = sm_items m" by blast
  with OpFlatten show ?thesis by (simp add: sm_refines_def sm_Flatten_def)
next
  case (OpLast R)
  then have "\<And>ks. mset (R 0 ks) = mset ks" using assms(2) by (simp add: range_ok_def)
  from flatten_spec [OF assms(1) this] obtain m' where
    "sm_flatten (R 0) m = (m', map snd (sm_items m))" "sm_inv m'" "sm_items m' = sm_items m" by blast
  with OpLast show ?thesis by (simp add: sm_refines_def sm_LastElement_def last_map)
qed (use assms in \<open>simp_all add: sm_refines_def sm_Get_def sm_Len_def\<close>)

lemma ops_run_refines:
  "sm_inv m \<Longrightarrow> \<forall>p \<in> set ps. op_range_ok p \<Longrightarrow>
   sm_refines (ops_run sm_exec ps m) (ops_run spec_exec ps (sm_items m))"
proof (induction ps arbitrary: m)
  case (Cons p ps)
  have r: "sm_refines (sm_exec p m) (spec_exec p (sm_items m))"
    using Cons.prems by (intro exec_refines) auto
  show ?case
  proof (cases "sm_exec p m")
    case (Inl e)
    then show ?thesis using r by (simp add: sm_refines_def)
  next
    case (Inr y)
    obtain m' o' where y: "y = (m', o')" by (cases y)
    then have m': "sm_inv m'" "spec_exec p (sm_items m) = Inr (sm_items m', o')"
      using r Inr by (auto simp: sm_refines_def)
    have "sm_refines (ops_run sm_exec ps m') (ops_run spec_exec ps (sm_items m'))"
      using Cons m' by simp
    then show ?thesis
      using m' Inr y by (cases "ops_run sm_exec ps m'") (auto simp: sm_refines_def)
  qed
qed (simp add: sm_refines_def)

end
