(* ===== verification/TxList.thy ===== *)
theory TxList
  imports TxSortedMap
begin

text \<open>
  The list of transactions of one account (\<open>list\<close> in \<open>src/mempool/txpool/legacypool/list.go\<close>): a
  nonce-sorted map with the sum of the costs and caps on cost and gas. The sum is a word of 256 bits; taking more
  from it than it holds panics. The theory shows that the sum is exact as long as it does not overflow, so the
  panic cannot happen, and that the caps only ever spare work.
\<close>

section \<open>The operations\<close>

record txList =
  l_strict :: bool
  l_txs :: SortedMap
  l_costcap :: u256
  l_gascap :: u64
  l_totalcost :: u256

definition newList :: "bool \<Rightarrow> txList" where
  "newList strict = \<lparr>l_strict = strict, l_txs = NewSortedMap, l_costcap = 0, l_gascap = 0, l_totalcost = 0\<rparr>"

definition ll_Contains :: "u64 \<Rightarrow> txList \<Rightarrow> bool" where
  "ll_Contains nonce l = (sm_Get nonce (l_txs l) \<noteq> None)"

text \<open>\<open>uint256.FromBig\<close>: the low 256 bits and whether there are more. \<open>MustFromBig\<close> panics in that case.\<close>

definition uint256_FromBig :: "int \<Rightarrow> u256 \<times> bool" where
  "uint256_FromBig b = (word_of_int b, very_high b)"

fun subTotalCost :: "eth_env \<Rightarrow> txptrs \<Rightarrow> u256 \<Rightarrow> u256 res" where
  "subTotalCost G [] tot = Inr tot"
| "subTotalCost G (None # txs) tot = Inl (Panic ''nil pointer dereference'')"
| "subTotalCost G (Some tx # txs) tot =
     (let (cost, overflow) = uint256_FromBig (eth_Cost G tx) in
      if overflow then Inl (Panic ''overflow'')
      else if tot < cost then Inl (Panic ''totalcost underflow'')
      else subTotalCost G txs (tot - cost))"

definition ll_subTotalCost :: "eth_env \<Rightarrow> txptrs \<Rightarrow> txList \<Rightarrow> txList res" where
  "ll_subTotalCost G txs l = rbind (subTotalCost G txs (l_totalcost l)) (\<lambda>t. Inr (l\<lparr>l_totalcost := t\<rparr>))"

text \<open>
  The price a replacement has to reach: \<open>int64(priceBump)\<close> and the sum with 100 wrap in 64 bits, \<open>Div\<close> by a positive number rounds
  down.
\<close>

definition price_threshold :: "u64 \<Rightarrow> int \<Rightarrow> int" where
  "price_threshold priceBump old = (sint (100 + priceBump) * old) div 100"

definition replaces :: "u64 \<Rightarrow> ethTx \<Rightarrow> ethTx \<Rightarrow> bool" where
  "replaces priceBump old tx =
     (if tx_GasFeeCap tx \<le> tx_GasFeeCap old \<or> tx_GasTipCap tx \<le> tx_GasTipCap old then False
      else \<not> (tx_GasFeeCap tx < price_threshold priceBump (tx_GasFeeCap old) \<or>
              tx_GasTipCap tx < price_threshold priceBump (tx_GasTipCap old)))"

text \<open>The part of \<open>Add\<close> after the replaced transaction has been dealt with.\<close>

definition ll_put :: "eth_env \<Rightarrow> ethTx \<Rightarrow> ethTx option \<Rightarrow> txList \<Rightarrow> txList \<times> bool \<times> ethTx option" where
  "ll_put G tx old l =
     (let (cost, overflow) = uint256_FromBig (eth_Cost G tx) in
      if overflow then (l, False, None)
      else
        (l\<lparr>l_totalcost := l_totalcost l + cost,
           l_txs := sm_Put tx (l_txs l),
           l_costcap := (if l_costcap l < cost then cost else l_costcap l),
           l_gascap := (if l_gascap l < tx_Gas tx then tx_Gas tx else l_gascap l)\<rparr>, True, old))"

definition ll_Add :: "eth_env \<Rightarrow> ethTx \<Rightarrow> u64 \<Rightarrow> txList \<Rightarrow> (txList \<times> bool \<times> ethTx option) res" where
  "ll_Add G tx priceBump l =
     (case sm_Get (tx_Nonce tx) (l_txs l) of
        None \<Rightarrow> Inr (ll_put G tx None l)
      | Some old \<Rightarrow>
          if \<not> replaces priceBump old tx then Inr (l, False, None)
          else rbind (ll_subTotalCost G [Some old] l) (\<lambda>l'. Inr (ll_put G tx (Some old) l')))"

definition ll_Forward :: "eth_env \<Rightarrow> u64 \<Rightarrow> txList \<Rightarrow> (txList \<times> txptrs) res" where
  "ll_Forward G threshold l =
     rbind (sm_Forward threshold (l_txs l)) (\<lambda>(m, txs).
     rbind (ll_subTotalCost G txs (l\<lparr>l_txs := m\<rparr>)) (\<lambda>l'. Inr (l', txs)))"

definition lowest_nonce :: "ethTx list \<Rightarrow> u64" where
  "lowest_nonce txs = foldl (\<lambda>lowest tx. if tx_Nonce tx < lowest then tx_Nonce tx else lowest) (- 1) txs"

definition ll_Filter :: "range_order \<Rightarrow> eth_env \<Rightarrow> u256 \<Rightarrow> u64 \<Rightarrow> txList \<Rightarrow> (txList \<times> ethTx list \<times> ethTx list) res" where
  "ll_Filter R G costLimit gasLimit l =
     (if l_costcap l \<le> costLimit \<and> l_gascap l \<le> gasLimit then Inr (l, [], [])
      else
        let (m, removed) = sm_Filter R (\<lambda>tx. gasLimit < tx_Gas tx \<or> uint costLimit < eth_Cost G tx) (l_txs l);
            l1 = l\<lparr>l_costcap := costLimit, l_gascap := gasLimit, l_txs := m\<rparr>
        in if removed = [] then Inr (l1, [], [])
           else
             let (m2, invalids) =
                   (if l_strict l then sm_filter (R 2) (\<lambda>tx. lowest_nonce removed < tx_Nonce tx) m else (m, []))
             in rbind (ll_subTotalCost G (map Some removed) (l1\<lparr>l_txs := m2\<rparr>)) (\<lambda>l2.
                rbind (ll_subTotalCost G (map Some invalids) l2) (\<lambda>l3.
                Inr (l3\<lparr>l_txs := sm_reheap (R 3) (l_txs l3)\<rparr>, removed, invalids))))"

definition ll_Cap :: "eth_env \<Rightarrow> int \<Rightarrow> txList \<Rightarrow> (txList \<times> txptrs) res" where
  "ll_Cap G threshold l =
     rbind (sm_Cap threshold (l_txs l)) (\<lambda>(m, txs).
     rbind (ll_subTotalCost G txs (l\<lparr>l_txs := m\<rparr>)) (\<lambda>l'. Inr (l', txs)))"

definition ll_Remove :: "range_order \<Rightarrow> eth_env \<Rightarrow> ethTx \<Rightarrow> txList \<Rightarrow> (txList \<times> bool \<times> ethTx list) res" where
  "ll_Remove R G tx l =
     (let nonce = tx_Nonce tx; (m, removed) = sm_Remove nonce (l_txs l) in
      if \<not> removed then Inr (l\<lparr>l_txs := m\<rparr>, False, [])
      else
        rbind (ll_subTotalCost G [Some tx] (l\<lparr>l_txs := m\<rparr>)) (\<lambda>l1.
        if l_strict l then
          let (m2, txs) = sm_Filter R (\<lambda>t. nonce < tx_Nonce t) (l_txs l1) in
          rbind (ll_subTotalCost G (map Some txs) (l1\<lparr>l_txs := m2\<rparr>)) (\<lambda>l2. Inr (l2, True, txs))
        else Inr (l1, True, [])))"

definition ll_Ready :: "eth_env \<Rightarrow> u64 \<Rightarrow> txList \<Rightarrow> (txList \<times> txptrs) res" where
  "ll_Ready G start l =
     (let (m, txs) = sm_Ready start (l_txs l) in
      rbind (ll_subTotalCost G txs (l\<lparr>l_txs := m\<rparr>)) (\<lambda>l'. Inr (l', txs)))"

definition ll_Len :: "txList \<Rightarrow> nat" where
  "ll_Len l = sm_Len (l_txs l)"

definition ll_Empty :: "txList \<Rightarrow> bool" where
  "ll_Empty l = (ll_Len l = 0)"

definition ll_Flatten :: "range_order \<Rightarrow> txList \<Rightarrow> txList \<times> ethTx list" where
  "ll_Flatten R l = (let (m, txs) = sm_Flatten R (l_txs l) in (l\<lparr>l_txs := m\<rparr>, txs))"

definition ll_LastElement :: "range_order \<Rightarrow> txList \<Rightarrow> (txList \<times> ethTx) res" where
  "ll_LastElement R l = rbind (sm_LastElement R (l_txs l)) (\<lambda>(m, tx). Inr (l\<lparr>l_txs := m\<rparr>, tx))"

section \<open>The sum of the costs\<close>

abbreviation l_items :: "txList \<Rightarrow> (u64, ethTx) kv" where
  "l_items l \<equiv> sm_items (l_txs l)"

definition l_members :: "txList \<Rightarrow> ethTx set" where
  "l_members l = snd ` set (l_items l)"

definition cost_sum :: "eth_env \<Rightarrow> ethTx list \<Rightarrow> int" where
  "cost_sum G txs = (\<Sum>tx \<leftarrow> txs. eth_Cost G tx)"

lemma cost_sum_simps [simp]:
  "cost_sum G [] = 0" "cost_sum G (tx # txs) = eth_Cost G tx + cost_sum G txs"
  "cost_sum G (xs @ ys) = cost_sum G xs + cost_sum G ys"
  by (simp_all add: cost_sum_def)

lemma cost_sum_mset: "mset xs = mset ys \<Longrightarrow> cost_sum G xs = cost_sum G ys"
  unfolding cost_sum_def by (metis mset_map sum_mset_sum_list)

lemma cost_sum_nonneg: "\<forall>tx \<in> set txs. 0 \<le> eth_Cost G tx \<Longrightarrow> 0 \<le> cost_sum G txs"
  unfolding cost_sum_def by (intro sum_list_nonneg) auto

lemma cost_sum_split: "cost_sum G (filter f txs) + cost_sum G (filter (\<lambda>x. \<not> f x) txs) = cost_sum G txs"
  by (induction txs) auto

lemma FromBig_small: "0 \<le> b \<Longrightarrow> b < 2 ^ 256 \<Longrightarrow> uint256_FromBig b = (word_of_int b, False)"
  by (simp add: uint256_FromBig_def very_high_def)

lemma uint_small: "0 \<le> b \<Longrightarrow> b < 2 ^ 256 \<Longrightarrow> uint (word_of_int b :: u256) = b"
  by (simp add: uint_word_of_int_eq take_bit_int_eq_self)

lemma subTotalCost_exact:
  "\<forall>tx \<in> set txs. 0 \<le> eth_Cost G tx \<Longrightarrow> cost_sum G txs \<le> uint tot \<Longrightarrow>
   \<exists>t. subTotalCost G (map Some txs) tot = Inr t \<and> uint t = uint tot - cost_sum G txs"
proof (induction txs arbitrary: tot)
  case (Cons tx txs)
  let ?c = "word_of_int (eth_Cost G tx) :: u256"
  have nn: "0 \<le> eth_Cost G tx" "0 \<le> cost_sum G txs" using Cons.prems(1) cost_sum_nonneg by auto
  then have le: "eth_Cost G tx \<le> uint tot" using Cons.prems(2) by simp
  then have lt: "eth_Cost G tx < 2 ^ 256" using uint_lt2p [of tot] by simp
  have u: "uint ?c = eth_Cost G tx" using uint_small nn(1) lt by blast
  then have "?c \<le> tot" using le by (simp add: word_le_def)
  then have "\<not> tot < ?c" "uint (tot - ?c) = uint tot - eth_Cost G tx"
    using uint_minus_simple_alt [of ?c tot] u by auto
  then show ?case
    using Cons.IH [of "tot - ?c"] Cons.prems FromBig_small [OF nn(1) lt] by auto
qed simp

section \<open>The invariant\<close>

definition ll_inv :: "eth_env \<Rightarrow> txList \<Rightarrow> bool" where
  "ll_inv G l \<longleftrightarrow> sm_inv (l_txs l) \<and>
     (\<forall>tx \<in> l_members l. 0 \<le> eth_Cost G tx \<and> eth_Cost G tx \<le> uint (l_costcap l) \<and> tx_Gas tx \<le> l_gascap l) \<and>
     uint (l_totalcost l) = cost_sum G (map snd (l_items l))"

lemma ll_inv_new [simp]: "ll_inv G (newList s)"
  by (simp add: ll_inv_def l_members_def newList_def) (simp add: NewSortedMap_def)

text \<open>Taking transactions out, with their cost, and keeping the rest.\<close>

lemma take_out:
  assumes "ll_inv G l" "mset (map snd (l_items l)) = mset txs + mset rest"
  obtains t where "subTotalCost G (map Some txs) (l_totalcost l) = Inr t" "uint t = cost_sum G rest"
    "set rest \<subseteq> l_members l"
proof -
  have "set (map snd (l_items l)) = set txs \<union> set rest"
    using assms(2) by (metis mset_append set_append set_mset_mset)
  then have sub: "set txs \<subseteq> l_members l" "set rest \<subseteq> l_members l" by (auto simp: l_members_def)
  have nn: "\<forall>tx \<in> l_members l. 0 \<le> eth_Cost G tx" using assms(1) by (simp add: ll_inv_def)
  have sum: "uint (l_totalcost l) = cost_sum G txs + cost_sum G rest"
    using assms cost_sum_mset [of "map snd (l_items l)" "txs @ rest" G] by (simp add: ll_inv_def)
  have "0 \<le> cost_sum G rest" using nn sub(2) by (intro cost_sum_nonneg) blast
  then show thesis
    using subTotalCost_exact [of txs G "l_totalcost l"] nn sub sum that by fastforce
qed

lemma ll_inv_take_out:
  assumes "ll_inv G l" "sm_inv m" "uint t = cost_sum G (map snd (sm_items m))"
    "set (map snd (sm_items m)) \<subseteq> l_members l"
  shows "ll_inv G (l\<lparr>l_txs := m, l_totalcost := t\<rparr>)"
proof -
  have "l_members (l\<lparr>l_txs := m, l_totalcost := t\<rparr>) \<subseteq> l_members l"
    using assms(4) by (simp add: l_members_def)
  then show ?thesis using assms unfolding ll_inv_def by (simp, blast)
qed

lemma ll_take_out:
  assumes "ll_inv G l" "sm_inv m" "mset (map snd (l_items l)) = mset txs + mset (map snd (sm_items m))"
  obtains l' where "ll_subTotalCost G (map Some txs) (l\<lparr>l_txs := m\<rparr>) = Inr l'" "ll_inv G l'" "l_txs l' = m"
    "l_strict l' = l_strict l"
proof -
  from take_out [OF assms(1,3)] obtain t where t: "subTotalCost G (map Some txs) (l_totalcost l) = Inr t"
    "uint t = cost_sum G (map snd (sm_items m))" "set (map snd (sm_items m)) \<subseteq> l_members l" .
  then show thesis
    using that [of "l\<lparr>l_txs := m, l_totalcost := t\<rparr>"] ll_inv_take_out [OF assms(1,2) t(2,3)]
    by (simp add: ll_subTotalCost_def)
qed

lemma subTotalCost_append: "subTotalCost G (xs @ ys) t = rbind (subTotalCost G xs t) (subTotalCost G ys)"
  by (induction G xs t rule: subTotalCost.induct) (auto split: prod.splits)

lemma map_comp_Some: "map (Some \<circ> snd) xs = map Some (map snd xs)"
  by simp

lemma Forward_ok:
  assumes "ll_inv G l"
  obtains l' where "ll_Forward G t l = Inr (l', map Some (map snd (takeWhile (\<lambda>(n, tx). n < t) (l_items l))))"
    "ll_inv G l'" "l_items l' = dropWhile (\<lambda>(n, tx). n < t) (l_items l)" "l_strict l' = l_strict l"
proof -
  let ?P = "\<lambda>(n, tx). n < t"
  have "sm_inv (l_txs l)" using assms by (simp add: ll_inv_def)
  from Forward_spec [OF this, of t] obtain m where m:
    "sm_Forward t (l_txs l) = Inr (m, map Some (map snd (takeWhile ?P (l_items l))))" "sm_inv m"
    "sm_items m = dropWhile ?P (l_items l)" unfolding map_comp_Some .
  have "mset (map snd (l_items l)) = mset (map snd (takeWhile ?P (l_items l))) + mset (map snd (sm_items m))"
    unfolding m(3) by (metis map_append mset_append takeWhile_dropWhile_id)
  from ll_take_out [OF assms m(2) this] obtain l' where
    "ll_subTotalCost G (map Some (map snd (takeWhile ?P (l_items l)))) (l\<lparr>l_txs := m\<rparr>) = Inr l'"
    "ll_inv G l'" "l_txs l' = m" "l_strict l' = l_strict l" by blast
  then show thesis using that [of l'] m by (simp add: ll_Forward_def del: map_map)
qed

lemma Cap_ok:
  assumes "ll_inv G l" "0 \<le> t"
  obtains l' where "ll_Cap G t l = Inr (l', map Some (map snd (rev (drop (nat t) (l_items l)))))"
    "ll_inv G l'" "l_items l' = take (nat t) (l_items l)" "l_strict l' = l_strict l"
proof -
  have "sm_inv (l_txs l)" using assms by (simp add: ll_inv_def)
  from Cap_spec [OF this assms(2)] obtain m where m:
    "sm_Cap t (l_txs l) = Inr (m, map Some (map snd (rev (drop (nat t) (l_items l)))))" "sm_inv m"
    "sm_items m = take (nat t) (l_items l)" unfolding map_comp_Some .
  have "mset (map snd (l_items l)) = mset (map snd (rev (drop (nat t) (l_items l)))) + mset (map snd (sm_items m))"
    unfolding m(3) by (metis append_take_drop_id map_append mset_append mset_rev rev_map union_commute)
  from ll_take_out [OF assms(1) m(2) this] obtain l' where
    "ll_subTotalCost G (map Some (map snd (rev (drop (nat t) (l_items l))))) (l\<lparr>l_txs := m\<rparr>) = Inr l'"
    "ll_inv G l'" "l_txs l' = m" "l_strict l' = l_strict l" by blast
  then show thesis using that [of l'] m by (simp add: ll_Cap_def del: map_map)
qed

lemma Ready_ok:
  assumes "ll_inv G l"
  obtains l' where "ll_Ready G n l = Inr (l', map Some (map snd (ready_run n (l_items l))))"
    "ll_inv G l'" "l_items l' = drop (length (ready_run n (l_items l))) (l_items l)" "l_strict l' = l_strict l"
proof -
  have "sm_inv (l_txs l)" using assms by (simp add: ll_inv_def)
  from Ready_spec [OF this, of n] obtain m where m:
    "sm_Ready n (l_txs l) = (m, map Some (map snd (ready_run n (l_items l))))" "sm_inv m"
    "sm_items m = drop (length (ready_run n (l_items l))) (l_items l)" unfolding map_comp_Some .
  have "ready_run n (l_items l) = take (length (ready_run n (l_items l))) (l_items l)"
    using nonce_run_prefix by (simp add: ready_run_def)
  then have "mset (map snd (l_items l)) = mset (map snd (ready_run n (l_items l))) + mset (map snd (sm_items m))"
    unfolding m(3) by (metis append_take_drop_id map_append mset_append)
  from ll_take_out [OF assms m(2) this] obtain l' where
    "ll_subTotalCost G (map Some (map snd (ready_run n (l_items l)))) (l\<lparr>l_txs := m\<rparr>) = Inr l'"
    "ll_inv G l'" "l_txs l' = m" "l_strict l' = l_strict l" by blast
  then show thesis using that [of l'] m by (simp add: ll_Ready_def del: map_map)
qed

text \<open>
  The caps spare the walk over the list only when nothing would be removed: \<open>Filter\<close> removes the transactions
  above a limit and, from a strict list, those behind the first of them.
\<close>

definition over_limit :: "eth_env \<Rightarrow> u256 \<Rightarrow> u64 \<Rightarrow> ethTx \<Rightarrow> bool" where
  "over_limit G costLimit gasLimit tx = (gasLimit < tx_Gas tx \<or> uint costLimit < eth_Cost G tx)"

definition behind :: "eth_env \<Rightarrow> u256 \<Rightarrow> u64 \<Rightarrow> txList \<Rightarrow> ethTx \<Rightarrow> bool" where
  "behind G costLimit gasLimit l tx \<longleftrightarrow> l_strict l \<and> \<not> over_limit G costLimit gasLimit tx \<and>
     (\<exists>t \<in> l_members l. over_limit G costLimit gasLimit t \<and> tx_Nonce t < tx_Nonce tx)"

lemma lowest_nonce_foldl:
  "foldl (\<lambda>lowest tx. if tx_Nonce tx < lowest then tx_Nonce tx else lowest) x txs < n \<longleftrightarrow>
   x < n \<or> (\<exists>tx \<in> set txs. tx_Nonce tx < n)"
  by (induction txs arbitrary: x) (auto simp: not_less)

lemma lowest_nonce_less: "lowest_nonce txs < n \<longleftrightarrow> (\<exists>tx \<in> set txs. tx_Nonce tx < n)"
  unfolding lowest_nonce_def lowest_nonce_foldl by (simp add: word_order.extremum_strict)

lemma caps_filter:
  assumes "ll_inv G l" "l_costcap l \<le> costLimit" "l_gascap l \<le> gasLimit" "tx \<in> l_members l"
  shows "\<not> over_limit G costLimit gasLimit tx"
proof -
  have "uint (l_costcap l) \<le> uint costLimit" using assms(2) by (simp add: word_le_def)
  then show ?thesis using assms unfolding ll_inv_def over_limit_def by (meson leD order_trans)
qed

lemma keep_split:
  "mset (map snd items) = mset (filter f (map snd items)) + mset (map snd (keep f items))"
  by (induction items) auto

lemma keep_keep: "keep g (keep f items) = filter (\<lambda>(n, tx). \<not> f tx \<and> \<not> g tx) items"
  by (induction items) auto

lemma ll_inv_caps:
  "ll_inv G l \<Longrightarrow> \<forall>tx \<in> l_members l. eth_Cost G tx \<le> uint c \<and> tx_Gas tx \<le> g \<Longrightarrow>
   ll_inv G (l\<lparr>l_costcap := c, l_gascap := g\<rparr>)"
  by (auto simp: ll_inv_def l_members_def)

lemma three_way:
  "(\<And>x. \<not> (P x \<and> Q x)) \<Longrightarrow> mset (map snd xs) =
   mset (filter P (map snd xs)) + mset (filter Q (map snd xs)) + mset (map snd (filter (\<lambda>(n, tx). \<not> P tx \<and> \<not> Q tx) xs))"
  by (induction xs) auto

lemma Filter_ok:
  assumes "ll_inv G l" "range_ok R"
  obtains l' removed invalids where "ll_Filter R G c g l = Inr (l', removed, invalids)" "ll_inv G l'"
    "mset removed = mset (filter (over_limit G c g) (map snd (l_items l)))"
    "mset invalids = mset (filter (behind G c g l) (map snd (l_items l)))"
    "l_items l' = filter (\<lambda>(n, tx). \<not> over_limit G c g tx \<and> \<not> behind G c g l tx) (l_items l)"
    "l_strict l' = l_strict l"
proof -
  let ?A = "over_limit G c g" and ?B = "behind G c g l"
  have sm: "sm_inv (l_txs l)" and ok: "kv_ok (l_items l)"
    using assms(1) by (auto simp: ll_inv_def sm_inv_def sm_core_def)
  note result = that
  have none: thesis if l': "ll_Filter R G c g l = Inr (l', [], [])" "ll_inv G l'" "l_items l' = l_items l"
    "l_strict l' = l_strict l" and "\<forall>tx \<in> l_members l. \<not> ?A tx" for l'
  proof (rule result [OF l'(1,2)])
    have m: "(n, tx) \<in> set (l_items l) \<Longrightarrow> tx \<in> l_members l" for n tx by (force simp: l_members_def)
    show "mset [] = mset (filter ?A (map snd (l_items l)))" "mset [] = mset (filter ?B (map snd (l_items l)))"
      "l_items l' = filter (\<lambda>(n, tx). \<not> ?A tx \<and> \<not> ?B tx) (l_items l)"
      using that(5) m l'(3) by (auto simp: filter_empty_conv behind_def intro!: filter_True [symmetric])
    show "l_strict l' = l_strict l" by (fact l'(4))
  qed
  show thesis
  proof (cases "l_costcap l \<le> c \<and> l_gascap l \<le> g")
    case True
    then show thesis
      using none [of l] caps_filter [OF assms(1)] assms(1) by (simp add: ll_Filter_def)
  next
    case False
    from Filter_spec [OF sm assms(2), of ?A] obtain m where m:
      "sm_Filter R ?A (l_txs l) = (m, range_removed (R 0) ?A (l_items l))" "sm_inv m"
      "sm_items m = keep ?A (l_items l)" .
    define removed where "removed = range_removed (R 0) ?A (l_items l)"
    have R: "\<And>i ks. mset (R i ks) = mset ks" using assms(2) by (simp add: range_ok_def)
    have rm: "mset removed = mset (filter ?A (map snd (l_items l)))"
      unfolding removed_def using mset_range_removed [where rng = "R 0", OF ok R] .
    define l1 where "l1 = l\<lparr>l_costcap := c, l_gascap := g, l_txs := m\<rparr>"
    have fa: "(\<lambda>tx. g < tx_Gas tx \<or> uint c < eth_Cost G tx) = ?A" by (simp add: over_limit_def fun_eq_iff)
    show thesis
    proof (cases "removed = []")
      case True
      then have na: "\<forall>tx \<in> l_members l. \<not> ?A tx" using rm by (auto simp: filter_empty_conv l_members_def)
      then have "l_items l1 = l_items l" using m(3) by (auto simp: l1_def filter_id_conv l_members_def)
      moreover from this have "ll_inv G l1"
        using assms(1) m(2) na unfolding ll_inv_def by (simp add: l1_def l_members_def over_limit_def not_less)
      moreover have "ll_Filter R G c g l = Inr (l1, [], [])"
        using False m(1) True by (auto simp: ll_Filter_def fa l1_def removed_def)
      ultimately show thesis using none [of l1] na by (simp add: l1_def)
    next
      case ne: False
      define f where "f = (\<lambda>tx :: ethTx. lowest_nonce removed < tx_Nonce tx)"
      define m2 where "m2 = (if l_strict l then fst (sm_filter (R 2) f m) else m)"
      define invalids where "invalids = (if l_strict l then snd (sm_filter (R 2) f m) else [])"
      have fB: "f tx \<longleftrightarrow> (\<exists>t \<in> l_members l. ?A t \<and> tx_Nonce t < tx_Nonce tx)" for tx
        using mset_eq_setD [OF rm] by (auto simp: f_def lowest_nonce_less l_members_def)
      have B: "?B tx \<longleftrightarrow> l_strict l \<and> \<not> ?A tx \<and> f tx" for tx by (simp add: behind_def fB)
      note fs = filter_spec [where rng = "R 2", OF m(2) R, of f]
      have okm: "kv_ok (sm_items m)" using m(3) kv_ok_filter ok by simp
      have it: "sm_items m2 = filter (\<lambda>(n, tx). \<not> ?A tx \<and> \<not> ?B tx) (l_items l)"
        unfolding m2_def using fs(1) m(3) by (auto simp: B intro!: filter_cong)
      have iv: "mset invalids = mset (filter ?B (map snd (l_items l)))"
        unfolding invalids_def using fs(2) mset_range_removed [where rng = "R 2", OF okm R, of f] m(3)
        by (auto simp: B filter_map comp_def case_prod_beta intro!: arg_cong [where f = mset] filter_cong)
      have "mset (map snd (l_items l)) = mset (removed @ invalids) + mset (map snd (sm_items m2))"
        unfolding it using rm iv three_way [of ?A ?B "l_items l"] by (simp add: behind_def)
      from take_out [OF assms(1) this] obtain t where t:
        "subTotalCost G (map Some (removed @ invalids)) (l_totalcost l) = Inr t"
        "uint t = cost_sum G (map snd (sm_items m2))" "set (map snd (sm_items m2)) \<subseteq> l_members l" .
      define m3 where "m3 = sm_reheap (R 3) m2"
      have "kv_ok (sm_items m2) \<and> (\<forall>(n, tx) \<in> set (sm_items m2). tx_Nonce tx = n)"
        unfolding it using core_filter_nonces [OF sm_inv_core [OF sm]] .
      then have m3: "sm_inv m3" "sm_items m3 = sm_items m2"
        unfolding m3_def using reheap_inv R by auto
      define l2 where "l2 = l\<lparr>l_txs := m3, l_totalcost := t\<rparr>"
      have "ll_inv G l2" unfolding l2_def using ll_inv_take_out [OF assms(1) m3(1)] t m3(2) by simp
      moreover have "\<forall>tx \<in> l_members l2. eth_Cost G tx \<le> uint c \<and> tx_Gas tx \<le> g"
        using it m3(2) by (auto simp: l_members_def l2_def over_limit_def not_less)
      ultimately have inv: "ll_inv G (l2\<lparr>l_costcap := c, l_gascap := g\<rparr>)" by (rule ll_inv_caps)
      have fl: "ll_Filter R G c g l = Inr (l2\<lparr>l_costcap := c, l_gascap := g\<rparr>, removed, invalids)"
      proof -
        have "(if l_strict l then sm_filter (R 2) f m else (m, [])) = (m2, invalids)"
          by (simp add: m2_def invalids_def)
        then show ?thesis
          using False ne t(1) unfolding ll_Filter_def fa m(1) removed_def [symmetric] map_append subTotalCost_append
          by (auto simp: Let_def f_def ll_subTotalCost_def rbind_eq_Inr l2_def m3_def)
      qed
      show thesis by (rule result [OF fl inv rm iv]) (simp_all add: l2_def m3(2) it)
    qed
  qed
qed

lemma kv_delete_mset: "kv_ok s \<Longrightarrow> kv_get s k = Some v \<Longrightarrow> mset s = add_mset (k, v) (mset (kv_delete k s))"
proof (induction k s rule: kv_delete.induct)
  case (2 k k' v' s)
  have "kv_get s k' = None" using "2.prems"(1) by (auto simp: kv_ok_Cons kv_get_None)
  moreover have "mset s = add_mset (k, v) (mset (kv_delete k s))" if "k \<noteq> k'"
    using "2.IH" "2.prems" that by (simp add: kv_ok_Cons)
  ultimately show ?case using "2.prems"(2) by (cases "k = k'") (simp_all add: kv_delete_absent)
qed simp

lemma kv_set_mset:
  "kv_ok s \<Longrightarrow> mset (kv_set k v s) = add_mset (k, v) (mset (kv_delete k s))"
proof (induction k v s rule: kv_set.induct)
  case (2 k v k' v' s)
  have "k \<le> k' \<Longrightarrow> kv_get s k = None" using "2.prems"(1) by (force simp: kv_ok_Cons kv_get_None)
  then show ?case using 2 by (auto simp: kv_ok_Cons kv_delete_absent)
qed simp

lemma ll_Remove_ok:
  assumes "ll_inv G l" "range_ok R" "kv_get (l_items l) (tx_Nonce tx) \<in> {None, Some tx}"
  obtains l' txs where "ll_Remove R G tx l = Inr (l', kv_get (l_items l) (tx_Nonce tx) \<noteq> None, txs)" "ll_inv G l'"
    "l_strict l' = l_strict l"
    "mset txs = mset (if l_strict l \<and> kv_get (l_items l) (tx_Nonce tx) \<noteq> None
       then filter (\<lambda>t. tx_Nonce tx < tx_Nonce t) (map snd (l_items l)) else [])"
    "l_items l' = (if l_strict l \<and> kv_get (l_items l) (tx_Nonce tx) \<noteq> None
       then filter (\<lambda>(n, t). n < tx_Nonce tx) (l_items l) else kv_delete (tx_Nonce tx) (l_items l))"
proof -
  note result = that
  let ?n = "tx_Nonce tx"
  have sm: "sm_inv (l_txs l)" and ok: "kv_ok (l_items l)" and nn: "\<forall>(n, t) \<in> set (l_items l). tx_Nonce t = n"
    using assms(1) by (auto simp: ll_inv_def sm_inv_def sm_core_def)
  from Remove_spec [OF sm, of ?n] obtain m where m: "sm_Remove ?n (l_txs l) = (m, kv_get (l_items l) ?n \<noteq> None)"
    "sm_inv m" "sm_items m = kv_delete ?n (l_items l)" .
  show thesis
  proof (cases "kv_get (l_items l) ?n")
    case None
    then have "m = l_txs l" using m(1) by (simp add: sm_Remove_def)
    then show thesis
      using None assms(1) m by (intro result [of l "[]"]) (auto simp: ll_Remove_def kv_delete_absent)
  next
    case (Some t)
    then have "kv_get (l_items l) ?n = Some tx" using assms(3) by simp
    then have ms: "mset (l_items l) = add_mset (?n, tx) (mset (sm_items m))"
      unfolding m(3) by (rule kv_delete_mset [OF ok])
    have "mset (map snd (l_items l)) = mset [tx] + mset (map snd (sm_items m))" using ms by simp
    from ll_take_out [OF assms(1) m(2) this] obtain l1 where l1:
      "ll_subTotalCost G [Some tx] (l\<lparr>l_txs := m\<rparr>) = Inr l1" "ll_inv G l1" "l_txs l1 = m" "l_strict l1 = l_strict l" by auto
    show thesis
    proof (cases "l_strict l")
      case False
      then show thesis
        using l1 m Some by (intro result [of l1 "[]"]) (auto simp: ll_Remove_def)
    next
      case True
      let ?f = "\<lambda>t. ?n < tx_Nonce t"
      from Filter_spec [OF m(2) assms(2), of ?f] obtain m2 where m2:
        "sm_Filter R ?f m = (m2, range_removed (R 0) ?f (sm_items m))" "sm_inv m2" "sm_items m2 = keep ?f (sm_items m)" .
      define txs where "txs = range_removed (R 0) ?f (sm_items m)"
      have tm: "mset txs = mset (filter ?f (map snd (sm_items m)))"
        unfolding txs_def using assms(2) m(3) ok
        by (intro mset_range_removed [where rng = "R 0"]) (auto simp: range_ok_def)
      have "mset (map snd (l_items l1)) = mset txs + mset (map snd (sm_items m2))"
        using keep_split [of "sm_items m" ?f] by (simp add: tm m2(3) l1(3))
      from ll_take_out [OF l1(2) m2(2) this] obtain l2 where l2:
        "ll_subTotalCost G (map Some txs) (l1\<lparr>l_txs := m2\<rparr>) = Inr l2" "ll_inv G l2" "l_txs l2 = m2"
        "l_strict l2 = l_strict l1" .
      have rm: "ll_Remove R G tx l = Inr (l2, kv_get (l_items l) ?n \<noteq> None, txs)"
        using True Some m(1) l1 l2(1) m2(1) by (simp add: ll_Remove_def txs_def)
      show thesis
      proof (rule result [OF rm l2(2)])
        show "l_strict l2 = l_strict l" by (simp add: l2(4) l1(4))
        have "mset (filter ?f (map snd (sm_items m))) = mset (filter ?f (map snd (l_items l)))"
          using ms by simp
        then show "mset txs = mset (if l_strict l \<and> kv_get (l_items l) ?n \<noteq> None
            then filter ?f (map snd (l_items l)) else [])"
          using tm True Some by simp
        have "keep ?f (kv_delete ?n (l_items l)) = filter (\<lambda>(n, t). n < ?n) (l_items l)"
          using nn by (auto simp: kv_delete_filter intro!: filter_cong)
        then show "l_items l2 = (if l_strict l \<and> kv_get (l_items l) ?n \<noteq> None
            then filter (\<lambda>(n, t). n < ?n) (l_items l) else kv_delete ?n (l_items l))"
          using True Some by (simp add: l2(3) m2(3) m(3))
      qed
    qed
  qed
qed

text \<open>
  \<open>Add\<close> is accepted unless the transaction in its place has a price that is not beaten by the bump. The sum
  stays exact as long as it fits into 256 bits.
\<close>

lemma ll_put_ok:
  assumes "sm_inv (l_txs l)" "uint (l_totalcost l) = cost_sum G (map snd (kv_delete (tx_Nonce tx) (l_items l)))"
    "\<forall>t \<in> l_members l. 0 \<le> eth_Cost G t \<and> eth_Cost G t \<le> uint (l_costcap l) \<and> tx_Gas t \<le> l_gascap l"
    "0 \<le> eth_Cost G tx" "uint (l_totalcost l) + eth_Cost G tx < 2 ^ 256"
  obtains l' where "ll_put G tx old l = (l', True, old)" "ll_inv G l'" "l_strict l' = l_strict l"
    "l_items l' = kv_set (tx_Nonce tx) tx (l_items l)"
proof -
  let ?c = "word_of_int (eth_Cost G tx) :: u256"
  have lt: "eth_Cost G tx < 2 ^ 256" using assms(5) uint_ge_0 [of "l_totalcost l"] by linarith
  have u: "uint ?c = eth_Cost G tx" by (rule uint_small [OF assms(4) lt])
  define l' where "l' = l\<lparr>l_totalcost := l_totalcost l + ?c, l_txs := sm_Put tx (l_txs l),
    l_costcap := (if l_costcap l < ?c then ?c else l_costcap l),
    l_gascap := (if l_gascap l < tx_Gas tx then tx_Gas tx else l_gascap l)\<rparr>"
  have put: "ll_put G tx old l = (l', True, old)"
    using FromBig_small [OF assms(4) lt] by (simp add: ll_put_def l'_def)
  have it: "l_items l' = kv_set (tx_Nonce tx) tx (l_items l)" by (simp add: l'_def sm_Put_def Let_def)
  have ok: "kv_ok (l_items l)" using assms(1) by (simp add: sm_inv_def sm_core_def)
  have mem: "l_members l' \<subseteq> insert tx (l_members l)"
    using set_kv_set [of "tx_Nonce tx" tx "l_items l"] unfolding l_members_def it by force
  have "uint (l_totalcost l + ?c) = uint (l_totalcost l) + eth_Cost G tx"
    using assms(5) u uint_add_lem [of "l_totalcost l" ?c] by simp
  moreover have "cost_sum G (map snd (l_items l')) = eth_Cost G tx + cost_sum G (map snd (kv_delete (tx_Nonce tx) (l_items l)))"
    using kv_set_mset [OF ok, of "tx_Nonce tx" tx] unfolding it
    by (subst cost_sum_mset [of _ "map snd ((tx_Nonce tx, tx) # kv_delete (tx_Nonce tx) (l_items l))"]) simp_all
  ultimately have sum: "uint (l_totalcost l') = cost_sum G (map snd (l_items l'))"
    using assms(2) by (simp add: l'_def)
  have caps: "0 \<le> eth_Cost G t \<and> eth_Cost G t \<le> uint (l_costcap l') \<and> tx_Gas t \<le> l_gascap l'"
    if "t \<in> l_members l'" for t
  proof -
    have up: "uint (l_costcap l) \<le> uint (l_costcap l')" "eth_Cost G tx \<le> uint (l_costcap l')"
      "l_gascap l \<le> l_gascap l'" "tx_Gas tx \<le> l_gascap l'"
      using u by (auto simp: l'_def word_less_def [where 'a = 256] not_less)
    have "t = tx \<or> t \<in> l_members l" using that mem by blast
    then show ?thesis
    proof
      assume "t \<in> l_members l"
      then have "0 \<le> eth_Cost G t" "eth_Cost G t \<le> uint (l_costcap l)" "tx_Gas t \<le> l_gascap l"
        using assms(3) by auto
      then show ?thesis using up(1) order_trans [OF _ up(3)] by simp
    qed (use up assms(4) in simp)
  qed
  have "sm_inv (l_txs l')" using Put_inv [OF assms(1)] by (simp add: l'_def)
  then have "ll_inv G l'" using sum caps by (simp add: ll_inv_def)
  then show thesis using that [OF put] it by (simp add: l'_def)
qed

lemma Add_rejects:
  assumes "sm_Get (tx_Nonce tx) (l_txs l) = Some old" "\<not> replaces bump old tx"
  shows "ll_Add G tx bump l = Inr (l, False, None)"
  using assms by (simp add: ll_Add_def)

lemma Add_ok:
  assumes "ll_inv G l" "0 \<le> eth_Cost G tx"
    "case kv_get (l_items l) (tx_Nonce tx) of
       None \<Rightarrow> uint (l_totalcost l) + eth_Cost G tx < 2 ^ 256
     | Some old \<Rightarrow> replaces bump old tx \<and> uint (l_totalcost l) - eth_Cost G old + eth_Cost G tx < 2 ^ 256"
  obtains l' where "ll_Add G tx bump l = Inr (l', True, kv_get (l_items l) (tx_Nonce tx))" "ll_inv G l'"
    "l_strict l' = l_strict l" "l_items l' = kv_set (tx_Nonce tx) tx (l_items l)"
proof -
  have sm: "sm_inv (l_txs l)" and ok: "kv_ok (l_items l)"
    and mem: "\<forall>t \<in> l_members l. 0 \<le> eth_Cost G t \<and> eth_Cost G t \<le> uint (l_costcap l) \<and> tx_Gas t \<le> l_gascap l"
    and sum: "uint (l_totalcost l) = cost_sum G (map snd (l_items l))"
    using assms(1) by (auto simp: ll_inv_def sm_inv_def sm_core_def)
  show thesis
  proof (cases "kv_get (l_items l) (tx_Nonce tx)")
    case None
    with sum have "uint (l_totalcost l) = cost_sum G (map snd (kv_delete (tx_Nonce tx) (l_items l)))"
      by (simp add: kv_delete_absent)
    from ll_put_ok [OF sm this mem assms(2)] None assms(3) obtain l' where
      "ll_put G tx None l = (l', True, None)" "ll_inv G l'" "l_strict l' = l_strict l"
      "l_items l' = kv_set (tx_Nonce tx) tx (l_items l)" by auto
    then show thesis using that [of l'] None by (simp add: ll_Add_def sm_Get_def)
  next
    case (Some old)
    let ?rest = "map snd (kv_delete (tx_Nonce tx) (l_items l))"
    have "mset (map snd (l_items l)) = mset [old] + mset ?rest"
      using kv_delete_mset [OF ok Some] by simp
    from take_out [OF assms(1) this] obtain t where t: "subTotalCost G [Some old] (l_totalcost l) = Inr t"
      "uint t = cost_sum G ?rest" unfolding list.map by blast
    define l1 where "l1 = l\<lparr>l_totalcost := t\<rparr>"
    have "uint t = uint (l_totalcost l) - eth_Cost G old"
      using sum t(2) cost_sum_mset [OF \<open>mset (map snd (l_items l)) = mset [old] + mset ?rest\<close> [folded mset_append]]
      by simp
    then have "uint (l_totalcost l1) + eth_Cost G tx < 2 ^ 256" using assms(3) Some by (simp add: l1_def)
    from ll_put_ok [of l1 G tx, OF _ _ _ assms(2) this] sm mem t(2) obtain l' where
      "ll_put G tx (Some old) l1 = (l', True, Some old)" "ll_inv G l'" "l_strict l' = l_strict l1"
      "l_items l' = kv_set (tx_Nonce tx) tx (l_items l1)" by (auto simp: l1_def l_members_def)
    then show thesis
      using that [of l'] Some assms(3) t(1) by (simp add: ll_Add_def sm_Get_def ll_subTotalCost_def l1_def)
  qed
qed

end
