(* ===== verification/PricedList.thy ===== *)
theory PricedList
  imports TxList
begin

text \<open>
  The index of all pooled transactions and the two price heaps that choose what to evict (\<open>lookup\<close> in
  \<open>src/mempool/txpool/legacypool/legacypool.go\<close>, \<open>priceHeap\<close> and \<open>pricedList\<close> in \<open>list.go\<close>).
  The heaps may hold entries that have left the index; they are dropped when they reach the root. The counter of
  such entries only triggers a rebuild.
\<close>

section \<open>The index of transactions\<close>

record pool_env =
  pe_eth :: eth_env
  pe_Size :: "ethTx \<Rightarrow> u64"
  pe_Authorities :: "ethTx \<Rightarrow> address list"
  pe_Sender :: "ethTx \<Rightarrow> address res"

abbreviation pe_Hash :: "pool_env \<Rightarrow> ethTx \<Rightarrow> hash" where
  "pe_Hash E \<equiv> eth_Hash (pe_eth E)"

record lookup =
  lk_slots :: int
  lk_txs :: "(hash, ethTx) kv"
  lk_auths :: "(address, hash list) kv"

definition newLookup :: lookup where
  "newLookup = \<lparr>lk_slots = 0, lk_txs = [], lk_auths = []\<rparr>"

definition txSlotSize :: u64 where
  "txSlotSize = 32 * 1024"

definition numSlots :: "pool_env \<Rightarrow> ethTx \<Rightarrow> int" where
  "numSlots E tx = sint ((pe_Size E tx + txSlotSize - 1) div txSlotSize)"

definition lk_Get :: "hash \<Rightarrow> lookup \<Rightarrow> ethTx option" where
  "lk_Get h t = kv_get (lk_txs t) h"

definition lk_Count :: "lookup \<Rightarrow> nat" where
  "lk_Count t = length (lk_txs t)"

definition lk_Slots :: "lookup \<Rightarrow> int" where
  "lk_Slots t = lk_slots t"

text \<open>A missing entry of a Go map of slices reads as the empty slice.\<close>

definition auth_list :: "(address, hash list) kv \<Rightarrow> address \<Rightarrow> hash list" where
  "auth_list auths a = (case kv_get auths a of None \<Rightarrow> [] | Some l \<Rightarrow> l)"

definition addAuthorities :: "pool_env \<Rightarrow> ethTx \<Rightarrow> (address, hash list) kv \<Rightarrow> (address, hash list) kv" where
  "addAuthorities E tx auths =
     fold (\<lambda>addr auths. let l = auth_list auths addr in
       if pe_Hash E tx \<in> set l then auths else kv_set addr (l @ [pe_Hash E tx]) auths)
     (pe_Authorities E tx) auths"

definition removeAuthorities :: "pool_env \<Rightarrow> ethTx \<Rightarrow> (address, hash list) kv \<Rightarrow> (address, hash list) kv" where
  "removeAuthorities E tx auths =
     fold (\<lambda>addr auths. let l = remove1 (pe_Hash E tx) (auth_list auths addr) in
       if l = [] then kv_delete addr auths else kv_set addr l auths)
     (pe_Authorities E tx) auths"

definition lk_hasAuth :: "address \<Rightarrow> lookup \<Rightarrow> bool" where
  "lk_hasAuth addr t = (auth_list (lk_auths t) addr \<noteq> [])"

definition lk_Add :: "pool_env \<Rightarrow> ethTx \<Rightarrow> lookup \<Rightarrow> lookup" where
  "lk_Add E tx t =
     t\<lparr>lk_slots := lk_slots t + numSlots E tx,
       lk_txs := kv_set (pe_Hash E tx) tx (lk_txs t),
       lk_auths := addAuthorities E tx (lk_auths t)\<rparr>"

definition lk_Remove :: "pool_env \<Rightarrow> hash \<Rightarrow> lookup \<Rightarrow> lookup" where
  "lk_Remove E h t =
     (case kv_get (lk_txs t) h of
        None \<Rightarrow> t
      | Some tx \<Rightarrow>
          t\<lparr>lk_auths := removeAuthorities E tx (lk_auths t),
            lk_slots := lk_slots t - numSlots E tx,
            lk_txs := kv_delete h (lk_txs t)\<rparr>)"

definition lk_Clear :: "lookup \<Rightarrow> lookup" where
  "lk_Clear t = \<lparr>lk_slots = 0, lk_txs = [], lk_auths = []\<rparr>"

text \<open>\<open>Range\<close> walks the map in the order the Go runtime chooses; both callbacks always continue.\<close>

definition lk_Range :: "(hash list \<Rightarrow> hash list) \<Rightarrow> lookup \<Rightarrow> ethTx list" where
  "lk_Range rng t = List.map_filter (kv_get (lk_txs t)) (rng (kv_keys (lk_txs t)))"

definition lk_TxsBelowTip :: "(hash list \<Rightarrow> hash list) \<Rightarrow> int \<Rightarrow> lookup \<Rightarrow> ethTx list" where
  "lk_TxsBelowTip rng threshold t = filter (\<lambda>tx. tx_GasTipCap tx < threshold) (lk_Range rng t)"

section \<open>The invariant of the index\<close>

definition lk_inv :: "pool_env \<Rightarrow> lookup \<Rightarrow> bool" where
  "lk_inv E t \<longleftrightarrow> kv_ok (lk_txs t) \<and> (\<forall>(h, tx) \<in> set (lk_txs t). pe_Hash E tx = h) \<and>
     lk_slots t = (\<Sum>(h, tx) \<leftarrow> lk_txs t. numSlots E tx) \<and>
     (\<forall>a. distinct (auth_list (lk_auths t) a) \<and>
          set (auth_list (lk_auths t) a) = {h. \<exists>tx. kv_get (lk_txs t) h = Some tx \<and> a \<in> set (pe_Authorities E tx)})"

lemma auth_list_set: "auth_list (kv_set a l auths) = (auth_list auths)(a := l)"
  by (auto simp: auth_list_def kv_simps fun_eq_iff)

lemma auth_list_delete: "auth_list (kv_delete a auths) = (auth_list auths)(a := [])"
  by (auto simp: auth_list_def kv_simps fun_eq_iff)

lemma add_auths_fold:
  fixes h :: hash
  defines "step \<equiv> \<lambda>addr auths. let l = auth_list auths addr in
    if h \<in> set l then auths else kv_set addr (l @ [h]) auths"
  shows "auth_list (fold step addrs auths) a =
    (if a \<in> set addrs \<and> h \<notin> set (auth_list auths a) then auth_list auths a @ [h] else auth_list auths a)"
  by (induction addrs arbitrary: auths) (auto simp: step_def Let_def auth_list_set)

lemma addAuthorities_list:
  "auth_list (addAuthorities E tx auths) a =
   (if a \<in> set (pe_Authorities E tx) \<and> pe_Hash E tx \<notin> set (auth_list auths a)
    then auth_list auths a @ [pe_Hash E tx] else auth_list auths a)"
  unfolding addAuthorities_def by (rule add_auths_fold)

lemma remove_auths_fold:
  fixes h :: hash
  defines "step \<equiv> \<lambda>addr auths. let l = remove1 h (auth_list auths addr) in
    if l = [] then kv_delete addr auths else kv_set addr l auths"
  assumes "\<And>a. distinct (auth_list auths a)"
  shows "distinct (auth_list (fold step addrs auths) a) \<and> set (auth_list (fold step addrs auths) a) =
    (if a \<in> set addrs then set (auth_list auths a) - {h} else set (auth_list auths a))"
  using assms(2)
proof (induction addrs arbitrary: auths)
  case (Cons b addrs)
  have s: "auth_list (step b auths) c = (if c = b then remove1 h (auth_list auths b) else auth_list auths c)" for c
    by (simp add: step_def Let_def auth_list_set auth_list_delete)
  have "distinct (auth_list (step b auths) c)" for c using Cons.prems s by simp
  from Cons.IH [OF this] show ?case using s [of a] Cons.prems [of b] by auto
qed simp

lemma removeAuthorities_list:
  assumes "\<And>a. distinct (auth_list auths a)"
  shows "distinct (auth_list (removeAuthorities E tx auths) a)"
    "set (auth_list (removeAuthorities E tx auths) a) =
     (if a \<in> set (pe_Authorities E tx) then set (auth_list auths a) - {pe_Hash E tx} else set (auth_list auths a))"
  using remove_auths_fold [OF assms, where h = "pe_Hash E tx"] unfolding removeAuthorities_def by auto

lemma lk_inv_new [simp]: "lk_inv E newLookup"
  by (simp add: lk_inv_def newLookup_def auth_list_def)

lemma lk_inv_hash: "lk_inv E t \<Longrightarrow> lk_Get h t = Some tx \<Longrightarrow> pe_Hash E tx = h"
  by (auto simp: lk_inv_def lk_Get_def kv_get_in)

lemma sum_list_add_mset:
  fixes f :: "'b \<Rightarrow> int"
  assumes "mset s = add_mset (k, v) (mset s')"
  shows "(\<Sum>(k, v) \<leftarrow> s. f v) = f v + (\<Sum>(k, v) \<leftarrow> s'. f v)"
proof -
  have "(\<Sum>(k, v) \<leftarrow> s. f v) = sum_mset (image_mset (\<lambda>(k, v). f v) (mset s))"
    by (simp flip: sum_mset_sum_list)
  then show ?thesis unfolding assms by (simp flip: sum_mset_sum_list)
qed

lemma lk_Add_inv:
  assumes "lk_inv E t" "lk_Get (pe_Hash E tx) t = None"
  shows "lk_inv E (lk_Add E tx t)" "lk_Get h (lk_Add E tx t) = (if h = pe_Hash E tx then Some tx else lk_Get h t)"
proof -
  let ?h = "pe_Hash E tx"
  have ok: "kv_ok (lk_txs t)" "\<forall>(h, tx) \<in> set (lk_txs t). pe_Hash E tx = h"
    and sl: "lk_slots t = (\<Sum>(h, tx) \<leftarrow> lk_txs t. numSlots E tx)"
    and au: "\<And>a. distinct (auth_list (lk_auths t) a)"
      "\<And>a. set (auth_list (lk_auths t) a) = {h. \<exists>tx. kv_get (lk_txs t) h = Some tx \<and> a \<in> set (pe_Authorities E tx)}"
    using assms(1) by (auto simp: lk_inv_def)
  have new: "kv_get (lk_txs t) ?h = None" using assms(2) by (simp add: lk_Get_def)
  have "mset (kv_set ?h tx (lk_txs t)) = add_mset (?h, tx) (mset (lk_txs t))"
    using kv_set_mset [OF ok(1)] new by (simp add: kv_delete_absent)
  then have "(\<Sum>(h, tx) \<leftarrow> kv_set ?h tx (lk_txs t). numSlots E tx) = numSlots E tx + (\<Sum>(h, tx) \<leftarrow> lk_txs t. numSlots E tx)"
    by (rule sum_list_add_mset)
  moreover have "\<forall>(h, t) \<in> set (kv_set ?h tx (lk_txs t)). pe_Hash E t = h"
    using ok(2) set_kv_set [of ?h tx "lk_txs t"] by fastforce
  moreover have "?h \<notin> set (auth_list (lk_auths t) a)" for a using new au(2) by auto
  ultimately show "lk_inv E (lk_Add E tx t)"
    using ok(1) sl au new by (auto simp: lk_inv_def lk_Add_def addAuthorities_list kv_simps split: if_splits)
  show "lk_Get h (lk_Add E tx t) = (if h = ?h then Some tx else lk_Get h t)"
    by (simp add: lk_Get_def lk_Add_def kv_simps)
qed

lemma lk_Remove_inv:
  assumes "lk_inv E t"
  shows "lk_inv E (lk_Remove E h t)" "lk_Get k (lk_Remove E h t) = (if k = h then None else lk_Get k t)"
proof -
  show "lk_Get k (lk_Remove E h t) = (if k = h then None else lk_Get k t)"
    by (auto simp: lk_Get_def lk_Remove_def kv_simps split: option.splits)
  show "lk_inv E (lk_Remove E h t)"
  proof (cases "kv_get (lk_txs t) h")
    case None
    then show ?thesis using assms by (simp add: lk_Remove_def)
  next
    case (Some tx)
    have ok: "kv_ok (lk_txs t)" "\<forall>(h, tx) \<in> set (lk_txs t). pe_Hash E tx = h"
      and sl: "lk_slots t = (\<Sum>(h, tx) \<leftarrow> lk_txs t. numSlots E tx)"
      and au: "\<And>a. distinct (auth_list (lk_auths t) a)"
        "\<And>a. set (auth_list (lk_auths t) a) = {h. \<exists>tx. kv_get (lk_txs t) h = Some tx \<and> a \<in> set (pe_Authorities E tx)}"
      using assms by (auto simp: lk_inv_def)
    have hh: "pe_Hash E tx = h" using lk_inv_hash [OF assms] Some by (simp add: lk_Get_def)
    have "(\<Sum>(h, tx) \<leftarrow> lk_txs t. numSlots E tx) = numSlots E tx + (\<Sum>(h, tx) \<leftarrow> kv_delete h (lk_txs t). numSlots E tx)"
      by (rule sum_list_add_mset) (rule kv_delete_mset [OF ok(1) Some])
    moreover have "\<forall>(k, t) \<in> set (kv_delete h (lk_txs t)). pe_Hash E t = k"
      using ok(2) by (auto simp: kv_delete_filter)
    moreover have "set (auth_list (removeAuthorities E tx (lk_auths t)) a) =
        {k. \<exists>tx. kv_get (kv_delete h (lk_txs t)) k = Some tx \<and> a \<in> set (pe_Authorities E tx)}" for a
      using removeAuthorities_list(2) [OF au(1), of E tx a] Some hh au(2) by (auto simp: kv_simps)
    ultimately show ?thesis
      using ok(1) sl Some removeAuthorities_list(1) [OF au(1)] by (simp add: lk_inv_def lk_Remove_def)
  qed
qed

lemma lk_hasAuth_iff:
  assumes "lk_inv E t"
  shows "lk_hasAuth a t \<longleftrightarrow> (\<exists>h tx. lk_Get h t = Some tx \<and> a \<in> set (pe_Authorities E tx))"
proof -
  have "set (auth_list (lk_auths t) a) = {h. \<exists>tx. lk_Get h t = Some tx \<and> a \<in> set (pe_Authorities E tx)}"
    using assms by (simp add: lk_inv_def lk_Get_def)
  moreover have "lk_hasAuth a t \<longleftrightarrow> set (auth_list (lk_auths t) a) \<noteq> {}" by (simp add: lk_hasAuth_def)
  ultimately show ?thesis by simp
qed

section \<open>Price heaps\<close>

record priceHeap =
  ph_baseFee :: "int option"
  ph_list :: "ethTx list"

definition big_Cmp :: "int \<Rightarrow> int \<Rightarrow> int" where
  "big_Cmp a b = (if a < b then - 1 else if b < a then 1 else 0)"

definition priceHeap_cmp :: "eth_env \<Rightarrow> int option \<Rightarrow> ethTx \<Rightarrow> ethTx \<Rightarrow> int" where
  "priceHeap_cmp G baseFee a b =
     (let c = (case baseFee of None \<Rightarrow> 0
        | Some _ \<Rightarrow> big_Cmp (eth_EffectiveGasTip G a baseFee) (eth_EffectiveGasTip G b baseFee))
      in if c \<noteq> 0 then c
         else let c = big_Cmp (tx_GasFeeCap a) (tx_GasFeeCap b)
           in if c \<noteq> 0 then c else big_Cmp (tx_GasTipCap a) (tx_GasTipCap b))"

definition priceHeap_Less :: "eth_env \<Rightarrow> int option \<Rightarrow> ethTx \<Rightarrow> ethTx \<Rightarrow> bool" where
  "priceHeap_Less G baseFee a b =
     (let c = priceHeap_cmp G baseFee a b in
      if c = - 1 then True else if c = 1 then False else tx_Nonce b < tx_Nonce a)"

text \<open>The order as one on triples of prices, ties broken by the higher nonce.\<close>

definition price_tip :: "eth_env \<Rightarrow> int option \<Rightarrow> ethTx \<Rightarrow> int" where
  "price_tip G baseFee a = (case baseFee of None \<Rightarrow> 0 | Some _ \<Rightarrow> eth_EffectiveGasTip G a baseFee)"

lemma priceHeap_cmp_sign:
  "priceHeap_cmp G bf a b \<in> {- 1, 0, 1}"
  "priceHeap_cmp G bf a b = - 1 \<longleftrightarrow> price_tip G bf a < price_tip G bf b \<or> price_tip G bf a = price_tip G bf b \<and>
     (tx_GasFeeCap a < tx_GasFeeCap b \<or> tx_GasFeeCap a = tx_GasFeeCap b \<and> tx_GasTipCap a < tx_GasTipCap b)"
  "priceHeap_cmp G bf a b = 0 \<longleftrightarrow>
     price_tip G bf a = price_tip G bf b \<and> tx_GasFeeCap a = tx_GasFeeCap b \<and> tx_GasTipCap a = tx_GasTipCap b"
  by (auto simp: priceHeap_cmp_def price_tip_def big_Cmp_def Let_def split: option.splits)

lemma priceHeap_Less_iff:
  "priceHeap_Less G bf a b \<longleftrightarrow> price_tip G bf a < price_tip G bf b \<or> price_tip G bf a = price_tip G bf b \<and>
     (tx_GasFeeCap a < tx_GasFeeCap b \<or> tx_GasFeeCap a = tx_GasFeeCap b \<and>
      (tx_GasTipCap a < tx_GasTipCap b \<or> tx_GasTipCap a = tx_GasTipCap b \<and> tx_Nonce b < tx_Nonce a))"
  using priceHeap_cmp_sign [of G bf a b] by (auto simp: priceHeap_Less_def Let_def)

interpretation ph: heap_order "priceHeap_Less G bf" for G bf
  by unfold_locales (auto simp: priceHeap_Less_iff)

lemma cmp_trans: "priceHeap_cmp G bf a b \<ge> 0 \<Longrightarrow> priceHeap_cmp G bf b c \<ge> 0 \<Longrightarrow> priceHeap_cmp G bf a c \<ge> 0"
proof -
  have "priceHeap_cmp G bf x y \<ge> 0 \<longleftrightarrow> priceHeap_cmp G bf x y \<noteq> - 1" for x y
    using priceHeap_cmp_sign(1) [of G bf x y] by auto
  then show "priceHeap_cmp G bf a b \<ge> 0 \<Longrightarrow> priceHeap_cmp G bf b c \<ge> 0 \<Longrightarrow> priceHeap_cmp G bf a c \<ge> 0"
    by (auto simp: priceHeap_cmp_sign(2))
qed

lemma not_Less_cmp: "\<not> priceHeap_Less G bf a b \<Longrightarrow> priceHeap_cmp G bf a b \<ge> 0"
  using priceHeap_cmp_sign(1) [of G bf a b] by (auto simp: priceHeap_Less_def Let_def)

definition ph_Push :: "eth_env \<Rightarrow> ethTx \<Rightarrow> priceHeap \<Rightarrow> priceHeap" where
  "ph_Push G tx h = h\<lparr>ph_list := heap_Push (priceHeap_Less G (ph_baseFee h)) tx (ph_list h)\<rparr>"

definition ph_Pop :: "eth_env \<Rightarrow> priceHeap \<Rightarrow> (ethTx \<times> priceHeap) option" where
  "ph_Pop G h =
     (case heap_Pop (priceHeap_Less G (ph_baseFee h)) (ph_list h) of
        None \<Rightarrow> None
      | Some (tx, l) \<Rightarrow> Some (tx, h\<lparr>ph_list := l\<rparr>))"

definition ph_Init :: "eth_env \<Rightarrow> priceHeap \<Rightarrow> priceHeap" where
  "ph_Init G h = h\<lparr>ph_list := heap_Init (priceHeap_Less G (ph_baseFee h)) (ph_list h)\<rparr>"

lemma ph_Pop_length: "ph_Pop G h = Some (tx, h') \<Longrightarrow> length (ph_list h') < length (ph_list h)"
  by (auto simp: ph_Pop_def dest: length_heap_Pop split: option.splits)

section \<open>The priced list\<close>

record pricedList =
  pl_stales :: int
  pl_urgent :: priceHeap
  pl_floating :: priceHeap

definition newPricedList :: pricedList where
  "newPricedList = \<lparr>pl_stales = 0, pl_urgent = \<lparr>ph_baseFee = None, ph_list = []\<rparr>,
     pl_floating = \<lparr>ph_baseFee = None, ph_list = []\<rparr>\<rparr>"

definition urgentRatio :: nat where
  "urgentRatio = 4"

definition floatingRatio :: nat where
  "floatingRatio = 1"

definition pl_Put :: "eth_env \<Rightarrow> ethTx \<Rightarrow> pricedList \<Rightarrow> pricedList" where
  "pl_Put G tx l = l\<lparr>pl_urgent := ph_Push G tx (pl_urgent l)\<rparr>"

text \<open>The loop that fills the floating heap with the worst transactions of the urgent one.\<close>

fun pl_move :: "eth_env \<Rightarrow> nat \<Rightarrow> priceHeap \<Rightarrow> ethTx list \<Rightarrow> priceHeap \<times> ethTx list" where
  "pl_move G 0 urgent floating = (urgent, floating)"
| "pl_move G (Suc n) urgent floating =
     (case ph_Pop G urgent of
        None \<Rightarrow> (urgent, floating)
      | Some (tx, urgent') \<Rightarrow> pl_move G n urgent' (floating @ [tx]))"

definition pl_Reheap :: "(hash list \<Rightarrow> hash list) \<Rightarrow> eth_env \<Rightarrow> lookup \<Rightarrow> pricedList \<Rightarrow> pricedList" where
  "pl_Reheap rng G all l =
     (let urgent = ph_Init G ((pl_urgent l)\<lparr>ph_list := lk_Range rng all\<rparr>);
          floatingCount = length (ph_list urgent) * floatingRatio div (urgentRatio + floatingRatio);
          (urgent', moved) = pl_move G floatingCount urgent []
      in l\<lparr>pl_stales := 0, pl_urgent := urgent', pl_floating := ph_Init G ((pl_floating l)\<lparr>ph_list := moved\<rparr>)\<rparr>)"

definition pl_Removed :: "(hash list \<Rightarrow> hash list) \<Rightarrow> eth_env \<Rightarrow> lookup \<Rightarrow> nat \<Rightarrow> pricedList \<Rightarrow> pricedList" where
  "pl_Removed rng G all n l =
     (let stales = pl_stales l + int n; l' = l\<lparr>pl_stales := stales\<rparr> in
      if stales \<le> int ((length (ph_list (pl_urgent l)) + length (ph_list (pl_floating l))) div 4) then l'
      else pl_Reheap rng G all l')"

function pl_drop_stale :: "eth_env \<Rightarrow> lookup \<Rightarrow> int \<Rightarrow> priceHeap \<Rightarrow> int \<times> priceHeap" where
  "pl_drop_stale G all stales h =
     (if ph_list h = [] then (stales, h)
      else if lk_Get (eth_Hash G (ph_list h ! 0)) all = None then
        case ph_Pop G h of
          None \<Rightarrow> (stales, h)
        | Some (tx, h') \<Rightarrow> pl_drop_stale G all (stales - 1) h'
      else (stales, h))"
  by pat_completeness auto
termination
  by (relation "measure (\<lambda>(G, all, stales, h). length (ph_list h))") (auto dest: ph_Pop_length)

declare pl_drop_stale.simps [simp del]

definition pl_underpricedFor :: "eth_env \<Rightarrow> lookup \<Rightarrow> ethTx \<Rightarrow> int \<Rightarrow> priceHeap \<Rightarrow> int \<times> priceHeap \<times> bool" where
  "pl_underpricedFor G all tx stales h =
     (let (stales', h') = pl_drop_stale G all stales h in
      (stales', h', if ph_list h' = [] then False else priceHeap_cmp G (ph_baseFee h') (ph_list h' ! 0) tx \<ge> 0))"

text \<open>The conjunctions evaluate from the left and stop at the first false one.\<close>

definition pl_Underpriced :: "eth_env \<Rightarrow> lookup \<Rightarrow> ethTx \<Rightarrow> pricedList \<Rightarrow> pricedList \<times> bool" where
  "pl_Underpriced G all tx l =
     (let (s1, urgent, u) = pl_underpricedFor G all tx (pl_stales l) (pl_urgent l);
          l1 = l\<lparr>pl_stales := s1, pl_urgent := urgent\<rparr>
      in if \<not> (u \<or> ph_list urgent = []) then (l1, False)
         else
           let (s2, floating, f) = pl_underpricedFor G all tx s1 (pl_floating l1);
               l2 = l1\<lparr>pl_stales := s2, pl_floating := floating\<rparr>
           in (l2, (f \<or> ph_list floating = []) \<and> (ph_list urgent \<noteq> [] \<or> ph_list floating \<noteq> [])))"

function pl_discard_loop :: "pool_env \<Rightarrow> lookup \<Rightarrow> int \<Rightarrow> pricedList \<Rightarrow> ethTx list \<Rightarrow> pricedList \<times> int \<times> ethTx list" where
  "pl_discard_loop E all need l dropped =
     (if \<not> 0 < need then (l, need, dropped)
      else if length (ph_list (pl_floating l)) * urgentRatio < length (ph_list (pl_urgent l)) * floatingRatio then
        case ph_Pop (pe_eth E) (pl_urgent l) of
          None \<Rightarrow> (l, need, dropped)
        | Some (tx, urgent) \<Rightarrow>
            if lk_Get (pe_Hash E tx) all = None then
              pl_discard_loop E all need (l\<lparr>pl_urgent := urgent, pl_stales := pl_stales l - 1\<rparr>) dropped
            else
              pl_discard_loop E all need
                (l\<lparr>pl_urgent := urgent, pl_floating := ph_Push (pe_eth E) tx (pl_floating l)\<rparr>) dropped
      else if ph_list (pl_floating l) = [] then (l, need, dropped)
      else
        case ph_Pop (pe_eth E) (pl_floating l) of
          None \<Rightarrow> (l, need, dropped)
        | Some (tx, floating) \<Rightarrow>
            if lk_Get (pe_Hash E tx) all = None then
              pl_discard_loop E all need (l\<lparr>pl_floating := floating, pl_stales := pl_stales l - 1\<rparr>) dropped
            else
              pl_discard_loop E all (need - numSlots E tx) (l\<lparr>pl_floating := floating\<rparr>) (dropped @ [tx]))"
  by pat_completeness auto
termination
proof (relation "measure (\<lambda>(E, all, need, l, dropped). 2 * length (ph_list (pl_urgent l)) + length (ph_list (pl_floating l)))", goal_cases)
  case (3 E all need l dropped tx urgent y)
  have "length (ph_list (ph_Push (pe_eth E) x f)) = Suc (length (ph_list f))" for x f
    using ph.Push_mset [of "pe_eth E" "ph_baseFee f" x "ph_list f"] by (metis (no_types, lifting) ph_Push_def priceHeap.select_convs(2) priceHeap.surjective priceHeap.update_convs(2) size_add_mset size_mset)
  with 3 ph_Pop_length show ?case by fastforce
qed (auto dest: ph_Pop_length)

declare pl_discard_loop.simps [simp del]

definition pl_Discard :: "pool_env \<Rightarrow> lookup \<Rightarrow> int \<Rightarrow> pricedList \<Rightarrow> pricedList \<times> ethTx list \<times> bool" where
  "pl_Discard E all need l =
     (let (l', need', dropped) = pl_discard_loop E all need l [] in
      if 0 < need' then (fold (pl_Put (pe_eth E)) dropped l', [], False) else (l', dropped, True))"

definition pl_SetBaseFee :: "(hash list \<Rightarrow> hash list) \<Rightarrow> eth_env \<Rightarrow> lookup \<Rightarrow> int \<Rightarrow> pricedList \<Rightarrow> pricedList" where
  "pl_SetBaseFee rng G all baseFee l =
     pl_Reheap rng G all (l\<lparr>pl_urgent := (pl_urgent l)\<lparr>ph_baseFee := Some baseFee\<rparr>\<rparr>)"

section \<open>What the heaps hold\<close>

definition ph_ok :: "eth_env \<Rightarrow> priceHeap \<Rightarrow> bool" where
  "ph_ok G h = ph.is_heap G (ph_baseFee h) (ph_list h)"

definition pl_ok :: "eth_env \<Rightarrow> pricedList \<Rightarrow> bool" where
  "pl_ok G l = (ph_ok G (pl_urgent l) \<and> ph_ok G (pl_floating l))"

definition pooled :: "eth_env \<Rightarrow> lookup \<Rightarrow> ethTx \<Rightarrow> bool" where
  "pooled G all tx = (lk_Get (eth_Hash G tx) all \<noteq> None)"

definition ph_live :: "eth_env \<Rightarrow> lookup \<Rightarrow> priceHeap \<Rightarrow> ethTx multiset" where
  "ph_live G all h = filter_mset (pooled G all) (mset (ph_list h))"

definition pl_live :: "eth_env \<Rightarrow> lookup \<Rightarrow> pricedList \<Rightarrow> ethTx multiset" where
  "pl_live G all l = ph_live G all (pl_urgent l) + ph_live G all (pl_floating l)"

lemma ph_Push_ok:
  "ph_ok G h \<Longrightarrow> ph_ok G (ph_Push G tx h)" "mset (ph_list (ph_Push G tx h)) = add_mset tx (mset (ph_list h))"
  "ph_baseFee (ph_Push G tx h) = ph_baseFee h"
  using ph.Push_heap ph.Push_mset by (simp_all add: ph_ok_def ph_Push_def)

lemma ph_Init_ok:
  "ph_ok G (ph_Init G h)" "mset (ph_list (ph_Init G h)) = mset (ph_list h)" "ph_baseFee (ph_Init G h) = ph_baseFee h"
  using ph.Init_heap ph.Init_mset by (simp_all add: ph_ok_def ph_Init_def)

lemma ph_Pop_ok:
  assumes "ph_ok G h" "ph_list h \<noteq> []"
  obtains h' where "ph_Pop G h = Some (ph_list h ! 0, h')" "ph_ok G h'" "ph_baseFee h' = ph_baseFee h"
    "mset (ph_list h) = add_mset (ph_list h ! 0) (mset (ph_list h'))"
proof -
  from ph.Pop_ok [OF assms(1) [unfolded ph_ok_def] assms(2)] obtain l where
    "heap_Pop (priceHeap_Less G (ph_baseFee h)) (ph_list h) = Some (ph_list h ! 0, l)"
    "ph.is_heap G (ph_baseFee h) l" "mset (ph_list h) = add_mset (ph_list h ! 0) (mset l)" .
  then show thesis using that [of "h\<lparr>ph_list := l\<rparr>"] by (simp add: ph_Pop_def ph_ok_def)
qed

lemma ph_root_least: "ph_ok G h \<Longrightarrow> y \<in> set (ph_list h) \<Longrightarrow> \<not> priceHeap_Less G (ph_baseFee h) y (ph_list h ! 0)"
  unfolding ph_ok_def by (rule ph.root_least_set)

lemma pl_Put_ok: "pl_ok G l \<Longrightarrow> pl_ok G (pl_Put G tx l)"
  by (simp add: pl_ok_def pl_Put_def ph_Push_ok)

lemma pl_Put_live: "pl_live G all (pl_Put G tx l) = (if pooled G all tx then {#tx#} else {#}) + pl_live G all l"
  by (simp add: pl_live_def ph_live_def pl_Put_def ph_Push_ok)

lemma drop_stale_ok:
  "ph_ok G h \<Longrightarrow> pl_drop_stale G all s h = (s', h') \<Longrightarrow>
   ph_ok G h' \<and> ph_live G all h' = ph_live G all h \<and> ph_baseFee h' = ph_baseFee h \<and>
   (ph_list h' = [] \<or> pooled G all (ph_list h' ! 0))"
proof (induction G all s h rule: pl_drop_stale.induct)
  case (1 G all s h)
  show ?case
  proof (cases "ph_list h = [] \<or> pooled G all (ph_list h ! 0)")
    case True
    then show ?thesis using "1.prems" by (auto simp: pl_drop_stale.simps [of G all s h] pooled_def split: if_splits)
  next
    case False
    then have ne: "ph_list h \<noteq> []" and st: "lk_Get (eth_Hash G (ph_list h ! 0)) all = None" by (auto simp: pooled_def)
    from ph_Pop_ok [OF "1.prems"(1) ne] obtain h1 where h1: "ph_Pop G h = Some (ph_list h ! 0, h1)" "ph_ok G h1"
      "ph_baseFee h1 = ph_baseFee h" "mset (ph_list h) = add_mset (ph_list h ! 0) (mset (ph_list h1))" .
    have "pl_drop_stale G all (s - 1) h1 = (s', h')"
      using "1.prems"(2) ne st h1(1) by (simp add: pl_drop_stale.simps [of G all s h])
    from "1.IH" [OF ne st h1(1) refl h1(2) this] show ?thesis
      using h1(3,4) False by (simp add: ph_live_def)
  qed
qed

text \<open>A transaction is underpriced for a heap if every live entry costs as much or more.\<close>

lemma underpricedFor_ok:
  assumes "ph_ok G h" "pl_underpricedFor G all tx s h = (s', h', b)"
  shows "ph_ok G h'" "ph_live G all h' = ph_live G all h" "ph_baseFee h' = ph_baseFee h"
    "ph_list h' = [] \<longleftrightarrow> ph_live G all h = {#}"
    "b \<or> ph_list h' = [] \<longleftrightarrow> (\<forall>x \<in># ph_live G all h. 0 \<le> priceHeap_cmp G (ph_baseFee h) x tx)"
proof -
  have d: "pl_drop_stale G all s h = (s', h')"
    and b: "b \<longleftrightarrow> ph_list h' \<noteq> [] \<and> 0 \<le> priceHeap_cmp G (ph_baseFee h') (ph_list h' ! 0) tx"
    using assms(2) by (auto simp: pl_underpricedFor_def split: prod.splits if_splits)
  note ok = drop_stale_ok [OF assms(1) d]
  then show "ph_ok G h'" "ph_live G all h' = ph_live G all h" "ph_baseFee h' = ph_baseFee h" by auto
  have "ph_list h' \<noteq> [] \<Longrightarrow> pooled G all (ph_list h' ! 0)" using ok by blast
  then have root: "ph_list h' \<noteq> [] \<Longrightarrow> ph_list h' ! 0 \<in># ph_live G all h'" by (simp add: ph_live_def)
  then show "ph_list h' = [] \<longleftrightarrow> ph_live G all h = {#}"
    using ok by (metis empty_iff filter_empty_mset mset.simps(1) ph_live_def set_mset_empty)
  have all_live: "0 \<le> priceHeap_cmp G (ph_baseFee h) x tx"
    if "x \<in># ph_live G all h'" "0 \<le> priceHeap_cmp G (ph_baseFee h') (ph_list h' ! 0) tx" for x
  proof -
    have "x \<in> set (ph_list h')" using that(1) by (simp add: ph_live_def)
    then have "0 \<le> priceHeap_cmp G (ph_baseFee h') x (ph_list h' ! 0)"
      using not_Less_cmp ph_root_least ok by blast
    then show ?thesis using cmp_trans that(2) ok by metis
  qed
  have lv: "ph_live G all h = ph_live G all h'" "ph_baseFee h' = ph_baseFee h" using ok by auto
  show "b \<or> ph_list h' = [] \<longleftrightarrow> (\<forall>x \<in># ph_live G all h. 0 \<le> priceHeap_cmp G (ph_baseFee h) x tx)"
    unfolding lv(1)
  proof (cases "ph_list h' = []")
    case True
    then have "ph_live G all h' = {#}" by (simp add: ph_live_def)
    with True show "b \<or> ph_list h' = [] \<longleftrightarrow> (\<forall>x \<in># ph_live G all h'. 0 \<le> priceHeap_cmp G (ph_baseFee h) x tx)"
      by simp
  next
    case False
    with b root lv(2) all_live show
      "b \<or> ph_list h' = [] \<longleftrightarrow> (\<forall>x \<in># ph_live G all h'. 0 \<le> priceHeap_cmp G (ph_baseFee h) x tx)" by auto
  qed
qed

lemma Underpriced_ok:
  assumes "pl_ok G l" "pl_Underpriced G all tx l = (l', b)"
  shows "pl_ok G l'" "pl_live G all l' = pl_live G all l"
    "b \<longleftrightarrow> pl_live G all l \<noteq> {#} \<and>
       (\<forall>x \<in># ph_live G all (pl_urgent l). 0 \<le> priceHeap_cmp G (ph_baseFee (pl_urgent l)) x tx) \<and>
       (\<forall>x \<in># ph_live G all (pl_floating l). 0 \<le> priceHeap_cmp G (ph_baseFee (pl_floating l)) x tx)"
proof -
  obtain s1 u bu where u: "pl_underpricedFor G all tx (pl_stales l) (pl_urgent l) = (s1, u, bu)"
    by (cases "pl_underpricedFor G all tx (pl_stales l) (pl_urgent l)")
  obtain s2 f bf where f: "pl_underpricedFor G all tx s1 (pl_floating l) = (s2, f, bf)"
    by (cases "pl_underpricedFor G all tx s1 (pl_floating l)")
  have ok: "ph_ok G (pl_urgent l)" "ph_ok G (pl_floating l)" using assms(1) by (auto simp: pl_ok_def)
  note U = underpricedFor_ok [OF ok(1) u] and F = underpricedFor_ok [OF ok(2) f]
  show "pl_ok G l'" "pl_live G all l' = pl_live G all l"
    using assms(2) u f U(1,2) F(1,2) ok
    by (auto simp: pl_Underpriced_def Let_def pl_ok_def pl_live_def split: if_splits)
  have "b \<longleftrightarrow> (bu \<or> ph_list u = []) \<and> (bf \<or> ph_list f = []) \<and> (ph_list u \<noteq> [] \<or> ph_list f \<noteq> [])"
    using assms(2) u f by (auto simp: pl_Underpriced_def Let_def split: if_splits)
  then show "b \<longleftrightarrow> pl_live G all l \<noteq> {#} \<and>
       (\<forall>x \<in># ph_live G all (pl_urgent l). 0 \<le> priceHeap_cmp G (ph_baseFee (pl_urgent l)) x tx) \<and>
       (\<forall>x \<in># ph_live G all (pl_floating l). 0 \<le> priceHeap_cmp G (ph_baseFee (pl_floating l)) x tx)"
    unfolding U(5) F(5) by (auto simp: U(4) F(4) pl_live_def)
qed

section \<open>Rebuilding and discarding\<close>

lemma move_ok:
  "ph_ok G u \<Longrightarrow> n \<le> length (ph_list u) \<Longrightarrow> \<exists>u' moved. pl_move G n u fl = (u', fl @ moved) \<and> length moved = n \<and>
   ph_ok G u' \<and> ph_baseFee u' = ph_baseFee u \<and> mset (ph_list u) = mset (ph_list u') + mset moved \<and>
   (\<forall>x \<in> set moved. \<forall>y \<in> set (ph_list u'). \<not> priceHeap_Less G (ph_baseFee u) y x)"
proof (induction n arbitrary: u fl)
  case (Suc n)
  then have "ph_list u \<noteq> []" by auto
  from ph_Pop_ok [OF Suc.prems(1) this] obtain u1 where u1: "ph_Pop G u = Some (ph_list u ! 0, u1)" "ph_ok G u1"
    "ph_baseFee u1 = ph_baseFee u" "mset (ph_list u) = add_mset (ph_list u ! 0) (mset (ph_list u1))" .
  have "length (ph_list u) = Suc (length (ph_list u1))" using u1(4) by (metis size_add_mset size_mset)
  with Suc.prems have "n \<le> length (ph_list u1)" by simp
  from Suc.IH [OF u1(2) this, of "fl @ [ph_list u ! 0]"] obtain u' moved where m:
    "pl_move G n u1 (fl @ [ph_list u ! 0]) = (u', (fl @ [ph_list u ! 0]) @ moved)" "length moved = n" "ph_ok G u'"
    "ph_baseFee u' = ph_baseFee u1" "mset (ph_list u1) = mset (ph_list u') + mset moved"
    "\<forall>x \<in> set moved. \<forall>y \<in> set (ph_list u'). \<not> priceHeap_Less G (ph_baseFee u1) y x" by blast
  have "set (ph_list u') \<subseteq> set (ph_list u)"
    using u1(4) m(5) by (metis in_multiset_in_set set_mset_mset subsetI union_iff insert_iff set_mset_add_mset_insert)
  then have "\<forall>y \<in> set (ph_list u'). \<not> priceHeap_Less G (ph_baseFee u) y (ph_list u ! 0)"
    using ph_root_least [OF Suc.prems(1)] by blast
  then show ?case
    using u1 m by (intro exI [of _ u'] exI [of _ "ph_list u ! 0 # moved"]) auto
qed simp

lemma mset_lk_Range:
  "lk_inv E t \<Longrightarrow> (\<And>ks. mset (rng ks) = mset ks) \<Longrightarrow> mset (lk_Range rng t) = mset (map snd (lk_txs t))"
  unfolding lk_Range_def lk_inv_def using range_txs [of "lk_txs t" rng] by blast

lemma live_listed: "lk_inv E t \<Longrightarrow> \<forall>tx \<in> set (map snd (lk_txs t)). pooled (pe_eth E) t tx"
  unfolding pooled_def lk_inv_def lk_Get_def using kv_get_in [of "lk_txs t"] by fastforce

lemma Reheap_ok:
  fixes l :: pricedList
  assumes "lk_inv E t" "\<And>ks. mset (rng ks) = mset ks"
  defines "l' \<equiv> pl_Reheap rng (pe_eth E) t l"
  shows "pl_ok (pe_eth E) l'" "pl_stales l' = 0"
    "mset (ph_list (pl_urgent l')) + mset (ph_list (pl_floating l')) = mset (map snd (lk_txs t))"
    "length (ph_list (pl_floating l')) = lk_Count t div 5"
    "\<forall>x \<in> set (ph_list (pl_floating l')). \<forall>y \<in> set (ph_list (pl_urgent l')).
       \<not> priceHeap_Less (pe_eth E) (ph_baseFee (pl_urgent l)) y x"
    "ph_baseFee (pl_urgent l') = ph_baseFee (pl_urgent l)" "ph_baseFee (pl_floating l') = ph_baseFee (pl_floating l)"
proof -
  let ?G = "pe_eth E"
  define u where "u = ph_Init ?G ((pl_urgent l)\<lparr>ph_list := lk_Range rng t\<rparr>)"
  have u: "ph_ok ?G u" "mset (ph_list u) = mset (map snd (lk_txs t))" "ph_baseFee u = ph_baseFee (pl_urgent l)"
    using ph_Init_ok mset_lk_Range [OF assms(1,2)] by (simp_all add: u_def)
  have len: "length (ph_list u) = lk_Count t" using u(2) by (metis length_map lk_Count_def size_mset)
  let ?n = "length (ph_list u) * floatingRatio div (urgentRatio + floatingRatio)"
  have "?n \<le> length (ph_list u)" by (simp add: floatingRatio_def)
  from move_ok [OF u(1) this, of "[]"] obtain u' moved where m: "pl_move ?G ?n u [] = (u', moved)" "length moved = ?n"
    "ph_ok ?G u'" "ph_baseFee u' = ph_baseFee u" "mset (ph_list u) = mset (ph_list u') + mset moved"
    "\<forall>x \<in> set moved. \<forall>y \<in> set (ph_list u'). \<not> priceHeap_Less ?G (ph_baseFee u) y x" by auto
  define f where "f = ph_Init ?G ((pl_floating l)\<lparr>ph_list := moved\<rparr>)"
  have f: "ph_ok ?G f" "mset (ph_list f) = mset moved" "ph_baseFee f = ph_baseFee (pl_floating l)"
    using ph_Init_ok by (simp_all add: f_def)
  then have fs: "set (ph_list f) = set moved" "length (ph_list f) = length moved"
    by (metis set_mset_mset, metis size_mset)
  have l': "l' = l\<lparr>pl_stales := 0, pl_urgent := u', pl_floating := f\<rparr>"
    unfolding l'_def pl_Reheap_def Let_def u_def [symmetric] m(1) by (simp add: f_def)
  show "pl_ok ?G l'" "pl_stales l' = 0" "ph_baseFee (pl_urgent l') = ph_baseFee (pl_urgent l)"
    "ph_baseFee (pl_floating l') = ph_baseFee (pl_floating l)"
    using m(3,4) f(1,3) u(3) by (simp_all add: l' pl_ok_def)
  show "mset (ph_list (pl_urgent l')) + mset (ph_list (pl_floating l')) = mset (map snd (lk_txs t))"
    using m(5) f(2) u(2) by (simp add: l')
  show "length (ph_list (pl_floating l')) = lk_Count t div 5"
    using fs(2) m(2) len by (simp add: l' urgentRatio_def floatingRatio_def)
  show "\<forall>x \<in> set (ph_list (pl_floating l')). \<forall>y \<in> set (ph_list (pl_urgent l')).
       \<not> priceHeap_Less ?G (ph_baseFee (pl_urgent l)) y x"
    using m(6) fs(1) u(3) by (simp add: l')
qed

definition slot_sum :: "pool_env \<Rightarrow> ethTx list \<Rightarrow> int" where
  "slot_sum E txs = (\<Sum>tx \<leftarrow> txs. numSlots E tx)"

lemma discard_loop_ok:
  "pl_ok (pe_eth E) l \<Longrightarrow> pl_discard_loop E all need l dropped = (l', need', dropped') \<Longrightarrow>
   \<exists>new. dropped' = dropped @ new \<and> need' = need - slot_sum E new \<and> pl_ok (pe_eth E) l' \<and>
     pl_live (pe_eth E) all l = pl_live (pe_eth E) all l' + mset new \<and> (\<forall>tx \<in> set new. pooled (pe_eth E) all tx) \<and>
     (0 < need' \<longrightarrow> ph_list (pl_urgent l') = [] \<and> ph_list (pl_floating l') = [])"
proof (induction E all need l dropped rule: pl_discard_loop.induct)
  case (1 E all need l dropped)
  let ?G = "pe_eth E"
  have ok: "ph_ok ?G (pl_urgent l)" "ph_ok ?G (pl_floating l)" using "1.prems"(1) by (auto simp: pl_ok_def)
  note eq = pl_discard_loop.simps [of E all need l dropped]
  consider "\<not> 0 < need"
    | "0 < need" "length (ph_list (pl_floating l)) * urgentRatio < length (ph_list (pl_urgent l)) * floatingRatio"
    | "0 < need" "\<not> length (ph_list (pl_floating l)) * urgentRatio < length (ph_list (pl_urgent l)) * floatingRatio"
      "ph_list (pl_floating l) = []"
    | "0 < need" "\<not> length (ph_list (pl_floating l)) * urgentRatio < length (ph_list (pl_urgent l)) * floatingRatio"
      "ph_list (pl_floating l) \<noteq> []" by blast
  then show ?case
  proof cases
    case 1
    then show ?thesis using "1.prems" by (auto simp: eq slot_sum_def)
  next
    case c: 2
    then have "ph_list (pl_urgent l) \<noteq> []" by auto
    from ph_Pop_ok [OF ok(1) this] obtain u where u: "ph_Pop ?G (pl_urgent l) = Some (ph_list (pl_urgent l) ! 0, u)"
      "ph_ok ?G u" "mset (ph_list (pl_urgent l)) = add_mset (ph_list (pl_urgent l) ! 0) (mset (ph_list u))" by blast
    let ?tx = "ph_list (pl_urgent l) ! 0"
    show ?thesis
    proof (cases "lk_Get (pe_Hash E ?tx) all")
      case None
      let ?l = "l\<lparr>pl_urgent := u, pl_stales := pl_stales l - 1\<rparr>"
      have okl: "pl_ok ?G ?l" using ok u(2) by (simp add: pl_ok_def)
      have step: "pl_discard_loop E all need ?l dropped = (l', need', dropped')"
        using "1.prems"(2) c u(1) None by (simp add: eq)
      have "pl_live ?G all ?l = pl_live ?G all l"
        using u(3) None by (simp add: pl_live_def ph_live_def pooled_def)
      with "1.IH"(1) [OF _ c(2) u(1) refl None okl step] c(1) show ?thesis by simp
    next
      case (Some t)
      let ?l = "l\<lparr>pl_urgent := u, pl_floating := ph_Push ?G ?tx (pl_floating l)\<rparr>"
      have okl: "pl_ok ?G ?l" using ok u(2) by (simp add: pl_ok_def ph_Push_ok)
      have step: "pl_discard_loop E all need ?l dropped = (l', need', dropped')"
        using "1.prems"(2) c u(1) Some by (simp add: eq)
      have "pl_live ?G all ?l = pl_live ?G all l"
        using u(3) Some by (simp add: pl_live_def ph_live_def pooled_def ph_Push_ok)
      with "1.IH"(2) [OF _ c(2) u(1) refl _ okl step] c(1) Some show ?thesis by simp
    qed
  next
    case c: 3
    then show ?thesis
      using "1.prems" by (auto simp: eq slot_sum_def floatingRatio_def)
  next
    case c: 4
    from ph_Pop_ok [OF ok(2) c(3)] obtain f where f: "ph_Pop ?G (pl_floating l) = Some (ph_list (pl_floating l) ! 0, f)"
      "ph_ok ?G f" "mset (ph_list (pl_floating l)) = add_mset (ph_list (pl_floating l) ! 0) (mset (ph_list f))" by blast
    let ?tx = "ph_list (pl_floating l) ! 0"
    show ?thesis
    proof (cases "lk_Get (pe_Hash E ?tx) all")
      case None
      let ?l = "l\<lparr>pl_floating := f, pl_stales := pl_stales l - 1\<rparr>"
      have okl: "pl_ok ?G ?l" using ok f(2) by (simp add: pl_ok_def)
      have step: "pl_discard_loop E all need ?l dropped = (l', need', dropped')"
        using "1.prems"(2) c f(1) None by (simp add: eq)
      have "pl_live ?G all ?l = pl_live ?G all l"
        using f(3) None by (simp add: pl_live_def ph_live_def pooled_def)
      with "1.IH"(3) [OF _ c(2,3) f(1) refl None okl step] c(1) show ?thesis by simp
    next
      case (Some t)
      let ?l = "l\<lparr>pl_floating := f\<rparr>"
      have okl: "pl_ok ?G ?l" using ok f(2) by (simp add: pl_ok_def)
      have step: "pl_discard_loop E all (need - numSlots E ?tx) ?l (dropped @ [?tx]) = (l', need', dropped')"
        using "1.prems"(2) c f(1) Some by (simp add: eq)
      have lv: "pl_live ?G all l = add_mset ?tx (pl_live ?G all ?l)" "pooled ?G all ?tx"
        using f(3) Some by (simp_all add: pl_live_def ph_live_def pooled_def)
      from "1.IH"(4) [OF _ c(2,3) f(1) refl _ okl step] c(1) Some obtain new where n:
        "dropped' = (dropped @ [?tx]) @ new" "need' = need - numSlots E ?tx - slot_sum E new" "pl_ok ?G l'"
        "pl_live ?G all ?l = pl_live ?G all l' + mset new" "\<forall>tx \<in> set new. pooled ?G all tx"
        "0 < need' \<longrightarrow> ph_list (pl_urgent l') = [] \<and> ph_list (pl_floating l') = []" by auto
      then show ?thesis
        using lv by (intro exI [of _ "?tx # new"]) (auto simp: slot_sum_def)
    qed
  qed
qed

lemma fold_Put_ok:
  "pl_ok G l \<Longrightarrow> pl_ok G (fold (pl_Put G) txs l) \<and>
   pl_live G all (fold (pl_Put G) txs l) = filter_mset (pooled G all) (mset txs) + pl_live G all l"
  by (induction txs arbitrary: l) (auto simp: pl_Put_ok pl_Put_live)

text \<open>
  \<open>Discard\<close> either frees at least the slots asked for, and the live entries are those kept and those dropped,
  or it fails and keeps every live entry.
\<close>

lemma Discard_ok:
  assumes "pl_ok (pe_eth E) l" "pl_Discard E all need l = (l', dropped, ok)"
  shows "pl_ok (pe_eth E) l'" "pl_live (pe_eth E) all l = pl_live (pe_eth E) all l' + mset dropped"
    "\<forall>tx \<in> set dropped. pooled (pe_eth E) all tx" "ok \<Longrightarrow> need \<le> slot_sum E dropped"
    "\<not> ok \<Longrightarrow> dropped = [] \<and> (\<Sum>tx \<in># pl_live (pe_eth E) all l. numSlots E tx) < need"
proof (atomize (full), goal_cases)
  case 1
  let ?G = "pe_eth E"
  obtain l1 need' new where d: "pl_discard_loop E all need l [] = (l1, need', new)"
    by (cases "pl_discard_loop E all need l []")
  from discard_loop_ok [OF assms(1) d] have n: "need' = need - slot_sum E new" "pl_ok ?G l1"
    "pl_live ?G all l = pl_live ?G all l1 + mset new" "\<forall>tx \<in> set new. pooled ?G all tx"
    "0 < need' \<Longrightarrow> ph_list (pl_urgent l1) = [] \<and> ph_list (pl_floating l1) = []" by auto
  show ?case
  proof (cases "0 < need'")
    case True
    then have r: "l' = fold (pl_Put ?G) new l1" "dropped = []" "\<not> ok"
      using assms(2) d by (auto simp: pl_Discard_def)
    have "pl_live ?G all l1 = {#}" using n(5) True by (simp add: pl_live_def ph_live_def)
    then have lv: "pl_live ?G all l = mset new" using n(3) by simp
    moreover have "filter_mset (pooled ?G all) (mset new) = mset new" using n(4) by (simp add: filter_mset_eq_conv)
    ultimately show ?thesis
      using r n(1,2) True fold_Put_ok [OF n(2), of new all] \<open>pl_live ?G all l1 = {#}\<close>
      by (simp add: slot_sum_def sum_mset_sum_list flip: mset_map)
  next
    case False
    then have "l' = l1" "dropped = new" "ok" using assms(2) d by (auto simp: pl_Discard_def)
    then show ?thesis using n False by simp
  qed
qed

end
