(* ===== verification/TxOrder.thy ===== *)
theory TxOrder
  imports TxList
begin

text \<open>
  The order in which a block is filled: \<open>TransactionsByPriceAndNonce\<close> (\<open>src/mempool/miner/ordering.go\<close>), a
  heap with the next transaction of every account, and \<open>EVMMempoolIterator\<close> (\<open>src/mempool/iterator.go\<close>), which
  merges it with the iterator of the Cosmos pool. That iterator is the SDK's: a pair of functions. The order in
  which Go walks the map of accounts is the parameter \<open>rng\<close>.
\<close>

section \<open>Transactions by price and nonce\<close>

record LazyTransaction =
  lz_Hash :: hash
  lz_Tx :: ethTx
  lz_Time :: int
  lz_GasFeeCap :: u256
  lz_GasTipCap :: u256
  lz_Gas :: u64

record txWithMinerFee =
  mf_tx :: LazyTransaction
  mf_from :: address
  mf_fees :: u256

definition newTxWithMinerFee :: "LazyTransaction \<Rightarrow> address \<Rightarrow> u256 option \<Rightarrow> txWithMinerFee res" where
  "newTxWithMinerFee tx from baseFee =
     (case baseFee of
        None \<Rightarrow> Inr \<lparr>mf_tx = tx, mf_from = from, mf_fees = lz_GasTipCap tx\<rparr>
      | Some b \<Rightarrow>
          if lz_GasFeeCap tx < b then Inl (Err ''fee cap less than base fee'')
          else
            let tip = lz_GasFeeCap tx - b;
                tip' = (if lz_GasTipCap tx < tip then lz_GasTipCap tx else tip)
            in Inr \<lparr>mf_tx = tx, mf_from = from, mf_fees = tip'\<rparr>)"

definition txByPriceAndTime_Less :: "txWithMinerFee \<Rightarrow> txWithMinerFee \<Rightarrow> bool" where
  "txByPriceAndTime_Less a b =
     (if mf_fees a = mf_fees b then lz_Time (mf_tx a) < lz_Time (mf_tx b) else mf_fees b < mf_fees a)"

interpretation pt: heap_order txByPriceAndTime_Less
  by unfold_locales (auto simp: txByPriceAndTime_Less_def split: if_splits)

record TransactionsByPriceAndNonce =
  tp_txs :: "(address, LazyTransaction list) kv"
  tp_heads :: "txWithMinerFee list"
  tp_baseFee :: "u256 option"

text \<open>The loop of the constructor over the accounts in the order of the runtime.\<close>

fun tp_new_loop :: "u256 option \<Rightarrow> address list \<Rightarrow> (address, LazyTransaction list) kv \<Rightarrow> txWithMinerFee list \<Rightarrow>
    ((address, LazyTransaction list) kv \<times> txWithMinerFee list) res" where
  "tp_new_loop baseFee [] txs heads = Inr (txs, heads)"
| "tp_new_loop baseFee (from # froms) txs heads =
     (case kv_get txs from of
        None \<Rightarrow> tp_new_loop baseFee froms txs heads
      | Some [] \<Rightarrow> Inl (Panic ''index out of range'')
      | Some (tx # rest) \<Rightarrow>
          (case newTxWithMinerFee tx from baseFee of
             Inl e \<Rightarrow> tp_new_loop baseFee froms (kv_delete from txs) heads
           | Inr wrapped \<Rightarrow> tp_new_loop baseFee froms (kv_set from rest txs) (heads @ [wrapped])))"

definition NewTransactionsByPriceAndNonce ::
  "(address list \<Rightarrow> address list) \<Rightarrow> (address, LazyTransaction list) kv \<Rightarrow> int option \<Rightarrow> TransactionsByPriceAndNonce res" where
  "NewTransactionsByPriceAndNonce rng txs baseFee =
     (if (case baseFee of None \<Rightarrow> False | Some b \<Rightarrow> snd (uint256_FromBig b)) then Inl (Panic ''overflow'')
      else
        let baseFeeUint = map_option (\<lambda>b. fst (uint256_FromBig b)) baseFee in
        rbind (tp_new_loop baseFeeUint (rng (kv_keys txs)) txs []) (\<lambda>(txs', heads).
        Inr \<lparr>tp_txs = txs', tp_heads = heap_Init txByPriceAndTime_Less heads, tp_baseFee = baseFeeUint\<rparr>))"

definition tp_Peek :: "TransactionsByPriceAndNonce \<Rightarrow> (LazyTransaction \<times> u256) option" where
  "tp_Peek t = (case tp_heads t of [] \<Rightarrow> None | h # hs \<Rightarrow> Some (mf_tx h, mf_fees h))"

definition tp_Pop :: "TransactionsByPriceAndNonce \<Rightarrow> TransactionsByPriceAndNonce res" where
  "tp_Pop t =
     (case heap_Pop txByPriceAndTime_Less (tp_heads t) of
        None \<Rightarrow> Inl (Panic ''index out of range'')
      | Some (x, hs) \<Rightarrow> Inr (t\<lparr>tp_heads := hs\<rparr>))"

definition tp_Shift :: "TransactionsByPriceAndNonce \<Rightarrow> TransactionsByPriceAndNonce res" where
  "tp_Shift t =
     (case tp_heads t of
        [] \<Rightarrow> Inl (Panic ''index out of range'')
      | h # hs \<Rightarrow>
          (case kv_get (tp_txs t) (mf_from h) of
             Some (tx # rest) \<Rightarrow>
               (case newTxWithMinerFee tx (mf_from h) (tp_baseFee t) of
                  Inr wrapped \<Rightarrow>
                    Inr (t\<lparr>tp_heads := heap_Fix txByPriceAndTime_Less 0 ((tp_heads t)[0 := wrapped]),
                           tp_txs := kv_set (mf_from h) rest (tp_txs t)\<rparr>)
                | Inl e \<Rightarrow> tp_Pop t)
           | _ \<Rightarrow> tp_Pop t))"

definition tp_Empty :: "TransactionsByPriceAndNonce \<Rightarrow> bool" where
  "tp_Empty t = (tp_heads t = [])"

definition tp_Clear :: "TransactionsByPriceAndNonce \<Rightarrow> TransactionsByPriceAndNonce" where
  "tp_Clear t = t\<lparr>tp_heads := [], tp_txs := []\<rparr>"

section \<open>What the order yields\<close>

text \<open>The transactions of an account that the order can reach: up to the first below the base fee.\<close>

definition payable :: "u256 option \<Rightarrow> LazyTransaction \<Rightarrow> bool" where
  "payable baseFee tx = (case baseFee of None \<Rightarrow> True | Some b \<Rightarrow> b \<le> lz_GasFeeCap tx)"

definition miner_fee :: "u256 option \<Rightarrow> LazyTransaction \<Rightarrow> u256" where
  "miner_fee baseFee tx =
     (case baseFee of None \<Rightarrow> lz_GasTipCap tx | Some b \<Rightarrow> min (lz_GasTipCap tx) (lz_GasFeeCap tx - b))"

lemma newTxWithMinerFee_eq:
  "newTxWithMinerFee tx from baseFee =
   (if payable baseFee tx then Inr \<lparr>mf_tx = tx, mf_from = from, mf_fees = miner_fee baseFee tx\<rparr>
    else Inl (Err ''fee cap less than base fee''))"
  by (auto simp: newTxWithMinerFee_def payable_def miner_fee_def Let_def min_def not_le split: option.splits)

text \<open>What is still to come from an account: its head and the payable transactions behind it.\<close>

definition acc_txs :: "TransactionsByPriceAndNonce \<Rightarrow> address \<Rightarrow> LazyTransaction list" where
  "acc_txs t a = (case kv_get (tp_txs t) a of None \<Rightarrow> [] | Some l \<Rightarrow> takeWhile (payable (tp_baseFee t)) l)"

definition remaining :: "TransactionsByPriceAndNonce \<Rightarrow> address \<Rightarrow> LazyTransaction list" where
  "remaining t a =
     (case filter (\<lambda>h. mf_from h = a) (tp_heads t) of [] \<Rightarrow> [] | h # hs \<Rightarrow> mf_tx h # acc_txs t a)"

definition tp_inv :: "TransactionsByPriceAndNonce \<Rightarrow> bool" where
  "tp_inv t \<longleftrightarrow> pt.is_heap (tp_heads t) \<and> distinct (map mf_from (tp_heads t)) \<and>
     (\<forall>h \<in> set (tp_heads t). mf_fees h = miner_fee (tp_baseFee t) (mf_tx h))"

text \<open>The number of transactions left, the bound on the number of rounds.\<close>

definition tp_size :: "TransactionsByPriceAndNonce \<Rightarrow> nat" where
  "tp_size t = (\<Sum>h \<leftarrow> tp_heads t. Suc (length (acc_txs t (mf_from h))))"

text \<open>Draining the order by \<open>Peek\<close> and \<open>Shift\<close>, with the account of each transaction.\<close>

fun tp_drain :: "nat \<Rightarrow> TransactionsByPriceAndNonce \<Rightarrow> (address \<times> LazyTransaction) list res" where
  "tp_drain 0 t = Inr []"
| "tp_drain (Suc n) t =
     (case tp_heads t of
        [] \<Rightarrow> Inr []
      | h # hs \<Rightarrow> rbind (tp_Shift t) (\<lambda>t'. rbind (tp_drain n t') (\<lambda>out. Inr ((mf_from h, mf_tx h) # out))))"

lemma heads_set_mset: "mset xs = mset ys \<Longrightarrow> distinct (map f xs) = distinct (map f ys)"
  by (metis mset_eq_imp_distinct_iff mset_map)

lemma filter_from: "distinct (map mf_from hs) \<Longrightarrow> h \<in> set hs \<Longrightarrow> filter (\<lambda>x. mf_from x = mf_from h) hs = [h]"
  by (induction hs) (auto simp: filter_empty_conv image_iff)

lemma remaining_head:
  "distinct (map mf_from (tp_heads t)) \<Longrightarrow> h \<in> set (tp_heads t) \<Longrightarrow>
   remaining t (mf_from h) = mf_tx h # acc_txs t (mf_from h)"
  by (simp add: remaining_def filter_from)

lemma remaining_none: "a \<notin> mf_from ` set (tp_heads t) \<Longrightarrow> remaining t a = []"
proof -
  assume "a \<notin> mf_from ` set (tp_heads t)"
  then have "filter (\<lambda>h. mf_from h = a) (tp_heads t) = []" by (auto simp: filter_empty_conv)
  then show ?thesis by (simp add: remaining_def)
qed

text \<open>What remains of an account depends on the set of heads, not on their places in the heap.\<close>

lemma remaining_cong:
  assumes "distinct (map mf_from (tp_heads t))" "distinct (map mf_from (tp_heads t'))" "acc_txs t' a = acc_txs t a"
    "{h \<in> set (tp_heads t'). mf_from h = a} = {h \<in> set (tp_heads t). mf_from h = a}"
  shows "remaining t' a = remaining t a"
proof (cases "a \<in> mf_from ` set (tp_heads t)")
  case True
  then obtain h where h: "h \<in> set (tp_heads t)" "mf_from h = a" by blast
  then have "h \<in> set (tp_heads t')" using assms(4) by blast
  then show ?thesis
    using remaining_head [OF assms(1) h(1)] remaining_head [OF assms(2)] h(2) assms(3) by metis
next
  case False
  then have "a \<notin> mf_from ` set (tp_heads t')" using assms(4) by blast
  then show ?thesis using False by (simp add: remaining_none)
qed

lemma sum_list_mset_eq:
  fixes f :: "'a \<Rightarrow> nat"
  shows "mset xs = mset ys \<Longrightarrow> sum_list (map f xs) = sum_list (map f ys)"
  by (simp only: sum_mset_sum_list [symmetric] mset_map)

lemma Shift_next:
  assumes "tp_inv t" "tp_heads t = h # hs" "kv_get (tp_txs t) (mf_from h) = Some (tx # rest)"
    "payable (tp_baseFee t) tx"
  obtains t' where "tp_Shift t = Inr t'" "tp_inv t'" "tp_baseFee t' = tp_baseFee t"
    "\<And>a. remaining t' a = (if a = mf_from h then acc_txs t a else remaining t a)" "Suc (tp_size t') = tp_size t"
proof -
  let ?b = "tp_baseFee t"
  define w where "w = \<lparr>mf_tx = tx, mf_from = mf_from h, mf_fees = miner_fee ?b tx\<rparr>"
  define heads where "heads = heap_Fix txByPriceAndTime_Less 0 ((tp_heads t)[0 := w])"
  define t' where "t' = t\<lparr>tp_heads := heads, tp_txs := kv_set (mf_from h) rest (tp_txs t)\<rparr>"
  have inv: "pt.is_heap (h # hs)" "distinct (map mf_from (h # hs))"
    "\<forall>x \<in> set (h # hs). mf_fees x = miner_fee ?b (mf_tx x)" using assms(1,2) by (simp_all add: tp_inv_def)
  have heads: "pt.is_heap heads" "mset heads = mset (w # hs)"
    using pt.Fix_ok [OF inv(1), of 0 w] by (simp_all add: heads_def assms(2))
  have fw: "mf_from w = mf_from h" by (simp add: w_def)
  have set: "set heads = set (w # hs)" using mset_eq_setD [OF heads(2)] .
  have dist: "distinct (map mf_from heads)"
    using heads_set_mset [OF heads(2), of mf_from] inv(2) fw by simp
  have t'_sel: "tp_baseFee t' = ?b" "tp_txs t' = kv_set (mf_from h) rest (tp_txs t)" "tp_heads t' = heads"
    by (simp_all add: t'_def)
  have acc: "acc_txs t' a = (if a = mf_from h then takeWhile (payable ?b) rest else acc_txs t a)" for a
    unfolding acc_txs_def t'_sel by (simp add: kv_simps)
  have acch: "acc_txs t (mf_from h) = tx # takeWhile (payable ?b) rest"
    using assms(3,4) by (simp add: acc_txs_def)
  have eq: "tp_Shift t = Inr t'"
    using assms(2-4) by (simp add: tp_Shift_def newTxWithMinerFee_eq t'_def heads_def w_def)
  have inv': "tp_inv t'" using heads(1) dist set inv(3) by (auto simp: tp_inv_def t'_def w_def)
  have rem: "remaining t' a = (if a = mf_from h then acc_txs t a else remaining t a)" for a
  proof (cases "a = mf_from h")
    case True
    have "w \<in> set (tp_heads t')" using set by (simp add: t'_def)
    from remaining_head [OF _ this] dist show ?thesis using True fw acc acch by (simp add: t'_def w_def)
  next
    case False
    have "remaining t' a = remaining t a"
      by (rule remaining_cong) (use False inv(2) dist set acc fw assms(2) in \<open>auto simp: t'_def\<close>)
    then show ?thesis using False by simp
  qed
  have ne: "x \<in> set hs \<Longrightarrow> mf_from x \<noteq> mf_from h" for x
    using inv(2) by (metis distinct.simps(2) image_eqI list.set_map list.simps(9))
  have "tp_size t' = (\<Sum>x \<leftarrow> w # hs. Suc (length (acc_txs t' (mf_from x))))"
    unfolding tp_size_def t'_sel using heads(2) by (rule sum_list_mset_eq)
  also have "\<dots> = Suc (length (acc_txs t' (mf_from h))) + (\<Sum>x \<leftarrow> hs. Suc (length (acc_txs t' (mf_from x))))"
    by (simp add: fw)
  also have "(\<Sum>x \<leftarrow> hs. Suc (length (acc_txs t' (mf_from x)))) = (\<Sum>x \<leftarrow> hs. Suc (length (acc_txs t (mf_from x))))"
    by (intro arg_cong [where f = sum_list] map_cong) (simp_all add: acc ne)
  finally have "Suc (tp_size t') = tp_size t" using acc acch assms(2) by (simp add: tp_size_def)
  then show thesis using that [OF eq inv'] rem by (simp add: t'_def)
qed

lemma Shift_last:
  assumes "tp_inv t" "tp_heads t = h # hs" "acc_txs t (mf_from h) = []"
  obtains t' where "tp_Shift t = Inr t'" "tp_inv t'" "tp_baseFee t' = tp_baseFee t"
    "\<And>a. remaining t' a = (if a = mf_from h then [] else remaining t a)" "Suc (tp_size t') = tp_size t"
proof -
  have inv: "pt.is_heap (tp_heads t)" "distinct (map mf_from (h # hs))" "tp_heads t \<noteq> []"
    "\<forall>x \<in> set (h # hs). mf_fees x = miner_fee (tp_baseFee t) (mf_tx x)" using assms(1,2) by (simp_all add: tp_inv_def)
  obtain heads where p: "heap_Pop txByPriceAndTime_Less (tp_heads t) = Some (tp_heads t ! 0, heads)"
    "pt.is_heap heads" "mset (tp_heads t) = add_mset (tp_heads t ! 0) (mset heads)" by (rule pt.Pop_ok [OF inv(1,3)])
  have pop: "heap_Pop txByPriceAndTime_Less (tp_heads t) = Some (h, heads)"
    "pt.is_heap heads" "mset heads = mset hs" using p assms(2) by simp_all
  define t' where "t' = t\<lparr>tp_heads := heads\<rparr>"
  have set: "set heads = set hs" using mset_eq_setD [OF pop(3)] .
  have dist: "distinct (map mf_from heads)" using heads_set_mset [OF pop(3), of mf_from] inv(2) by simp
  have t'_sel: "tp_baseFee t' = tp_baseFee t" "tp_txs t' = tp_txs t" by (simp_all add: t'_def)
  have acc: "acc_txs t' = acc_txs t" unfolding acc_txs_def t'_sel ..
  have "tp_Pop t = Inr t'" using pop(1) by (simp add: tp_Pop_def t'_def)
  moreover have "\<not> payable (tp_baseFee t) tx" if "kv_get (tp_txs t) (mf_from h) = Some (tx # rest)" for tx rest
    using assms(3) that by (auto simp: acc_txs_def split: if_splits)
  ultimately have eq: "tp_Shift t = Inr t'"
    using assms(2) by (auto simp: tp_Shift_def newTxWithMinerFee_eq split: option.splits list.splits)
  have inv': "tp_inv t'" using pop(2) dist set inv(4) by (auto simp: tp_inv_def t'_def)
  have rem: "remaining t' a = (if a = mf_from h then [] else remaining t a)" for a
  proof (cases "a = mf_from h")
    case True
    then have "a \<notin> mf_from ` set (tp_heads t')" using set inv(2) by (auto simp: t'_def)
    then show ?thesis using True by (simp add: remaining_none)
  next
    case False
    have "remaining t' a = remaining t a"
      by (rule remaining_cong) (use False inv(2) dist set acc assms(2) in \<open>auto simp: t'_def\<close>)
    then show ?thesis using False by simp
  qed
  have "tp_size t' = (\<Sum>x \<leftarrow> hs. Suc (length (acc_txs t (mf_from x))))"
    unfolding tp_size_def acc using sum_list_mset_eq [OF pop(3)] by (simp add: t'_def)
  then have "Suc (tp_size t') = tp_size t"
    using assms(2,3) by (simp add: tp_size_def)
  then show thesis using that [OF eq inv'] rem by (simp add: t'_def)
qed

lemma Shift_ok:
  assumes "tp_inv t" "tp_heads t = h # hs"
  obtains t' where "tp_Shift t = Inr t'" "tp_inv t'" "tp_baseFee t' = tp_baseFee t"
    "\<And>a. remaining t' a = (if a = mf_from h then acc_txs t a else remaining t a)" "Suc (tp_size t') = tp_size t"
proof (cases "acc_txs t (mf_from h)")
  case Nil
  show thesis by (rule Shift_last [OF assms Nil]) (use that Nil in auto)
next
  case (Cons tx txs)
  then obtain l where l: "kv_get (tp_txs t) (mf_from h) = Some l" "takeWhile (payable (tp_baseFee t)) l = tx # txs"
    by (auto simp: acc_txs_def split: option.splits)
  then obtain rest where "l = tx # rest" "payable (tp_baseFee t) tx" by (cases l) (auto split: if_splits)
  with l have "kv_get (tp_txs t) (mf_from h) = Some (tx # rest)" "payable (tp_baseFee t) tx" by auto
  from Shift_next [OF assms this] that show thesis by metis
qed

lemma drain_ok:
  "tp_inv t \<Longrightarrow> tp_size t \<le> n \<Longrightarrow>
   \<exists>out. tp_drain n t = Inr out \<and> (\<forall>a. map snd (filter (\<lambda>x. fst x = a) out) = remaining t a)"
proof (induction n arbitrary: t)
  case 0
  then have "tp_heads t = []" by (cases "tp_heads t") (auto simp: tp_size_def)
  then show ?case by (simp add: remaining_none)
next
  case (Suc n)
  show ?case
  proof (cases "tp_heads t")
    case Nil
    then show ?thesis by (simp add: remaining_none)
  next
    case (Cons h hs)
    from Shift_ok [OF Suc.prems(1) Cons] obtain t' where t': "tp_Shift t = Inr t'" "tp_inv t'"
      "\<And>a. remaining t' a = (if a = mf_from h then acc_txs t a else remaining t a)" "Suc (tp_size t') = tp_size t" by blast
    from Suc.IH [OF t'(2)] t'(4) Suc.prems(2) obtain out where
      out: "tp_drain n t' = Inr out" "\<forall>a. map snd (filter (\<lambda>x. fst x = a) out) = remaining t' a" by auto
    have "remaining t (mf_from h) = mf_tx h # acc_txs t (mf_from h)"
      using Suc.prems(1) Cons by (intro remaining_head) (auto simp: tp_inv_def)
    then show ?thesis using Cons t' out by auto
  qed
qed

lemma Peek_best:
  assumes "tp_inv t" "tp_Peek t = Some (tx, fee)" "h \<in> set (tp_heads t)"
  shows "mf_fees h \<le> fee"
proof -
  obtain x xs where x: "tp_heads t = x # xs" "fee = mf_fees x" using assms(2) by (auto simp: tp_Peek_def split: list.splits)
  have "\<not> txByPriceAndTime_Less h x" using pt.root_least_set [of "tp_heads t" h] assms x by (simp add: tp_inv_def)
  then show ?thesis using x(2) by (auto simp: txByPriceAndTime_Less_def split: if_splits)
qed

subsection \<open>The constructor\<close>

definition first_head :: "u256 option \<Rightarrow> (address, LazyTransaction list) kv \<Rightarrow> address \<Rightarrow> txWithMinerFee option" where
  "first_head b txs a =
     (case kv_get txs a of
        Some (tx # rest) \<Rightarrow>
          if payable b tx then Some \<lparr>mf_tx = tx, mf_from = a, mf_fees = miner_fee b tx\<rparr> else None
      | _ \<Rightarrow> None)"

lemma new_loop_ok:
  "distinct froms \<Longrightarrow> \<forall>a \<in> set froms. \<exists>tx rest. kv_get txs a = Some (tx # rest) \<Longrightarrow>
   \<exists>txs'. tp_new_loop b froms txs heads = Inr (txs', heads @ List.map_filter (first_head b txs) froms) \<and>
     (\<forall>a. kv_get txs' a = (if a \<in> set froms then if first_head b txs a = None then None else map_option tl (kv_get txs a)
        else kv_get txs a))"
proof (induction froms arbitrary: txs heads)
  case (Cons f froms)
  from Cons.prems obtain tx rest where f: "kv_get txs f = Some (tx # rest)" by auto
  define txs1 where "txs1 = (if payable b tx then kv_set f rest txs else kv_delete f txs)"
  define heads1 where "heads1 = heads @ (case first_head b txs f of None \<Rightarrow> [] | Some h \<Rightarrow> [h])"
  have step: "tp_new_loop b (f # froms) txs heads = tp_new_loop b froms txs1 heads1"
    using f by (simp add: newTxWithMinerFee_eq txs1_def heads1_def first_head_def)
  have same: "kv_get txs1 a = kv_get txs a" if "a \<noteq> f" for a
    using that by (simp add: txs1_def kv_simps)
  have notin: "f \<notin> set froms" using Cons.prems(1) by simp
  have heads_same: "first_head b txs1 a = first_head b txs a" if "a \<noteq> f" for a
    using same [OF that] by (simp add: first_head_def)
  have "\<forall>a \<in> set froms. \<exists>tx rest. kv_get txs1 a = Some (tx # rest)"
    using Cons.prems(2) same notin by (metis list.set_intros(2))
  from Cons.IH [OF _ this, of heads1] Cons.prems(1) obtain txs' where t:
    "tp_new_loop b froms txs1 heads1 = Inr (txs', heads1 @ List.map_filter (first_head b txs1) froms)"
    "\<forall>a. kv_get txs' a = (if a \<in> set froms then if first_head b txs1 a = None then None else map_option tl (kv_get txs1 a)
       else kv_get txs1 a)" by auto
  have "List.map_filter (first_head b txs1) froms = List.map_filter (first_head b txs) froms"
    by (rule map_filter_cong) (use notin heads_same in metis)
  moreover have "kv_get txs' a = (if a \<in> set (f # froms) then if first_head b txs a = None then None
      else map_option tl (kv_get txs a) else kv_get txs a)" for a
    using t(2) same [of a] heads_same [of a] notin f
    by (cases "a = f") (auto simp: txs1_def kv_simps first_head_def)
  ultimately show ?case
    using step t(1) by (auto simp: heads1_def split: option.splits)
qed simp

lemma first_head_from: "first_head b txs a = Some h \<Longrightarrow> mf_from h = a \<and> mf_fees h = miner_fee b (mf_tx h)"
  by (auto simp: first_head_def split: option.splits list.splits if_splits)

lemma set_map_filter: "set (List.map_filter g xs) = {y. \<exists>x \<in> set xs. g x = Some y}"
  by (induction xs) (auto split: option.splits)

lemma distinct_first_heads:
  "distinct froms \<Longrightarrow> distinct (map mf_from (List.map_filter (first_head b txs) froms))"
proof (induction froms)
  case (Cons f froms)
  then show ?case
    using first_head_from [of b txs] by (fastforce simp: set_map_filter split: option.splits)
qed simp

lemma New_ok:
  assumes "kv_ok txs" "\<forall>l \<in> snd ` set txs. l \<noteq> []" "\<And>ks. mset (rng ks) = mset ks"
    "case baseFee of None \<Rightarrow> True | Some b \<Rightarrow> \<not> very_high b"
  obtains t where "NewTransactionsByPriceAndNonce rng txs baseFee = Inr t" "tp_inv t"
    "tp_baseFee t = map_option word_of_int baseFee"
    "\<And>a. remaining t a =
       takeWhile (payable (tp_baseFee t)) (case kv_get txs a of None \<Rightarrow> [] | Some l \<Rightarrow> l)"
proof -
  define b :: "u256 option" where "b = map_option word_of_int baseFee"
  define froms where "froms = rng (kv_keys txs)"
  have froms: "distinct froms" "set froms = fst ` set txs"
    using assms(1,3) distinct_kv_keys mset_eq_imp_distinct_iff mset_eq_setD unfolding froms_def
    by (metis, metis kv_keys_def list.set_map)
  have ex: "\<forall>a \<in> set froms. \<exists>tx rest. kv_get txs a = Some (tx # rest)"
  proof
    fix a
    assume "a \<in> set froms"
    then obtain l where l: "(a, l) \<in> set txs" using froms(2) by auto
    then have "kv_get txs a = Some l" "l \<noteq> []" using kv_get_in [OF assms(1)] assms(2) by force+
    then show "\<exists>tx rest. kv_get txs a = Some (tx # rest)" by (cases l) auto
  qed
  from new_loop_ok [OF froms(1) ex, of b "[]"] obtain txs' where l:
    "tp_new_loop b froms txs [] = Inr (txs', List.map_filter (first_head b txs) froms)"
    "\<And>a. kv_get txs' a = (if a \<in> set froms then if first_head b txs a = None then None else map_option tl (kv_get txs a)
       else kv_get txs a)" by auto
  define heads where "heads = heap_Init txByPriceAndTime_Less (List.map_filter (first_head b txs) froms)"
  define t where "t = \<lparr>tp_txs = txs', tp_heads = heads, tp_baseFee = b\<rparr>"
  have h: "pt.is_heap heads" "mset heads = mset (List.map_filter (first_head b txs) froms)"
    using pt.Init_heap pt.Init_mset by (auto simp: heads_def)
  have dist: "distinct (map mf_from heads)"
    using heads_set_mset [OF h(2), of mf_from] distinct_first_heads [OF froms(1)] by blast
  have set: "set heads = {h. \<exists>a \<in> set froms. first_head b txs a = Some h}"
    using mset_eq_setD [OF h(2)] by (simp add: set_map_filter)
  have inv: "tp_inv t"
    using h(1) dist set first_head_from by (auto simp: tp_inv_def t_def)
  have new: "NewTransactionsByPriceAndNonce rng txs baseFee = Inr t"
    using assms(4) l(1) unfolding froms_def
    by (cases baseFee) (auto simp: NewTransactionsByPriceAndNonce_def uint256_FromBig_def t_def heads_def b_def froms_def Let_def)
  have "remaining t a = takeWhile (payable b) (case kv_get txs a of None \<Rightarrow> [] | Some l \<Rightarrow> l)" for a
  proof (cases "first_head b txs a")
    case None
    then have "a \<notin> mf_from ` set (tp_heads t)" using set first_head_from by (fastforce simp: t_def)
    then have "remaining t a = []" by (rule remaining_none)
    moreover have "takeWhile (payable b) (case kv_get txs a of None \<Rightarrow> [] | Some l \<Rightarrow> l) = []"
      using None by (auto simp: first_head_def split: option.splits list.splits if_splits)
    ultimately show ?thesis by simp
  next
    case (Some hd)
    then obtain tx rest where r: "kv_get txs a = Some (tx # rest)" "payable b tx" "mf_tx hd = tx" "mf_from hd = a"
      by (auto simp: first_head_def split: option.splits list.splits if_splits)
    then have "(a, tx # rest) \<in> set txs" using kv_get_in [OF assms(1)] by blast
    then have "a \<in> set froms" using froms(2) by force
    then have "hd \<in> set (tp_heads t)" using set Some by (auto simp: t_def)
    from remaining_head [OF _ this] dist r have "remaining t a = tx # acc_txs t a" by (simp add: t_def)
    moreover have "acc_txs t a = takeWhile (payable b) rest"
      using l(2) [of a] Some \<open>a \<in> set froms\<close> r(1) by (simp add: acc_txs_def t_def)
    ultimately show ?thesis using r by simp
  qed
  then show thesis using that [OF new inv] by (simp add: t_def b_def)
qed

section \<open>Wrapping a transaction\<close>

text \<open>
  \<open>ie_Build\<close> is the transaction builder of the SDK: it gets the message, the fee and the gas limit. A
  fee of more than 256 bits panics in \<open>NewIntFromBigInt\<close>. \<open>ie_Sender\<close> recovers the signer, \<open>ie_FeeTx\<close> reads fee and
  gas of a transaction that has them, \<open>ie_baseFee\<close> is the base fee of the latest header.
\<close>

record ('c, 'x) iter_env =
  ie_Tx :: "'c \<Rightarrow> 'x option"
  ie_Next :: "'c \<Rightarrow> 'c option"
  ie_FeeTx :: "'x \<Rightarrow> (coins \<times> u64) option"
  ie_Sender :: "ethTx \<Rightarrow> address res"
  ie_Build :: "MsgEthereumTx \<Rightarrow> coins \<Rightarrow> u64 \<Rightarrow> 'x res"
  ie_Sort :: "coins \<Rightarrow> coins"
  ie_bondDenom :: denom
  ie_extendedDenom :: denom
  ie_baseFee :: "int option"

definition FromSignedEthereumTx :: "(ethTx \<Rightarrow> address res) \<Rightarrow> ethTx \<Rightarrow> MsgEthereumTx res" where
  "FromSignedEthereumTx sender tx =
     rbind (sender tx) (\<lambda>a. Inr \<lparr>me_From = address_Bytes a, me_Raw = Some tx\<rparr>)"

definition ConvertCoinsDenomToExtendedDenomWithEvmParams :: "(coins \<Rightarrow> coins) \<Rightarrow> denom \<Rightarrow> denom \<Rightarrow> coins \<Rightarrow> coins" where
  "ConvertCoinsDenomToExtendedDenomWithEvmParams Sort evmDenom ext cs =
     Sort (map (\<lambda>(d, a). if d = evmDenom then (ext, a) else (d, a)) cs)"

definition BuildTxWithEvmParams :: "('c, 'x) iter_env \<Rightarrow> denom \<Rightarrow> denom \<Rightarrow> MsgEthereumTx \<Rightarrow> 'x res" where
  "BuildTxWithEvmParams I evmDenom ext msg =
     (case me_Raw msg of
        None \<Rightarrow> Inl (Panic ''nil pointer dereference'')
      | Some tx \<Rightarrow>
          if very_high (GetFee tx) then Inl (Panic ''NewIntFromBigInt() out of bound'')
          else
            let fees = (if 0 < GetFee tx
                then ConvertCoinsDenomToExtendedDenomWithEvmParams (ie_Sort I) evmDenom ext [(evmDenom, GetFee tx)] else [])
            in ie_Build I \<lparr>me_From = me_From msg, me_Raw = me_Raw msg\<rparr> fees (tx_Gas tx))"

definition BuildTx :: "('c, 'x) iter_env \<Rightarrow> denom \<Rightarrow> MsgEthereumTx \<Rightarrow> 'x res" where
  "BuildTx I evmDenom msg = BuildTxWithEvmParams I evmDenom (ie_extendedDenom I) msg"

text \<open>An error gives nil, a panic goes through.\<close>

definition nil_on_error :: "'a res \<Rightarrow> 'a option res" where
  "nil_on_error r = (case r of Inr x \<Rightarrow> Inr (Some x) | Inl (Panic p) \<Rightarrow> Inl (Panic p) | Inl e \<Rightarrow> Inr None)"

definition convertEVMToSDKTx :: "('c, 'x) iter_env \<Rightarrow> LazyTransaction \<Rightarrow> 'x option res" where
  "convertEVMToSDKTx I nextEVMTx =
     nil_on_error (rbind (FromSignedEthereumTx (ie_Sender I) (lz_Tx nextEVMTx)) (BuildTx I (ie_bondDenom I)))"

section \<open>The unified iterator\<close>

record 'c EVMMempoolIterator =
  it_evm :: "TransactionsByPriceAndNonce option"
  it_cosmos :: "'c option"

definition getNextEVMTx :: "'c EVMMempoolIterator \<Rightarrow> (LazyTransaction \<times> u256) option" where
  "getNextEVMTx i = (case it_evm i of None \<Rightarrow> None | Some t \<Rightarrow> tp_Peek t)"

definition getCurrentBaseFee :: "('c, 'x) iter_env \<Rightarrow> u256 option" where
  "getCurrentBaseFee I =
     (case ie_baseFee I of
        None \<Rightarrow> None
      | Some b \<Rightarrow> (let (u, overflow) = uint256_FromBig b in if overflow then None else Some u))"

definition extractCosmosEffectiveTip :: "('c, 'x) iter_env \<Rightarrow> 'x \<Rightarrow> u256 option res" where
  "extractCosmosEffectiveTip I tx =
     (case ie_FeeTx I tx of
        None \<Rightarrow> Inr None
      | Some (fees, gas) \<Rightarrow>
          let amount = foldl (\<lambda>acc (d, a). if d = ie_bondDenom I then a else acc) 0 fees in
          if gas = 0 then Inl (Panic ''division by zero'')
          else
            let (gasPrice, overflow) = uint256_FromBig (quo amount (uint gas)) in
            if overflow then Inr None
            else
              (case getCurrentBaseFee I of
                 None \<Rightarrow> Inr (Some gasPrice)
               | Some baseFee \<Rightarrow> if gasPrice < baseFee then Inr (Some 0) else Inr (Some (gasPrice - baseFee))))"

definition getNextCosmosTx :: "('c, 'x) iter_env \<Rightarrow> 'c EVMMempoolIterator \<Rightarrow> ('x \<times> u256) option res" where
  "getNextCosmosTx I i =
     (case it_cosmos i of
        None \<Rightarrow> Inr None
      | Some c \<Rightarrow>
          (case ie_Tx I c of
             None \<Rightarrow> Inr None
           | Some tx \<Rightarrow>
               rbind (extractCosmosEffectiveTip I tx) (\<lambda>tip. Inr (Some (tx, case tip of None \<Rightarrow> 0 | Some t \<Rightarrow> t)))))"

definition shouldUseEVM :: "('c, 'x) iter_env \<Rightarrow> 'c EVMMempoolIterator \<Rightarrow> bool res" where
  "shouldUseEVM I i =
     rbind (getNextCosmosTx I i) (\<lambda>c.
     case getNextEVMTx i of
       None \<Rightarrow> Inr False
     | Some (tx, evmFee) \<Rightarrow>
         (case c of
            None \<Rightarrow> Inr True
          | Some (ctx, cosmosFee) \<Rightarrow> if cosmosFee = 0 then Inr True else Inr (\<not> evmFee < cosmosFee)))"

definition getPreferredTransaction ::
  "('c, 'x) iter_env \<Rightarrow> 'c EVMMempoolIterator \<Rightarrow> LazyTransaction option \<Rightarrow> 'x option \<Rightarrow> 'x option res" where
  "getPreferredTransaction I i nextEVMTx nextCosmosTx =
     (if nextEVMTx = None \<and> nextCosmosTx = None then Inr None
      else
        rbind (shouldUseEVM I i) (\<lambda>useEVM.
        if useEVM then
          (case nextEVMTx of
             None \<Rightarrow> Inr nextCosmosTx
           | Some tx \<Rightarrow>
               rbind (convertEVMToSDKTx I tx) (\<lambda>evmTx.
               case evmTx of None \<Rightarrow> Inr nextCosmosTx | Some x \<Rightarrow> Inr (Some x)))
        else Inr nextCosmosTx))"

definition it_Tx :: "('c, 'x) iter_env \<Rightarrow> 'c EVMMempoolIterator \<Rightarrow> 'x option res" where
  "it_Tx I i =
     rbind (getNextCosmosTx I i) (\<lambda>c.
     getPreferredTransaction I i (map_option fst (getNextEVMTx i)) (map_option fst c))"

definition advanceCurrentIterator :: "('c, 'x) iter_env \<Rightarrow> 'c EVMMempoolIterator \<Rightarrow> 'c EVMMempoolIterator res" where
  "advanceCurrentIterator I i =
     rbind (shouldUseEVM I i) (\<lambda>useEVM.
     if useEVM then
       (case it_evm i of None \<Rightarrow> Inr i | Some t \<Rightarrow> rbind (tp_Shift t) (\<lambda>t'. Inr (i\<lparr>it_evm := Some t'\<rparr>)))
     else
       (case it_cosmos i of None \<Rightarrow> Inr i | Some c \<Rightarrow> Inr (i\<lparr>it_cosmos := ie_Next I c\<rparr>)))"

definition hasMoreTransactions :: "('c, 'x) iter_env \<Rightarrow> 'c EVMMempoolIterator \<Rightarrow> bool res" where
  "hasMoreTransactions I i = rbind (getNextCosmosTx I i) (\<lambda>c. Inr (getNextEVMTx i \<noteq> None \<or> c \<noteq> None))"

definition it_Next :: "('c, 'x) iter_env \<Rightarrow> 'c EVMMempoolIterator \<Rightarrow> 'c EVMMempoolIterator option res" where
  "it_Next I i =
     rbind (getNextCosmosTx I i) (\<lambda>c.
     if getNextEVMTx i = None \<and> c = None then Inr None
     else
       rbind (advanceCurrentIterator I i) (\<lambda>i'.
       rbind (hasMoreTransactions I i') (\<lambda>more. Inr (if more then Some i' else None))))"

definition NewEVMMempoolIterator ::
  "('c, 'x) iter_env \<Rightarrow> TransactionsByPriceAndNonce option \<Rightarrow> 'c option \<Rightarrow> 'c EVMMempoolIterator option" where
  "NewEVMMempoolIterator I evm cosmos =
     (let hasEVM = (case evm of None \<Rightarrow> False | Some t \<Rightarrow> \<not> tp_Empty t);
          hasCosmos = (case cosmos of None \<Rightarrow> False | Some c \<Rightarrow> ie_Tx I c \<noteq> None)
      in if \<not> hasEVM \<and> \<not> hasCosmos then None else Some \<lparr>it_evm = evm, it_cosmos = cosmos\<rparr>)"

text \<open>The loop of \<open>SelectBy\<close> with a callback that never stops it.\<close>

fun SelectBy_loop :: "nat \<Rightarrow> ('c, 'x) iter_env \<Rightarrow> 'c EVMMempoolIterator option \<Rightarrow> 'x option list res" where
  "SelectBy_loop n I None = Inr []"
| "SelectBy_loop 0 I (Some i) = Inr []"
| "SelectBy_loop (Suc n) I (Some i) =
     rbind (it_Tx I i) (\<lambda>x. rbind (it_Next I i) (\<lambda>i'. rbind (SelectBy_loop n I i') (\<lambda>xs. Inr (x # xs))))"

section \<open>The iterator merges the two orders\<close>

text \<open>What the SDK's iterator yields, as a list.\<close>

inductive cosmos_yields :: "('c, 'x) iter_env \<Rightarrow> 'c option \<Rightarrow> 'x list \<Rightarrow> bool" for I where
  yields_nil: "cosmos_yields I None []"
| yields_end: "ie_Tx I c = None \<Longrightarrow> cosmos_yields I (Some c) []"
| yields_tx: "ie_Tx I c = Some x \<Longrightarrow> cosmos_yields I (ie_Next I c) xs \<Longrightarrow> cosmos_yields I (Some c) (x # xs)"

inductive_cases yields_NilE: "cosmos_yields I c []"
inductive_cases yields_ConsE: "cosmos_yields I c (x # xs)"

text \<open>The order of the EVM transactions with their fees.\<close>

definition evm_seq :: "TransactionsByPriceAndNonce option \<Rightarrow> (LazyTransaction \<times> u256) list" where
  "evm_seq e =
     (case e of
        None \<Rightarrow> []
      | Some t \<Rightarrow> (case tp_drain (tp_size t) t of Inl _ \<Rightarrow> [] | Inr out \<Rightarrow> map (\<lambda>(a, tx). (tx, miner_fee (tp_baseFee t) tx)) out))"

definition cosmos_tip :: "('c, 'x) iter_env \<Rightarrow> 'x \<Rightarrow> u256" where
  "cosmos_tip I x = (case extractCosmosEffectiveTip I x of Inr (Some t) \<Rightarrow> t | _ \<Rightarrow> 0)"

definition tip_defined :: "('c, 'x) iter_env \<Rightarrow> 'x \<Rightarrow> bool" where
  "tip_defined I x = (\<exists>t. extractCosmosEffectiveTip I x = Inr t)"

text \<open>The merge: the EVM transaction unless the Cosmos tip is strictly higher.\<close>

fun merge_orders :: "('c, 'x) iter_env \<Rightarrow> (LazyTransaction \<times> u256) list \<Rightarrow> 'x list \<Rightarrow> (LazyTransaction + 'x) list" where
  "merge_orders I [] cs = map Inr cs"
| "merge_orders I es [] = map (Inl \<circ> fst) es"
| "merge_orders I (e # es) (c # cs) =
     (if snd e < cosmos_tip I c then Inr c # merge_orders I (e # es) cs else Inl (fst e) # merge_orders I es (c # cs))"

definition sdk_tx :: "('c, 'x) iter_env \<Rightarrow> LazyTransaction + 'x \<Rightarrow> 'x option" where
  "sdk_tx I y = (case y of Inl tx \<Rightarrow> (case convertEVMToSDKTx I tx of Inr (Some x) \<Rightarrow> Some x | _ \<Rightarrow> None) | Inr x \<Rightarrow> Some x)"

definition converts :: "('c, 'x) iter_env \<Rightarrow> LazyTransaction \<Rightarrow> bool" where
  "converts I tx = (\<exists>x. convertEVMToSDKTx I tx = Inr (Some x))"

lemma evm_seq_None [simp]: "evm_seq None = []"
  by (simp add: evm_seq_def)

lemma evm_seq_empty: "tp_heads t = [] \<Longrightarrow> evm_seq (Some t) = []"
  by (simp add: evm_seq_def tp_size_def)

lemma evm_seq_step:
  assumes "tp_inv t" "tp_heads t = h # hs"
  obtains t' where "tp_Shift t = Inr t'" "tp_inv t'" "tp_Peek t = Some (mf_tx h, mf_fees h)"
    "evm_seq (Some t) = (mf_tx h, mf_fees h) # evm_seq (Some t')"
proof -
  from Shift_ok [OF assms] obtain t' where t': "tp_Shift t = Inr t'" "tp_inv t'" "tp_baseFee t' = tp_baseFee t"
    "Suc (tp_size t') = tp_size t" by blast
  from drain_ok [OF t'(2) order_refl] obtain out where out: "tp_drain (tp_size t') t' = Inr out" by blast
  have "tp_drain (tp_size t) t = Inr ((mf_from h, mf_tx h) # out)"
    unfolding t'(4) [symmetric] using assms(2) t'(1) out by simp
  moreover have "mf_fees h = miner_fee (tp_baseFee t) (mf_tx h)" using assms by (simp add: tp_inv_def)
  ultimately have "evm_seq (Some t) = (mf_tx h, mf_fees h) # evm_seq (Some t')"
    using out t'(3) by (simp add: evm_seq_def)
  then show thesis using that t' assms(2) by (simp add: tp_Peek_def)
qed

definition it_ok :: "('c, 'x) iter_env \<Rightarrow> 'c EVMMempoolIterator \<Rightarrow> (LazyTransaction \<times> u256) list \<Rightarrow> 'x list \<Rightarrow> bool" where
  "it_ok I i es cs \<longleftrightarrow> (case it_evm i of None \<Rightarrow> True | Some t \<Rightarrow> tp_inv t) \<and> es = evm_seq (it_evm i) \<and>
     cosmos_yields I (it_cosmos i) cs \<and> (\<forall>x \<in> set cs. tip_defined I x)"

lemma next_evm:
  assumes "it_ok I i es cs"
  shows "getNextEVMTx i = (case es of [] \<Rightarrow> None | e # _ \<Rightarrow> Some e)"
proof (cases "it_evm i")
  case None
  then show ?thesis using assms by (simp add: it_ok_def getNextEVMTx_def)
next
  case (Some t)
  show ?thesis
  proof (cases "tp_heads t")
    case Nil
    then show ?thesis using assms Some by (simp add: it_ok_def getNextEVMTx_def tp_Peek_def evm_seq_empty)
  next
    case (Cons h hs)
    have "tp_inv t" using assms Some by (simp add: it_ok_def)
    from evm_seq_step [OF this Cons] obtain t' where "tp_Peek t = Some (mf_tx h, mf_fees h)"
      "evm_seq (Some t) = (mf_tx h, mf_fees h) # evm_seq (Some t')" by blast
    then show ?thesis using assms Some by (simp add: it_ok_def getNextEVMTx_def)
  qed
qed

lemma next_cosmos:
  assumes "it_ok I i es cs"
  shows "getNextCosmosTx I i = Inr (case cs of [] \<Rightarrow> None | c # _ \<Rightarrow> Some (c, cosmos_tip I c))"
proof (cases cs)
  case Nil
  then have "cosmos_yields I (it_cosmos i) []" using assms by (simp add: it_ok_def)
  then show ?thesis using Nil by (auto simp: getNextCosmosTx_def elim: yields_NilE)
next
  case (Cons x xs)
  then have y: "cosmos_yields I (it_cosmos i) (x # xs)" "tip_defined I x" using assms by (auto simp: it_ok_def)
  then obtain c where "it_cosmos i = Some c" "ie_Tx I c = Some x" by (auto elim: yields_ConsE)
  then show ?thesis using Cons y(2)
    by (auto simp: getNextCosmosTx_def tip_defined_def cosmos_tip_def split: option.splits)
qed

lemma use_evm:
  assumes "it_ok I i es cs"
  shows "shouldUseEVM I i =
    Inr (case es of [] \<Rightarrow> False | e # _ \<Rightarrow> (case cs of [] \<Rightarrow> True | c # _ \<Rightarrow> \<not> snd e < cosmos_tip I c))"
  using next_evm [OF assms] next_cosmos [OF assms]
  by (cases es; cases cs) (auto simp: shouldUseEVM_def)

lemma advance_evm:
  assumes "it_ok I i (e # es) cs"
  obtains i' where "rbind (tp_Shift (the (it_evm i))) (\<lambda>t'. Inr (i\<lparr>it_evm := Some t'\<rparr>)) = Inr i'" "it_ok I i' es cs"
    "it_evm i \<noteq> None" "it_cosmos i' = it_cosmos i"
proof -
  obtain t where t: "it_evm i = Some t" "tp_inv t" "evm_seq (Some t) = e # es"
    using assms by (cases "it_evm i") (auto simp: it_ok_def)
  then obtain h hs where h: "tp_heads t = h # hs" using evm_seq_empty [of t] by (cases "tp_heads t") auto
  from evm_seq_step [OF t(2) h] obtain t' where t': "tp_Shift t = Inr t'" "tp_inv t'" "evm_seq (Some t') = es"
    using t(3) by (metis list.inject)
  then show thesis
    using that [of "i\<lparr>it_evm := Some t'\<rparr>"] t assms by (simp add: it_ok_def)
qed

lemma advance_cosmos:
  assumes "it_ok I i es (c # cs)"
  obtains k where "it_cosmos i = Some k" "it_ok I (i\<lparr>it_cosmos := ie_Next I k\<rparr>) es cs"
  using assms by (auto simp: it_ok_def elim: yields_ConsE)

lemma more_iff: "it_ok I i es cs \<Longrightarrow> hasMoreTransactions I i = Inr (es \<noteq> [] \<or> cs \<noteq> [])"
  using next_evm [of I i es cs] next_cosmos [of I i es cs]
  by (cases es; cases cs) (auto simp: hasMoreTransactions_def)

lemma SelectBy_merge:
  "it_ok I i es cs \<Longrightarrow> es \<noteq> [] \<or> cs \<noteq> [] \<Longrightarrow> \<forall>e \<in> set es. converts I (fst e) \<Longrightarrow>
   length es + length cs \<le> n \<Longrightarrow>
   SelectBy_loop n I (Some i) = Inr (map (sdk_tx I) (merge_orders I es cs))"
proof (induction n arbitrary: i es cs)
  case (Suc n)
  have rest: "SelectBy_loop n I (if es' \<noteq> [] \<or> cs' \<noteq> [] then Some i' else None) = Inr (map (sdk_tx I) (merge_orders I es' cs'))"
    if "it_ok I i' es' cs'" "set es' \<subseteq> set es" "length es' + length cs' < length es + length cs" for i' es' cs'
  proof -
    have "\<forall>e \<in> set es'. converts I (fst e)" using that(2) Suc.prems(3) by blast
    with Suc.IH [OF that(1)] that(3) Suc.prems(4) show ?thesis by (cases "es' = [] \<and> cs' = []") auto
  qed
  note ok = Suc.prems(1)
  show ?case
  proof (cases "\<exists>e es'. es = e # es' \<and> (cs = [] \<or> \<not> snd e < cosmos_tip I (hd cs))")
    case True
    then obtain e es' where e: "es = e # es'" "cs = [] \<or> \<not> snd e < cosmos_tip I (hd cs)" by blast
    have use: "shouldUseEVM I i = Inr True" using use_evm [OF ok] e by (auto split: list.splits)
    obtain x where x: "convertEVMToSDKTx I (fst e) = Inr (Some x)" using Suc.prems(3) e(1) by (auto simp: converts_def)
    have tx: "it_Tx I i = Inr (Some x)"
      using next_evm [OF ok] next_cosmos [OF ok] use x e(1) by (simp add: it_Tx_def getPreferredTransaction_def)
    from advance_evm [OF ok [unfolded e(1)]] obtain i' where i':
      "rbind (tp_Shift (the (it_evm i))) (\<lambda>t'. Inr (i\<lparr>it_evm := Some t'\<rparr>)) = Inr i'" "it_ok I i' es' cs" "it_evm i \<noteq> None" by blast
    then have "advanceCurrentIterator I i = Inr i'" using use by (auto simp: advanceCurrentIterator_def)
    then have nxt: "it_Next I i = Inr (if es' \<noteq> [] \<or> cs \<noteq> [] then Some i' else None)"
      using next_evm [OF ok] next_cosmos [OF ok] more_iff [OF i'(2)] e(1) by (simp add: it_Next_def)
    have "merge_orders I es cs = Inl (fst e) # merge_orders I es' cs"
      using e by (cases cs; cases es') auto
    moreover have "SelectBy_loop n I (if es' \<noteq> [] \<or> cs \<noteq> [] then Some i' else None) =
        Inr (map (sdk_tx I) (merge_orders I es' cs))" by (rule rest [OF i'(2)]) (auto simp: e(1))
    moreover have "sdk_tx I (Inl (fst e)) = Some x" using x by (simp add: sdk_tx_def)
    ultimately show ?thesis using tx nxt by simp
  next
    case False
    then obtain c cs' where c: "cs = c # cs'" "\<And>e es'. es = e # es' \<Longrightarrow> snd e < cosmos_tip I c"
      using Suc.prems(2) by (cases es; cases cs) auto
    have use: "shouldUseEVM I i = Inr False" using use_evm [OF ok] c by (auto split: list.splits)
    have tx: "it_Tx I i = Inr (Some c)"
      using next_evm [OF ok] next_cosmos [OF ok] use c(1) by (simp add: it_Tx_def getPreferredTransaction_def)
    from advance_cosmos [OF ok [unfolded c(1)]] obtain k where k: "it_cosmos i = Some k"
      "it_ok I (i\<lparr>it_cosmos := ie_Next I k\<rparr>) es cs'" .
    have nxt: "it_Next I i = Inr (if es \<noteq> [] \<or> cs' \<noteq> [] then Some (i\<lparr>it_cosmos := ie_Next I k\<rparr>) else None)"
      using next_cosmos [OF ok] more_iff [OF k(2)] c(1) use k(1) by (simp add: it_Next_def advanceCurrentIterator_def)
    have "merge_orders I es cs = Inr c # merge_orders I es cs'"
      using c by (cases es) auto
    moreover have "SelectBy_loop n I (if es \<noteq> [] \<or> cs' \<noteq> [] then Some (i\<lparr>it_cosmos := ie_Next I k\<rparr>) else None) =
        Inr (map (sdk_tx I) (merge_orders I es cs'))" by (rule rest [OF k(2)]) (auto simp: c(1))
    moreover have "sdk_tx I (Inr c) = Some c" by (simp add: sdk_tx_def)
    ultimately show ?thesis using tx nxt by simp
  qed
qed auto

text \<open>
  A transaction whose wrapping fails: the iterator returns the Cosmos transaction in its place, but advances the
  EVM order, so that Cosmos transaction is still the next one of its pool.
\<close>

lemma failed_conversion:
  assumes "it_ok I i (e # es) (c # cs)" "\<not> snd e < cosmos_tip I c" "convertEVMToSDKTx I (fst e) = Inr None"
  obtains i' where "it_Tx I i = Inr (Some c)" "it_Next I i = Inr (Some i')" "it_ok I i' es (c # cs)"
proof -
  have use: "shouldUseEVM I i = Inr True" using use_evm [OF assms(1)] assms(2) by simp
  have tx: "it_Tx I i = Inr (Some c)"
    using next_evm [OF assms(1)] next_cosmos [OF assms(1)] use assms(3) by (simp add: it_Tx_def getPreferredTransaction_def)
  from advance_evm [OF assms(1)] obtain i' where i':
    "rbind (tp_Shift (the (it_evm i))) (\<lambda>t'. Inr (i\<lparr>it_evm := Some t'\<rparr>)) = Inr i'" "it_ok I i' es (c # cs)" "it_evm i \<noteq> None" by blast
  then have "advanceCurrentIterator I i = Inr i'" using use by (auto simp: advanceCurrentIterator_def)
  then have "it_Next I i = Inr (Some i')"
    using next_evm [OF assms(1)] next_cosmos [OF assms(1)] more_iff [OF i'(2)] by (simp add: it_Next_def)
  then show thesis using that tx i'(2) by blast
qed

end
