(* ===== verification/MempoolProps.thy ===== *)
theory MempoolProps
  imports PricedList TxOrder TxExample
begin

text \<open>
  What the structures of the mempool guarantee: the nonce-sorted map and the list of an account, the choice of the
  transactions to evict, the order of a block, and the iterator over both pools.
\<close>

section \<open>Lists of an account\<close>

text \<open>
  The states of a list, with the transactions that \<open>Add\<close> was called with. The pool removes a transaction by the pointer it
  holds: the one stored under its nonce, or one that is no longer there.
\<close>

inductive ll_reach :: "eth_env \<Rightarrow> u64 \<Rightarrow> ethTx list \<Rightarrow> txList \<Rightarrow> bool" for G bump where
  ll_reach_new: "ll_reach G bump [] (newList strict)"
| ll_reach_Add: "ll_reach G bump txs l \<Longrightarrow> ll_Add G tx bump l = Inr (l', r) \<Longrightarrow> ll_reach G bump (tx # txs) l'"
| ll_reach_Forward: "ll_reach G bump txs l \<Longrightarrow> ll_Forward G n l = Inr (l', r) \<Longrightarrow> ll_reach G bump txs l'"
| ll_reach_Filter: "ll_reach G bump txs l \<Longrightarrow> range_ok R \<Longrightarrow> ll_Filter R G c g l = Inr (l', r) \<Longrightarrow> ll_reach G bump txs l'"
| ll_reach_Cap: "ll_reach G bump txs l \<Longrightarrow> 0 \<le> t \<Longrightarrow> ll_Cap G t l = Inr (l', r) \<Longrightarrow> ll_reach G bump txs l'"
| ll_reach_Remove: "ll_reach G bump txs l \<Longrightarrow> range_ok R \<Longrightarrow> kv_get (l_items l) (tx_Nonce tx) \<in> {None, Some tx} \<Longrightarrow>
    ll_Remove R G tx l = Inr (l', r) \<Longrightarrow> ll_reach G bump txs l'"
| ll_reach_Ready: "ll_reach G bump txs l \<Longrightarrow> ll_Ready G n l = Inr (l', r) \<Longrightarrow> ll_reach G bump txs l'"
| ll_reach_Flatten: "ll_reach G bump txs l \<Longrightarrow> range_ok R \<Longrightarrow> ll_Flatten R l = (l', r) \<Longrightarrow> ll_reach G bump txs l'"

definition ll_fits :: "eth_env \<Rightarrow> ethTx list \<Rightarrow> txList \<Rightarrow> bool" where
  "ll_fits G txs l \<longleftrightarrow> ll_inv G l \<and> uint (l_totalcost l) \<le> cost_sum G txs"

lemma ll_fits_less:
  assumes "ll_fits G txs l" "ll_inv G l'" "mset (l_items l) = mset (l_items l' @ out)"
  shows "ll_fits G txs l'"
proof -
  have "set out \<subseteq> set (l_items l)" using mset_eq_setD [OF assms(3)] by simp
  then have "0 \<le> cost_sum G (map snd out)"
    using assms(1) by (intro cost_sum_nonneg) (auto simp: ll_fits_def ll_inv_def l_members_def)
  moreover have "cost_sum G (map snd (l_items l)) = cost_sum G (map snd (l_items l' @ out))"
    using assms(3) by (intro cost_sum_mset) (simp only: mset_map)
  ultimately show ?thesis using assms(1,2) by (simp add: ll_fits_def ll_inv_def)
qed

lemma ll_fits_filter:
  assumes "ll_fits G txs l" "ll_inv G l'" "l_items l' = filter P (l_items l)"
  shows "ll_fits G txs l'"
  using multiset_partition [of "mset (l_items l)" P]
  by (intro ll_fits_less [OF assms(1,2), of "filter (\<lambda>y. \<not> P y) (l_items l)"]) (simp add: assms(3))

lemma Add_fits:
  assumes "ll_fits G txs l" "0 \<le> eth_Cost G tx" "cost_sum G (tx # txs) < 2 ^ 256"
  obtains l' r where "ll_Add G tx bump l = Inr (l', r)" "ll_fits G (tx # txs) l'"
proof -
  have inv: "ll_inv G l" and le: "uint (l_totalcost l) \<le> cost_sum G txs" using assms(1) by (auto simp: ll_fits_def)
  have ok: "kv_ok (l_items l)" and sum: "uint (l_totalcost l) = cost_sum G (map snd (l_items l))"
    using inv by (auto simp: ll_inv_def sm_inv_def sm_core_def)
  have old: "0 \<le> eth_Cost G old" if "kv_get (l_items l) n = Some old" for old n
  proof -
    have "(n, old) \<in> set (l_items l)" using that kv_get_in [OF ok] by simp
    then have "old \<in> l_members l" by (force simp: l_members_def)
    then show ?thesis using inv by (simp add: ll_inv_def)
  qed
  show thesis
  proof (cases "\<exists>old. kv_get (l_items l) (tx_Nonce tx) = Some old \<and> \<not> replaces bump old tx")
    case True
    then show thesis using that [of l] Add_rejects assms le inv by (auto simp: sm_Get_def ll_fits_def)
  next
    case False
    have "case kv_get (l_items l) (tx_Nonce tx) of
        None \<Rightarrow> uint (l_totalcost l) + eth_Cost G tx < 2 ^ 256
      | Some old \<Rightarrow> replaces bump old tx \<and> uint (l_totalcost l) - eth_Cost G old + eth_Cost G tx < 2 ^ 256"
      using False le assms(3) old by (cases "kv_get (l_items l) (tx_Nonce tx)") (simp, fastforce)
    from Add_ok [OF inv assms(2) this] obtain l' where l':
      "ll_Add G tx bump l = Inr (l', True, kv_get (l_items l) (tx_Nonce tx))" "ll_inv G l'"
      "l_items l' = kv_set (tx_Nonce tx) tx (l_items l)" by blast
    have "cost_sum G (map snd (l_items l')) = eth_Cost G tx + cost_sum G (map snd (kv_delete (tx_Nonce tx) (l_items l)))"
      using kv_set_mset [OF ok, of "tx_Nonce tx" tx] unfolding l'(3)
      by (subst cost_sum_mset [of _ "map snd ((tx_Nonce tx, tx) # kv_delete (tx_Nonce tx) (l_items l))"]) simp_all
    moreover have "cost_sum G (map snd (kv_delete (tx_Nonce tx) (l_items l))) \<le> cost_sum G (map snd (l_items l))"
    proof (cases "kv_get (l_items l) (tx_Nonce tx)")
      case (Some x)
      then have "cost_sum G (map snd (l_items l)) = cost_sum G (x # map snd (kv_delete (tx_Nonce tx) (l_items l)))"
        using kv_delete_mset [OF ok Some] by (intro cost_sum_mset) simp
      then show ?thesis using old [OF Some] by simp
    qed (simp add: kv_delete_absent)
    ultimately have "ll_fits G (tx # txs) l'" using l'(2) le sum by (simp add: ll_fits_def ll_inv_def)
    then show thesis using that l'(1) by blast
  qed
qed

lemma Forward_fits:
  assumes "ll_fits G txs l"
  shows "\<exists>l' r. ll_Forward G n l = Inr (l', r) \<and> ll_fits G txs l'"
proof -
  have "ll_inv G l" using assms by (simp add: ll_fits_def)
  from Forward_ok [OF this, of n] obtain x r where x: "ll_Forward G n l = Inr (x, r)" "ll_inv G x"
    "l_items x = dropWhile (\<lambda>(k, tx). k < n) (l_items l)" by blast
  have "mset (l_items l) = mset (l_items x @ takeWhile (\<lambda>(k, tx). k < n) (l_items l))"
    unfolding x(3) mset_append by (subst union_commute) (simp flip: mset_append)
  from ll_fits_less [OF assms x(2) this] show ?thesis using x(1) by blast
qed

lemma Filter_fits:
  assumes "ll_fits G txs l" "range_ok R"
  shows "\<exists>l' r. ll_Filter R G c g l = Inr (l', r) \<and> ll_fits G txs l'"
proof -
  have "ll_inv G l" using assms by (simp add: ll_fits_def)
  from Filter_ok [OF this assms(2), of c g] obtain x r where x: "ll_Filter R G c g l = Inr (x, r)" "ll_inv G x"
    "l_items x = filter (\<lambda>(n, tx). \<not> over_limit G c g tx \<and> \<not> behind G c g l tx) (l_items l)" by blast
  from ll_fits_filter [OF assms(1) x(2,3)] show ?thesis using x(1) by blast
qed

lemma Cap_fits:
  assumes "ll_fits G txs l" "0 \<le> t"
  shows "\<exists>l' r. ll_Cap G t l = Inr (l', r) \<and> ll_fits G txs l'"
proof -
  have "ll_inv G l" using assms by (simp add: ll_fits_def)
  from Cap_ok [OF this assms(2)] obtain x r where x: "ll_Cap G t l = Inr (x, r)" "ll_inv G x"
    "l_items x = take (nat t) (l_items l)" by blast
  have "mset (l_items l) = mset (l_items x @ drop (nat t) (l_items l))" by (simp add: x(3))
  from ll_fits_less [OF assms(1) x(2) this] show ?thesis using x(1) by blast
qed

lemma Remove_fits:
  assumes "ll_fits G txs l" "range_ok R" "kv_get (l_items l) (tx_Nonce tx) \<in> {None, Some tx}"
  shows "\<exists>l' r. ll_Remove R G tx l = Inr (l', r) \<and> ll_fits G txs l'"
proof -
  have "ll_inv G l" using assms by (simp add: ll_fits_def)
  from ll_Remove_ok [OF this assms(2,3)] obtain x r where x: "ll_Remove R G tx l = Inr (x, r)" "ll_inv G x"
    "l_items x = (if l_strict l \<and> kv_get (l_items l) (tx_Nonce tx) \<noteq> None
       then filter (\<lambda>(n, t). n < tx_Nonce tx) (l_items l) else kv_delete (tx_Nonce tx) (l_items l))" by blast
  have "\<exists>P. l_items x = filter P (l_items l)" unfolding x(3) kv_delete_filter by auto
  then obtain P where "l_items x = filter P (l_items l)" ..
  from ll_fits_filter [OF assms(1) x(2) this] show ?thesis using x(1) by blast
qed

lemma Ready_fits:
  assumes "ll_fits G txs l"
  shows "\<exists>l' r. ll_Ready G n l = Inr (l', r) \<and> ll_fits G txs l'"
proof -
  have "ll_inv G l" using assms by (simp add: ll_fits_def)
  from Ready_ok [OF this, of n] obtain x r where x: "ll_Ready G n l = Inr (x, r)" "ll_inv G x"
    "l_items x = drop (length (ready_run n (l_items l))) (l_items l)" by blast
  have "mset (l_items l) = mset (l_items x @ take (length (ready_run n (l_items l))) (l_items l))"
    unfolding x(3) mset_append by (subst union_commute) (simp flip: mset_append)
  from ll_fits_less [OF assms x(2) this] show ?thesis using x(1) by blast
qed

lemma Flatten_fits:
  assumes "ll_fits G txs l" "range_ok R" "ll_Flatten R l = (l', r)"
  shows "ll_fits G txs l' \<and> r = map snd (l_items l)"
proof -
  have sm: "sm_inv (l_txs l)" using assms(1) by (simp add: ll_fits_def ll_inv_def)
  have "\<And>ks. mset (R 0 ks) = mset ks" using assms(2) by (simp add: range_ok_def)
  from flatten_spec [OF sm this] obtain m where "sm_flatten (R 0) (l_txs l) = (m, map snd (l_items l))" "sm_inv m"
    "sm_items m = l_items l" by blast
  moreover from this have "l' = l\<lparr>l_txs := m\<rparr>" "r = map snd (l_items l)"
    using assms(3) by (simp_all add: ll_Flatten_def sm_Flatten_def)
  ultimately show ?thesis using assms(1) by (simp add: ll_fits_def ll_inv_def l_members_def)
qed

lemma ll_reach_fits:
  "ll_reach G bump txs l \<Longrightarrow> \<forall>tx \<in> set txs. 0 \<le> eth_Cost G tx \<Longrightarrow> cost_sum G txs < 2 ^ 256 \<Longrightarrow> ll_fits G txs l"
proof (induction rule: ll_reach.induct)
  case (ll_reach_new strict)
  then show ?case using ll_inv_new [of G strict] by (simp add: ll_fits_def newList_def)
next
  case (ll_reach_Add txs l tx l' r)
  then have "ll_fits G txs l" by simp
  from Add_fits [OF this, of tx bump] ll_reach_Add show ?case by auto
next
  case (ll_reach_Forward txs l n l' r)
  then show ?case using Forward_fits [of G txs l n] by auto
next
  case (ll_reach_Filter txs l R c g l' r)
  then show ?case using Filter_fits [of G txs l R c g] by auto
next
  case (ll_reach_Cap txs l t l' r)
  then show ?case using Cap_fits [of G txs l t] by auto
next
  case (ll_reach_Remove txs l R tx l' r)
  then show ?case using Remove_fits [of G txs l R tx] by auto
next
  case (ll_reach_Ready txs l n l' r)
  then show ?case using Ready_fits [of G txs l n] by auto
next
  case (ll_reach_Flatten txs l R l' r)
  then show ?case using Flatten_fits by blast
qed

section \<open>The order of a block\<close>

text \<open>Each transaction of the order pays at least what the next one of any account would.\<close>

lemma drain_best:
  "tp_inv t \<Longrightarrow> tp_drain n t = Inr out \<Longrightarrow> i < length out \<Longrightarrow>
   drop (length (filter (\<lambda>y. fst y = a) (take i out))) (remaining t a) = x # xs \<Longrightarrow>
   miner_fee (tp_baseFee t) x \<le> miner_fee (tp_baseFee t) (snd (out ! i))"
proof (induction n arbitrary: t out i)
  case (Suc n)
  show ?case
  proof (cases "tp_heads t")
    case Nil
    then show ?thesis using Suc.prems by simp
  next
    case (Cons h hs)
    from Shift_ok [OF Suc.prems(1) Cons] obtain t' where t': "tp_Shift t = Inr t'" "tp_inv t'" "tp_baseFee t' = tp_baseFee t"
      "\<And>a. remaining t' a = (if a = mf_from h then acc_txs t a else remaining t a)" by blast
    obtain out' where out: "out = (mf_from h, mf_tx h) # out'" "tp_drain n t' = Inr out'"
      using Suc.prems(2) Cons t'(1) by (auto simp: rbind_eq_Inr)
    have rem: "remaining t (mf_from h) = mf_tx h # acc_txs t (mf_from h)"
      using Suc.prems(1) Cons by (intro remaining_head) (auto simp: tp_inv_def)
    show ?thesis
    proof (cases i)
      case 0
      then have "remaining t a = x # xs" using Suc.prems(4) by simp
      then obtain g gs where g: "filter (\<lambda>h. mf_from h = a) (tp_heads t) = g # gs" "mf_tx g = x"
        by (auto simp: remaining_def split: list.splits)
      then have "g \<in> set (tp_heads t)" by (metis filter_is_subset list.set_intros(1) subsetD)
      note g = this g(2)
      have "mf_fees g \<le> mf_fees h"
        using Peek_best [OF Suc.prems(1) _ g(1), of "mf_tx h" "mf_fees h"] Cons by (simp add: tp_Peek_def)
      then show ?thesis using 0 out(1) g Suc.prems(1) Cons by (auto simp: tp_inv_def)
    next
      case (Suc j)
      then have "drop (length (filter (\<lambda>y. fst y = a) (take j out'))) (remaining t' a) = x # xs"
        using Suc.prems(4) out(1) rem t'(4) [of a] by (cases "a = mf_from h") auto
      from Suc.IH [OF t'(2) out(2) _ this] show ?thesis using Suc Suc.prems(3) out(1) t'(3) by simp
    qed
  qed
qed simp

section \<open>Eviction\<close>

text \<open>The states of the two price heaps, whatever the index of the pool does in between.\<close>

inductive pl_reach :: "pool_env \<Rightarrow> pricedList \<Rightarrow> bool" for E where
  pl_reach_new: "pl_reach E newPricedList"
| pl_reach_Put: "pl_reach E l \<Longrightarrow> pl_reach E (pl_Put (pe_eth E) tx l)"
| pl_reach_Removed: "pl_reach E l \<Longrightarrow> lk_inv E t \<Longrightarrow> (\<And>ks. mset (rng ks) = mset ks) \<Longrightarrow> pl_reach E (pl_Removed rng (pe_eth E) t n l)"
| pl_reach_Underpriced: "pl_reach E l \<Longrightarrow> pl_Underpriced (pe_eth E) t tx l = (l', b) \<Longrightarrow> pl_reach E l'"
| pl_reach_Discard: "pl_reach E l \<Longrightarrow> pl_Discard E t need l = (l', r) \<Longrightarrow> pl_reach E l'"
| pl_reach_SetBaseFee: "pl_reach E l \<Longrightarrow> lk_inv E t \<Longrightarrow> (\<And>ks. mset (rng ks) = mset ks) \<Longrightarrow>
    pl_reach E (pl_SetBaseFee rng (pe_eth E) t f l)"

lemma pl_reach_ok: "pl_reach E l \<Longrightarrow> pl_ok (pe_eth E) l"
proof (induction rule: pl_reach.induct)
  case pl_reach_new
  then show ?case using ph.is_heap_Nil by (simp add: pl_ok_def ph_ok_def newPricedList_def)
next
  case (pl_reach_Removed l t rng n)
  then show ?case using Reheap_ok(1) [where rng = rng, OF pl_reach_Removed(2,3)]
    by (auto simp: pl_Removed_def Let_def pl_ok_def)
next
  case (pl_reach_Discard l t need l' r)
  then show ?case using Discard_ok(1) [of E l t need l'] by (cases r) auto
next
  case (pl_reach_SetBaseFee l t rng f)
  then show ?case using Reheap_ok(1) [where rng = rng, OF pl_reach_SetBaseFee(2,3)] by (simp add: pl_SetBaseFee_def)
qed (auto simp: pl_Put_ok Underpriced_ok)

section \<open>An example\<close>

text \<open>Five transactions of account 5 with nonces as hashes, the maps walked in key order.\<close>

definition ex_penv :: pool_env where
  "ex_penv = \<lparr>pe_eth = ex_eth\<lparr>eth_Hash := \<lambda>tx. ucast (tx_Nonce tx)\<rparr>, pe_Size = (\<lambda>tx. 110), pe_Authorities = (\<lambda>_. []),
     pe_Sender = (\<lambda>_. Inr 5)\<rparr>"

definition ex_range :: range_order where
  "ex_range = (\<lambda>_ ks. ks)"

lemma ex_range_ok [simp]: "range_ok ex_range"
  by (simp add: range_ok_def ex_range_def)

definition ex_list :: txList where
  "ex_list = (case ll_Add ex_eth (ex_tx 3) 10 (newList True) of Inr (l, _) \<Rightarrow>
     (case ll_Add ex_eth ((ex_tx 2)\<lparr>tx_Gas := 90000\<rparr>) 10 l of Inr (l', _) \<Rightarrow> l'))"

lemma ex_list_items: "l_items ex_list = [(2, (ex_tx 2)\<lparr>tx_Gas := 90000\<rparr>), (3, ex_tx 3)]" "l_totalcost ex_list = 1200000"
  by code_simp+

lemma ex_list_reach: "ll_reach ex_eth 10 [(ex_tx 2)\<lparr>tx_Gas := 90000\<rparr>, ex_tx 3] ex_list"
proof -
  have "\<exists>l r. ll_Add ex_eth (ex_tx 3) 10 (newList True) = Inr (l, r) \<and>
      (\<exists>r'. ll_Add ex_eth ((ex_tx 2)\<lparr>tx_Gas := 90000\<rparr>) 10 l = Inr (ex_list, r'))"
    unfolding ex_list_def by (simp add: ll_Add_def ll_put_def newList_def NewSortedMap_def sm_Get_def sm_Put_def uint256_FromBig_def
      very_high_def ex_eth_def ex_tx_def Let_def) blast
  then show ?thesis using ll_reach_new ll_reach_Add by metis
qed

lemma ex_list_costs:
  "\<forall>tx \<in> set [(ex_tx 2)\<lparr>tx_Gas := 90000\<rparr>, ex_tx 3]. 0 \<le> eth_Cost ex_eth tx"
  "cost_sum ex_eth [(ex_tx 2)\<lparr>tx_Gas := 90000\<rparr>, ex_tx 3] < 2 ^ 256"
  by (simp_all add: ex_eth_def ex_tx_def)

definition ex_lookup :: lookup where
  "ex_lookup = fold (lk_Add ex_penv) [ex_tx 1, (ex_tx 2)\<lparr>tx_GasTipCap := 1\<rparr>, ex_tx 3] newLookup"

definition ex_priced :: pricedList where
  "ex_priced = fold (pl_Put (pe_eth ex_penv)) [ex_tx 1, (ex_tx 2)\<lparr>tx_GasTipCap := 1\<rparr>, ex_tx 3] newPricedList"

lemma ex_lookup_inv: "lk_inv ex_penv ex_lookup"
  unfolding ex_lookup_def fold.simps comp_def id_def
  by (intro lk_Add_inv(1) lk_inv_new)
    (simp_all add: lk_Get_def lk_Add_def newLookup_def addAuthorities_def ex_penv_def ex_tx_def)

lemma ex_priced_reach: "pl_reach ex_penv ex_priced"
  unfolding ex_priced_def fold.simps comp_def id_def by (intro pl_reach_Put pl_reach_new)

section \<open>The properties\<close>

text \<open>
  C28. The nonce-sorted map of a list (a Go map, a heap of nonces and a cached slice) behaves like the list of its
  entries sorted by nonce: every sequence of Get, Put, Forward, Filter, Cap, Remove, Ready, Len, Flatten and
  LastElement on a new map returns what the sorted list returns, panics exactly when LastElement meets an empty list, whatever order the
  runtime gives to map iteration, and leaves the map with the entries of the sorted list.
\<close>

theorem sorted_map_refines_list:
  assumes "\<forall>p \<in> set ps. op_range_ok p"
  shows "sm_refines (ops_run sm_exec ps NewSortedMap) (ops_run spec_exec ps [])"
proof -
  have "sm_items NewSortedMap = []" by (simp add: NewSortedMap_def)
  then show ?thesis using ops_run_refines [of NewSortedMap ps] assms by simp
qed

theorem sorted_map_refines_list_witness:
  defines "ps \<equiv> [OpPut (ex_tx 7), OpPut (ex_tx 3), OpPut (ex_tx 4), OpFlatten ex_range, OpForward 4, OpReady 4, OpLast ex_range]"
  shows "sm_refines (ops_run sm_exec ps NewSortedMap) (ops_run spec_exec ps []) \<and>
    ops_run spec_exec ps [] = Inr ([(7, ex_tx 7)], [OutNone, OutNone, OutNone, OutTxs [Some (ex_tx 3), Some (ex_tx 4), Some (ex_tx 7)],
      OutTxs [Some (ex_tx 3)], OutTxs [Some (ex_tx 4)], OutTx (Some (ex_tx 7))])"
  using sorted_map_refines_list [of ps]
  by (simp add: ps_def ready_run_def ex_tx_def)



text \<open>
  C31. The cost and gas caps of a list never hide a transaction from Filter: it removes exactly the
  transactions above the cost limit or the gas limit, and from a strict list also exactly those with a higher nonce than one of these.
\<close>

theorem list_Filter_exact:
  assumes "ll_reach G bump txs l" "\<forall>tx \<in> set txs. 0 \<le> eth_Cost G tx" "cost_sum G txs < 2 ^ 256" "range_ok R"
  shows "\<exists>l' removed invalids. ll_Filter R G c g l = Inr (l', removed, invalids) \<and>
    mset removed = mset (filter (over_limit G c g) (map snd (l_items l))) \<and>
    mset invalids = mset (filter (behind G c g l) (map snd (l_items l))) \<and>
    l_items l' = filter (\<lambda>(n, tx). \<not> over_limit G c g tx \<and> \<not> behind G c g l tx) (l_items l)"
proof -
  have "ll_inv G l" using ll_reach_fits [OF assms(1-3)] by (simp add: ll_fits_def)
  then show ?thesis by (rule Filter_ok [OF _ assms(4), of G l c g]) (intro exI conjI)
qed

theorem list_Filter_exact_witness:
  "(\<exists>l' removed invalids. ll_Filter ex_range ex_eth 1000000 50000 ex_list = Inr (l', removed, invalids) \<and>
    mset removed = {#(ex_tx 2)\<lparr>tx_Gas := 90000\<rparr>#} \<and> mset invalids = {#ex_tx 3#} \<and> l_items l' = [])"
proof -
  have st: "l_strict ex_list" by code_simp
  have "over_limit ex_eth 1000000 50000 ((ex_tx 2)\<lparr>tx_Gas := 90000\<rparr>)" "\<not> over_limit ex_eth 1000000 50000 (ex_tx 3)"
    "behind ex_eth 1000000 50000 ex_list (ex_tx 3)" "\<not> behind ex_eth 1000000 50000 ex_list ((ex_tx 2)\<lparr>tx_Gas := 90000\<rparr>)"
    unfolding over_limit_def behind_def l_members_def ex_list_items using st by (simp_all add: ex_eth_def ex_tx_def)
  then show ?thesis
    using list_Filter_exact [OF ex_list_reach ex_list_costs ex_range_ok, of 1000000 50000]
    by (simp add: ex_list_items(1))
qed

text \<open>
  C29. Discard on the price heaps never loses a pooled transaction: the live entries before are the live ones after and the dropped ones.
  If it reports success the dropped transactions free at least the slots asked for, if it reports failure it has
  dropped nothing and all live entries together would not have been enough. Underpriced holds exactly when there are
  live entries and the transaction pays no more than any of them in either heap.
\<close>

theorem eviction_exact:
  assumes "pl_reach E l" "pl_Discard E all need l = (l', dropped, ok)"
  shows "pl_live (pe_eth E) all l = pl_live (pe_eth E) all l' + mset dropped \<and>
    (if ok then need \<le> slot_sum E dropped
     else dropped = [] \<and> (\<Sum>tx \<in># pl_live (pe_eth E) all l. numSlots E tx) < need) \<and>
    (snd (pl_Underpriced (pe_eth E) all tx l) \<longleftrightarrow> pl_live (pe_eth E) all l \<noteq> {#} \<and>
       (\<forall>x \<in># ph_live (pe_eth E) all (pl_urgent l). 0 \<le> priceHeap_cmp (pe_eth E) (ph_baseFee (pl_urgent l)) x tx) \<and>
       (\<forall>x \<in># ph_live (pe_eth E) all (pl_floating l). 0 \<le> priceHeap_cmp (pe_eth E) (ph_baseFee (pl_floating l)) x tx))"
proof (intro conjI)
  note ok = pl_reach_ok [OF assms(1)]
  show "pl_live (pe_eth E) all l = pl_live (pe_eth E) all l' + mset dropped" using Discard_ok(2) [OF ok assms(2)] .
  show "if ok then need \<le> slot_sum E dropped
     else dropped = [] \<and> (\<Sum>tx \<in># pl_live (pe_eth E) all l. numSlots E tx) < need"
    using Discard_ok(4,5) [OF ok assms(2)] by (cases ok) simp_all
  show "snd (pl_Underpriced (pe_eth E) all tx l) \<longleftrightarrow> pl_live (pe_eth E) all l \<noteq> {#} \<and>
       (\<forall>x \<in># ph_live (pe_eth E) all (pl_urgent l). 0 \<le> priceHeap_cmp (pe_eth E) (ph_baseFee (pl_urgent l)) x tx) \<and>
       (\<forall>x \<in># ph_live (pe_eth E) all (pl_floating l). 0 \<le> priceHeap_cmp (pe_eth E) (ph_baseFee (pl_floating l)) x tx)"
    using Underpriced_ok(3) [OF ok prod.collapse [symmetric]] .
qed

theorem eviction_exact_witness:
  "\<exists>l'. pl_Discard ex_penv ex_lookup 1 ex_priced = (l', [(ex_tx 2)\<lparr>tx_GasTipCap := 1\<rparr>], True) \<and>
    pl_live (pe_eth ex_penv) ex_lookup ex_priced =
      pl_live (pe_eth ex_penv) ex_lookup l' + {#(ex_tx 2)\<lparr>tx_GasTipCap := 1\<rparr>#}"
proof -
  have "snd (pl_Discard ex_penv ex_lookup 1 ex_priced) = ([(ex_tx 2)\<lparr>tx_GasTipCap := 1\<rparr>], True)" by code_simp
  then obtain l' where l': "pl_Discard ex_penv ex_lookup 1 ex_priced = (l', [(ex_tx 2)\<lparr>tx_GasTipCap := 1\<rparr>], True)"
    by (metis surjective_pairing)
  then show ?thesis using eviction_exact [OF ex_priced_reach l'] by simp
qed

text \<open>
  C26. The order of a block honours nonces and prices: whatever order the runtime gives to the map of accounts, draining it by Peek
  and Shift ends and yields of every account exactly its transactions up to the first that cannot pay the base fee,
  in their given order, and every transaction pays the miner at least as much per gas as the next one of any account would.
\<close>

theorem order_honours_nonce_and_price:
  assumes "kv_ok txs" "\<forall>l \<in> snd ` set txs. l \<noteq> []" "\<And>ks. mset (rng ks) = mset ks"
    "case baseFee of None \<Rightarrow> True | Some b \<Rightarrow> \<not> very_high b"
  shows "\<exists>t out. NewTransactionsByPriceAndNonce rng txs baseFee = Inr t \<and> tp_drain (tp_size t) t = Inr out \<and>
    (\<forall>a. map snd (filter (\<lambda>y. fst y = a) out) =
       takeWhile (payable (map_option word_of_int baseFee)) (case kv_get txs a of None \<Rightarrow> [] | Some l \<Rightarrow> l)) \<and>
    (\<forall>i < length out. \<forall>a x xs.
       drop (length (filter (\<lambda>y. fst y = a) (take i out)))
         (takeWhile (payable (map_option word_of_int baseFee)) (case kv_get txs a of None \<Rightarrow> [] | Some l \<Rightarrow> l)) = x # xs \<longrightarrow>
       miner_fee (map_option word_of_int baseFee) x \<le> miner_fee (map_option word_of_int baseFee) (snd (out ! i)))"
proof -
  from New_ok [where rng = rng, OF assms] obtain t where t: "NewTransactionsByPriceAndNonce rng txs baseFee = Inr t" "tp_inv t"
    "tp_baseFee t = map_option word_of_int baseFee"
    "\<And>a. remaining t a = takeWhile (payable (tp_baseFee t)) (case kv_get txs a of None \<Rightarrow> [] | Some l \<Rightarrow> l)" by blast
  from drain_ok [OF t(2) order_refl] obtain out where out: "tp_drain (tp_size t) t = Inr out"
    "\<forall>a. map snd (filter (\<lambda>x. fst x = a) out) = remaining t a" by blast
  have "\<forall>i < length out. \<forall>a x xs. drop (length (filter (\<lambda>y. fst y = a) (take i out))) (remaining t a) = x # xs \<longrightarrow>
      miner_fee (tp_baseFee t) x \<le> miner_fee (tp_baseFee t) (snd (out ! i))"
    using drain_best [OF t(2) out(1)] by blast
  then show ?thesis using t(1) out unfolding t(4) t(3) by blast
qed

text \<open>Two accounts, the second transaction of the first cannot pay.\<close>

definition ex_lazy :: "u64 \<Rightarrow> u256 \<Rightarrow> u256 \<Rightarrow> LazyTransaction" where
  "ex_lazy n cap tip = \<lparr>lz_Hash = ucast n, lz_Tx = ex_tx n, lz_Time = 0, lz_GasFeeCap = cap, lz_GasTipCap = tip, lz_Gas = 30000\<rparr>"

definition ex_accounts :: "(address, LazyTransaction list) kv" where
  "ex_accounts = [(5, [ex_lazy 1 10 2, ex_lazy 2 6 2]), (6, [ex_lazy 1 10 1, ex_lazy 2 12 4])]"

lemma ex_accounts_ok:
  "kv_ok ex_accounts" "\<forall>l \<in> snd ` set ex_accounts. l \<noteq> []"
  "case Some 7 of None \<Rightarrow> True | Some b \<Rightarrow> \<not> very_high b"
  by (simp_all add: ex_accounts_def kv_ok_def kv_keys_def very_high_def)

theorem order_honours_nonce_and_price_witness:
  "\<exists>t out. NewTransactionsByPriceAndNonce (\<lambda>ks. ks) ex_accounts (Some 7) = Inr t \<and> tp_drain (tp_size t) t = Inr out \<and>
    map snd (filter (\<lambda>y. fst y = 5) out) = [ex_lazy 1 10 2] \<and>
    map snd (filter (\<lambda>y. fst y = 6) out) = [ex_lazy 1 10 1, ex_lazy 2 12 4]"
proof -
  from order_honours_nonce_and_price [OF ex_accounts_ok(1,2) refl ex_accounts_ok(3)] obtain t out where
    "NewTransactionsByPriceAndNonce (\<lambda>ks. ks) ex_accounts (Some 7) = Inr t" "tp_drain (tp_size t) t = Inr out"
    "\<And>a. map snd (filter (\<lambda>y. fst y = a) out) =
       takeWhile (payable (map_option word_of_int (Some 7))) (case kv_get ex_accounts a of None \<Rightarrow> [] | Some l \<Rightarrow> l)" by blast
  then show ?thesis by (intro exI [of _ t] exI [of _ out]) (simp add: ex_accounts_def payable_def ex_lazy_def)
qed

text \<open>
  C30. Selecting from the mempool yields the merge of the two orders: the transactions of the EVM order and of the Cosmos pool, each in its own order,
  every transaction once, an EVM transaction first unless the next Cosmos transaction has a strictly higher tip. The
  EVM transactions have to be convertible, and the tips of the Cosmos transactions defined (a gas limit that is not zero).
\<close>

theorem SelectBy_merges_orders:
  assumes "kv_ok txs" "\<forall>l \<in> snd ` set txs. l \<noteq> []" "\<And>ks. mset (rng ks) = mset ks"
    "case baseFee of None \<Rightarrow> True | Some b \<Rightarrow> \<not> very_high b"
    "NewTransactionsByPriceAndNonce rng txs baseFee = Inr t"
    "cosmos_yields I c cs" "\<forall>x \<in> set cs. tip_defined I x" "\<forall>e \<in> set (evm_seq (Some t)). converts I (fst e)"
    "length (evm_seq (Some t)) + length cs \<le> n"
  shows "SelectBy_loop n I (NewEVMMempoolIterator I (Some t) c) = Inr (map (sdk_tx I) (merge_orders I (evm_seq (Some t)) cs))"
proof -
  have inv: "tp_inv t" using New_ok [where rng = rng, OF assms(1-4)] assms(5) by (metis Inr_inject)
  let ?i = "\<lparr>it_evm = Some t, it_cosmos = c\<rparr>"
  have ok: "it_ok I ?i (evm_seq (Some t)) cs" using inv assms(6,7) by (simp add: it_ok_def)
  have e: "tp_heads t = [] \<longleftrightarrow> evm_seq (Some t) = []"
    using evm_seq_empty evm_seq_step [OF inv] by (metis list.distinct(1) list.exhaust)
  have c: "(case c of None \<Rightarrow> False | Some k \<Rightarrow> ie_Tx I k \<noteq> None) \<longleftrightarrow> cs \<noteq> []"
    using assms(6) by (auto elim: cosmos_yields.cases)
  show ?thesis
  proof (cases "evm_seq (Some t) = [] \<and> cs = []")
    case True
    then have "NewEVMMempoolIterator I (Some t) c = None" using e c by (auto simp: NewEVMMempoolIterator_def Let_def tp_Empty_def)
    then show ?thesis using True by simp
  next
    case False
    then have "NewEVMMempoolIterator I (Some t) c = Some ?i" using e c by (auto simp: NewEVMMempoolIterator_def Let_def tp_Empty_def)
    then show ?thesis using SelectBy_merge [OF ok _ assms(8,9)] False by simp
  qed
qed

text \<open>Cosmos transactions as pairs of a fee and a gas limit, in a list; a wrapped message is a pair too.\<close>

definition ex_iter :: "((int \<times> u64) list, int \<times> u64) iter_env" where
  "ex_iter = \<lparr>ie_Tx = (\<lambda>l. case l of [] \<Rightarrow> None | x # _ \<Rightarrow> Some x), ie_Next = (\<lambda>l. case l of [] \<Rightarrow> None | _ # xs \<Rightarrow> Some xs),
     ie_FeeTx = (\<lambda>(f, g). Some ([(''aatom'', f)], g)),
     ie_Sender = (\<lambda>tx. if tx_Nonce tx = 9 then Inl (Err ''invalid signature'') else Inr 5), ie_Build = (\<lambda>m fees g. Inr (0, g)), ie_Sort = id,
     ie_bondDenom = ''aatom'', ie_extendedDenom = ''aatom'', ie_baseFee = Some 7\<rparr>"

lemma ex_iter_yields: "cosmos_yields ex_iter (Some l) l"
proof (induction l)
  case (Cons x l)
  then have "cosmos_yields ex_iter (ie_Next ex_iter (x # l)) l" by (simp add: ex_iter_def)
  then show ?case by (intro yields_tx) (simp add: ex_iter_def)
qed (intro yields_end, simp add: ex_iter_def)

lemma ex_iter_tips: "g \<noteq> 0 \<Longrightarrow> tip_defined ex_iter (f, g)"
  by (auto simp: tip_defined_def extractCosmosEffectiveTip_def ex_iter_def Let_def split: prod.split option.split)

definition ex_order :: TransactionsByPriceAndNonce where
  "ex_order = (case NewTransactionsByPriceAndNonce (\<lambda>ks. ks) ex_accounts (Some 7) of Inr t \<Rightarrow> t)"

theorem SelectBy_merges_orders_witness:
  "SelectBy_loop 5 ex_iter (NewEVMMempoolIterator ex_iter (Some ex_order) (Some [(100, 10), (100, 100)])) =
    Inr [Some (100, 10), Some (0, 30000), Some (0, 30000), Some (0, 30000), Some (100, 100)]"
proof -
  have new: "NewTransactionsByPriceAndNonce (\<lambda>ks. ks) ex_accounts (Some 7) = Inr ex_order" by code_simp
  have seq: "evm_seq (Some ex_order) = [(ex_lazy 1 10 2, 2), (ex_lazy 1 10 1, 1), (ex_lazy 2 12 4, 4)]" by code_simp
  have conv: "\<forall>e \<in> set (evm_seq (Some ex_order)). converts ex_iter (fst e)"
    unfolding seq by (simp add: converts_def convertEVMToSDKTx_def nil_on_error_def FromSignedEthereumTx_def BuildTx_def
      BuildTxWithEvmParams_def ex_iter_def ex_lazy_def ex_tx_def GetFee_def very_high_def Let_def)
  have tips: "\<forall>x \<in> set [(100, 10), (100, 100)]. tip_defined ex_iter x" by (simp add: ex_iter_tips)
  have n: "length (evm_seq (Some ex_order)) + length [(100 :: int, 10 :: u64), (100, 100)] \<le> 5" by (simp add: seq)
  have "map (sdk_tx ex_iter) (merge_orders ex_iter (evm_seq (Some ex_order)) [(100, 10), (100, 100)]) =
      [Some (100, 10), Some (0, 30000), Some (0, 30000), Some (0, 30000), Some (100, 100)]"
    unfolding seq by code_simp
  then show ?thesis
    using SelectBy_merges_orders [OF ex_accounts_ok(1,2) refl ex_accounts_ok(3) new ex_iter_yields tips conv n] by simp
qed

text \<open>
  C32. If the next EVM transaction is preferred but cannot be converted, Tx returns the next Cosmos transaction in its place while Next advances the EVM
  order. When that was the last EVM transaction the iterator yields the same Cosmos transaction twice in a row.
\<close>

theorem failed_conversion_repeats_cosmos:
  assumes "it_ok I i [e] (c # cs)" "\<not> snd e < cosmos_tip I c" "convertEVMToSDKTx I (fst e) = Inr None"
  shows "\<exists>i'. it_Tx I i = Inr (Some c) \<and> it_Next I i = Inr (Some i') \<and> it_Tx I i' = Inr (Some c)"
proof -
  from failed_conversion [OF assms] obtain i' where i': "it_Tx I i = Inr (Some c)" "it_Next I i = Inr (Some i')"
    "it_ok I i' [] (c # cs)" .
  have "it_Tx I i' = Inr (Some c)"
    using next_evm [OF i'(3)] next_cosmos [OF i'(3)] use_evm [OF i'(3)] by (simp add: it_Tx_def getPreferredTransaction_def)
  then show ?thesis using i' by blast
qed

theorem failed_conversion_repeats_cosmos_witness:
  defines "t \<equiv> \<lparr>tp_txs = [(5, [])], tp_heads = [\<lparr>mf_tx = ex_lazy 9 10 2, mf_from = 5, mf_fees = 2\<rparr>], tp_baseFee = Some 7\<rparr>"
  shows "NewTransactionsByPriceAndNonce (\<lambda>ks. ks) [(5, [ex_lazy 9 10 2])] (Some 7) = Inr t \<and>
    (\<exists>i'. it_Tx ex_iter \<lparr>it_evm = Some t, it_cosmos = Some [(100, 100)]\<rparr> = Inr (Some (100, 100)) \<and>
      it_Next ex_iter \<lparr>it_evm = Some t, it_cosmos = Some [(100, 100)]\<rparr> = Inr (Some i') \<and> it_Tx ex_iter i' = Inr (Some (100, 100)))"
proof -
  have new: "NewTransactionsByPriceAndNonce (\<lambda>ks. ks) [(5, [ex_lazy 9 10 2])] (Some 7) = Inr t" unfolding t_def by code_simp
  have "kv_ok [(5 :: address, [ex_lazy 9 10 2])]" "\<forall>l \<in> snd ` set [(5 :: address, [ex_lazy 9 10 2])]. l \<noteq> []"
    by (simp_all add: kv_ok_def kv_keys_def)
  from New_ok [where rng = "\<lambda>ks. ks", OF this refl ex_accounts_ok(3)] obtain t' where
    "NewTransactionsByPriceAndNonce (\<lambda>ks. ks) [(5, [ex_lazy 9 10 2])] (Some 7) = Inr t'" "tp_inv t'" by blast
  then have "tp_inv t" using new by simp
  moreover have "evm_seq (Some t) = [(ex_lazy 9 10 2, 2)]" unfolding t_def by code_simp
  ultimately have ok: "it_ok ex_iter \<lparr>it_evm = Some t, it_cosmos = Some [(100, 100)]\<rparr> [(ex_lazy 9 10 2, 2)] [(100, 100)]"
    by (simp add: it_ok_def ex_iter_yields ex_iter_tips)
  have pref: "\<not> snd (ex_lazy 9 10 2, 2 :: u256) < cosmos_tip ex_iter (100, 100)" by code_simp
  have nil: "convertEVMToSDKTx ex_iter (fst (ex_lazy 9 10 2, 2 :: u256)) = Inr None" by code_simp
  show ?thesis using failed_conversion_repeats_cosmos [OF ok pref nil] new by (rule conjI [rotated])
qed

end
