(* ===== verification/Spec2Isabelle.thy ===== *)
theory Spec2Isabelle
  imports ChainCommit FeeMarketProps SvipProps TxProps MempoolProps
begin

text \<open>
  A verification library for the OpenGradient EVM node: an EVM chain on the Cosmos SDK. It covers the path of
  a transaction from the ante handler through the EVM down to the coins of the bank, the fee market and the
  reward pool.

  \<^bold>\<open>The parts and how they meet.\<close> The EVM (go-ethereum) works on a \<open>StateDB\<close>
  (\<open>src/x/vm/statedb\<close>), which caches accounts and slots, journals every change and can
  revert to a snapshot. Precompile calls write through a stack of store snapshots
  (\<open>src/x/vm/store\<close>). \<open>Commit\<close> hands the dirty accounts to the keeper of \<open>x/vm\<close>
  (\<open>src/x/vm/keeper/statedb.go\<close>), which sets balances by minting and burning through the bank wrapper
  (\<open>src/x/vm/wrappers/bank.go\<close>). The wrapper calls \<open>x/precisebank\<close>, which keeps
  18 decimals on top of a bank coin of fewer decimals: the integer part lives in the bank, the
  fraction in its own store, and a reserve account backs the sum of the fractions and a
  remainder. \<open>x/feemarket\<close> moves the base fee from block to block. Before a transaction runs the ante handler
  (\<open>src/ante/evm\<close>) checks it, sends the whole fee at the effective price to the fee collector and raises the
  nonce; \<open>ApplyTransaction\<close> (\<open>src/x/vm/keeper/state_transition.go\<close>) runs it on a branch of the stores, commits or drops the
  branch and sends the fee for unused gas back. \<open>x/svip\<close> pays a decaying reward from a pool to the fee
  collector.

  \<^bold>\<open>Theories.\<close>
  \<^item> \<open>Prelude\<close>: faults and results, ordered key-value lists, truncated division, byte strings.
  \<^item> \<open>SnapshotStore\<close>: \<open>snapshotkv/store.go\<close>, \<open>snapshotmulti/store.go\<close>. A stack of cache layers per
    store; it refines a stack of versions. Cache wrapping is the locale \<open>cache_layer\<close>.
  \<^item> \<open>AccessList\<close>, \<open>StateDB\<close>: \<open>access_list.go\<close>, \<open>state_object.go\<close>, \<open>journal.go\<close>,
    \<open>statedb.go\<close>, one definition per method.
  \<^item> \<open>StateDBRevert\<close>: a revert restores what every getter shows. The proof follows the journal
    entry by entry.
  \<^item> \<open>StateDBCommit\<close>: what \<open>Commit\<close> writes, over the locale \<open>keeper_contract\<close>.
  \<^item> \<open>EvmDenom\<close>: \<open>denom.go\<close>, \<open>denom_config.go\<close>, \<open>scaling.go\<close>.
  \<^item> \<open>PreciseBank\<close>, \<open>PreciseBankBooks\<close>, \<open>PreciseBankProps\<close>, \<open>PreciseBankGenesis\<close>: \<open>src/x/precisebank\<close>. The
    bank is the record \<open>bank\<close> with the locale \<open>bank_contract\<close>, interpreted on a ledger. Every
    mint, burn and transfer moves exactly its amount, and the reserve always backs the fractions.
  \<^item> \<open>VmKeeper\<close>, \<open>VmKeeperBooks\<close>, \<open>VmKeeperProps\<close>: \<open>src/x/vm/keeper/statedb.go\<close> over the model of
    \<open>x/precisebank\<close>; the locale \<open>vm_env\<close> is a sublocale of \<open>bank_contract\<close> and of \<open>keeper_contract\<close>.
  \<^item> \<open>ChainCommit\<close> and this theory: the composition of all of these.
  \<^item> \<open>FeeMarket\<close>, \<open>FeeMarketProps\<close>: \<open>src/x/feemarket\<close>, \<open>wrappers/feemarket.go\<close> and the base fee of
    the vm keeper. The locale \<open>fm_laws\<close> holds the laws of decimals and of the encoding.
  \<^item> \<open>Float64\<close>: rounding of \<open>float64\<close>, monotone and exact on small integers.
  \<^item> \<open>Svip\<close>, \<open>SvipReward\<close>, \<open>SvipPool\<close>, \<open>SvipProps\<close>: \<open>src/x/svip\<close>. The reward of a block in floating point, the pool and its
    messages; the pool is never overdrawn, what leaves it arrives. The locale \<open>math_laws\<close> is about \<open>math.Log\<close> and
    \<open>math.Exp\<close>, \<open>svip_env\<close> about the bank.
  \<^item> \<open>VmParams\<close>: parameters, permissions and coin information of \<open>x/vm\<close>.
  \<^item> \<open>TxMessage\<close>, \<open>ApplyTx\<close>, \<open>ExecTx\<close>: messages, gas meter and fees (\<open>types/msg.go\<close>, \<open>utils.go\<close>, \<open>gasmeter.go\<close>, \<open>keeper/gas.go\<close>, \<open>fees.go\<close>);
    \<open>ApplyMessageWithConfig\<close> with authorizations, overrides and block hashes; \<open>ApplyTransaction\<close>, hooks, calls
    of other modules and block hooks. The interpreter is a pair of functions on a \<open>StateDB\<close> in the record \<open>evm_env\<close>.
  \<^item> \<open>AnteEvm\<close>: the ante handler for Ethereum transactions and the fee checker for Cosmos transactions.
  \<^item> \<open>GasSearch\<close>: the search for a gas limit ends, except from a lower limit of zero.
  \<^item> \<open>TxFees\<close>, \<open>TxAnte\<close>, \<open>TxRun\<close>: what deduction and refund move, the bounds of the gas, the effect of the ante
    handler and of a failed run. The locales \<open>fee_laws\<close>, \<open>eth_laws\<close> and \<open>tx_laws\<close> hold what is used of the SDK and of go-ethereum.
  \<^item> \<open>TxExample\<close>, \<open>TxProps\<close>: the interpretations on the ledger and the properties of transactions: a failed one costs
    the gas used, none is accepted twice, the bounds of gas and fees, the ring of block hashes.

  \<^bold>\<open>How the code is represented.\<close> A struct is a record, a Go map whose order matters is an ordered
  list, a pointer or a nil number is an option. Addresses, hashes and balances are words of
  160 and 256 bits; unsigned counters are words, so they wrap as in Go. A failing call returns \<open>Inl\<close> of a
  \<open>fault\<close>: an error value or a panic. Loops are structural recursions, the binary search of
  \<open>sort.Search\<close> has a measure, the search for a gas limit is a partial function with \<open>None\<close> for a search that does not end;
  nothing needs fuel. A \<open>float64\<close> is the rational that it stands for.

  \<^bold>\<open>Not modelled.\<close> Tracing, metrics, spans, logging and module wiring have no effect on the state.
  The interpreter of go-ethereum, the bank and account modules and the protobuf encoding are third-party
  code and appear as parameters with laws, as do signatures and the encoding of transactions. RPC, server, indexer, wallets and clients are input and output.
  \<open>x/erc20\<close>, the IBC middleware and the precompiles drive contracts through the interpreter. The
  mempool is an adapted pool of go-ethereum with locks. Of the ante handlers the decorators for Cosmos transactions, of the
  keeper of \<open>x/vm\<close> the queries and the tracing are left out.
\<close>

section \<open>A transaction on a small chain\<close>

definition ex_chain_ops :: "ledger vmStore op list" where
  "ex_chain_ops = [OpSubBalance 5 100000000000, OpAddBalance 6 100000000000, OpSetNonce 5 1, OpSetState 6 1 9]"

definition ex_chain_new :: "ledger vmStore StateDB" where
  "ex_chain_new = sdb_New ex_chain [] \<lparr>TxHash = 0, TxIndex = 0\<rparr>"

lemma ex_GetAccount:
  "vm_GetAccount ledger_vm ex_chain 5 = Some \<lparr>in_Nonce = 0, in_Balance = Some 5300000000000, in_CodeHash = Some 7\<rparr>"
  "vm_GetAccount ledger_vm ex_chain 6 = Some \<lparr>in_Nonce = 0, in_Balance = Some 600000000000, in_CodeHash = Some 9\<rparr>"
  by (simp_all add: GetAccount_eq vm_SpendableCoin_def Uint256FromBigInt_def vm_eval)

lemma ex_keeper [simp]:
  "k_GetAccount (vm_statedb_keeper D) = vm_GetAccount D" "k_GetState (vm_statedb_keeper D) = vm_GetState"
  "k_SetAccount (vm_statedb_keeper D) = vm_SetAccount D" "k_SetState (vm_statedb_keeper D) = vm_SetState"
  "k_Keccak256 (vm_statedb_keeper D) = vk_Keccak256 D"
  by (simp_all add: vm_statedb_keeper_def)

lemma ex_GetState: "vm_GetState ex_chain 6 1 = 7"
  by (simp add: vm_GetState_def ex_chain_def)

lemma ex_chain_run:
  "case run (vm_statedb_keeper ledger_vm) ex_chain_ops ex_chain_new of Inl _ \<Rightarrow> False
   | Inr s \<Rightarrow> clean_run (vm_statedb_keeper ledger_vm) ex_chain_ops ex_chain_new \<and> no_resets s \<and> writeCache s = None \<and>
      kv_keys (dirties s) = [5, 6] \<and> \<not> fst (sdb_HasSelfDestructed (vm_statedb_keeper ledger_vm) 6 s) \<and>
      (\<forall>a obj. stateObjects s a = Some obj \<longrightarrow> \<not> selfDestructed obj) \<and>
      map_option (acc_Balance \<circ> so_account) (stateObjects s 5) = Some 5200000000000 \<and>
      map_option (acc_Balance \<circ> so_account) (stateObjects s 6) = Some 700000000000 \<and> fst (sdb_GetBalance (vm_statedb_keeper ledger_vm) 5 s) = 5200000000000 \<and>
      fst (sdb_GetBalance (vm_statedb_keeper ledger_vm) 6 s) = 700000000000"
  by (simp add: ex_chain_ops_def ex_chain_new_def ex_GetAccount ex_GetState sdb_eval no_resets_def
      op_clean_def flush_clean_def kv_keys_def)

lemma ex_two:
  obtains c1 c2 where "vm_SetAccount ledger_vm ex_chain 5 \<lparr>acc_Nonce = 1, acc_Balance = 5200000000000, acc_CodeHash = 7\<rparr> = Inr c1"
    "vm_SetAccount ledger_vm c1 6 \<lparr>acc_Nonce = 0, acc_Balance = 700000000000, acc_CodeHash = 9\<rparr> = Inr c2"
  by (simp add: vm_eval l_create_present)

lemma ex_chain_commit:
  obtains s s' where "run (vm_statedb_keeper ledger_vm) ex_chain_ops ex_chain_new = Inr s"
    "clean_run (vm_statedb_keeper ledger_vm) ex_chain_ops ex_chain_new" "no_resets s" "writeCache s = None"
    "sdb_Commit (vm_statedb_keeper ledger_vm) s = Inr s'" "kv_keys (dirties s) = [5, 6]"
    "\<forall>b. kv_get (dirties s) b \<noteq> None \<longrightarrow> vm_ok ledger_vm b"
    "\<not> fst (sdb_HasSelfDestructed (vm_statedb_keeper ledger_vm) 6 s)"
    "fst (sdb_GetBalance (vm_statedb_keeper ledger_vm) 6 s) = 700000000000"
    "\<forall>a obj. stateObjects s a = Some obj \<longrightarrow> \<not> selfDestructed obj"
    "map_option (acc_Balance \<circ> so_account) (stateObjects s 5) = Some 5200000000000"
    "map_option (acc_Balance \<circ> so_account) (stateObjects s 6) = Some 700000000000"
proof -
  obtain c1 c2 where c: "vm_SetAccount ledger_vm ex_chain 5 \<lparr>acc_Nonce = 1, acc_Balance = 5200000000000, acc_CodeHash = 7\<rparr> = Inr c1"
    "vm_SetAccount ledger_vm c1 6 \<lparr>acc_Nonce = 0, acc_Balance = 700000000000, acc_CodeHash = 9\<rparr> = Inr c2" by (rule ex_two)
  have "case run (vm_statedb_keeper ledger_vm) ex_chain_ops ex_chain_new of Inl _ \<Rightarrow> False
    | Inr s \<Rightarrow> \<exists>s'. sdb_Commit (vm_statedb_keeper ledger_vm) s = Inr s'"
    by (simp add: ex_chain_ops_def ex_chain_new_def ex_GetAccount ex_GetState sdb_eval c)
  with ex_chain_run obtain s s' where e: "run (vm_statedb_keeper ledger_vm) ex_chain_ops ex_chain_new = Inr s"
    "clean_run (vm_statedb_keeper ledger_vm) ex_chain_ops ex_chain_new" "no_resets s" "writeCache s = None"
    "kv_keys (dirties s) = [5, 6]" "\<not> fst (sdb_HasSelfDestructed (vm_statedb_keeper ledger_vm) 6 s)"
    "\<forall>a obj. stateObjects s a = Some obj \<longrightarrow> \<not> selfDestructed obj"
    "map_option (acc_Balance \<circ> so_account) (stateObjects s 5) = Some 5200000000000"
    "map_option (acc_Balance \<circ> so_account) (stateObjects s 6) = Some 700000000000"
    "fst (sdb_GetBalance (vm_statedb_keeper ledger_vm) 6 s) = 700000000000"
    "sdb_Commit (vm_statedb_keeper ledger_vm) s = Inr s'"
    by (auto split: sum.splits)
  have "vm_ok ledger_vm b" if "kv_get (dirties s) b \<noteq> None" for b
  proof -
    have "b \<in> set (kv_keys (dirties s))" using that by (auto simp: set_kv_keys)
    then show ?thesis using e(5) ex_chain_ok by auto
  qed
  then show thesis by (intro that [OF e(1-4) e(11) e(5) _ e(6) e(10) e(7-9)]) blast
qed

text \<open>
  C3. End to end: a run of the EVM on the keeper of \<open>x/vm\<close> over \<open>x/precisebank\<close>, committed, leaves a chain on which
  a new \<open>StateDB\<close> sees the same existence, nonce, balance, code hash and storage of every
  address, self-destructed accounts gone, although the balances are now integer coins in the bank, fractions in
  \<open>x/precisebank\<close> and a shared remainder; and the reserve still backs the fractions exactly. The run
  makes no precompile call, resets no account and does not change the two module accounts.
\<close>

theorem chain_commit_view:
  assumes "vm_env D binv" "K = vm_statedb_keeper D" "vm_good D binv c"
    and "run K ps (sdb_New c evs cfg) = Inr s" "clean_run K ps (sdb_New c evs cfg)"
    and "no_resets s" "writeCache s = None" "sdb_Commit K s = Inr s'" "t = sdb_New (sdb_ctx s') evs' cfg'"
    and "\<And>b. kv_get (dirties s) b \<noteq> None \<Longrightarrow> vm_ok D b"
  shows "vm_good D binv (sdb_ctx s') \<and>
    (if fst (sdb_HasSelfDestructed K a s) then \<not> fst (sdb_Exist K a t)
     else fst (sdb_Exist K a t) = fst (sdb_Exist K a s) \<and> fst (sdb_GetNonce K a t) = fst (sdb_GetNonce K a s) \<and>
      fst (sdb_GetBalance K a t) = fst (sdb_GetBalance K a s) \<and>
      fst (sdb_GetCodeHash K a t) = fst (sdb_GetCodeHash K a s) \<and>
      fst (sdb_GetState K a key t) = fst (sdb_GetState K a key s))"
  using vm_env.commit_keeps_good [OF assms(1,3) assms(4,5,7,8,10) [unfolded assms(2)]]
    vm_env.commit_getters [OF assms(1,3) assms(4-10) [unfolded assms(2)]]
  by (simp add: assms(2))

theorem chain_commit_view_witness:
  "\<exists>s s'. run (vm_statedb_keeper ledger_vm) ex_chain_ops ex_chain_new = Inr s \<and>
     sdb_Commit (vm_statedb_keeper ledger_vm) s = Inr s' \<and> vm_good ledger_vm ledger_inv (sdb_ctx s') \<and>
     fst (sdb_GetBalance (vm_statedb_keeper ledger_vm) 6 (sdb_New (sdb_ctx s') [] \<lparr>TxHash = 0, TxIndex = 0\<rparr>)) = 700000000000"
proof -
  obtain s s' where e: "run (vm_statedb_keeper ledger_vm) ex_chain_ops ex_chain_new = Inr s"
    "clean_run (vm_statedb_keeper ledger_vm) ex_chain_ops ex_chain_new" "no_resets s" "writeCache s = None"
    "sdb_Commit (vm_statedb_keeper ledger_vm) s = Inr s'" "\<forall>b. kv_get (dirties s) b \<noteq> None \<longrightarrow> vm_ok ledger_vm b"
    "\<not> fst (sdb_HasSelfDestructed (vm_statedb_keeper ledger_vm) 6 s)"
    "fst (sdb_GetBalance (vm_statedb_keeper ledger_vm) 6 s) = 700000000000" by (rule ex_chain_commit)
  note view = chain_commit_view [OF lvm.vm_env_axioms refl ex_chain_good e(1,2) [unfolded ex_chain_new_def] e(3-5) refl e(6) [rule_format],
      where a = 6 and evs' = "[]" and cfg' = "\<lparr>TxHash = 0, TxIndex = 0\<rparr>"]
  with e show ?thesis by auto
qed



end
